(* ===== verification/Vocabulary.thy ===== *)
theory Vocabulary
  imports Prelude
begin

text \<open>
  The stored vocabulary (\<open>models/domain\<close>): the enums the columns are typed by, with the
  text each member is stored as, and the rows the workflow engine reads and writes.
  Timestamps are integers (UTC instants), priorities and revisions are Python integers,
  nullable columns are options.
\<close>

section \<open>Enums\<close>

datatype TicketState = BACKLOG | IN_PROGRESS | BLOCKED | PARKED | DONE | WONT_DO

fun ticket_state_value :: "TicketState \<Rightarrow> string" where
  "ticket_state_value TicketState.BACKLOG = ''backlog''"
| "ticket_state_value TicketState.IN_PROGRESS = ''in_progress''"
| "ticket_state_value TicketState.BLOCKED = ''blocked''"
| "ticket_state_value TicketState.PARKED = ''parked''"
| "ticket_state_value TicketState.DONE = ''done''"
| "ticket_state_value TicketState.WONT_DO = ''wont_do''"

datatype StageStatus = PENDING | RUNNING | BLOCKED | AWAITING | DONE | WONT_DO

fun stage_status_value :: "StageStatus \<Rightarrow> string" where
  "stage_status_value StageStatus.PENDING = ''pending''"
| "stage_status_value StageStatus.RUNNING = ''running''"
| "stage_status_value StageStatus.BLOCKED = ''blocked''"
| "stage_status_value StageStatus.AWAITING = ''awaiting''"
| "stage_status_value StageStatus.DONE = ''done''"
| "stage_status_value StageStatus.WONT_DO = ''wont_do''"

definition all_stage_statuses :: "StageStatus list" where
  "all_stage_statuses = [StageStatus.PENDING, StageStatus.RUNNING, StageStatus.BLOCKED,
     StageStatus.AWAITING, StageStatus.DONE, StageStatus.WONT_DO]"

text \<open>\<open>StageStatus(value)\<close>: the member with that value, or a \<open>ValueError\<close>.\<close>

definition stage_status_of :: "json \<Rightarrow> StageStatus result" where
  "stage_status_of v =
     (case find (\<lambda>s. v = JStr (stage_status_value s)) all_stage_statuses of
        Some s \<Rightarrow> Inr s
      | None \<Rightarrow> Inl (ValueError ''not a valid StageStatus''))"

lemma stage_status_value_inj: "stage_status_value a = stage_status_value b \<longleftrightarrow> a = b"
  by (cases a; cases b) simp_all

lemma stage_status_of_value [simp]: "stage_status_of (JStr (stage_status_value s)) = Inr s"
  by (cases s) (simp_all add: stage_status_of_def all_stage_statuses_def)

lemma stage_status_of_Inr:
  "stage_status_of v = Inr s \<longleftrightarrow> v = JStr (stage_status_value s)"
proof
  assume "stage_status_of v = Inr s"
  then show "v = JStr (stage_status_value s)"
    by (auto simp: stage_status_of_def split: option.splits dest: find_Some_iff')
qed simp

datatype BlockKind = HARNESS | WORK | DECISION | HUMAN_ACTION | TICKETS | CONFLICT

datatype WorkItemType = INITIATIVE | MILESTONE | FEATURE | CAPABILITY | TASK | BUG

fun work_item_type_value :: "WorkItemType \<Rightarrow> string" where
  "work_item_type_value INITIATIVE = ''initiative''"
| "work_item_type_value MILESTONE = ''milestone''"
| "work_item_type_value FEATURE = ''feature''"
| "work_item_type_value CAPABILITY = ''capability''"
| "work_item_type_value TASK = ''task''"
| "work_item_type_value BUG = ''bug''"

fun VALID_HIERARCHY :: "WorkItemType \<Rightarrow> WorkItemType list" where
  "VALID_HIERARCHY INITIATIVE = [MILESTONE, FEATURE, BUG]"
| "VALID_HIERARCHY MILESTONE = [FEATURE, BUG]"
| "VALID_HIERARCHY FEATURE = [CAPABILITY, BUG]"
| "VALID_HIERARCHY CAPABILITY = [TASK, BUG]"
| "VALID_HIERARCHY TASK = []"
| "VALID_HIERARCHY BUG = [TASK]"

datatype ClassifyBasis = CONTENT | PIN | DEFAULT | UNROUTEABLE

datatype EventType =
    TICKET_CREATED | TICKET_STATE_CHANGED | WORKFLOW_STARTED | STAGE_STARTED
  | STAGE_COMPLETED | STAGE_SKIPPED | AGENT_RUN_STARTED | AGENT_RUN_COMPLETED
  | ORCHESTRATION_RUN_STARTED | ORCHESTRATION_RUN_COMPLETED | TICKET_LANDED
  | ARTIFACT_CREATED | APPROVAL_REQUESTED | APPROVAL_RESOLVED | GATE_EVALUATED
  | ORCHESTRATOR_DECISION

section \<open>Workflow templates\<close>

record ClassifyRoute =
  cr_languages :: "string list"
  cr_specialties :: "string list"
  cr_agent_id :: string
  cr_skill_name :: string
  cr_default :: bool
  cr_to_stage :: string

record ParallelAgentSpec =
  pa_agent_id :: string
  pa_skill_name :: string

record WorkflowStageDef =
  sd_key :: string
  sd_name :: string
  sd_agent_id :: string
  sd_skill_name :: string
  sd_optional :: bool
  sd_order :: int
  sd_stage_type :: string
  sd_classify_routes :: "ClassifyRoute list"
  sd_parallel_agents :: "ParallelAgentSpec list"
  sd_required_evidence :: "string list"
  sd_terminal :: bool
  sd_skip_when :: string
  sd_model :: string
  sd_alternative_group :: string
  sd_agent_is_default :: bool

text \<open>A stage with every field but its key and order at its declared default.\<close>

definition plain_stage :: "string \<Rightarrow> int \<Rightarrow> WorkflowStageDef" where
  "plain_stage k n = \<lparr>sd_key = k, sd_name = k, sd_agent_id = [], sd_skill_name = [],
     sd_optional = False, sd_order = n, sd_stage_type = ''agent'', sd_classify_routes = [],
     sd_parallel_agents = [], sd_required_evidence = [], sd_terminal = False,
     sd_skip_when = [], sd_model = [], sd_alternative_group = [], sd_agent_is_default = False\<rparr>"

section \<open>Rows\<close>

record Ticket =
  tk_id :: string
  tk_external_id :: string
  tk_legacy_external_id :: string
  tk_ticket_number :: int
  tk_milestone_code :: string
  tk_workspace_id :: "string option"
  tk_title :: string
  tk_description :: string
  tk_state :: TicketState
  tk_priority :: int
  tk_work_item_type :: WorkItemType
  tk_parent_ticket_id :: "string option"
  tk_acceptance_criteria_json :: json_text
  tk_workflow_stage_key :: string
  tk_workflow_stage_status :: StageStatus
  tk_revision :: int
  tk_last_updated_by :: string
  tk_next_agent :: string
  tk_next_status :: string
  tk_blocking_issues :: string
  tk_block_kind :: "BlockKind option"
  tk_scope_reroute_agent :: string
  tk_is_integration_review :: bool
  tk_state_locked :: bool
  tk_workflow_disabled :: bool
  tk_dispatch_waiver_stage_key :: string
  tk_dispatch_waiver_approval_id :: string
  tk_created_at :: int
  tk_updated_at :: int
  tk_resolved_at :: "int option"

text \<open>A new row: the column defaults.\<close>

definition new_ticket :: "string \<Rightarrow> Ticket" where
  "new_ticket i = \<lparr>tk_id = i, tk_external_id = i, tk_legacy_external_id = [],
     tk_ticket_number = 0, tk_milestone_code = [], tk_workspace_id = None, tk_title = [],
     tk_description = [], tk_state = TicketState.BACKLOG, tk_priority = 3,
     tk_work_item_type = TASK, tk_parent_ticket_id = None,
     tk_acceptance_criteria_json = Doc (JList []), tk_workflow_stage_key = [],
     tk_workflow_stage_status = StageStatus.PENDING, tk_revision = 0, tk_last_updated_by = [],
     tk_next_agent = [], tk_next_status = ''Proceed'', tk_blocking_issues = [],
     tk_block_kind = None, tk_scope_reroute_agent = [], tk_is_integration_review = False,
     tk_state_locked = False, tk_workflow_disabled = False, tk_dispatch_waiver_stage_key = [],
     tk_dispatch_waiver_approval_id = [], tk_created_at = 0, tk_updated_at = 0, tk_resolved_at = None\<rparr>"

record WorkflowInstance =
  wi_template_id :: string
  wi_template_version :: "int option"
  wi_current_stage_key :: string
  wi_stages_json :: json_text
  wi_updated_at :: int

record DomainEvent =
  ev_type :: EventType
  ev_workspace_id :: "string option"
  ev_ticket_id :: string
  ev_payload :: "(string \<times> string) list"

text \<open>
  What one workflow operation holds: the ticket row and its workflow instance, both
  mutated in place, the events it has added to the session, and whether the ticket is in
  a session at all (\<open>object_session\<close>).
\<close>

record Workflow =
  wf_ticket :: Ticket
  wf_instance :: WorkflowInstance
  wf_events :: "DomainEvent list"
  wf_attached :: bool

end
