(* ===== verification/StageGroups.thy ===== *)
theory StageGroups
  imports Vocabulary
begin

text \<open>
  \<open>core/stage_groups.py\<close> and \<open>core/workflow_terminal.py\<close>: alternative groups of stages,
  of which at least one member must run, and the stages that end a workflow. Pure
  predicates over stage definitions and a status map.
\<close>

type_synonym stage_map = "(string, StageStatus) dict"

definition ordered :: "WorkflowStageDef list \<Rightarrow> WorkflowStageDef list" where
  "ordered stages = sort_key sd_order stages"

lemma set_ordered [simp]: "set (ordered stages) = set stages"
  by (simp add: ordered_def)

lemma length_ordered [simp]: "length (ordered stages) = length stages"
  by (simp add: ordered_def)

lemma distinct_ordered_keys [simp]:
  "distinct (map sd_key (ordered stages)) \<longleftrightarrow> distinct (map sd_key stages)"
proof -
  have "mset (map sd_key (ordered stages)) = mset (map sd_key stages)"
    by (simp add: ordered_def)
  then show ?thesis
    by (metis mset_eq_imp_distinct_iff)
qed

section \<open>Terminal stages\<close>

definition TERMINAL_STAGE_KEY :: string where
  "TERMINAL_STAGE_KEY = ''done''"

definition is_terminal_stage :: "WorkflowStageDef \<Rightarrow> bool" where
  "is_terminal_stage stage \<longleftrightarrow> sd_terminal stage \<or> sd_key stage = TERMINAL_STAGE_KEY"

definition find_terminal_stage :: "WorkflowStageDef list \<Rightarrow> WorkflowStageDef option" where
  "find_terminal_stage stages = find is_terminal_stage (ordered stages)"

section \<open>Alternative groups\<close>

definition group_members :: "WorkflowStageDef list \<Rightarrow> string \<Rightarrow> WorkflowStageDef list" where
  "group_members stages grp =
     (if grp = [] then []
      else filter (\<lambda>s. sd_alternative_group s = grp) (ordered stages))"

definition group_would_be_emptied ::
    "WorkflowStageDef list \<Rightarrow> stage_map \<Rightarrow> string \<Rightarrow> string" where
  "group_would_be_emptied stages stage_map stage_key =
     (case find (\<lambda>s. sd_key s = stage_key) stages of
        None \<Rightarrow> []
      | Some stage \<Rightarrow>
          if sd_alternative_group stage = [] then []
          else
            (let survivors = filter (\<lambda>member. sd_key member \<noteq> stage_key
                   \<and> dict_get stage_map (sd_key member) StageStatus.PENDING \<noteq> StageStatus.WONT_DO)
                 (group_members stages (sd_alternative_group stage))
             in if survivors \<noteq> [] then [] else sd_alternative_group stage))"

definition emptied_groups :: "WorkflowStageDef list \<Rightarrow> stage_map \<Rightarrow> string list" where
  "emptied_groups stages stage_map =
     (let groups = remdups (filter (\<lambda>g. g \<noteq> []) (map sd_alternative_group stages))
      in sort (filter (\<lambda>grp. list_all (\<lambda>member.
             dict_get stage_map (sd_key member) StageStatus.PENDING = StageStatus.WONT_DO)
           (group_members stages grp)) groups))"

section \<open>Facts\<close>

lemma set_group_members:
  "set (group_members stages g) = (if g = [] then {} else {s \<in> set stages. sd_alternative_group s = g})"
  by (auto simp: group_members_def)

lemma in_emptied_groups_iff:
  "g \<in> set (emptied_groups stages m) \<longleftrightarrow>
     g \<noteq> [] \<and> (\<exists>s \<in> set stages. sd_alternative_group s = g)
     \<and> (\<forall>s \<in> set stages. sd_alternative_group s = g \<longrightarrow>
          dict_get m (sd_key s) StageStatus.PENDING = StageStatus.WONT_DO)"
  by (auto simp: emptied_groups_def Let_def set_group_members list_all_iff)

lemma emptied_groups_empty_iff:
  "emptied_groups stages m = [] \<longleftrightarrow>
     (\<forall>g \<in> sd_alternative_group ` set stages. g \<noteq> [] \<longrightarrow>
        (\<exists>s \<in> set stages. sd_alternative_group s = g
           \<and> dict_get m (sd_key s) StageStatus.PENDING \<noteq> StageStatus.WONT_DO))"
proof -
  have "emptied_groups stages m = [] \<longleftrightarrow> (\<forall>g. g \<notin> set (emptied_groups stages m))"
    by (metis all_not_in_conv set_empty)
  then show ?thesis
    unfolding in_emptied_groups_iff by (auto simp: image_iff)
qed

lemma find_key_unique:
  assumes "distinct (map sd_key stages)" and "s \<in> set stages"
  shows "find (\<lambda>x. sd_key x = sd_key s) stages = Some s"
  using assms by (induction stages) (auto simp: image_iff)

lemma find_key_Some:
  "find (\<lambda>s. sd_key s = k) stages = Some s \<Longrightarrow> s \<in> set stages \<and> sd_key s = k"
  by (auto dest: find_Some_iff')

text \<open>A refusal names exactly the group that pruning the stage would empty.\<close>

lemma group_would_be_emptied_iff:
  assumes "distinct (map sd_key stages)" and "s \<in> set stages"
  shows "group_would_be_emptied stages m (sd_key s) \<noteq> [] \<longleftrightarrow>
    sd_alternative_group s \<in> set (emptied_groups stages (dict_set (sd_key s) StageStatus.WONT_DO m))"
  using assms
  by (auto simp: group_would_be_emptied_def find_key_unique Let_def in_emptied_groups_iff
      set_group_members filter_empty_conv)

lemma group_would_be_emptied_name:
  "group_would_be_emptied stages m k = [] \<or>
    (\<exists>s \<in> set stages. sd_key s = k \<and> group_would_be_emptied stages m k = sd_alternative_group s)"
  by (auto simp: group_would_be_emptied_def Let_def split: option.splits dest: find_key_Some)

text \<open>A stage that is in no group, or not in the template, never empties one.\<close>

lemma emptied_groups_prune:
  assumes "distinct (map sd_key stages)"
    and "group_would_be_emptied stages m k = []"
  shows "set (emptied_groups stages (dict_set k StageStatus.WONT_DO m))
           \<subseteq> set (emptied_groups stages m)"
proof
  fix g
  assume g: "g \<in> set (emptied_groups stages (dict_set k StageStatus.WONT_DO m))"
  show "g \<in> set (emptied_groups stages m)"
  proof (cases "\<exists>s \<in> set stages. sd_key s = k \<and> sd_alternative_group s = g")
    case True
    then obtain s where s: "s \<in> set stages" "sd_key s = k" "sd_alternative_group s = g" by blast
    with group_would_be_emptied_iff [OF assms(1) s(1), of m] assms(2) g show ?thesis by simp
  next
    case False
    with g show ?thesis by (auto simp: in_emptied_groups_iff split: if_splits)
  qed
qed

section \<open>Pruning\<close>

text \<open>A sequence of prunes, each made only when the guard names no group.\<close>

inductive guarded_prunes :: "WorkflowStageDef list \<Rightarrow> stage_map \<Rightarrow> stage_map \<Rightarrow> bool"
  for stages :: "WorkflowStageDef list" where
  none: "guarded_prunes stages m m"
| prune: "guarded_prunes stages m m' \<Longrightarrow> group_would_be_emptied stages m' k = [] \<Longrightarrow>
     guarded_prunes stages m (dict_set k StageStatus.WONT_DO m')"

text \<open>the guard on pruning is exact. It names a stage's alternative group exactly when
  marking that stage won't-do would leave every member of the group won't-do, and, with
  distinct keys, no sequence of prunes it lets through empties a group that was not
  already empty.\<close>

theorem prune_guard_exact:
  assumes "distinct (map sd_key stages)"
  shows "\<not> (\<exists>s \<in> set stages. (group_would_be_emptied stages m (sd_key s) \<noteq> []) \<noteq>
           (sd_alternative_group s \<in> set (emptied_groups stages (dict_set (sd_key s) StageStatus.WONT_DO m))))
     \<and> \<not> (\<exists>m'. guarded_prunes stages m m'
           \<and> \<not> set (emptied_groups stages m') \<subseteq> set (emptied_groups stages m))"
proof -
  have "set (emptied_groups stages m') \<subseteq> set (emptied_groups stages m)" if "guarded_prunes stages m m'" for m'
    using that
  proof induction
    case (prune m m' k)
    with emptied_groups_prune [OF assms prune.hyps(2)] show ?case by blast
  qed simp
  with group_would_be_emptied_iff [OF assms] show ?thesis by blast
qed

definition sample_group :: "WorkflowStageDef list" where
  "sample_group = [(plain_stage ''backend-impl'' 1)\<lparr>sd_alternative_group := ''impl''\<rparr>,
     (plain_stage ''frontend-impl'' 2)\<lparr>sd_alternative_group := ''impl''\<rparr>]"

theorem prune_guard_exact_witness:
  "distinct (map sd_key sample_group)
   \<and> group_would_be_emptied sample_group [(''frontend-impl'', StageStatus.WONT_DO)] ''backend-impl'' = ''impl''
   \<and> ''impl'' \<in> set (emptied_groups sample_group
       (dict_set ''backend-impl'' StageStatus.WONT_DO [(''frontend-impl'', StageStatus.WONT_DO)]))"
proof -
  let ?m = "[(''frontend-impl'', StageStatus.WONT_DO)]"
  let ?s = "(plain_stage ''backend-impl'' 1)\<lparr>sd_alternative_group := ''impl''\<rparr>"
  have d: "distinct (map sd_key sample_group)" by code_simp
  have g: "group_would_be_emptied sample_group ?m ''backend-impl'' = ''impl''" by code_simp
  have s: "?s \<in> set sample_group" "sd_key ?s = ''backend-impl''" "sd_alternative_group ?s = ''impl''"
    by (simp_all add: sample_group_def plain_stage_def)
  from prune_guard_exact [OF d, of ?m] s g
  have "''impl'' \<in> set (emptied_groups sample_group (dict_set ''backend-impl'' StageStatus.WONT_DO ?m))"
    by (metis list.distinct(1))
  with d g show ?thesis by simp
qed

end
