(* ===== verification/StateMachine.thy ===== *)
theory StateMachine
  imports StageGroups
begin

text \<open>
  \<open>core/state_machine.py\<close>: where the workflow cursor goes after a stage passes or rejects,
  and what the move does to the statuses of the stages it passes over or sends back.
  A template transition is a dictionary of strings; its keys are JSON scalars because a
  bare YAML \<open>on\<close> is the boolean \<open>True\<close>.
\<close>

record StageRoutePlan =
  rp_from_key :: string
  rp_to_key :: string
  rp_outcome :: string
  rp_upstream :: bool
  rp_transition_agent_id :: string

type_synonym transition = "(json, string) dict"

section \<open>Positions in the template\<close>

definition ordered_keys :: "WorkflowStageDef list \<Rightarrow> string list" where
  "ordered_keys stages = map sd_key (ordered stages)"

definition stage_index :: "WorkflowStageDef list \<Rightarrow> string \<Rightarrow> nat option" where
  "stage_index stages stage_key = index_of (ordered_keys stages) stage_key"

definition is_upstream_route :: "WorkflowStageDef list \<Rightarrow> string \<Rightarrow> string \<Rightarrow> bool" where
  "is_upstream_route stages from_key to_key =
     (case (stage_index stages from_key, stage_index stages to_key) of
        (Some from_idx, Some to_idx) \<Rightarrow> to_idx < from_idx
      | _ \<Rightarrow> False)"

definition next_stage_key :: "WorkflowStageDef list \<Rightarrow> string \<Rightarrow> string option" where
  "next_stage_key stages current_key =
     (let keys = ordered_keys stages in
      if current_key = [] then (case keys of [] \<Rightarrow> None | k # _ \<Rightarrow> Some k)
      else (case index_of keys current_key of
              None \<Rightarrow> None
            | Some idx \<Rightarrow> if idx + 1 < length keys then Some (keys ! (idx + 1)) else None))"

section \<open>Transitions\<close>

definition transition_when :: "transition \<Rightarrow> string" where
  "transition_when item =
     (let when = dict_get item (JStr ''when'') [] in
      if when \<noteq> [] then when
      else (let unquoted = dict_get item (JBool True) [] in
            if unquoted \<noteq> [] then unquoted else dict_get item (JStr ''on'') []))"

definition transition_to :: "transition \<Rightarrow> string" where
  "transition_to item = dict_get item (JStr ''to'') []"

definition transition_agent :: "transition \<Rightarrow> string" where
  "transition_agent item = dict_get item (JStr ''agent_id'') []"

fun pick_transition :: "transition list \<Rightarrow> string list \<Rightarrow> (string \<times> string) option" where
  "pick_transition matches [] = None"
| "pick_transition matches (when # whens) =
     (case find (\<lambda>item. transition_when item = when) matches of
        Some item \<Rightarrow> Some (transition_to item, transition_agent item)
      | None \<Rightarrow> pick_transition matches whens)"

text \<open>\<open>routed and routed[0]\<close>: a route with a target.\<close>

fun has_target :: "(string \<times> string) option \<Rightarrow> bool" where
  "has_target None = False"
| "has_target (Some (to, agent)) = (to \<noteq> [])"

definition resolve_transition_target ::
    "transition list \<Rightarrow> string \<Rightarrow> string \<Rightarrow> (string \<times> string) option" where
  "resolve_transition_target transitions from_key outcome =
     (let matches = filter (\<lambda>item. map_of item (JStr ''from'') = Some from_key) transitions in
      if matches = [] then None
      else if outcome = ''reject'' then
        (let routed = pick_transition matches [''reject''] in
         if has_target routed then routed else None)
      else
        (let routed = pick_transition matches [''pass'', ''default'', []];
             legacy = filter (\<lambda>item. transition_when item = []) matches in
         if has_target routed then routed
         else if length legacy = 1 \<and> transition_to (hd legacy) \<noteq> []
         then Some (transition_to (hd legacy), transition_agent (hd legacy))
         else if length matches = 1 \<and> transition_to (hd matches) \<noteq> []
         then Some (transition_to (hd matches), transition_agent (hd matches))
         else None))"

definition resolve_next_stage_key ::
    "WorkflowStageDef list \<Rightarrow> transition list \<Rightarrow> string \<Rightarrow> string \<Rightarrow> string
       \<Rightarrow> StageRoutePlan option result" where
  "resolve_next_stage_key stages transitions current_key outcome explicit_to =
     (if explicit_to \<noteq> [] then
        (if explicit_to \<notin> sd_key ` set stages
         then Inl (ValueError (''Unknown target stage '' @ explicit_to @ '' for route from '' @ current_key))
         else Inr (Some \<lparr>rp_from_key = current_key, rp_to_key = explicit_to, rp_outcome = outcome,
                rp_upstream = is_upstream_route stages current_key explicit_to,
                rp_transition_agent_id = []\<rparr>))
      else
        (case resolve_transition_target transitions current_key outcome of
           Some (to_key, agent_id) \<Rightarrow>
             Inr (Some \<lparr>rp_from_key = current_key, rp_to_key = to_key, rp_outcome = outcome,
                rp_upstream = is_upstream_route stages current_key to_key,
                rp_transition_agent_id = agent_id\<rparr>)
         | None \<Rightarrow>
             if outcome = ''reject'' then Inr None
             else (case next_stage_key stages current_key of
                     None \<Rightarrow> Inr None
                   | Some key \<Rightarrow>
                       if key = [] then Inr None
                       else Inr (Some \<lparr>rp_from_key = current_key, rp_to_key = key,
                         rp_outcome = outcome, rp_upstream = False, rp_transition_agent_id = []\<rparr>))))"

section \<open>Statuses a move rewrites\<close>

text \<open>\<open>for index in range(lo, hi)\<close> over the ordered stages.\<close>

definition keys_between :: "WorkflowStageDef list \<Rightarrow> nat \<Rightarrow> nat \<Rightarrow> string list" where
  "keys_between stages lo hi = map (\<lambda>index. sd_key (ordered stages ! index)) [lo..<hi]"

definition reset_upstream_stages ::
    "stage_map \<Rightarrow> WorkflowStageDef list \<Rightarrow> string \<Rightarrow> string \<Rightarrow> stage_map" where
  "reset_upstream_stages stage_map stages from_key to_key =
     (case (stage_index stages from_key, stage_index stages to_key) of
        (Some from_idx, Some to_idx) \<Rightarrow>
          if to_idx > from_idx then stage_map
          else fold (\<lambda>key updated. dict_set key StageStatus.PENDING updated)
                 (keys_between stages to_idx (from_idx + 1)) stage_map
      | _ \<Rightarrow> stage_map)"

definition skip_intermediate_stages ::
    "stage_map \<Rightarrow> WorkflowStageDef list \<Rightarrow> string \<Rightarrow> string \<Rightarrow> stage_map" where
  "skip_intermediate_stages stage_map stages from_key to_key =
     (case (stage_index stages from_key, stage_index stages to_key) of
        (Some from_idx, Some to_idx) \<Rightarrow>
          if to_idx \<le> from_idx + 1 then stage_map
          else fold (\<lambda>key updated.
                   if dict_get updated key StageStatus.PENDING = StageStatus.PENDING
                   then dict_set key StageStatus.WONT_DO updated else updated)
                 (keys_between stages (from_idx + 1) to_idx) stage_map
      | _ \<Rightarrow> stage_map)"

section \<open>Facts\<close>

lemma length_ordered_keys [simp]: "length (ordered_keys stages) = length stages"
  by (simp add: ordered_keys_def)

lemma set_ordered_keys [simp]: "set (ordered_keys stages) = sd_key ` set stages"
  by (simp add: ordered_keys_def)

lemma distinct_ordered_keys' [simp]:
  "distinct (ordered_keys stages) \<longleftrightarrow> distinct (map sd_key stages)"
  by (simp add: ordered_keys_def)

lemma stage_index_None_iff [simp]:
  "stage_index stages k = None \<longleftrightarrow> k \<notin> sd_key ` set stages"
  by (simp add: stage_index_def)

lemma stage_index_Some:
  "stage_index stages k = Some i \<Longrightarrow> i < length stages \<and> ordered_keys stages ! i = k"
  using index_of_Some [of "ordered_keys stages" k i] by (simp add: stage_index_def)

lemma stage_index_nth:
  assumes "distinct (map sd_key stages)" and "i < length stages"
  shows "stage_index stages (ordered_keys stages ! i) = Some i"
  unfolding stage_index_def using assms by (intro index_of_nth) simp_all

lemma stage_index_inj:
  "stage_index stages a = Some i \<Longrightarrow> stage_index stages b = Some i \<Longrightarrow> a = b"
  by (metis stage_index_Some)

lemma set_keys_between:
  assumes "hi \<le> length stages"
  shows "set (keys_between stages lo hi) = (\<lambda>i. ordered_keys stages ! i) ` {lo..<hi}"
proof -
  have "sd_key (ordered stages ! i) = ordered_keys stages ! i" if "i \<in> {lo..<hi}" for i
    using that assms by (simp add: ordered_keys_def)
  then show ?thesis by (auto simp: keys_between_def)
qed

lemma in_keys_between_iff:
  assumes "distinct (map sd_key stages)" and "hi \<le> length stages"
  shows "k \<in> set (keys_between stages lo hi) \<longleftrightarrow>
    (\<exists>i. stage_index stages k = Some i \<and> lo \<le> i \<and> i < hi)"
proof
  assume "k \<in> set (keys_between stages lo hi)"
  then obtain i where "k = ordered_keys stages ! i" "lo \<le> i" "i < hi"
    using assms(2) by (auto simp: set_keys_between)
  with assms show "\<exists>i. stage_index stages k = Some i \<and> lo \<le> i \<and> i < hi"
    by (auto intro!: exI [of _ i] stage_index_nth)
next
  assume "\<exists>i. stage_index stages k = Some i \<and> lo \<le> i \<and> i < hi"
  then obtain i where "stage_index stages k = Some i" "lo \<le> i" "i < hi" by blast
  with assms(2) show "k \<in> set (keys_between stages lo hi)"
    by (auto simp: set_keys_between dest: stage_index_Some)
qed

lemma map_of_fold_set:
  "map_of (fold (\<lambda>k d. dict_set k v d) ks d) k' =
     (if k' \<in> set ks then Some v else map_of d k')"
  by (induction ks arbitrary: d) auto

lemma map_of_fold_skip:
  "map_of (fold (\<lambda>k d. if dict_get d k StageStatus.PENDING = StageStatus.PENDING
                       then dict_set k StageStatus.WONT_DO d else d) ks d) k' =
     (if k' \<in> set ks \<and> dict_get d k' StageStatus.PENDING = StageStatus.PENDING
      then Some StageStatus.WONT_DO else map_of d k')"
  by (induction ks arbitrary: d) (auto simp: dict_get_def split: option.splits)

text \<open>The closed form of a rework reset: exactly the stages from the target through the
  rejecting one are pending again, whatever they were.\<close>

lemma reset_upstream_lookup:
  assumes "distinct (map sd_key stages)"
    and "stage_index stages from_key = Some f" and "stage_index stages to_key = Some t" and "t \<le> f"
  shows "map_of (reset_upstream_stages m stages from_key to_key) k =
    (case stage_index stages k of
       Some i \<Rightarrow> if t \<le> i \<and> i \<le> f then Some StageStatus.PENDING else map_of m k
     | None \<Rightarrow> map_of m k)"
proof -
  have "Suc f \<le> length stages" using stage_index_Some [OF assms(2)] by simp
  from in_keys_between_iff [OF assms(1) this] assms(2-4)
  show ?thesis
    by (auto simp: reset_upstream_stages_def map_of_fold_set split: option.splits
        simp del: stage_index_None_iff)
qed

lemma skip_intermediate_lookup:
  assumes "distinct (map sd_key stages)"
    and "stage_index stages from_key = Some f" and "stage_index stages to_key = Some t"
  shows "map_of (skip_intermediate_stages m stages from_key to_key) k =
    (case stage_index stages k of
       Some i \<Rightarrow> if f < i \<and> i < t \<and> dict_get m k StageStatus.PENDING = StageStatus.PENDING
                 then Some StageStatus.WONT_DO else map_of m k
     | None \<Rightarrow> map_of m k)"
proof -
  have "t \<le> length stages" using stage_index_Some [OF assms(3)] by simp
  from in_keys_between_iff [OF assms(1) this] assms(2-3)
  show ?thesis
    by (auto simp: skip_intermediate_stages_def map_of_fold_skip split: option.splits
        simp del: stage_index_None_iff)
qed

lemma pick_transition_Some:
  "pick_transition ms ws = Some r \<Longrightarrow>
     \<exists>item \<in> set ms. r = (transition_to item, transition_agent item) \<and> transition_when item \<in> set ws"
  by (induction ws) (auto split: option.splits dest: find_Some_iff')

lemma hd_filter_in:
  "length (filter P xs) = 1 \<Longrightarrow> hd (filter P xs) \<in> set xs \<and> P (hd (filter P xs))"
  using hd_in_set [of "filter P xs"] by (cases "filter P xs = []") auto

text \<open>A route comes from a transition the template declares for this stage.\<close>

lemma resolve_transition_target_Some:
  assumes "resolve_transition_target transitions from_key outcome = Some r"
  shows "\<exists>item \<in> set transitions. map_of item (JStr ''from'') = Some from_key
           \<and> r = (transition_to item, transition_agent item) \<and> transition_to item \<noteq> []"
proof -
  let ?ms = "filter (\<lambda>item. map_of item (JStr ''from'') = Some from_key) transitions"
  have in_ms: "\<exists>item \<in> set ?ms. r = (transition_to item, transition_agent item) \<and> transition_to item \<noteq> []"
  proof (cases "\<exists>ws. pick_transition ?ms ws = Some r \<and> has_target (Some r)")
    case True
    then show ?thesis by (auto dest!: pick_transition_Some)
  next
    case False
    with assms consider
        (legacy) "length (filter (\<lambda>item. transition_when item = []) ?ms) = 1"
          "r = (transition_to (hd (filter (\<lambda>item. transition_when item = []) ?ms)),
                transition_agent (hd (filter (\<lambda>item. transition_when item = []) ?ms)))"
          "fst r \<noteq> []"
      | (single) "length ?ms = 1" "r = (transition_to (hd ?ms), transition_agent (hd ?ms))" "fst r \<noteq> []"
      unfolding resolve_transition_target_def Let_def
      by (metis (no_types, lifting) fst_conv option.distinct(1) option.sel)
    then show ?thesis
    proof cases
      case legacy
      with hd_filter_in [OF legacy(1)] show ?thesis by auto
    next
      case single
      then have "hd ?ms \<in> set ?ms" by (metis hd_in_set length_0_conv zero_neq_one)
      with single show ?thesis by (metis fst_conv)
    qed
  qed
  then show ?thesis by auto
qed

lemma next_stage_key_Some:
  assumes "next_stage_key stages cur = Some k"
  shows "k \<in> sd_key ` set stages"
proof -
  from assms have "k \<in> set (ordered_keys stages)"
    by (auto simp: next_stage_key_def Let_def simp del: set_ordered_keys
        split: if_splits option.splits list.splits)
  then show ?thesis by simp
qed

text \<open>Whatever the plan, it starts where asked and records the outcome it was asked for.\<close>

lemma resolve_next_stage_key_Some:
  assumes "resolve_next_stage_key stages transitions cur outcome explicit_to = Inr (Some plan)"
  shows "rp_from_key plan = cur" and "rp_outcome plan = outcome" and "rp_to_key plan \<noteq> []"
    and "rp_upstream plan \<Longrightarrow> is_upstream_route stages cur (rp_to_key plan)"
    and "rp_to_key plan \<in> sd_key ` set stages \<or> (explicit_to = [] \<and>
           (\<exists>item \<in> set transitions. map_of item (JStr ''from'') = Some cur
              \<and> rp_to_key plan = transition_to item))"
proof -
  consider (explicit) "explicit_to \<noteq> []" "explicit_to \<in> sd_key ` set stages"
        "plan = \<lparr>rp_from_key = cur, rp_to_key = explicit_to, rp_outcome = outcome,
           rp_upstream = is_upstream_route stages cur explicit_to, rp_transition_agent_id = []\<rparr>"
    | (routed) to a where "explicit_to = []"
        "resolve_transition_target transitions cur outcome = Some (to, a)"
        "plan = \<lparr>rp_from_key = cur, rp_to_key = to, rp_outcome = outcome,
           rp_upstream = is_upstream_route stages cur to, rp_transition_agent_id = a\<rparr>"
    | (walk) k where "next_stage_key stages cur = Some k" "k \<noteq> []"
        "plan = \<lparr>rp_from_key = cur, rp_to_key = k, rp_outcome = outcome,
           rp_upstream = False, rp_transition_agent_id = []\<rparr>"
    using assms
    by (auto simp: resolve_next_stage_key_def split: if_splits option.splits prod.splits)
  note cases = this
  show "rp_from_key plan = cur" "rp_outcome plan = outcome"
    using cases by (cases; simp)+
  show "rp_to_key plan \<noteq> []"
    using cases by (cases) (auto dest: resolve_transition_target_Some)
  show "is_upstream_route stages cur (rp_to_key plan)" if "rp_upstream plan"
    using cases that by cases simp_all
  show "rp_to_key plan \<in> sd_key ` set stages \<or> (explicit_to = [] \<and>
           (\<exists>item \<in> set transitions. map_of item (JStr ''from'') = Some cur
              \<and> rp_to_key plan = transition_to item))"
    using cases by cases (auto dest: resolve_transition_target_Some next_stage_key_Some)
qed

lemma next_stage_key_walk:
  assumes "distinct (map sd_key stages)" and "[] \<notin> sd_key ` set stages" and "i < length stages"
  shows "next_stage_key stages (ordered_keys stages ! i) =
    (if i + 1 < length stages then Some (ordered_keys stages ! (i + 1)) else None)"
proof -
  have "ordered_keys stages ! i \<noteq> []"
    using assms(2,3) nth_mem [of i "ordered_keys stages"] by auto
  moreover have "index_of (ordered_keys stages) (ordered_keys stages ! i) = Some i"
    using assms by (intro index_of_nth) simp_all
  ultimately show ?thesis by (simp add: next_stage_key_def)
qed

section \<open>Seeding\<close>

text \<open>
  \<open>seed_templates_from_yaml\<close> stores a template's transitions with \<open>json.dumps\<close> and every
  reader loads them back: the keys come back as strings, a boolean one as its JSON spelling.
\<close>

fun json_key :: "json \<Rightarrow> string" where
  "json_key (JStr s) = s"
| "json_key (JBool b) = (if b then ''true'' else ''false'')"
| "json_key (JInt i) = str_int i"
| "json_key _ = ''null''"

definition seeded_transition :: "transition \<Rightarrow> transition" where
  "seeded_transition item = dict_of (map (\<lambda>(k, v). (JStr (json_key k), v)) item)"

section \<open>Properties\<close>

text \<open>the span of a rework. A reject sends exactly the stages from the target through the
  rejecting one back to pending, whatever their status was; a stage outside the span, or
  not in the template, keeps its status.\<close>

theorem reset_upstream_span:
  assumes "distinct (map sd_key stages)"
    and "stage_index stages from_key = Some f" and "stage_index stages to_key = Some t" and "t \<le> f"
  shows "map_of (reset_upstream_stages m stages from_key to_key) k =
    (case stage_index stages k of
       Some i \<Rightarrow> if t \<le> i \<and> i \<le> f then Some StageStatus.PENDING else map_of m k
     | None \<Rightarrow> map_of m k)"
  by (rule reset_upstream_lookup [OF assms])

theorem reset_upstream_span_witness:
  "map_of (reset_upstream_stages
      [(''a'', StageStatus.DONE), (''b'', StageStatus.DONE), (''c'', StageStatus.RUNNING)]
      [plain_stage ''a'' 1, plain_stage ''b'' 2, plain_stage ''c'' 3] ''c'' ''b'') ''b''
   = Some StageStatus.PENDING"
proof -
  let ?ss = "[plain_stage ''a'' 1, plain_stage ''b'' 2, plain_stage ''c'' 3]"
  have "distinct (map sd_key ?ss)" "stage_index ?ss ''c'' = Some 2" "stage_index ?ss ''b'' = Some 1"
    "(1::nat) \<le> 2" by code_simp+
  from reset_upstream_span [OF this, where k = "''b''"] this show ?thesis by simp
qed

text \<open>the linear walk. On a template whose keys are distinct and not empty, a stage with no
  declared transition passes to the stage after it in template order, and the last stage has
  no next stage.\<close>

theorem pass_walks_in_order:
  assumes "distinct (map sd_key stages)" and "[] \<notin> sd_key ` set stages" and "i < length stages"
    and "resolve_transition_target transitions (ordered_keys stages ! i) ''pass'' = None"
  shows "resolve_next_stage_key stages transitions (ordered_keys stages ! i) ''pass'' [] =
    Inr (if i + 1 < length stages
         then Some \<lparr>rp_from_key = ordered_keys stages ! i, rp_to_key = ordered_keys stages ! (i + 1),
                rp_outcome = ''pass'', rp_upstream = False, rp_transition_agent_id = []\<rparr>
         else None)"
proof -
  have "ordered_keys stages ! (i + 1) \<noteq> []" if "i + 1 < length stages"
    using assms(2) nth_mem [of "i + 1" "ordered_keys stages"] that by auto
  with next_stage_key_walk [OF assms(1-3)] assms(4) show ?thesis
    by (simp add: resolve_next_stage_key_def)
qed

theorem pass_walks_in_order_witness:
  "resolve_next_stage_key [plain_stage ''a'' 1, plain_stage ''b'' 2] [] ''a'' ''pass'' []
     = Inr (Some \<lparr>rp_from_key = ''a'', rp_to_key = ''b'', rp_outcome = ''pass'', rp_upstream = False,
         rp_transition_agent_id = []\<rparr>)"
proof -
  let ?ss = "[plain_stage ''a'' 1, plain_stage ''b'' 2]"
  have h: "distinct (map sd_key ?ss)" "[] \<notin> sd_key ` set ?ss" "0 < length ?ss"
    "resolve_transition_target [] (ordered_keys ?ss ! 0) ''pass'' = None"
    by (simp_all add: plain_stage_def resolve_transition_target_def)
  have "ordered_keys ?ss ! 0 = ''a''" "ordered_keys ?ss ! (0 + 1) = ''b''" by code_simp+
  with pass_walks_in_order [OF h] show ?thesis by simp
qed

text \<open>a stage whose only transition answers a reject also sends its passes there: the last
  fallback of the pass lookup takes a single transition whatever its condition, so a template
  that declares only the way back makes a pass move upstream instead of to the next stage.\<close>

theorem lone_reject_routes_pass:
  assumes "filter (\<lambda>item. map_of item (JStr ''from'') = Some from_key) transitions = [item]"
    and "transition_when item = ''reject''" and "transition_to item \<noteq> []"
  shows "resolve_next_stage_key stages transitions from_key ''pass'' [] =
     Inr (Some \<lparr>rp_from_key = from_key, rp_to_key = transition_to item, rp_outcome = ''pass'',
       rp_upstream = is_upstream_route stages from_key (transition_to item),
       rp_transition_agent_id = transition_agent item\<rparr>)"
  using assms by (simp add: resolve_next_stage_key_def resolve_transition_target_def)

theorem lone_reject_routes_pass_witness:
  "\<exists>plan. resolve_next_stage_key [plain_stage ''plan'' 1, plain_stage ''review'' 2, plain_stage ''done'' 3]
     [[(JStr ''from'', ''review''), (JStr ''to'', ''plan''), (JStr ''when'', ''reject'')]]
     ''review'' ''pass'' [] = Inr (Some plan) \<and> rp_to_key plan = ''plan'' \<and> rp_upstream plan"
proof -
  let ?ss = "[plain_stage ''plan'' 1, plain_stage ''review'' 2, plain_stage ''done'' 3]"
  let ?i = "[(JStr ''from'', ''review''), (JStr ''to'', ''plan''), (JStr ''when'', ''reject'')]"
  have h: "filter (\<lambda>item. map_of item (JStr ''from'') = Some ''review'') [?i] = [?i]"
    "transition_when ?i = ''reject''" "transition_to ?i \<noteq> []"
    by (simp_all add: transition_when_def transition_to_def dict_get_def)
  have "is_upstream_route ?ss ''review'' (transition_to ?i)" "transition_to ?i = ''plan''" by code_simp+
  with lone_reject_routes_pass [OF h, of ?ss] show ?thesis by simp
qed

text \<open>a transition written \<open>on: pass\<close> without quotes is honoured only before the template is
  stored. YAML reads the key as the boolean; the reader accepts the boolean, but storing the
  template as JSON turns it into the string \<open>true\<close>, which the reader does not look at: the
  loaded transition has no condition.\<close>

theorem unquoted_on_lost_in_seeding:
  assumes "when \<noteq> []"
  shows "transition_when [(JStr ''from'', a), (JStr ''to'', b), (JBool True, when)] = when
    \<and> transition_when (seeded_transition [(JStr ''from'', a), (JStr ''to'', b), (JBool True, when)]) = []
    \<and> transition_when (seeded_transition [(JStr ''from'', a), (JStr ''to'', b), (JStr ''on'', when)]) = when"
  using assms by (simp add: transition_when_def seeded_transition_def dict_get_def map_of_dict_of)

theorem unquoted_on_lost_in_seeding_witness:
  "transition_when [(JStr ''from'', ''review''), (JStr ''to'', ''plan''), (JBool True, ''reject'')] = ''reject''
   \<and> transition_when (seeded_transition
       [(JStr ''from'', ''review''), (JStr ''to'', ''plan''), (JBool True, ''reject'')]) = []"
  using unquoted_on_lost_in_seeding [of "''reject''" "''review''" "''plan''"] by simp

end
