(* ===== verification/TicketStates.thy ===== *)
theory TicketStates
  imports Vocabulary
begin

text \<open>
  \<open>services/ticket_state_service.py\<close>, the one place \<open>tickets.state\<close> is written, and the
  event log it announces a decision on (\<open>core/event_bus.py\<close>). Two doors share the
  bookkeeping of \<open>write_state\<close>: \<open>choose_state\<close> is a decision and is checked against the table,
  \<open>derive\<close> is a recomputation and is refused only where the inputs have no authority.
  The locale \<open>state_door\<close> states what a client may rely on; the rollup is its client.
\<close>

section \<open>The event log\<close>

definition event_add ::
    "DomainEvent list \<Rightarrow> EventType \<Rightarrow> string option \<Rightarrow> string \<Rightarrow> (string \<times> string) list
       \<Rightarrow> DomainEvent list" where
  "event_add events event_type workspace_id ticket_id payload =
     events @ [\<lparr>ev_type = event_type, ev_workspace_id = workspace_id, ev_ticket_id = ticket_id,
            ev_payload = payload\<rparr>]"

section \<open>The table\<close>

definition RESOLVED_STATES :: "TicketState list" where
  "RESOLVED_STATES = [TicketState.DONE, TicketState.WONT_DO]"

fun CHOSEN_TRANSITIONS :: "TicketState \<Rightarrow> TicketState list" where
  "CHOSEN_TRANSITIONS TicketState.BACKLOG =
     [TicketState.IN_PROGRESS, TicketState.BLOCKED, TicketState.PARKED, TicketState.DONE,
      TicketState.WONT_DO]"
| "CHOSEN_TRANSITIONS TicketState.IN_PROGRESS =
     [TicketState.BLOCKED, TicketState.PARKED, TicketState.DONE, TicketState.BACKLOG,
      TicketState.WONT_DO]"
| "CHOSEN_TRANSITIONS TicketState.BLOCKED =
     [TicketState.IN_PROGRESS, TicketState.PARKED, TicketState.BACKLOG, TicketState.DONE,
      TicketState.WONT_DO]"
| "CHOSEN_TRANSITIONS TicketState.PARKED =
     [TicketState.IN_PROGRESS, TicketState.BLOCKED, TicketState.BACKLOG, TicketState.DONE,
      TicketState.WONT_DO]"
| "CHOSEN_TRANSITIONS TicketState.DONE = [TicketState.BACKLOG, TicketState.WONT_DO]"
| "CHOSEN_TRANSITIONS TicketState.WONT_DO = [TicketState.BACKLOG, TicketState.IN_PROGRESS]"

definition can_choose :: "TicketState \<Rightarrow> TicketState \<Rightarrow> bool" where
  "can_choose current target \<longleftrightarrow> target \<in> set (CHOSEN_TRANSITIONS current)"

section \<open>The writers\<close>

definition write_state :: "int \<Rightarrow> Ticket \<Rightarrow> TicketState \<Rightarrow> string \<Rightarrow> Ticket \<times> bool" where
  "write_state now ticket target actor =
     (if tk_state ticket = target then (ticket, False)
      else
        (let previous = tk_state ticket;
             ticket = ticket\<lparr>tk_state := target, tk_revision := tk_revision ticket + 1,
                            tk_last_updated_by := actor\<rparr>;
             ticket =
               (if target \<notin> set RESOLVED_STATES then ticket\<lparr>tk_resolved_at := None\<rparr>
                else if previous \<notin> set RESOLVED_STATES then ticket\<lparr>tk_resolved_at := Some now\<rparr>
                else ticket)
         in (ticket, True)))"

text \<open>The session is its event log, \<open>None\<close> when the caller passes no session.\<close>

definition choose_state ::
    "int \<Rightarrow> DomainEvent list option \<Rightarrow> Ticket \<Rightarrow> TicketState \<Rightarrow> string \<Rightarrow> bool
       \<Rightarrow> (DomainEvent list option \<times> Ticket \<times> bool) result" where
  "choose_state now session ticket target actor emit =
     (if tk_state ticket = target then Inr (session, ticket, False)
      else if \<not> can_choose (tk_state ticket) target
      then Inl (InvalidTicketTransition (ticket_state_value (tk_state ticket)) (ticket_state_value target))
      else
        (case write_state now ticket target actor of
           (ticket, False) \<Rightarrow> Inr (session, ticket, False)
         | (ticket, True) \<Rightarrow>
             Inr (if emit
                  then map_option (\<lambda>events. event_add events TICKET_STATE_CHANGED (tk_workspace_id ticket)
                         (tk_id ticket)
                         [(''state'', ticket_state_value target), (''actor'', actor)]) session
                  else session, ticket, True)))"

definition record_derived_change :: "Workflow \<Rightarrow> string \<Rightarrow> Workflow" where
  "record_derived_change w actor =
     (if \<not> wf_attached w then w
      else w\<lparr>wf_events := event_add (wf_events w) TICKET_STATE_CHANGED
                (tk_workspace_id (wf_ticket w)) (tk_id (wf_ticket w))
                [(''state'', ticket_state_value (tk_state (wf_ticket w))), (''actor'', actor)]\<rparr>)"

definition derive :: "int \<Rightarrow> Ticket \<Rightarrow> TicketState \<Rightarrow> string \<Rightarrow> Ticket \<times> bool" where
  "derive now ticket target actor =
     (if tk_state_locked ticket \<or> tk_state ticket \<in> {TicketState.WONT_DO, TicketState.PARKED}
      then (ticket, False)
      else write_state now ticket target actor)"

section \<open>The bookkeeping\<close>

definition in_resolved :: "TicketState \<Rightarrow> bool" where
  "in_resolved s \<longleftrightarrow> s \<in> set RESOLVED_STATES"

lemma in_resolved_simps [simp]:
  "in_resolved TicketState.DONE" "in_resolved TicketState.WONT_DO"
  "\<not> in_resolved TicketState.BACKLOG" "\<not> in_resolved TicketState.IN_PROGRESS"
  "\<not> in_resolved TicketState.BLOCKED" "\<not> in_resolved TicketState.PARKED"
  by (simp_all add: in_resolved_def RESOLVED_STATES_def)

text \<open>\<open>resolved_at\<close> is set exactly while the ticket is resolved.\<close>

definition resolution_stamped :: "Ticket \<Rightarrow> bool" where
  "resolution_stamped t \<longleftrightarrow> (tk_resolved_at t \<noteq> None \<longleftrightarrow> in_resolved (tk_state t))"

text \<open>Every column but the ones a state write owns.\<close>

definition same_but_state :: "Ticket \<Rightarrow> Ticket \<Rightarrow> bool" where
  "same_but_state t t' \<longleftrightarrow>
     t'\<lparr>tk_state := tk_state t, tk_revision := tk_revision t,
        tk_last_updated_by := tk_last_updated_by t, tk_resolved_at := tk_resolved_at t\<rparr> = t"

lemma same_but_state_refl [simp]: "same_but_state t t"
  by (simp add: same_but_state_def)

lemma same_but_stateD:
  assumes "same_but_state t t'"
  shows "tk_id t' = tk_id t" and "tk_parent_ticket_id t' = tk_parent_ticket_id t"
    and "tk_state_locked t' = tk_state_locked t" and "tk_block_kind t' = tk_block_kind t"
    and "tk_work_item_type t' = tk_work_item_type t" and "tk_workspace_id t' = tk_workspace_id t"
    and "tk_workflow_stage_key t' = tk_workflow_stage_key t"
    and "tk_workflow_stage_status t' = tk_workflow_stage_status t"
    and "tk_blocking_issues t' = tk_blocking_issues t"
    and "tk_next_agent t' = tk_next_agent t"
    and "tk_scope_reroute_agent t' = tk_scope_reroute_agent t"
  using assms by (cases t; cases t'; simp add: same_but_state_def)+

lemma write_state_unchanged:
  "snd (write_state now t target actor) = False \<Longrightarrow> fst (write_state now t target actor) = t"
  by (auto simp: write_state_def Let_def)

lemma write_state_changed_iff:
  "snd (write_state now t target actor) \<longleftrightarrow> tk_state t \<noteq> target"
  by (simp add: write_state_def Let_def)

lemma write_state_state [simp]: "tk_state (fst (write_state now t target actor)) = target"
  by (simp add: write_state_def Let_def)

lemma write_state_revision:
  "tk_revision (fst (write_state now t target actor)) =
     tk_revision t + (if snd (write_state now t target actor) then 1 else 0)"
  by (simp add: write_state_def Let_def)

lemma write_state_frame: "same_but_state t (fst (write_state now t target actor))"
  by (simp add: same_but_state_def write_state_def Let_def)

lemma write_state_stamped:
  "resolution_stamped t \<Longrightarrow> resolution_stamped (fst (write_state now t target actor))"
  by (auto simp: resolution_stamped_def write_state_def Let_def in_resolved_def)

lemma derive_eq_write:
  "derive now t target actor =
     (if tk_state_locked t \<or> tk_state t \<in> {TicketState.WONT_DO, TicketState.PARKED}
      then (t, False) else write_state now t target actor)"
  by (simp add: derive_def)

section \<open>The contract of a state writer\<close>

text \<open>
  What a client of a recomputing door may rely on: it says whether it wrote; a write
  moves the state to the target, costs one revision and keeps the resolution stamp; a
  ticket whose owner decided is never written; the rest of the row is untouched; and the
  door is idempotent.
\<close>

locale state_door =
  fixes door :: "int \<Rightarrow> Ticket \<Rightarrow> TicketState \<Rightarrow> string \<Rightarrow> Ticket \<times> bool"
  assumes door_unchanged: "\<not> snd (door now t s a) \<Longrightarrow> fst (door now t s a) = t"
    and door_changed: "snd (door now t s a) \<Longrightarrow>
          tk_state t \<noteq> s \<and> tk_state (fst (door now t s a)) = s
          \<and> tk_revision (fst (door now t s a)) = tk_revision t + 1"
    and door_locked: "tk_state_locked t \<Longrightarrow> \<not> snd (door now t s a)"
    and door_frame: "same_but_state t (fst (door now t s a))"
    and door_stamped: "resolution_stamped t \<Longrightarrow> resolution_stamped (fst (door now t s a))"
    and door_decided: "tk_state t \<in> {TicketState.WONT_DO, TicketState.PARKED} \<Longrightarrow>
          \<not> snd (door now t s a)"
    and door_moves: "\<not> tk_state_locked t \<Longrightarrow>
          tk_state t \<notin> {TicketState.WONT_DO, TicketState.PARKED} \<Longrightarrow>
          tk_state (fst (door now t s a)) = s"
begin

lemma door_revision_mono: "tk_revision t \<le> tk_revision (fst (door now t s a))"
  using door_changed [of now t s a] door_unchanged [of now t s a]
  by (cases "snd (door now t s a)") auto

lemma door_writes_iff:
  "snd (door now t s a) \<longleftrightarrow>
     \<not> tk_state_locked t \<and> tk_state t \<notin> {TicketState.WONT_DO, TicketState.PARKED} \<and> tk_state t \<noteq> s"
  using door_changed [of now t s a] door_unchanged [of now t s a] door_locked [of t now s a]
    door_decided [of t now s a] door_moves [of t now s a]
  by (cases "snd (door now t s a)") auto

lemma door_frame_fields:
  "tk_id (fst (door now t s a)) = tk_id t"
  "tk_parent_ticket_id (fst (door now t s a)) = tk_parent_ticket_id t"
  "tk_state_locked (fst (door now t s a)) = tk_state_locked t"
  "tk_block_kind (fst (door now t s a)) = tk_block_kind t"
  "tk_work_item_type (fst (door now t s a)) = tk_work_item_type t"
  using same_but_stateD [OF door_frame [of t now s a]] by simp_all

lemma door_frame_workflow:
  "tk_workspace_id (fst (door now t s a)) = tk_workspace_id t"
  "tk_workflow_stage_key (fst (door now t s a)) = tk_workflow_stage_key t"
  "tk_workflow_stage_status (fst (door now t s a)) = tk_workflow_stage_status t"
  "tk_blocking_issues (fst (door now t s a)) = tk_blocking_issues t"
  "tk_next_agent (fst (door now t s a)) = tk_next_agent t"
  "tk_scope_reroute_agent (fst (door now t s a)) = tk_scope_reroute_agent t"
  using same_but_stateD [OF door_frame [of t now s a]] by simp_all

lemma door_idempotent:
  "snd (door now (fst (door now t s a)) s a) = False"
  using door_writes_iff [of now t s a] door_writes_iff [of now "fst (door now t s a)" s a]
    door_changed [of now t s a] door_unchanged [of now t s a]
  by (cases "snd (door now t s a)") auto

end

interpretation derive_door: state_door derive
proof
  fix now t s a
  show "\<not> snd (derive now t s a) \<Longrightarrow> fst (derive now t s a) = t"
    by (auto simp: derive_def write_state_unchanged split: if_splits)
  show "snd (derive now t s a) \<Longrightarrow> tk_state t \<noteq> s \<and> tk_state (fst (derive now t s a)) = s
          \<and> tk_revision (fst (derive now t s a)) = tk_revision t + 1"
    by (auto simp: derive_def write_state_revision write_state_changed_iff split: if_splits)
  show "same_but_state t (fst (derive now t s a))"
    by (simp add: derive_def write_state_frame)
  show "resolution_stamped t \<Longrightarrow> resolution_stamped (fst (derive now t s a))"
    by (simp add: derive_def write_state_stamped)
qed (auto simp: derive_def)

section \<open>Choices\<close>

lemma choose_state_Inr:
  assumes "choose_state now session t target actor emit = Inr (session', t', changed)"
  shows "(t', changed) = write_state now t target actor"
    and "changed \<Longrightarrow> can_choose (tk_state t) target"
proof -
  obtain u b where u: "write_state now t target actor = (u, b)" by fastforce
  have same: "write_state now t target actor = (t, False)" if "tk_state t = target"
    using that by (simp add: write_state_def)
  show "(t', changed) = write_state now t target actor"
    using assms u same by (cases b) (simp_all add: choose_state_def split: if_splits)
  show "changed \<Longrightarrow> can_choose (tk_state t) target"
    using assms u by (cases b) (simp_all add: choose_state_def split: if_splits)
qed

lemma choose_state_refuses:
  "tk_state t \<noteq> target \<Longrightarrow> \<not> can_choose (tk_state t) target \<Longrightarrow>
   choose_state now session t target actor emit =
     Inl (InvalidTicketTransition (ticket_state_value (tk_state t)) (ticket_state_value target))"
  by (simp add: choose_state_def)

lemma choose_state_accepts:
  assumes "tk_state t = target \<or> can_choose (tk_state t) target"
  shows "\<exists>session'. choose_state now session t target actor emit
           = Inr (session', fst (write_state now t target actor), snd (write_state now t target actor))"
proof -
  obtain t' b where "write_state now t target actor = (t', b)" by fastforce
  with assms show ?thesis
    by (cases b) (auto simp: choose_state_def write_state_def split: if_splits)
qed

section \<open>Histories of a ticket\<close>

text \<open>One write of a ticket's state: a decision that was accepted, or a derivation.\<close>

inductive state_write :: "Ticket \<Rightarrow> Ticket \<Rightarrow> bool" where
  decided: "choose_state now session t target actor emit = Inr (session', t', changed) \<Longrightarrow> state_write t t'"
| derived: "derive now t target actor = (t', changed) \<Longrightarrow> state_write t t'"

inductive_cases state_writeE [elim]: "state_write t t'"

text \<open>A new ticket, after any sequence of writes and of edits of its other columns.\<close>

inductive ticket_history :: "Ticket \<Rightarrow> bool" where
  created: "ticket_history (new_ticket i)"
| written: "ticket_history t \<Longrightarrow> state_write t t' \<Longrightarrow> ticket_history t'"
| edited: "ticket_history t \<Longrightarrow> tk_state t' = tk_state t \<Longrightarrow> tk_resolved_at t' = tk_resolved_at t \<Longrightarrow>
     tk_revision t' = tk_revision t \<Longrightarrow> ticket_history t'"

lemma state_write_stamped:
  assumes "state_write t t'" and "resolution_stamped t"
  shows "resolution_stamped t'"
  using assms
proof cases
  case (decided now session target actor emit session' changed)
  from choose_state_Inr(1) [OF decided] have "t' = fst (write_state now t target actor)"
    by (metis fst_conv)
  with assms(2) show ?thesis by (simp add: write_state_stamped)
next
  case (derived now target actor changed)
  then have "t' = fst (derive now t target actor)" by simp
  with assms(2) show ?thesis by (simp add: derive_eq_write write_state_stamped)
qed

lemma state_write_moves:
  assumes "state_write t t'" and "tk_state t' \<noteq> tk_state t"
  shows "can_choose (tk_state t) (tk_state t')
      \<or> (\<not> tk_state_locked t \<and> tk_state t \<notin> {TicketState.WONT_DO, TicketState.PARKED})"
    and "tk_revision t' = tk_revision t + 1"
proof -
  have "(can_choose (tk_state t) (tk_state t')
      \<or> (\<not> tk_state_locked t \<and> tk_state t \<notin> {TicketState.WONT_DO, TicketState.PARKED}))
      \<and> tk_revision t' = tk_revision t + 1"
    using assms(1)
  proof cases
    case (decided now session target actor emit session' changed)
    note w = choose_state_Inr [OF decided]
    have t': "t' = fst (write_state now t target actor)" "changed = snd (write_state now t target actor)"
      using w(1) by (metis fst_conv, metis snd_conv)
    with assms(2) have changed by (simp add: write_state_changed_iff)
    with w(2) t' show ?thesis by (simp add: write_state_revision)
  next
    case (derived now target actor changed)
    then have t': "t' = fst (derive now t target actor)" by simp
    with assms(2) have "snd (derive now t target actor)"
      using derive_door.door_unchanged [of now t target actor] by metis
    with t' derive_door.door_changed [of now t target actor] show ?thesis
      by (simp add: derive_door.door_writes_iff)
  qed
  then show "can_choose (tk_state t) (tk_state t')
      \<or> (\<not> tk_state_locked t \<and> tk_state t \<notin> {TicketState.WONT_DO, TicketState.PARKED})"
    and "tk_revision t' = tk_revision t + 1" by simp_all
qed

section \<open>Properties\<close>

text \<open>what a decision does. It is accepted exactly when it names the state the ticket is in
  or one the table lists for it; accepted, it puts the ticket in the target state, adds one to
  the revision exactly when the state changed, leaves every column a state write does not own,
  and adds one event exactly when the state changed, the caller asked for it and passed a
  session; refused, it raises the transition error naming both states.\<close>

theorem choose_state_spec:
  "case choose_state now session t target actor emit of
     Inr (session', t', changed) \<Rightarrow>
       (tk_state t = target \<or> can_choose (tk_state t) target)
       \<and> tk_state t' = target \<and> (changed \<longleftrightarrow> tk_state t \<noteq> target)
       \<and> tk_revision t' = tk_revision t + (if changed then 1 else 0)
       \<and> same_but_state t t'
       \<and> session' = (if changed \<and> emit
            then map_option (\<lambda>events. events @ [\<lparr>ev_type = TICKET_STATE_CHANGED,
                   ev_workspace_id = tk_workspace_id t, ev_ticket_id = tk_id t,
                   ev_payload = [(''state'', ticket_state_value target), (''actor'', actor)]\<rparr>]) session
            else session)
   | Inl e \<Rightarrow> e = InvalidTicketTransition (ticket_state_value (tk_state t)) (ticket_state_value target)
       \<and> tk_state t \<noteq> target \<and> \<not> can_choose (tk_state t) target"
proof -
  obtain t' b where w: "write_state now t target actor = (t', b)" by fastforce
  note facts = write_state_frame [of t now target actor] write_state_revision [of now t target actor]
    write_state_changed_iff [of now t target actor] write_state_state [of now t target actor]
  show ?thesis
  proof (cases "tk_state t = target")
    case True
    then show ?thesis by (simp add: choose_state_def)
  next
    case False
    with facts w have b: "b" "tk_state t' = target" "tk_revision t' = tk_revision t + 1" "same_but_state t t'"
      by simp_all
    with False w show ?thesis
      by (simp add: choose_state_def event_add_def same_but_stateD)
  qed
qed

text \<open>over any sequence of decisions and derivations, starting from a new ticket and with
  other columns edited in between, \<open>resolved_at\<close> is set exactly while the ticket is done or
  won't-do.\<close>

theorem resolved_at_follows_state:
  assumes "ticket_history t"
  shows "tk_resolved_at t \<noteq> None \<longleftrightarrow> tk_state t \<in> {TicketState.DONE, TicketState.WONT_DO}"
proof -
  from assms have "resolution_stamped t"
  proof induction
    case (written t t')
    then show ?case by (blast intro: state_write_stamped)
  qed (simp_all add: resolution_stamped_def new_ticket_def)
  then show ?thesis by (simp add: resolution_stamped_def in_resolved_def RESOLVED_STATES_def)
qed

theorem resolved_at_follows_state_witness:
  "tk_resolved_at (fst (derive 9 (new_ticket ''T1'') TicketState.DONE ''workflow'')) \<noteq> None
   \<longleftrightarrow> tk_state (fst (derive 9 (new_ticket ''T1'') TicketState.DONE ''workflow''))
         \<in> {TicketState.DONE, TicketState.WONT_DO}"
proof -
  have "state_write (new_ticket ''T1'') (fst (derive 9 (new_ticket ''T1'') TicketState.DONE ''workflow''))"
    by (rule state_write.derived [of 9 _ TicketState.DONE "''workflow''" _
          "snd (derive 9 (new_ticket ''T1'') TicketState.DONE ''workflow'')"]) simp
  from resolved_at_follows_state [OF ticket_history.written [OF ticket_history.created this]]
  show ?thesis .
qed

text \<open>no write moves a ticket that a person has set aside behind their back: a state write
  that changes the state of a locked, won't-do or parked ticket is a decision the table
  allows, and every write that changes the state adds one to the revision.\<close>

theorem set_aside_moves_are_decisions:
  assumes "state_write t t'" and "tk_state t' \<noteq> tk_state t"
    and "tk_state_locked t \<or> tk_state t \<in> {TicketState.WONT_DO, TicketState.PARKED}"
  shows "can_choose (tk_state t) (tk_state t') \<and> tk_revision t' = tk_revision t + 1"
  using state_write_moves [OF assms(1,2)] assms(3) by blast

theorem set_aside_moves_are_decisions_witness:
  "can_choose TicketState.WONT_DO TicketState.IN_PROGRESS"
proof -
  let ?t = "(new_ticket ''T1'')\<lparr>tk_state := TicketState.WONT_DO, tk_resolved_at := Some 1\<rparr>"
  let ?t' = "fst (write_state 9 ?t TicketState.IN_PROGRESS ''human'')"
  have "choose_state 9 None ?t TicketState.IN_PROGRESS ''human'' False = Inr (None, ?t', True)"
    by code_simp
  then have "state_write ?t ?t'" by (rule state_write.decided)
  from set_aside_moves_are_decisions [OF this] show ?thesis by simp
qed

end
