(* ===== verification/WorkflowState.thy ===== *)
theory WorkflowState
  imports StateMachine TicketStates
begin

text \<open>
  \<open>services/workflow_state.py\<close>: keeping a ticket's state, its workflow cursor and the
  per-stage statuses consistent. The statuses are stored as JSON rows in
  \<open>workflow_instances.stages_json\<close>; the model reads and writes that column, so every
  way the decoding can raise is a branch. The locale \<open>stage_codec\<close> states the contract of
  the codec the status writers rely on.
\<close>

section \<open>The stages column\<close>

definition stage_row :: "string \<Rightarrow> StageStatus \<Rightarrow> json \<Rightarrow> json" where
  "stage_row key status note =
     JObj ([(''key'', JStr key), (''status'', JStr (stage_status_value status))]
           @ (if json_truthy note then [(''note'', note)] else []))"

definition initial_stages_json :: "WorkflowStageDef list \<Rightarrow> json_text" where
  "initial_stages_json stages =
     Doc (JList (map (\<lambda>s. JObj [(''key'', JStr (sd_key s)),
                               (''status'', JStr (stage_status_value StageStatus.PENDING))])
            (ordered stages)))"

definition stages_up_to_done_json :: "WorkflowStageDef list \<Rightarrow> string \<Rightarrow> json_text" where
  "stages_up_to_done_json stages completed_key =
     (let keys = ordered_keys stages;
          done_idx = (case index_of keys completed_key of None \<Rightarrow> - 1 | Some i \<Rightarrow> int i)
      in Doc (JList (map (\<lambda>(i, stage).
           JObj [(''key'', JStr (sd_key stage)),
                 (''status'', JStr (stage_status_value
                    (if int i \<le> done_idx then StageStatus.DONE else StageStatus.PENDING)))])
           (zip [0..<length stages] (ordered stages)))))"

definition parse_status_row :: "json \<Rightarrow> (json \<times> StageStatus) result" where
  "parse_status_row item =
     bind_result (json_item item ''key'') (\<lambda>key.
     bind_result (json_item item ''status'') (\<lambda>v.
     bind_result (stage_status_of v) (\<lambda>status.
       if json_hashable key then Inr (key, status) else Inl TypeError)))"

definition parse_stage_map :: "WorkflowInstance \<Rightarrow> WorkflowStageDef list \<Rightarrow> stage_map result" where
  "parse_stage_map instance stages =
     bind_result (json_loads_or_list (wi_stages_json instance)) (\<lambda>raw.
     bind_result (json_iter raw) (\<lambda>items.
     bind_result (map_result parse_status_row items) (\<lambda>rows.
       let by_key = dict_of rows in
       Inr (dict_of (map (\<lambda>s. (sd_key s, dict_get by_key (JStr (sd_key s)) StageStatus.PENDING))
              (ordered stages))))))"

type_synonym note_map = "(json, json) dict"

fun parse_note_rows :: "json list \<Rightarrow> note_map result" where
  "parse_note_rows [] = Inr []"
| "parse_note_rows (item # items) =
     bind_result (json_get item ''note'' JNull) (\<lambda>note.
       if json_truthy note then
         bind_result (json_item item ''key'') (\<lambda>key.
           if json_hashable key
           then bind_result (parse_note_rows items) (\<lambda>rows. Inr ((key, note) # rows))
           else Inl TypeError)
       else parse_note_rows items)"

definition parse_stage_notes :: "WorkflowInstance \<Rightarrow> note_map result" where
  "parse_stage_notes instance =
     bind_result (json_loads_or_list (wi_stages_json instance)) (\<lambda>raw.
     bind_result (json_iter raw) (\<lambda>items.
     bind_result (parse_note_rows items) (\<lambda>rows. Inr (dict_of rows))))"

definition serialize_stage_map ::
    "stage_map \<Rightarrow> WorkflowStageDef list \<Rightarrow> note_map \<Rightarrow> json_text" where
  "serialize_stage_map stage_map stages notes =
     Doc (JList (concat (map (\<lambda>stage.
       (case map_of stage_map (sd_key stage) of
          None \<Rightarrow> []
        | Some status \<Rightarrow>
            [stage_row (sd_key stage) status (dict_get notes (JStr (sd_key stage)) (JStr []))]))
       (ordered stages))))"

section \<open>Picking a stage\<close>

text \<open>\<open>for status in statuses: for key in keys\<close>: the first key holding the earliest status.\<close>

fun first_with_status ::
    "stage_map \<Rightarrow> string list \<Rightarrow> StageStatus list \<Rightarrow> (string \<times> StageStatus) option" where
  "first_with_status stage_map keys [] = None"
| "first_with_status stage_map keys (status # statuses) =
     (case find (\<lambda>key. map_of stage_map key = Some status) keys of
        Some key \<Rightarrow> Some (key, status)
      | None \<Rightarrow> first_with_status stage_map keys statuses)"

definition next_executable_stage :: "WorkflowStageDef list \<Rightarrow> stage_map \<Rightarrow> string option" where
  "next_executable_stage stages stage_map =
     (let keys = ordered_keys stages in
      case first_with_status stage_map keys
             [StageStatus.RUNNING, StageStatus.AWAITING, StageStatus.BLOCKED] of
        Some (key, status) \<Rightarrow> if status = StageStatus.BLOCKED then None else Some key
      | None \<Rightarrow> find (\<lambda>key. map_of stage_map key = Some StageStatus.PENDING) keys)"

definition stage_resolved :: "StageStatus \<Rightarrow> bool" where
  "stage_resolved status \<longleftrightarrow> status \<in> {StageStatus.DONE, StageStatus.WONT_DO}"

definition cursor_stage ::
    "Ticket \<Rightarrow> stage_map \<Rightarrow> WorkflowStageDef list \<Rightarrow> string \<times> StageStatus" where
  "cursor_stage ticket stage_map stages =
     (let keys = ordered_keys stages; key = tk_workflow_stage_key ticket in
      case first_with_status stage_map keys
             [StageStatus.RUNNING, StageStatus.AWAITING, StageStatus.BLOCKED] of
        Some (k, status) \<Rightarrow> (k, status)
      | None \<Rightarrow>
          if key \<noteq> [] \<and> dict_has stage_map key
          then (key, dict_get stage_map key StageStatus.PENDING)
          else
            (case find (\<lambda>k. map_of stage_map k = Some StageStatus.PENDING) keys of
               Some k \<Rightarrow> (k, StageStatus.PENDING)
             | None \<Rightarrow>
                 (let lastk = (if keys = [] then [] else last keys)
                  in (lastk, if lastk \<noteq> [] then dict_get stage_map lastk StageStatus.DONE
                             else StageStatus.PENDING))))"

section \<open>Deriving the ticket's state\<close>

definition derive_ticket_state ::
    "stage_map \<Rightarrow> WorkflowStageDef list \<Rightarrow> string \<Rightarrow> StageStatus \<Rightarrow> TicketState" where
  "derive_ticket_state stage_map stages blocking_issues workflow_stage_status =
     (let statuses = dict_values stage_map;
          required = filter (\<lambda>s. \<not> sd_optional s) (ordered stages) in
      if StageStatus.BLOCKED \<in> set statuses then TicketState.BLOCKED
      else if blocking_issues \<noteq> []
          \<and> workflow_stage_status \<in> {StageStatus.BLOCKED, StageStatus.RUNNING, StageStatus.AWAITING}
        then TicketState.BLOCKED
      else if required \<noteq> []
          \<and> list_all (\<lambda>s. stage_resolved (dict_get stage_map (sd_key s) StageStatus.PENDING)) required
          \<and> emptied_groups stages stage_map = []
        then TicketState.DONE
      else if blocking_issues \<noteq> [] \<and> workflow_stage_status = StageStatus.PENDING
        then TicketState.IN_PROGRESS
      else if list_ex (\<lambda>s. s \<in> {StageStatus.RUNNING, StageStatus.AWAITING, StageStatus.BLOCKED,
                                 StageStatus.DONE, StageStatus.WONT_DO}) statuses
        then TicketState.IN_PROGRESS
      else TicketState.BACKLOG)"

record WorkflowDerivation =
  wd_stage_map :: stage_map
  wd_current_key :: string
  wd_current_status :: StageStatus
  wd_ticket_state :: TicketState

definition derive_workflow ::
    "Ticket \<Rightarrow> WorkflowInstance \<Rightarrow> WorkflowStageDef list \<Rightarrow> WorkflowDerivation result" where
  "derive_workflow ticket instance stages =
     bind_result (parse_stage_map instance stages) (\<lambda>stage_map.
       let (current_key, current_status) = cursor_stage ticket stage_map stages in
       Inr \<lparr>wd_stage_map = stage_map, wd_current_key = current_key,
            wd_current_status = current_status,
            wd_ticket_state = derive_ticket_state stage_map stages (tk_blocking_issues ticket)
              current_status\<rparr>)"

section \<open>Writing\<close>

text \<open>The assignments of \<open>reconcile_workflow_state\<close>, once the view is derived.\<close>

definition apply_derivation ::
    "int \<Rightarrow> Workflow \<Rightarrow> WorkflowStageDef list \<Rightarrow> bool \<Rightarrow> WorkflowDerivation \<Rightarrow> note_map \<Rightarrow> Workflow" where
  "apply_derivation now w stages owns_state derived old_notes =
     (let ticket = (wf_ticket w)\<lparr>tk_workflow_stage_key := wd_current_key derived,
                                tk_workflow_stage_status := wd_current_status derived\<rparr>;
          sticky_done = (tk_state ticket = TicketState.DONE
                         \<and> wd_ticket_state derived \<noteq> TicketState.DONE);
          w = w\<lparr>wf_ticket := ticket\<rparr>;
          w = (if owns_state \<and> \<not> sticky_done
               then (let (ticket', changed) = derive now ticket (wd_ticket_state derived) ''workflow'';
                         w' = w\<lparr>wf_ticket := ticket'\<rparr>
                     in if changed then record_derived_change w' ''workflow'' else w')
               else w)
      in w\<lparr>wf_ticket := (wf_ticket w)\<lparr>tk_updated_at := now\<rparr>,
            wf_instance := (wf_instance w)\<lparr>
              wi_current_stage_key := wd_current_key derived,
              wi_stages_json := serialize_stage_map (wd_stage_map derived) stages old_notes,
              wi_updated_at := now\<rparr>\<rparr>)"

definition reconcile_workflow_state ::
    "int \<Rightarrow> Workflow \<Rightarrow> WorkflowStageDef list \<Rightarrow> bool \<Rightarrow> (Workflow \<times> stage_map) result" where
  "reconcile_workflow_state now w stages owns_state =
     bind_result (derive_workflow (wf_ticket w) (wf_instance w) stages) (\<lambda>derived.
     bind_result (parse_stage_notes (wf_instance w)) (\<lambda>old_notes.
       Inr (apply_derivation now w stages owns_state derived old_notes, wd_stage_map derived)))"

definition set_stage_status ::
    "int \<Rightarrow> Workflow \<Rightarrow> WorkflowStageDef list \<Rightarrow> string \<Rightarrow> StageStatus \<Rightarrow> string option
       \<Rightarrow> (Workflow \<times> stage_map) result" where
  "set_stage_status now w stages stage_key status note =
     bind_result (parse_stage_map (wf_instance w) stages) (\<lambda>stage_map.
       if \<not> dict_has stage_map stage_key
       then Inl (ValueError (''Unknown stage key: '' @ stage_key))
       else
         bind_result (parse_stage_notes (wf_instance w)) (\<lambda>old_notes.
           let stage_map = dict_set stage_key status stage_map;
               ticket = (if status \<noteq> StageStatus.BLOCKED
                            \<and> stage_key = tk_workflow_stage_key (wf_ticket w)
                         then (wf_ticket w)\<lparr>tk_block_kind := None\<rparr> else wf_ticket w);
               notes = (case note of
                          None \<Rightarrow> old_notes
                        | Some n \<Rightarrow> if n \<noteq> [] then dict_set (JStr stage_key) (JStr n) old_notes
                                   else dict_pop (JStr stage_key) old_notes);
               instance = (wf_instance w)\<lparr>wi_stages_json := serialize_stage_map stage_map stages notes\<rparr>
           in bind_result (reconcile_workflow_state now
                  (w\<lparr>wf_ticket := ticket, wf_instance := instance\<rparr>) stages True)
                (\<lambda>(w, _). Inr (w, stage_map))))"

fun set_stage_statuses ::
    "int \<Rightarrow> Workflow \<Rightarrow> WorkflowStageDef list \<Rightarrow> string list \<Rightarrow> StageStatus \<Rightarrow> Workflow result" where
  "set_stage_statuses now w stages [] status = Inr w"
| "set_stage_statuses now w stages (key # keys) status =
     bind_result (set_stage_status now w stages key status None)
       (\<lambda>(w, _). set_stage_statuses now w stages keys status)"

definition settle_unreached_stages ::
    "int \<Rightarrow> Workflow \<Rightarrow> WorkflowStageDef list \<Rightarrow> string \<Rightarrow> (Workflow \<times> string list) result" where
  "settle_unreached_stages now w stages terminal_key =
     bind_result (parse_stage_map (wf_instance w) stages) (\<lambda>stage_map.
       let unreached = map sd_key (filter (\<lambda>stage. sd_key stage \<noteq> terminal_key
             \<and> dict_get stage_map (sd_key stage) StageStatus.PENDING = StageStatus.PENDING) stages)
       in bind_result (set_stage_statuses now w stages unreached StageStatus.WONT_DO)
            (\<lambda>w. Inr (w, unreached)))"

section \<open>Views\<close>

record WorkflowStageView =
  sv_key :: string
  sv_name :: string
  sv_status :: StageStatus
  sv_order :: int
  sv_agent_id :: string
  sv_skill_name :: string
  sv_optional :: bool
  sv_note :: json
  sv_stage_type :: string
  sv_agents :: "ParallelAgentSpec list"
  sv_model :: string

definition stage_agent_refs :: "WorkflowStageDef \<Rightarrow> ParallelAgentSpec list" where
  "stage_agent_refs stage =
     (let refs =
        (if sd_stage_type stage = ''parallel'' \<and> sd_parallel_agents stage \<noteq> []
         then sd_parallel_agents stage
         else if sd_stage_type stage = ''classify'' \<and> sd_classify_routes stage \<noteq> []
         then map (\<lambda>route. \<lparr>pa_agent_id = cr_agent_id route,
                  pa_skill_name = (if cr_skill_name route \<noteq> [] then cr_skill_name route
                                   else sd_skill_name stage)\<rparr>)
                (filter (\<lambda>route. cr_agent_id route \<noteq> []) (sd_classify_routes stage))
         else if sd_agent_id stage \<noteq> []
         then [\<lparr>pa_agent_id = sd_agent_id stage, pa_skill_name = sd_skill_name stage\<rparr>]
         else [])
      in fold (\<lambda>ref unique. if pa_agent_id ref \<in> pa_agent_id ` set unique then unique
                              else unique @ [ref]) refs [])"

definition views_from ::
    "stage_map \<Rightarrow> WorkflowStageDef list \<Rightarrow> note_map \<Rightarrow> WorkflowStageView list result" where
  "views_from stage_map stages note_by_key =
     map_result (\<lambda>stage.
       (case map_of stage_map (sd_key stage) of
          None \<Rightarrow> Inl (KeyError (sd_key stage))
        | Some status \<Rightarrow> Inr \<lparr>sv_key = sd_key stage, sv_name = sd_name stage, sv_status = status,
            sv_order = sd_order stage, sv_agent_id = sd_agent_id stage,
            sv_skill_name = sd_skill_name stage, sv_optional = sd_optional stage,
            sv_note = dict_get note_by_key (JStr (sd_key stage)) (JStr []),
            sv_stage_type = (if sd_stage_type stage \<noteq> [] then sd_stage_type stage else ''agent''),
            sv_agents = stage_agent_refs stage, sv_model = sd_model stage\<rparr>))
       (ordered stages)"

definition stage_views_readonly ::
    "Ticket \<Rightarrow> WorkflowInstance \<Rightarrow> WorkflowStageDef list \<Rightarrow> WorkflowStageView list result" where
  "stage_views_readonly ticket instance stages =
     bind_result (derive_workflow ticket instance stages) (\<lambda>derived.
     bind_result (parse_stage_notes instance) (\<lambda>notes.
       views_from (wd_stage_map derived) stages notes))"

definition build_stage_views ::
    "int \<Rightarrow> Workflow \<Rightarrow> WorkflowStageDef list \<Rightarrow> bool
       \<Rightarrow> (Workflow \<times> WorkflowStageView list) result" where
  "build_stage_views now w stages owns_state =
     bind_result (reconcile_workflow_state now w stages owns_state) (\<lambda>(w, _).
     bind_result (parse_stage_map (wf_instance w) stages) (\<lambda>stage_map.
     bind_result (parse_stage_notes (wf_instance w)) (\<lambda>note_by_key.
     bind_result (views_from stage_map stages note_by_key) (\<lambda>views.
       Inr (w, views)))))"

section \<open>Status maps over a template\<close>

text \<open>Every status map the code works on is one status per template key, in key order.\<close>

definition tabulate :: "WorkflowStageDef list \<Rightarrow> (string \<Rightarrow> StageStatus) \<Rightarrow> stage_map" where
  "tabulate stages f = map (\<lambda>k. (k, f k)) (dedup (ordered_keys stages))"

lemma map_of_tabulate [dict_simps]:
  "map_of (tabulate stages f) k = (if k \<in> sd_key ` set stages then Some (f k) else None)"
  by (simp add: tabulate_def map_of_tabulated)

lemma dict_get_tabulate [dict_simps]:
  "dict_get (tabulate stages f) k d = (if k \<in> sd_key ` set stages then f k else d)"
  by (simp add: dict_get_def map_of_tabulate)

lemma dict_has_tabulate [dict_simps]:
  "dict_has (tabulate stages f) k \<longleftrightarrow> k \<in> sd_key ` set stages"
  by (simp add: dict_has_def map_of_tabulate)

lemma dict_set_tabulate [dict_simps]:
  "k \<in> sd_key ` set stages \<Longrightarrow> dict_set k v (tabulate stages f) = tabulate stages (f(k := v))"
  by (simp add: tabulate_def dict_set_tabulated)

lemma values_tabulate [dict_simps]:
  "set (dict_values (tabulate stages f)) = f ` sd_key ` set stages"
  by (auto simp: dict_values_def tabulate_def image_image)

lemma tabulate_cong:
  "(\<And>k. k \<in> sd_key ` set stages \<Longrightarrow> f k = g k) \<Longrightarrow> tabulate stages f = tabulate stages g"
  by (simp add: tabulate_def)

lemma dict_of_stages:
  "dict_of (map (\<lambda>s. (sd_key s, f (sd_key s))) (ordered stages)) = tabulate stages f"
proof -
  have "map (\<lambda>s. (sd_key s, f (sd_key s))) (ordered stages) = map (\<lambda>x. (x, f x)) (ordered_keys stages)"
    by (simp add: ordered_keys_def)
  then show ?thesis by (simp add: dict_of_tabulated tabulate_def)
qed

lemma parse_stage_map_tabulated:
  "parse_stage_map inst stages = Inr m \<Longrightarrow> \<exists>f. m = tabulate stages f"
  using dict_of_stages by (fastforce simp: parse_stage_map_def bind_result_Inr_iff Let_def)

section \<open>The codec\<close>

lemma parse_status_row_stage_row [simp]:
  "parse_status_row (stage_row k s n) = Inr (JStr k, s)"
  by (simp add: parse_status_row_def stage_row_def)

lemma note_of_stage_row [simp]:
  "json_get (stage_row k s n) ''note'' JNull = Inr (if json_truthy n then n else JNull)"
  "json_item (stage_row k s n) ''key'' = Inr (JStr k)"
  by (simp_all add: stage_row_def dict_get_def)

abbreviation rows_of :: "stage_map \<Rightarrow> note_map \<Rightarrow> string list \<Rightarrow> json list" where
  "rows_of m notes ks \<equiv> concat (map (\<lambda>k. case map_of m k of None \<Rightarrow> []
     | Some s \<Rightarrow> [stage_row k s (dict_get notes (JStr k) (JStr []))]) ks)"

lemma serialize_rows:
  "serialize_stage_map m stages notes = Doc (JList (rows_of m notes (ordered_keys stages)))"
  by (simp add: serialize_stage_map_def ordered_keys_def comp_def)

lemma map_result_rows:
  "map_result parse_status_row (rows_of m notes ks) =
     Inr (concat (map (\<lambda>k. case map_of m k of None \<Rightarrow> [] | Some s \<Rightarrow> [(JStr k, s)]) ks))"
  by (induction ks) (auto split: option.splits)

lemma map_of_rows:
  "map_of (concat (map (\<lambda>k. case map_of m k of None \<Rightarrow> [] | Some s \<Rightarrow> [(JStr k, s)]) ks)) (JStr k') =
     (if k' \<in> set ks then map_of m k' else None)"
  by (induction ks) (auto split: option.splits)

lemma rev_concat_single:
  "(\<And>k. length (f k) \<le> 1) \<Longrightarrow> rev (concat (map f ks)) = concat (map f (rev ks))"
proof (induction ks)
  case (Cons k ks)
  have "rev (f k) = f k" using Cons.prems [of k] by (cases "f k") auto
  with Cons show ?case by simp
qed simp

lemma parse_serialize:
  assumes "wi_stages_json inst = serialize_stage_map m stages notes"
  shows "parse_stage_map inst stages = Inr (tabulate stages (\<lambda>k. dict_get m k StageStatus.PENDING))"
proof -
  let ?rows = "concat (map (\<lambda>k. case map_of m k of None \<Rightarrow> [] | Some s \<Rightarrow> [(JStr k, s)]) (ordered_keys stages))"
  have "map_of (dict_of ?rows) (JStr k) = (if k \<in> sd_key ` set stages then map_of m k else None)" for k
    unfolding map_of_dict_of
    by (subst rev_concat_single) (simp_all add: map_of_rows split: option.splits)
  then have "tabulate stages (\<lambda>k. dict_get (dict_of ?rows) (JStr k) StageStatus.PENDING)
      = tabulate stages (\<lambda>k. dict_get m k StageStatus.PENDING)"
    by (intro tabulate_cong) (simp add: dict_get_def)
  then show ?thesis
    using assms dict_of_stages [of "\<lambda>k. dict_get (dict_of ?rows) (JStr k) StageStatus.PENDING" stages]
    by (simp add: parse_stage_map_def json_loads_or_list_def serialize_rows map_result_rows)
qed

lemma parse_note_rows_rows:
  "parse_note_rows (rows_of m notes ks) =
     Inr (concat (map (\<lambda>k. if map_of m k \<noteq> None \<and> json_truthy (dict_get notes (JStr k) (JStr []))
                          then [(JStr k, dict_get notes (JStr k) (JStr []))] else []) ks))"
  by (induction ks) (auto split: option.splits)

lemma map_of_note_rows:
  "map_of (concat (map (\<lambda>k. if P k then [(JStr k, g k)] else []) ks)) (JStr k') =
     (if k' \<in> set ks \<and> P k' then Some (g k') else None)"
  by (induction ks) auto

lemma parse_notes_serialize:
  assumes "wi_stages_json inst = serialize_stage_map m stages notes"
  obtains notes' where "parse_stage_notes inst = Inr notes'"
    and "\<And>k. map_of notes' (JStr k) =
      (if k \<in> sd_key ` set stages \<and> dict_has m k \<and> json_truthy (dict_get notes (JStr k) (JStr []))
       then Some (dict_get notes (JStr k) (JStr [])) else None)"
proof
  let ?rows = "concat (map (\<lambda>k. if map_of m k \<noteq> None \<and> json_truthy (dict_get notes (JStr k) (JStr []))
                 then [(JStr k, dict_get notes (JStr k) (JStr []))] else []) (ordered_keys stages))"
  show "parse_stage_notes inst = Inr (dict_of ?rows)"
    using assms
    by (simp add: parse_stage_notes_def json_loads_or_list_def serialize_rows parse_note_rows_rows)
  show "map_of (dict_of ?rows) (JStr k) =
      (if k \<in> sd_key ` set stages \<and> dict_has m k \<and> json_truthy (dict_get notes (JStr k) (JStr []))
       then Some (dict_get notes (JStr k) (JStr [])) else None)" for k
    unfolding map_of_dict_of
    by (subst rev_concat_single) (simp_all add: map_of_note_rows dict_has_def split: option.splits)
qed

text \<open>Notes read back from the column are truthy.\<close>

lemma parse_note_rows_truthy:
  "parse_note_rows items = Inr rows \<Longrightarrow> (k, n) \<in> set rows \<Longrightarrow> json_truthy n"
  by (induction items arbitrary: rows) (auto simp: bind_result_Inr_iff split: if_splits)

lemma parse_stage_notes_truthy:
  assumes "parse_stage_notes inst = Inr notes" and "map_of notes k = Some n"
  shows "json_truthy n"
proof -
  from assms(1) obtain items rows where "parse_note_rows items = Inr rows" "notes = dict_of rows"
    by (auto simp: parse_stage_notes_def bind_result_Inr_iff)
  with assms(2) show ?thesis
    by (auto simp: map_of_dict_of dest!: map_of_SomeD intro: parse_note_rows_truthy)
qed

section \<open>The contract of the codec\<close>

text \<open>
  What a status writer relies on: writing a status map and reading it back gives the same
  statuses for every template stage, and the same notes, whatever else the row held.
\<close>

locale stage_codec =
  fixes decode :: "WorkflowInstance \<Rightarrow> WorkflowStageDef list \<Rightarrow> stage_map result"
    and decode_notes :: "WorkflowInstance \<Rightarrow> note_map result"
    and encode :: "stage_map \<Rightarrow> WorkflowStageDef list \<Rightarrow> note_map \<Rightarrow> json_text"
  assumes decode_shape: "decode inst stages = Inr m \<Longrightarrow> \<exists>f. m = tabulate stages f"
    and decode_encode: "wi_stages_json inst = encode (tabulate stages f) stages notes \<Longrightarrow>
          decode inst stages = Inr (tabulate stages f)"
    and notes_encode: "wi_stages_json inst = encode (tabulate stages f) stages notes \<Longrightarrow>
          \<exists>notes'. decode_notes inst = Inr notes' \<and>
            (\<forall>k. map_of notes' (JStr k) =
               (if k \<in> sd_key ` set stages \<and> json_truthy (dict_get notes (JStr k) (JStr []))
                then Some (dict_get notes (JStr k) (JStr [])) else None))"
    and notes_truthy: "decode_notes inst = Inr notes \<Longrightarrow> map_of notes k = Some n \<Longrightarrow> json_truthy n"
begin

text \<open>Writing decoded notes back loses no template stage's note.\<close>

lemma notes_survive:
  assumes "decode_notes inst = Inr notes"
    and "wi_stages_json inst' = encode (tabulate stages f) stages notes"
    and "decode_notes inst' = Inr notes'" and "k \<in> sd_key ` set stages"
  shows "dict_get notes' (JStr k) (JStr []) = dict_get notes (JStr k) (JStr [])"
proof (cases "map_of notes (JStr k)")
  case None
  with notes_encode [OF assms(2)] assms(3,4) show ?thesis
    by (auto simp: dict_get_def)
next
  case (Some n)
  with notes_truthy [OF assms(1)] notes_encode [OF assms(2)] assms(3,4) show ?thesis
    by (auto simp: dict_get_def)
qed

lemma reencode_stable:
  assumes "decode inst stages = Inr m" and "wi_stages_json inst' = encode m stages notes"
  shows "decode inst' stages = Inr m"
proof -
  from decode_shape [OF assms(1)] obtain f where "m = tabulate stages f" by blast
  with decode_encode [where stages = stages and f = f and inst = inst'] assms(2) show ?thesis by simp
qed

end

interpretation column: stage_codec parse_stage_map parse_stage_notes serialize_stage_map
proof
  fix inst :: WorkflowInstance and stages m f k n and ns :: note_map
  show "parse_stage_map inst stages = Inr m \<Longrightarrow> \<exists>f. m = tabulate stages f"
    by (rule parse_stage_map_tabulated)
  show "wi_stages_json inst = serialize_stage_map (tabulate stages f) stages ns \<Longrightarrow>
          parse_stage_map inst stages = Inr (tabulate stages f)"
    by (drule parse_serialize) (auto simp: dict_get_tabulate intro!: tabulate_cong)
  show "wi_stages_json inst = serialize_stage_map (tabulate stages f) stages ns \<Longrightarrow>
          \<exists>notes'. parse_stage_notes inst = Inr notes' \<and>
            (\<forall>k. map_of notes' (JStr k) =
               (if k \<in> sd_key ` set stages \<and> json_truthy (dict_get ns (JStr k) (JStr []))
                then Some (dict_get ns (JStr k) (JStr [])) else None))"
    by (erule parse_notes_serialize) (auto simp: dict_has_tabulate)
  show "parse_stage_notes inst = Inr ns \<Longrightarrow> map_of ns k = Some n \<Longrightarrow> json_truthy n"
    by (rule parse_stage_notes_truthy)
qed

section \<open>Picking\<close>

lemma first_with_status_Some:
  "first_with_status m keys sts = Some (k, s) \<Longrightarrow>
     k \<in> set keys \<and> map_of m k = Some s \<and> s \<in> set sts"
  by (induction sts) (auto split: option.splits dest: find_Some_iff')

lemma first_with_status_None:
  "first_with_status m keys sts = None \<longleftrightarrow> (\<forall>k \<in> set keys. \<forall>s \<in> set sts. map_of m k \<noteq> Some s)"
  by (induction sts) (auto split: option.splits simp: find_None_iff' dest: find_Some_iff')

lemma cursor_stage_idem:
  assumes "cursor_stage t (tabulate stages f) stages = (k, s)" and "tk_workflow_stage_key t' = k"
  shows "cursor_stage t' (tabulate stages f) stages = (k, s)"
proof (cases "first_with_status (tabulate stages f) (ordered_keys stages)
             [StageStatus.RUNNING, StageStatus.AWAITING, StageStatus.BLOCKED]")
  case (Some a)
  with assms show ?thesis by (cases a) (simp add: cursor_stage_def)
next
  case None
  show ?thesis
  proof (cases "tk_workflow_stage_key t \<noteq> [] \<and> dict_has (tabulate stages f) (tk_workflow_stage_key t)")
    case True
    with None assms show ?thesis by (auto simp: cursor_stage_def Let_def)
  next
    case inactive: False
    show ?thesis
    proof (cases "find (\<lambda>k. map_of (tabulate stages f) k = Some StageStatus.PENDING) (ordered_keys stages)")
      case (Some p)
      have "k = p" "s = StageStatus.PENDING"
        using assms(1) None inactive Some unfolding cursor_stage_def Let_def by auto
      with Some None assms(2) find_Some_iff' [OF Some] show ?thesis
        by (auto simp: cursor_stage_def Let_def dict_get_def)
    next
      case no_pending: None
      let ?l = "if ordered_keys stages = [] then [] else last (ordered_keys stages)"
      have ks: "k = ?l" "s = (if ?l \<noteq> [] then dict_get (tabulate stages f) ?l StageStatus.DONE else StageStatus.PENDING)"
        using assms(1) None inactive no_pending unfolding cursor_stage_def Let_def by auto
      have "?l \<noteq> [] \<Longrightarrow> ?l \<in> sd_key ` set stages"
        using last_in_set [of "ordered_keys stages"] by (auto simp del: last_in_set split: if_splits)
      with ks None no_pending assms(2) show ?thesis
        by (auto simp: cursor_stage_def Let_def dict_get_tabulate dict_has_tabulate)
    qed
  qed
qed

section \<open>Reconciling\<close>

lemma serialize_cong:
  assumes "\<And>k. k \<in> sd_key ` set stages \<Longrightarrow>
    dict_get ns (JStr k) (JStr []) = dict_get ns' (JStr k) (JStr [])"
  shows "serialize_stage_map m stages ns = serialize_stage_map m stages ns'"
proof -
  have "rows_of m ns (ordered_keys stages) = rows_of m ns' (ordered_keys stages)"
    using assms by (intro arg_cong [where f = concat] map_cong) (auto split: option.splits)
  then show ?thesis by (simp add: serialize_rows)
qed

lemma derive_workflow_Inr:
  assumes "derive_workflow t inst stages = Inr d"
  obtains f where "parse_stage_map inst stages = Inr (tabulate stages f)"
    and "wd_stage_map d = tabulate stages f"
    and "cursor_stage t (tabulate stages f) stages = (wd_current_key d, wd_current_status d)"
    and "wd_ticket_state d =
      derive_ticket_state (tabulate stages f) stages (tk_blocking_issues t) (wd_current_status d)"
proof -
  from assms obtain m where m: "parse_stage_map inst stages = Inr m"
    by (auto simp: derive_workflow_def bind_result_Inr_iff)
  with column.decode_shape obtain f where "m = tabulate stages f" by blast
  with m assms that show thesis
    by (auto simp: derive_workflow_def split: prod.splits)
qed

lemma derive_workflow_Inr_intro:
  assumes "parse_stage_map inst stages = Inr m" and "cursor_stage t m stages = (k, s)"
  shows "derive_workflow t inst stages = Inr \<lparr>wd_stage_map = m, wd_current_key = k,
    wd_current_status = s, wd_ticket_state = derive_ticket_state m stages (tk_blocking_issues t) s\<rparr>"
  using assms by (simp add: derive_workflow_def)

lemma record_derived_change_fields [simp]:
  "wf_ticket (record_derived_change w a) = wf_ticket w"
  "wf_instance (record_derived_change w a) = wf_instance w"
  "wf_attached (record_derived_change w a) = wf_attached w"
  by (simp_all add: record_derived_change_def)

text \<open>The ticket a reconcile derives from, and whether it may write the state.\<close>

abbreviation placed :: "Ticket \<Rightarrow> WorkflowDerivation \<Rightarrow> Ticket" where
  "placed t d \<equiv> t\<lparr>tk_workflow_stage_key := wd_current_key d,
                  tk_workflow_stage_status := wd_current_status d\<rparr>"

abbreviation may_derive :: "Ticket \<Rightarrow> WorkflowDerivation \<Rightarrow> bool \<Rightarrow> bool" where
  "may_derive t d owns \<equiv>
     owns \<and> \<not> (tk_state t = TicketState.DONE \<and> wd_ticket_state d \<noteq> TicketState.DONE)"

lemma apply_derivation_ticket:
  "wf_ticket (apply_derivation now w stages owns d ns) =
     (if may_derive (wf_ticket w) d owns
      then fst (derive now (placed (wf_ticket w) d) (wd_ticket_state d) ''workflow'')
      else placed (wf_ticket w) d)\<lparr>tk_updated_at := now\<rparr>"
  by (cases "derive now (placed (wf_ticket w) d) (wd_ticket_state d) ''workflow''")
    (auto simp: apply_derivation_def Let_def)

lemma apply_derivation_instance:
  "wf_instance (apply_derivation now w stages owns d ns) =
     (wf_instance w)\<lparr>wi_current_stage_key := wd_current_key d,
        wi_stages_json := serialize_stage_map (wd_stage_map d) stages ns, wi_updated_at := now\<rparr>"
  by (cases "derive now (placed (wf_ticket w) d) (wd_ticket_state d) ''workflow''")
    (auto simp: apply_derivation_def Let_def)

lemma apply_derivation_attached [simp]:
  "wf_attached (apply_derivation now w stages owns d ns) = wf_attached w"
  by (cases "derive now (placed (wf_ticket w) d) (wd_ticket_state d) ''workflow''")
    (auto simp: apply_derivation_def Let_def)

lemma apply_derivation_events:
  "wf_events (apply_derivation now w stages owns d ns) =
     (if may_derive (wf_ticket w) d owns \<and> wf_attached w
         \<and> snd (derive now (placed (wf_ticket w) d) (wd_ticket_state d) ''workflow'')
      then event_add (wf_events w) TICKET_STATE_CHANGED (tk_workspace_id (wf_ticket w))
             (tk_id (wf_ticket w))
             [(''state'', ticket_state_value (wd_ticket_state d)), (''actor'', ''workflow'')]
      else wf_events w)"
  using derive_door.door_changed [of now "placed (wf_ticket w) d" "wd_ticket_state d" "''workflow''"]
    derive_door.door_frame_fields [of now "placed (wf_ticket w) d" "wd_ticket_state d" "''workflow''"]
    derive_door.door_frame_workflow [of now "placed (wf_ticket w) d" "wd_ticket_state d" "''workflow''"]
  by (cases "derive now (placed (wf_ticket w) d) (wd_ticket_state d) ''workflow''")
    (auto simp: apply_derivation_def record_derived_change_def Let_def)

lemma reconcile_Inr:
  assumes "reconcile_workflow_state now w stages owns = Inr (w', m)"
  obtains d ns where "derive_workflow (wf_ticket w) (wf_instance w) stages = Inr d"
    and "parse_stage_notes (wf_instance w) = Inr ns"
    and "w' = apply_derivation now w stages owns d ns" and "m = wd_stage_map d"
  using assms by (auto simp: reconcile_workflow_state_def bind_result_Inr_iff)

lemma reconciled_ticket:
  "tk_workflow_stage_key (wf_ticket (apply_derivation now w stages owns d ns)) = wd_current_key d"
  "tk_workflow_stage_status (wf_ticket (apply_derivation now w stages owns d ns)) = wd_current_status d"
  "tk_blocking_issues (wf_ticket (apply_derivation now w stages owns d ns)) = tk_blocking_issues (wf_ticket w)"
  "tk_updated_at (wf_ticket (apply_derivation now w stages owns d ns)) = now"
  "tk_state_locked (wf_ticket (apply_derivation now w stages owns d ns)) = tk_state_locked (wf_ticket w)"
  "tk_next_agent (wf_ticket (apply_derivation now w stages owns d ns)) = tk_next_agent (wf_ticket w)"
  by (simp_all add: apply_derivation_ticket derive_door.door_frame_workflow derive_door.door_frame_fields)

lemma reconciled_state:
  "tk_state (wf_ticket (apply_derivation now w stages owns d ns)) =
     (if may_derive (wf_ticket w) d owns \<and> \<not> tk_state_locked (wf_ticket w)
         \<and> tk_state (wf_ticket w) \<notin> {TicketState.WONT_DO, TicketState.PARKED}
      then wd_ticket_state d else tk_state (wf_ticket w))"
  using derive_door.door_moves [of "placed (wf_ticket w) d" now "wd_ticket_state d" "''workflow''"]
    derive_door.door_locked [of "placed (wf_ticket w) d" now "wd_ticket_state d" "''workflow''"]
    derive_door.door_decided [of "placed (wf_ticket w) d" now "wd_ticket_state d" "''workflow''"]
    derive_door.door_unchanged [of now "placed (wf_ticket w) d" "wd_ticket_state d" "''workflow''"]
  by (auto simp: apply_derivation_ticket)

text \<open>Applying the same view twice is applying it once.\<close>

lemma apply_derivation_again:
  assumes w': "w' = apply_derivation now w stages owns d ns"
    and serial: "serialize_stage_map (wd_stage_map d) stages ns' = serialize_stage_map (wd_stage_map d) stages ns"
  shows "apply_derivation now w' stages owns d ns' = w'"
proof -
  let ?t' = "wf_ticket w'"
  have placed: "placed ?t' d = ?t'"
    using reconciled_ticket [of now w stages owns d ns] by (simp add: w')
  have locked: "tk_state_locked ?t' = tk_state_locked (wf_ticket w)"
    unfolding w' by (rule reconciled_ticket)
  have quiet: "\<not> snd (derive now ?t' (wd_ticket_state d) ''workflow'')" if may: "may_derive ?t' d owns"
  proof (cases "may_derive (wf_ticket w) d owns \<and> \<not> tk_state_locked (wf_ticket w)
         \<and> tk_state (wf_ticket w) \<notin> {TicketState.WONT_DO, TicketState.PARKED}")
    case True
    then have "tk_state ?t' = wd_ticket_state d" unfolding w' reconciled_state by (rule if_P)
    then show ?thesis unfolding derive_door.door_writes_iff by blast
  next
    case False
    then have state: "tk_state ?t' = tk_state (wf_ticket w)" unfolding w' reconciled_state by (rule if_not_P)
    with False may have "tk_state_locked ?t' \<or> tk_state ?t' \<in> {TicketState.WONT_DO, TicketState.PARKED}"
      unfolding locked by metis
    then show ?thesis unfolding derive_door.door_writes_iff by blast
  qed
  have ticket: "wf_ticket (apply_derivation now w' stages owns d ns') = ?t'"
    using quiet derive_door.door_unchanged [of now ?t' "wd_ticket_state d" "''workflow''"]
      reconciled_ticket(4) [of now w stages owns d ns]
    by (auto simp: apply_derivation_ticket [of now w'] placed w' [symmetric])
  have events: "wf_events (apply_derivation now w' stages owns d ns') = wf_events w'"
    using quiet by (auto simp: apply_derivation_events [of now w'] placed)
  have inst: "wf_instance (apply_derivation now w' stages owns d ns') = wf_instance w'"
    by (simp add: apply_derivation_instance w' serial)
  show ?thesis
    by (rule Workflow.equality) (simp_all add: ticket events inst)
qed

lemma reconcile_idempotent:
  assumes "reconcile_workflow_state now w stages owns = Inr (w', m)"
  shows "reconcile_workflow_state now w' stages owns = Inr (w', m)"
proof -
  from assms obtain d ns where d: "derive_workflow (wf_ticket w) (wf_instance w) stages = Inr d"
    and ns: "parse_stage_notes (wf_instance w) = Inr ns"
    and w': "w' = apply_derivation now w stages owns d ns" and m: "m = wd_stage_map d"
    by (rule reconcile_Inr)
  from d obtain f where f: "wd_stage_map d = tabulate stages f"
    and cur: "cursor_stage (wf_ticket w) (tabulate stages f) stages = (wd_current_key d, wd_current_status d)"
    and st: "wd_ticket_state d =
      derive_ticket_state (tabulate stages f) stages (tk_blocking_issues (wf_ticket w)) (wd_current_status d)"
    by (rule derive_workflow_Inr)
  have json: "wi_stages_json (wf_instance w') = serialize_stage_map (tabulate stages f) stages ns"
    by (simp add: w' apply_derivation_instance f)
  from column.notes_encode [OF json] obtain ns' where ns': "parse_stage_notes (wf_instance w') = Inr ns'"
    by blast
  have serial: "serialize_stage_map (wd_stage_map d) stages ns' = serialize_stage_map (wd_stage_map d) stages ns"
    by (intro serialize_cong) (simp add: column.notes_survive [OF ns json ns'])
  have cur': "cursor_stage (wf_ticket w') (tabulate stages f) stages = (wd_current_key d, wd_current_status d)"
    by (rule cursor_stage_idem [OF cur]) (simp add: w' reconciled_ticket)
  have "derive_workflow (wf_ticket w') (wf_instance w') stages = Inr d"
    unfolding derive_workflow_Inr_intro [OF column.decode_encode [OF json] cur']
    by (cases d) (use f st in \<open>simp add: w' reconciled_ticket\<close>)
  then show ?thesis
    by (simp add: reconcile_workflow_state_def ns' m apply_derivation_again [OF w' serial])
qed

section \<open>Setting statuses\<close>

text \<open>A status write is one write of the column followed by a reconcile.\<close>

lemma set_stage_status_step:
  assumes "parse_stage_map (wf_instance w) stages = Inr (tabulate stages f)"
    and "key \<in> sd_key ` set stages" and "parse_stage_notes (wf_instance w) = Inr ns"
  obtains t inst ns' where
    "set_stage_status now w stages key status nt =
       bind_result (reconcile_workflow_state now (w\<lparr>wf_ticket := t, wf_instance := inst\<rparr>) stages True)
         (\<lambda>(w, _). Inr (w, tabulate stages (f(key := status))))"
    and "wi_stages_json inst = serialize_stage_map (tabulate stages (f(key := status))) stages ns'"
    and "nt = None \<Longrightarrow> ns' = ns"
    and "t = (if status \<noteq> StageStatus.BLOCKED \<and> key = tk_workflow_stage_key (wf_ticket w)
              then (wf_ticket w)\<lparr>tk_block_kind := None\<rparr> else wf_ticket w)"
proof
  let ?t = "if status \<noteq> StageStatus.BLOCKED \<and> key = tk_workflow_stage_key (wf_ticket w)
              then (wf_ticket w)\<lparr>tk_block_kind := None\<rparr> else wf_ticket w"
  let ?ns = "case nt of None \<Rightarrow> ns
             | Some n \<Rightarrow> if n \<noteq> [] then dict_set (JStr key) (JStr n) ns else dict_pop (JStr key) ns"
  let ?inst = "(wf_instance w)\<lparr>wi_stages_json :=
      serialize_stage_map (tabulate stages (f(key := status))) stages ?ns\<rparr>"
  show "set_stage_status now w stages key status nt =
       bind_result (reconcile_workflow_state now (w\<lparr>wf_ticket := ?t, wf_instance := ?inst\<rparr>) stages True)
         (\<lambda>(w, _). Inr (w, tabulate stages (f(key := status))))"
    using assms by (simp add: set_stage_status_def dict_has_tabulate dict_set_tabulate Let_def)
  show "wi_stages_json ?inst = serialize_stage_map (tabulate stages (f(key := status))) stages ?ns"
    by simp
qed simp_all

lemma set_stage_status_decodes:
  assumes "set_stage_status now w stages key status nt = Inr (w', m)"
  obtains f ns where "parse_stage_map (wf_instance w) stages = Inr (tabulate stages f)"
    and "key \<in> sd_key ` set stages" and "parse_stage_notes (wf_instance w) = Inr ns"
proof -
  from assms obtain m0 where m0: "parse_stage_map (wf_instance w) stages = Inr m0"
    by (auto simp: set_stage_status_def bind_result_Inr_iff)
  with column.decode_shape obtain f where f: "m0 = tabulate stages f" by blast
  from assms m0 have "key \<in> sd_key ` set stages"
    by (auto simp: set_stage_status_def f dict_has_tabulate split: if_splits)
  moreover from assms m0 obtain ns where "parse_stage_notes (wf_instance w) = Inr ns"
    by (auto simp: set_stage_status_def bind_result_Inr_iff split: if_splits)
  ultimately show thesis using m0 f that by blast
qed

section \<open>No exception once the column decodes\<close>

lemma parse_status_row_Inr:
  "parse_status_row item = Inr (k, s) \<Longrightarrow>
     \<exists>kvs. item = JObj kvs \<and> json_item item ''key'' = Inr k \<and> json_hashable k"
  by (cases item) (auto simp: parse_status_row_def bind_result_Inr_iff split: if_splits)

lemma note_rows_total:
  "map_result parse_status_row items = Inr rows \<Longrightarrow> \<exists>ns. parse_note_rows items = Inr ns"
proof (induction items arbitrary: rows)
  case (Cons item items)
  then obtain k s rows' where "parse_status_row item = Inr (k, s)"
    and rows': "map_result parse_status_row items = Inr rows'"
    by (auto simp: bind_result_Inr_iff)
  then obtain kvs where "item = JObj kvs" "json_item item ''key'' = Inr k" "json_hashable k"
    by (auto dest: parse_status_row_Inr)
  with Cons.IH [OF rows'] show ?case by auto
qed simp

lemma parse_stage_notes_total:
  assumes "parse_stage_map inst stages = Inr m"
  shows "\<exists>ns. parse_stage_notes inst = Inr ns"
  using assms note_rows_total
  by (fastforce simp: parse_stage_map_def parse_stage_notes_def bind_result_Inr_iff)

lemma reconcile_total:
  assumes "parse_stage_map (wf_instance w) stages = Inr m"
  shows "\<exists>w'. reconcile_workflow_state now w stages owns = Inr (w', m)"
proof -
  from parse_stage_notes_total [OF assms] obtain ns where "parse_stage_notes (wf_instance w) = Inr ns" ..
  moreover obtain k s where "cursor_stage (wf_ticket w) m stages = (k, s)" by fastforce
  ultimately show ?thesis
    by (simp add: reconcile_workflow_state_def derive_workflow_Inr_intro [OF assms])
qed

lemma reconcile_keeps_map:
  assumes "reconcile_workflow_state now w stages owns = Inr (w', m)"
  shows "parse_stage_map (wf_instance w) stages = Inr m"
    and "parse_stage_map (wf_instance w') stages = Inr m"
  using assms reconcile_idempotent [OF assms]
  by (auto elim!: reconcile_Inr derive_workflow_Inr)

lemma set_stage_status_total:
  assumes "parse_stage_map (wf_instance w) stages = Inr (tabulate stages f)"
    and "key \<in> sd_key ` set stages"
  obtains w' where "set_stage_status now w stages key status nt
      = Inr (w', tabulate stages (f(key := status)))"
    and "parse_stage_map (wf_instance w') stages = Inr (tabulate stages (f(key := status)))"
proof -
  from parse_stage_notes_total [OF assms(1)] obtain ns where "parse_stage_notes (wf_instance w) = Inr ns" ..
  from set_stage_status_step [OF assms this, of now status nt] obtain t inst ns' where
    step: "set_stage_status now w stages key status nt =
       bind_result (reconcile_workflow_state now (w\<lparr>wf_ticket := t, wf_instance := inst\<rparr>) stages True)
         (\<lambda>(w, _). Inr (w, tabulate stages (f(key := status))))"
    and json: "wi_stages_json inst = serialize_stage_map (tabulate stages (f(key := status))) stages ns'"
    by metis
  have "parse_stage_map (wf_instance (w\<lparr>wf_ticket := t, wf_instance := inst\<rparr>)) stages
      = Inr (tabulate stages (f(key := status)))"
    using column.decode_encode [OF json] by simp
  from reconcile_total [OF this] obtain w' where
    w': "reconcile_workflow_state now (w\<lparr>wf_ticket := t, wf_instance := inst\<rparr>) stages True
      = Inr (w', tabulate stages (f(key := status)))" ..
  show thesis
  proof (rule that)
    show "set_stage_status now w stages key status nt = Inr (w', tabulate stages (f(key := status)))"
      unfolding step w' by simp
    show "parse_stage_map (wf_instance w') stages = Inr (tabulate stages (f(key := status)))"
      using w' by (rule reconcile_keeps_map(2))
  qed
qed

lemma set_stage_status_Inr:
  assumes "set_stage_status now w stages key status nt = Inr (w', m)"
  obtains f where "parse_stage_map (wf_instance w) stages = Inr (tabulate stages f)"
    and "key \<in> sd_key ` set stages" and "m = tabulate stages (f(key := status))"
    and "parse_stage_map (wf_instance w') stages = Inr (tabulate stages (f(key := status)))"
proof -
  from assms obtain f where f: "parse_stage_map (wf_instance w) stages = Inr (tabulate stages f)"
    and key: "key \<in> sd_key ` set stages" by (rule set_stage_status_decodes)
  from set_stage_status_total [OF f key, of now status nt] obtain w1 where
    "set_stage_status now w stages key status nt = Inr (w1, tabulate stages (f(key := status)))"
    and p1: "parse_stage_map (wf_instance w1) stages = Inr (tabulate stages (f(key := status)))" .
  with assms have "w1 = w'" "m = tabulate stages (f(key := status))" by simp_all
  with p1 f key that show thesis by simp
qed

lemma set_stage_statuses_total:
  assumes "parse_stage_map (wf_instance w) stages = Inr (tabulate stages f)"
    and "set keys \<subseteq> sd_key ` set stages"
  shows "\<exists>w'. set_stage_statuses now w stages keys status = Inr w'
           \<and> parse_stage_map (wf_instance w') stages
               = Inr (tabulate stages (\<lambda>k. if k \<in> set keys then status else f k))"
  using assms
proof (induction keys arbitrary: w f)
  case (Cons key keys)
  let ?f = "f(key := status)"
  from set_stage_status_total [OF Cons.prems(1), of key now status None] Cons.prems(2)
  obtain w1 where w1: "set_stage_status now w stages key status None = Inr (w1, tabulate stages ?f)"
    and p1: "parse_stage_map (wf_instance w1) stages = Inr (tabulate stages ?f)"
    by auto
  from Cons.IH [OF p1] Cons.prems(2) obtain w' where
    "set_stage_statuses now w1 stages keys status = Inr w'"
    and "parse_stage_map (wf_instance w') stages
      = Inr (tabulate stages (\<lambda>k. if k \<in> set keys then status else ?f k))" by auto
  moreover have "(\<lambda>k. if k \<in> set keys then status else ?f k)
      = (\<lambda>k. if k \<in> set (key # keys) then status else f k)" by auto
  ultimately show ?case using w1 by simp
qed simp

lemma settle_unreached_total:
  assumes m: "parse_stage_map (wf_instance w) stages = Inr (tabulate stages f)"
  obtains w' keys where "settle_unreached_stages now w stages terminal_key = Inr (w', keys)"
    and "\<And>k. k \<in> set keys \<longleftrightarrow> k \<in> sd_key ` set stages \<and> k \<noteq> terminal_key \<and> f k = StageStatus.PENDING"
    and "parse_stage_map (wf_instance w') stages
      = Inr (tabulate stages (\<lambda>k. if k \<in> set keys then StageStatus.WONT_DO else f k))"
proof -
  define keys where "keys = map sd_key (filter (\<lambda>stage. sd_key stage \<noteq> terminal_key
             \<and> dict_get (tabulate stages f) (sd_key stage) StageStatus.PENDING = StageStatus.PENDING) stages)"
  have mem: "k \<in> set keys \<longleftrightarrow> k \<in> sd_key ` set stages \<and> k \<noteq> terminal_key \<and> f k = StageStatus.PENDING" for k
    by (auto simp: keys_def dict_get_tabulate)
  then have "set keys \<subseteq> sd_key ` set stages" by blast
  from set_stage_statuses_total [OF m this] obtain w' where
    w': "set_stage_statuses now w stages keys StageStatus.WONT_DO = Inr w'"
    and p': "parse_stage_map (wf_instance w') stages
      = Inr (tabulate stages (\<lambda>k. if k \<in> set keys then StageStatus.WONT_DO else f k))" by blast
  have "settle_unreached_stages now w stages terminal_key = Inr (w', keys)"
    unfolding settle_unreached_stages_def m bind_result_simps Let_def keys_def [symmetric] w' by simp
  from that [OF this mem p'] show thesis .
qed

section \<open>Views\<close>

lemma views_from_cong:
  assumes "\<And>k. k \<in> sd_key ` set stages \<Longrightarrow>
    dict_get ns (JStr k) (JStr []) = dict_get ns' (JStr k) (JStr [])"
  shows "views_from (tabulate stages f) stages ns = views_from (tabulate stages f) stages ns'"
proof -
  have "dict_get ns (JStr (sd_key x)) (JStr []) = dict_get ns' (JStr (sd_key x)) (JStr [])"
    if "x \<in> set (ordered stages)" for x
    using assms [of "sd_key x"] that by simp
  then show ?thesis
    unfolding views_from_def by (intro map_result_cong refl) (simp split: option.splits)
qed

lemma reconcile_notes:
  assumes "reconcile_workflow_state now w stages owns = Inr (w', m)"
  obtains ns ns' where "parse_stage_notes (wf_instance w) = Inr ns"
    and "parse_stage_notes (wf_instance w') = Inr ns'"
    and "\<And>k. k \<in> sd_key ` set stages \<Longrightarrow>
      dict_get ns' (JStr k) (JStr []) = dict_get ns (JStr k) (JStr [])"
proof -
  from assms obtain d ns where d: "derive_workflow (wf_ticket w) (wf_instance w) stages = Inr d"
    and ns: "parse_stage_notes (wf_instance w) = Inr ns"
    and w': "w' = apply_derivation now w stages owns d ns" by (rule reconcile_Inr)
  from d obtain f where "wd_stage_map d = tabulate stages f" by (rule derive_workflow_Inr)
  then have json: "wi_stages_json (wf_instance w') = serialize_stage_map (tabulate stages f) stages ns"
    by (simp add: w' apply_derivation_instance)
  with column.notes_encode obtain ns' where ns': "parse_stage_notes (wf_instance w') = Inr ns'" by blast
  show thesis by (rule that [OF ns ns' column.notes_survive [OF ns json ns']])
qed

lemma set_stage_status_notes:
  assumes "set_stage_status now w stages key status None = Inr (w', m)"
  obtains ns ns' where "parse_stage_notes (wf_instance w) = Inr ns"
    and "parse_stage_notes (wf_instance w') = Inr ns'"
    and "\<And>k. k \<in> sd_key ` set stages \<Longrightarrow>
      dict_get ns' (JStr k) (JStr []) = dict_get ns (JStr k) (JStr [])"
proof -
  from assms obtain f ns where f: "parse_stage_map (wf_instance w) stages = Inr (tabulate stages f)"
    and key: "key \<in> sd_key ` set stages" and ns: "parse_stage_notes (wf_instance w) = Inr ns"
    by (rule set_stage_status_decodes)
  from set_stage_status_step [OF f key ns, of now status None] obtain t inst where
    step: "set_stage_status now w stages key status None =
       bind_result (reconcile_workflow_state now (w\<lparr>wf_ticket := t, wf_instance := inst\<rparr>) stages True)
         (\<lambda>(w, _). Inr (w, tabulate stages (f(key := status))))"
    and json: "wi_stages_json inst = serialize_stage_map (tabulate stages (f(key := status))) stages ns"
    by metis
  from assms step obtain m' where
    rec: "reconcile_workflow_state now (w\<lparr>wf_ticket := t, wf_instance := inst\<rparr>) stages True = Inr (w', m')"
    by (auto simp: bind_result_Inr_iff)
  from rec obtain ns1 ns' where ns1: "parse_stage_notes inst = Inr ns1"
    and ns': "parse_stage_notes (wf_instance w') = Inr ns'"
    and keep: "\<And>k. k \<in> sd_key ` set stages \<Longrightarrow>
      dict_get ns' (JStr k) (JStr []) = dict_get ns1 (JStr k) (JStr [])"
    by (rule reconcile_notes) simp
  show thesis
  proof (rule that [OF ns ns'])
    fix k assume k: "k \<in> sd_key ` set stages"
    show "dict_get ns' (JStr k) (JStr []) = dict_get ns (JStr k) (JStr [])"
      using keep [OF k] column.notes_survive [OF ns json ns1 k] by simp
  qed
qed


lemma set_stage_status_settled:
  assumes "set_stage_status now w stages key status nt = Inr (w', m)"
  shows "reconcile_workflow_state now w' stages True = Inr (w', m)"
proof -
  from assms obtain f ns where f: "parse_stage_map (wf_instance w) stages = Inr (tabulate stages f)"
    and key: "key \<in> sd_key ` set stages" and ns: "parse_stage_notes (wf_instance w) = Inr ns"
    by (rule set_stage_status_decodes)
  from set_stage_status_step [OF f key ns, of now status nt] obtain t inst where
    step: "set_stage_status now w stages key status nt =
       bind_result (reconcile_workflow_state now (w\<lparr>wf_ticket := t, wf_instance := inst\<rparr>) stages True)
         (\<lambda>(w, _). Inr (w, tabulate stages (f(key := status))))" by metis
  from assms step obtain m' where
    rec: "reconcile_workflow_state now (w\<lparr>wf_ticket := t, wf_instance := inst\<rparr>) stages True = Inr (w', m')"
    by (auto simp: bind_result_Inr_iff)
  have again: "reconcile_workflow_state now w' stages True = Inr (w', m')"
    by (rule reconcile_idempotent [OF rec])
  from reconcile_keeps_map(2) [OF rec] assms have "m' = m"
    by (metis set_stage_status_Inr Inr_inject)
  with again show ?thesis by simp
qed

section \<open>Which stage runs\<close>

lemma next_executable_active:
  assumes "next_executable_stage stages m = Some k"
    and "map_of m k \<noteq> Some StageStatus.PENDING"
  shows "map_of m k = Some StageStatus.RUNNING \<or>
     (map_of m k = Some StageStatus.AWAITING \<and>
      (\<forall>k' \<in> set (ordered_keys stages). map_of m k' \<noteq> Some StageStatus.RUNNING))"
  using assms
  by (auto simp: next_executable_stage_def Let_def find_None_iff' dest!: find_Some_iff'
      split: option.splits if_splits)

lemma next_executable_pending:
  assumes "next_executable_stage stages m = Some k" and "map_of m k = Some StageStatus.PENDING"
  shows "\<forall>k' \<in> set (ordered_keys stages).
      map_of m k' \<notin> Some ` {StageStatus.RUNNING, StageStatus.AWAITING, StageStatus.BLOCKED}"
    and "find (\<lambda>key. map_of m key = Some StageStatus.PENDING) (ordered_keys stages) = Some k"
  using assms
  by (auto simp: next_executable_stage_def Let_def find_None_iff' dest!: find_Some_iff'
      split: option.splits if_splits)

lemma next_executable_None:
  "next_executable_stage stages m = None \<longleftrightarrow>
     (\<forall>k \<in> set (ordered_keys stages). map_of m k \<notin> Some ` {StageStatus.RUNNING, StageStatus.AWAITING}) \<and>
     ((\<exists>k \<in> set (ordered_keys stages). map_of m k = Some StageStatus.BLOCKED) \<or>
      (\<forall>k \<in> set (ordered_keys stages). map_of m k \<noteq> Some StageStatus.PENDING))"
  by (auto simp: next_executable_stage_def Let_def find_None_iff' dest!: find_Some_iff'
      split: option.splits if_splits)

lemma derive_ticket_state_DONE_iff:
  "derive_ticket_state m stages issues status = TicketState.DONE \<longleftrightarrow>
     StageStatus.BLOCKED \<notin> set (dict_values m) \<and>
     \<not> (issues \<noteq> [] \<and> status \<in> {StageStatus.BLOCKED, StageStatus.RUNNING, StageStatus.AWAITING}) \<and>
     (\<exists>s \<in> set stages. \<not> sd_optional s) \<and>
     (\<forall>s \<in> set stages. \<not> sd_optional s \<longrightarrow>
        stage_resolved (dict_get m (sd_key s) StageStatus.PENDING)) \<and>
     emptied_groups stages m = []"
  unfolding derive_ticket_state_def Let_def
  by (simp add: list_all_iff list_ex_iff filter_empty_conv) blast

lemma derive_ticket_state_BLOCKED_iff:
  "derive_ticket_state m stages issues status = TicketState.BLOCKED \<longleftrightarrow>
     StageStatus.BLOCKED \<in> set (dict_values m) \<or>
     (issues \<noteq> [] \<and> status \<in> {StageStatus.BLOCKED, StageStatus.RUNNING, StageStatus.AWAITING})"
  unfolding derive_ticket_state_def Let_def by simp

section \<open>The two view builders agree\<close>

lemma build_stage_views_readonly:
  assumes "build_stage_views now w stages owns = Inr (w', views)"
  shows "stage_views_readonly (wf_ticket w) (wf_instance w) stages = Inr views"
proof -
  from assms obtain m m1 ns1 where
    rec: "reconcile_workflow_state now w stages owns = Inr (w', m)"
    and m1: "parse_stage_map (wf_instance w') stages = Inr m1"
    and ns1: "parse_stage_notes (wf_instance w') = Inr ns1"
    and views: "views_from m1 stages ns1 = Inr views"
    by (auto simp: build_stage_views_def bind_result_Inr_iff)
  from rec obtain ns where ns: "parse_stage_notes (wf_instance w) = Inr ns"
    and keep: "\<And>k. k \<in> sd_key ` set stages \<Longrightarrow>
      dict_get ns1 (JStr k) (JStr []) = dict_get ns (JStr k) (JStr [])"
    by (rule reconcile_notes) (simp add: ns1)
  from rec obtain d where d: "derive_workflow (wf_ticket w) (wf_instance w) stages = Inr d"
    and md: "m = wd_stage_map d" by (rule reconcile_Inr)
  from reconcile_keeps_map(2) [OF rec] m1 have m: "m1 = m" by simp
  from d obtain f where f: "wd_stage_map d = tabulate stages f" by (rule derive_workflow_Inr)
  have "views_from m1 stages ns1 = views_from m1 stages ns"
    unfolding m md f by (rule views_from_cong) (rule keep)
  with views d ns m md show ?thesis by (simp add: stage_views_readonly_def)
qed

section \<open>Properties\<close>

text \<open>A three-stage template and a fresh ticket on it, for the instances below.\<close>

definition sample_stages :: "WorkflowStageDef list" where
  "sample_stages = [(plain_stage ''plan'' 1)\<lparr>sd_agent_id := ''planner''\<rparr>,
     (plain_stage ''implement'' 2)\<lparr>sd_agent_id := ''backend_implementer''\<rparr>,
     (plain_stage ''done'' 3)\<lparr>sd_terminal := True\<rparr>]"

definition sample_workflow :: "Workflow" where
  "sample_workflow = \<lparr>wf_ticket = new_ticket ''T1'',
     wf_instance = \<lparr>wi_template_id = [], wi_template_version = None, wi_current_stage_key = [],
       wi_stages_json = initial_stages_json sample_stages,
        wi_updated_at = 0\<rparr>,
     wf_events = [], wf_attached = True\<rparr>"

text \<open>reconciling is idempotent. A second reconcile, which every read of a ticket may
  trigger, writes the same ticket, the same instance and the same events, and returns the
  same stage map: it records no further state change.\<close>

theorem reconcile_twice:
  assumes "reconcile_workflow_state now w stages owns = Inr (w', m)"
  shows "reconcile_workflow_state now w' stages owns = Inr (w', m)"
  by (rule reconcile_idempotent [OF assms])

theorem reconcile_twice_witness:
  "\<exists>w' m. reconcile_workflow_state 7 sample_workflow sample_stages True = Inr (w', m)
     \<and> reconcile_workflow_state 7 w' sample_stages True = Inr (w', m)"
proof -
  have "is_ok (reconcile_workflow_state 7 sample_workflow sample_stages True)" by code_simp
  then obtain w' m where "reconcile_workflow_state 7 sample_workflow sample_stages True = Inr (w', m)"
    by (auto elim: is_okE)
  with reconcile_twice [OF this] show ?thesis by blast
qed

text \<open>C17: what a status write does. When the column decodes and the key is a template key,
  the write succeeds whatever else the row holds; the column then decodes to the old map
  with that one status replaced, the stage notes are kept when the caller gives none, and
  the ticket's cursor and state are those derived from the new map.\<close>

theorem set_stage_status_effect:
  assumes "parse_stage_map (wf_instance w) stages = Inr m" and "key \<in> sd_key ` set stages"
  shows "\<exists>w'. set_stage_status now w stages key status None = Inr (w', dict_set key status m)
     \<and> parse_stage_map (wf_instance w') stages = Inr (dict_set key status m)
     \<and> (\<exists>ns ns'. parse_stage_notes (wf_instance w) = Inr ns \<and> parse_stage_notes (wf_instance w') = Inr ns'
          \<and> (\<forall>k \<in> sd_key ` set stages. dict_get ns' (JStr k) (JStr []) = dict_get ns (JStr k) (JStr [])))
     \<and> reconcile_workflow_state now w' stages True = Inr (w', dict_set key status m)"
proof -
  from parse_stage_map_tabulated [OF assms(1)] obtain f where f: "m = tabulate stages f" by blast
  have m': "dict_set key status m = tabulate stages (f(key := status))"
    by (simp add: f dict_set_tabulate assms(2))
  from set_stage_status_total [OF assms(1) [unfolded f] assms(2), of now status None] obtain w' where
    w': "set_stage_status now w stages key status None = Inr (w', dict_set key status m)"
    and p: "parse_stage_map (wf_instance w') stages = Inr (dict_set key status m)"
    unfolding m' by blast
  from w' obtain ns ns' where "parse_stage_notes (wf_instance w) = Inr ns"
    "parse_stage_notes (wf_instance w') = Inr ns'"
    "\<And>k. k \<in> sd_key ` set stages \<Longrightarrow>
      dict_get ns' (JStr k) (JStr []) = dict_get ns (JStr k) (JStr [])"
    by (rule set_stage_status_notes) blast
  with w' p set_stage_status_settled [OF w'] show ?thesis by blast
qed

theorem set_stage_status_effect_witness:
  "\<exists>w'. set_stage_status 7 sample_workflow sample_stages ''plan'' StageStatus.DONE None
       = Inr (w', [(''plan'', StageStatus.DONE), (''implement'', StageStatus.PENDING),
                   (''done'', StageStatus.PENDING)])"
proof -
  have parsed: "parse_stage_map (wf_instance sample_workflow) sample_stages
     = Inr [(''plan'', StageStatus.PENDING), (''implement'', StageStatus.PENDING),
            (''done'', StageStatus.PENDING)]" by code_simp
  have key: "''plan'' \<in> sd_key ` set sample_stages" by (simp add: sample_stages_def plain_stage_def)
  have "dict_set ''plan'' StageStatus.DONE [(''plan'', StageStatus.PENDING),
     (''implement'', StageStatus.PENDING), (''done'', StageStatus.PENDING)]
     = [(''plan'', StageStatus.DONE), (''implement'', StageStatus.PENDING), (''done'', StageStatus.PENDING)]"
    by code_simp
  with set_stage_status_effect [OF parsed key, of 7 StageStatus.DONE] show ?thesis by metis
qed

text \<open>a status write fails in exactly two ways: the column does not decode (and the
  decoding error is what is raised), or the key is not one the template has.\<close>

theorem set_stage_status_error:
  "set_stage_status now w stages key status nt = Inl e \<longleftrightarrow>
     parse_stage_map (wf_instance w) stages = Inl e
     \<or> (is_ok (parse_stage_map (wf_instance w) stages) \<and> key \<notin> sd_key ` set stages
        \<and> e = ValueError (''Unknown stage key: '' @ key))"
proof (cases "parse_stage_map (wf_instance w) stages")
  case (Inl e')
  then show ?thesis by (auto simp: set_stage_status_def)
next
  case (Inr m)
  then obtain f where f: "m = tabulate stages f" using parse_stage_map_tabulated by blast
  show ?thesis
  proof (cases "key \<in> sd_key ` set stages")
    case True
    with set_stage_status_total [OF Inr [unfolded f] True, of now status nt] Inr show ?thesis by force
  next
    case False
    with Inr show ?thesis by (auto simp: set_stage_status_def f dict_has_tabulate)
  qed
qed


text \<open>C32: a reconcile never un-finishes a ticket and never moves one a person has decided:
  a done ticket stays done, and a locked, won't-do or parked ticket keeps its state, whatever
  its stages derive; no event is added in those cases.\<close>

theorem reconcile_respects_decisions:
  assumes "reconcile_workflow_state now w stages owns = Inr (w', m)"
    and "tk_state (wf_ticket w) \<in> {TicketState.DONE, TicketState.WONT_DO, TicketState.PARKED}
         \<or> tk_state_locked (wf_ticket w) \<or> \<not> owns"
  shows "tk_state (wf_ticket w') = tk_state (wf_ticket w) \<and> wf_events w' = wf_events w"
proof
  from assms(1) obtain d ns where w': "w' = apply_derivation now w stages owns d ns"
    by (rule reconcile_Inr)
  show state: "tk_state (wf_ticket w') = tk_state (wf_ticket w)"
    using assms(2) by (auto simp: w' reconciled_state)
  show "wf_events w' = wf_events w"
    using assms(2) derive_door.door_writes_iff [of now "placed (wf_ticket w) d" "wd_ticket_state d" "''workflow''"]
    by (auto simp: w' apply_derivation_events)
qed

theorem reconcile_respects_decisions_witness:
  "\<exists>w' m. reconcile_workflow_state 7 (sample_workflow\<lparr>wf_ticket := (new_ticket ''T1'')\<lparr>tk_state := TicketState.PARKED\<rparr>\<rparr>)
       sample_stages True = Inr (w', m) \<and> tk_state (wf_ticket w') = TicketState.PARKED"
proof -
  let ?w = "sample_workflow\<lparr>wf_ticket := (new_ticket ''T1'')\<lparr>tk_state := TicketState.PARKED\<rparr>\<rparr>"
  have "is_ok (reconcile_workflow_state 7 ?w sample_stages True)" by code_simp
  then obtain w' m where "reconcile_workflow_state 7 ?w sample_stages True = Inr (w', m)"
    by (auto elim: is_okE)
  with reconcile_respects_decisions [OF this] show ?thesis by auto
qed

text \<open>the read-only view and the writing view of a workflow agree: whatever a reconcile
  writes, the stage views built after it are the ones the read-only builder derives from
  the row as it was.\<close>

theorem stage_views_agree:
  assumes "build_stage_views now w stages owns = Inr (w', views)"
  shows "stage_views_readonly (wf_ticket w) (wf_instance w) stages = Inr views"
  by (rule build_stage_views_readonly [OF assms])

theorem stage_views_agree_witness:
  "\<exists>w' views. build_stage_views 7 sample_workflow sample_stages True = Inr (w', views)
     \<and> stage_views_readonly (wf_ticket sample_workflow) (wf_instance sample_workflow) sample_stages = Inr views"
proof -
  have "is_ok (build_stage_views 7 sample_workflow sample_stages True)" by code_simp
  then obtain w' views where "build_stage_views 7 sample_workflow sample_stages True = Inr (w', views)"
    by (auto elim: is_okE)
  with stage_views_agree [OF this] show ?thesis by blast
qed

text \<open>settling a finished workflow. When the column decodes, settling succeeds; afterwards
  no stage but the terminal one is pending, the stages it returns are exactly those that
  were pending, they are won't-do, and no other status has changed.\<close>

theorem settle_leaves_none_pending:
  assumes "parse_stage_map (wf_instance w) stages = Inr m"
  shows "\<exists>w' keys m'. settle_unreached_stages now w stages terminal_key = Inr (w', keys)
     \<and> parse_stage_map (wf_instance w') stages = Inr m'
     \<and> (\<forall>k. k \<in> set keys \<longleftrightarrow> k \<in> sd_key ` set stages \<and> k \<noteq> terminal_key
             \<and> dict_get m k StageStatus.PENDING = StageStatus.PENDING)
     \<and> (\<forall>k \<in> sd_key ` set stages. map_of m' k =
             (if k \<in> set keys then Some StageStatus.WONT_DO else map_of m k))
     \<and> (\<forall>k \<in> sd_key ` set stages. k \<noteq> terminal_key \<longrightarrow> map_of m' k \<noteq> Some StageStatus.PENDING)"
proof -
  from parse_stage_map_tabulated [OF assms] obtain f where f: "m = tabulate stages f" by blast
  from settle_unreached_total [OF assms [unfolded f], of now terminal_key] obtain w' keys where
    s: "settle_unreached_stages now w stages terminal_key = Inr (w', keys)"
    and keys: "\<And>k. k \<in> set keys \<longleftrightarrow> k \<in> sd_key ` set stages \<and> k \<noteq> terminal_key \<and> f k = StageStatus.PENDING"
    and p: "parse_stage_map (wf_instance w') stages
      = Inr (tabulate stages (\<lambda>k. if k \<in> set keys then StageStatus.WONT_DO else f k))" by blast
  show ?thesis
    by (intro exI conjI, rule s, rule p) (auto simp: keys f dict_get_tabulate map_of_tabulate)
qed

theorem settle_leaves_none_pending_witness:
  "\<exists>w' keys. settle_unreached_stages 7 sample_workflow sample_stages ''done'' = Inr (w', keys)
     \<and> set keys = {''plan'', ''implement''}"
proof -
  define m where "m = [(''plan'', StageStatus.PENDING), (''implement'', StageStatus.PENDING),
            (''done'', StageStatus.PENDING)]"
  have parsed: "parse_stage_map (wf_instance sample_workflow) sample_stages = Inr m"
    unfolding m_def by code_simp
  have ks: "sd_key ` set sample_stages = {''plan'', ''implement'', ''done''}"
    by (simp add: sample_stages_def plain_stage_def)
  have get: "dict_get m ''plan'' StageStatus.PENDING = StageStatus.PENDING"
    "dict_get m ''implement'' StageStatus.PENDING = StageStatus.PENDING"
    unfolding m_def by code_simp+
  from settle_leaves_none_pending [OF parsed, of 7 "''done''"] obtain w' keys where
    s: "settle_unreached_stages 7 sample_workflow sample_stages ''done'' = Inr (w', keys)"
    and mem: "\<forall>k. k \<in> set keys \<longleftrightarrow> k \<in> sd_key ` set sample_stages \<and> k \<noteq> ''done''
        \<and> dict_get m k StageStatus.PENDING = StageStatus.PENDING"
    by (elim exE conjE) (rule that)
  have "set keys = {''plan'', ''implement''}"
    unfolding set_eq_iff mem [rule_format] ks using get by auto
  with s show ?thesis by blast
qed

text \<open>which stage a workflow offers to run: a running stage if there is one, else an
  awaiting one, else, when nothing is blocked, the first pending stage in template order;
  nothing exactly when no stage is running or awaiting and either one is blocked or none is
  pending.\<close>

theorem next_executable_stage_spec:
  "case next_executable_stage stages m of
     None \<Rightarrow> \<not> (\<exists>k \<in> set (ordered_keys stages). map_of m k \<in> {Some StageStatus.RUNNING, Some StageStatus.AWAITING})
        \<and> ((\<exists>k \<in> set (ordered_keys stages). map_of m k = Some StageStatus.BLOCKED)
           \<or> (find (\<lambda>k. map_of m k = Some StageStatus.PENDING) (ordered_keys stages) = None))
   | Some k \<Rightarrow> map_of m k = Some StageStatus.RUNNING
        \<or> (map_of m k = Some StageStatus.AWAITING
           \<and> \<not> (\<exists>k' \<in> set (ordered_keys stages). map_of m k' = Some StageStatus.RUNNING))
        \<or> (find (\<lambda>k. map_of m k = Some StageStatus.PENDING) (ordered_keys stages) = Some k
           \<and> \<not> (\<exists>k' \<in> set (ordered_keys stages). map_of m k' \<in>
                  {Some StageStatus.RUNNING, Some StageStatus.AWAITING, Some StageStatus.BLOCKED}))"
proof (cases "next_executable_stage stages m")
  case None
  then show ?thesis using next_executable_None [of stages m] by (auto simp: find_None_iff')
next
  case (Some k)
  then show ?thesis
    using next_executable_active [OF Some] next_executable_pending [OF Some] by (auto; blast)
qed

end
