(* ===== verification/StudioRouting.thy ===== *)
theory StudioRouting
  imports WorkflowState
begin

text \<open>
  \<open>services/studio_routing.py\<close> (and the lookup of \<open>agents/registry.py\<close> it relies on):
  which agent a stage dispatches for a ticket. A classify stage scores its routes on the
  ticket's title and acceptance criteria; pins (a scope reroute, a repair turn, the
  \<open>next_agent\<close> hint) outrank or break that scoring only where the stage offers the agent.
  Two things the code reads from the session are arguments: the ids the
  \<open>studio_agents\<close> table defines, and the texts of the ticket's plans (\<open>None\<close> when the
  ticket is detached from any session).
\<close>

section \<open>The agent registry\<close>

definition REPAIR_AGENT_ID :: string where
  "REPAIR_AGENT_ID = ''repair''"

record AgentConfig =
  ag_name :: string
  ag_role_file :: string
  ag_adapter :: string
  ag_timeout :: int
  ag_claude_model :: "string option"

definition AGENTS :: "(string, AgentConfig) dict" where
  "AGENTS =
    [(''planner'', \<lparr>ag_name = ''Planner Agent'', ag_role_file = ''agents/1_planner/planner_v1.md'',
        ag_adapter = ''claude'', ag_timeout = 600, ag_claude_model = None\<rparr>),
     (''spec'', \<lparr>ag_name = ''Spec Agent'', ag_role_file = ''agents/2_spec/spec_v1.md'',
        ag_adapter = ''claude'', ag_timeout = 600, ag_claude_model = None\<rparr>),
     (''test_designer'', \<lparr>ag_name = ''Test Designer Agent'', ag_role_file = ''agents/3_test_designer/test_designer_v1.md'',
        ag_adapter = ''claude'', ag_timeout = 600, ag_claude_model = None\<rparr>),
     (''test_breaker'', \<lparr>ag_name = ''Test Breaker Agent'', ag_role_file = ''agents/4_test_breaker/test_breaker_v1.md'',
        ag_adapter = ''claude'', ag_timeout = 600, ag_claude_model = None\<rparr>),
     (''backend_implementer'', \<lparr>ag_name = ''Backend Implementer Agent'', ag_role_file = ''agents/5_backend_implementer/backend_implementer_v1.md'',
        ag_adapter = ''cursor'', ag_timeout = 1800, ag_claude_model = None\<rparr>),
     (''frontend_implementer'', \<lparr>ag_name = ''Frontend Implementer Agent'', ag_role_file = ''agents/6_frontend_implementer/frontend_implementer_v1.md'',
        ag_adapter = ''cursor'', ag_timeout = 1800, ag_claude_model = None\<rparr>),
     (''static_qa'', \<lparr>ag_name = ''Static QA Agent'', ag_role_file = ''agents/9_static_qa/static_qa_v1.md'',
        ag_adapter = ''claude'', ag_timeout = 600, ag_claude_model = Some ''sonnet''\<rparr>),
     (''gatekeeper'', \<lparr>ag_name = ''Acceptance Criteria Gatekeeper'', ag_role_file = ''agents/15_gatekeeper_review/gatekeeper_review_v1.md'',
        ag_adapter = ''claude'', ag_timeout = 600, ag_claude_model = None\<rparr>),
     (''ac_gatekeeper'', \<lparr>ag_name = ''AC Gatekeeper'', ag_role_file = ''agents/acceptance_criteria_gatekeeper.md'',
        ag_adapter = ''claude'', ag_timeout = 600, ag_claude_model = None\<rparr>),
     (''core_simulation'', \<lparr>ag_name = ''Core Simulation Agent'', ag_role_file = ''agents/5_core_simulation/core_simulation_v1.md'',
        ag_adapter = ''cursor'', ag_timeout = 1800, ag_claude_model = None\<rparr>),
     (''gameplay_systems'', \<lparr>ag_name = ''Gameplay Systems Agent'', ag_role_file = ''agents/6_gameplay_systems/gameplay_systems_v1.md'',
        ag_adapter = ''cursor'', ag_timeout = 1800, ag_claude_model = None\<rparr>),
     (''presentation'', \<lparr>ag_name = ''Presentation Agent'', ag_role_file = ''agents/7_presentation/presentation_v1.md'',
        ag_adapter = ''cursor'', ag_timeout = 1800, ag_claude_model = None\<rparr>),
     (''engine_integration'', \<lparr>ag_name = ''Engine Integration Agent'', ag_role_file = ''agents/8_engine_integration/engine_integration_v1.md'',
        ag_adapter = ''cursor'', ag_timeout = 1800, ag_claude_model = None\<rparr>),
     (''implementation_frontend'', \<lparr>ag_name = ''Implementation Frontend Agent'', ag_role_file = ''agents/misc_agents/implementation_frontend_v1.md'',
        ag_adapter = ''cursor'', ag_timeout = 1800, ag_claude_model = None\<rparr>),
     (''implementation_backend'', \<lparr>ag_name = ''Implementation Backend Agent'', ag_role_file = ''agents/misc_agents/implementation_backend_v1.md'',
        ag_adapter = ''cursor'', ag_timeout = 1800, ag_claude_model = None\<rparr>),
     (''gdscript_reviewer'', \<lparr>ag_name = ''GDScript Reviewer'', ag_role_file = ''agents/common_assets/gdscript_reviewer_v1.md'',
        ag_adapter = ''claude'', ag_timeout = 600, ag_claude_model = None\<rparr>),
     (''verifier'', \<lparr>ag_name = ''Verifier'', ag_role_file = ''agents/misc_agents/verifier_v1.md'',
        ag_adapter = ''claude'', ag_timeout = 900, ag_claude_model = None\<rparr>),
     (''architecture_reviewer'', \<lparr>ag_name = ''Architecture Reviewer'', ag_role_file = ''agents/misc_agents/architecture_reviewer_v1.md'',
        ag_adapter = ''claude'', ag_timeout = 600, ag_claude_model = None\<rparr>),
     (''visual_qa'', \<lparr>ag_name = ''Visual QA'', ag_role_file = ''agents/misc_agents/visual_qa_v1.md'',
        ag_adapter = ''claude'', ag_timeout = 900, ag_claude_model = None\<rparr>),
     (''ui-design-decision'', \<lparr>ag_name = ''UI Design Decision Maker'', ag_role_file = ''agents/misc_agents/ui_design_decision_v1.md'',
        ag_adapter = ''claude'', ag_timeout = 600, ag_claude_model = None\<rparr>),
     (''debugger'', \<lparr>ag_name = ''Debugger'', ag_role_file = ''agents/misc_agents/debugger_v1.md'',
        ag_adapter = ''claude'', ag_timeout = 900, ag_claude_model = None\<rparr>),
     (''repair'', \<lparr>ag_name = ''Repair'', ag_role_file = ''agents/misc_agents/repair_v1.md'',
        ag_adapter = ''claude'', ag_timeout = 2400, ag_claude_model = Some ''sonnet''\<rparr>),
     (''security_reviewer'', \<lparr>ag_name = ''Security Reviewer'', ag_role_file = ''agents/misc_agents/security_reviewer_v1.md'',
        ag_adapter = ''claude'', ag_timeout = 600, ag_claude_model = None\<rparr>),
     (''learning'', \<lparr>ag_name = ''Learning Agent'', ag_role_file = ''agents/9_learning/learning_v1.md'',
        ag_adapter = ''claude'', ag_timeout = 600, ag_claude_model = None\<rparr>),
     (''blog_post'', \<lparr>ag_name = ''Blog Post Agent'', ag_role_file = ''agents/10_blog_post/blog_post_v1.md'',
        ag_adapter = ''claude'', ag_timeout = 600, ag_claude_model = None\<rparr>),
     (''reference_surveyor'', \<lparr>ag_name = ''Reference Surveyor'', ag_role_file = ''agents/misc_agents/reference_surveyor_v1.md'',
        ag_adapter = ''claude'', ag_timeout = 3600, ag_claude_model = None\<rparr>),
     (''retriever'', \<lparr>ag_name = ''Research Librarian'', ag_role_file = ''agents/misc_agents/research_librarian_v1.md'',
        ag_adapter = ''claude'', ag_timeout = 600, ag_claude_model = None\<rparr>),
     (''triage'', \<lparr>ag_name = ''Baxter'', ag_role_file = ''agents/misc_agents/baxter_v1.md'',
        ag_adapter = ''claude'', ag_timeout = 1800, ag_claude_model = Some ''haiku''\<rparr>),
     (''ticket_scoper'', \<lparr>ag_name = ''Ticket Scoper'', ag_role_file = ''agents/misc_agents/ticket_scoper_v1.md'',
        ag_adapter = ''claude'', ag_timeout = 600, ag_claude_model = None\<rparr>),
     (''initiative_planner'', \<lparr>ag_name = ''Initiative Planner'', ag_role_file = ''agents/misc_agents/initiative_planner_v1.md'',
        ag_adapter = ''claude'', ag_timeout = 600, ag_claude_model = None\<rparr>)]"

text \<open>Whether a lookup finds a configuration; the callers use nothing else of it.\<close>

definition get_agent :: "string list \<Rightarrow> string \<Rightarrow> bool" where
  "get_agent studio agent_id \<longleftrightarrow> agent_id \<in> set studio \<or> dict_has AGENTS agent_id"

section \<open>Words and paths in a text\<close>

definition SPECIALTY_SYNONYMS :: "(string, string list) dict" where
  "SPECIALTY_SYNONYMS =
     [(''refactor'', [''refactoring'', ''rename'', ''extract'', ''restructure'',
         ''consolidate'', ''deduplicate'', ''untangle'']),
      (''frontend'', [''ui'', ''component'', ''modal'', ''button'', ''page'', ''screen'',
         ''css'', ''style'', ''styling'', ''react'', ''client'', ''dialog'', ''tooltip'',
         ''layout'', ''render'', ''dom'', ''browser'', ''form'', ''dropdown'', ''menu'',
         ''tab'', ''widget'']),
      (''backend'', [''api'', ''endpoint'', ''server'', ''database'', ''db'', ''schema'',
         ''migration'', ''service'', ''route'', ''controller'', ''query'', ''auth'',
         ''middleware'', ''sql'', ''orm'', ''cron'', ''worker'', ''queue''])]"

definition SPECIALTY_PATH_ROOTS :: "(string, string) dict" where
  "SPECIALTY_PATH_ROOTS = [(''backend'', ''server''), (''frontend'', ''client'')]"

text \<open>The path characters \<open>[\w/.-]\<close>, and the class \<open>[a-z0-9_]\<close>.\<close>

definition is_path_char :: "char \<Rightarrow> bool" where
  "is_path_char c \<longleftrightarrow> is_word_char c \<or> c \<in> {CHR ''/'', CHR ''.'', CHR ''-''}"

definition is_name_start :: "char \<Rightarrow> bool" where
  "is_name_start c = (let n = code_point c in
     (97 \<le> n \<and> n \<le> 122) \<or> (48 \<le> n \<and> n \<le> 57) \<or> n = 95)"

fun head_is_word :: "string \<Rightarrow> bool" where
  "head_is_word [] = False"
| "head_is_word (c # cs) = is_word_char c"

definition last_is_word :: "string \<Rightarrow> bool" where
  "last_is_word s \<longleftrightarrow> s \<noteq> [] \<and> is_word_char (last s)"

text \<open>
  What the pattern of \<open>_source_paths\<close> matches at one position: the root, a slash, a name
  start that does not open \<open>node_modules\<close>, then the longest run of path characters that
  ends in a word character or a slash.
\<close>

definition path_match :: "string \<Rightarrow> string \<Rightarrow> string option" where
  "path_match src_root s =
     (let prefix = src_root @ ''/''; rest = drop (length prefix) s;
          nm = ''node_modules'' in
      if \<not> starts_with s prefix then None
      else if starts_with rest nm \<and> \<not> head_is_word (drop (length nm) rest) then None
      else (case rest of
              [] \<Rightarrow> None
            | c # cs \<Rightarrow>
                if is_name_start c
                then Some (prefix @ c # rev (dropWhile (\<lambda>x. x \<in> {CHR ''.'', CHR ''-''})
                             (rev (takeWhile is_path_char cs))))
                else None))"

text \<open>\<open>findall\<close>: \<open>prev\<close> says whether the character before the position is a path character.\<close>

fun path_scan :: "string \<Rightarrow> bool \<Rightarrow> string \<Rightarrow> string list" where
  "path_scan src_root prev [] = []"
| "path_scan src_root prev (c # cs) =
     (case (if prev then None else path_match src_root (c # cs)) of
        Some m \<Rightarrow> m # path_scan src_root (is_path_char c) cs
      | None \<Rightarrow> path_scan src_root (is_path_char c) cs)"

definition source_paths :: "string \<Rightarrow> string \<Rightarrow> string list" where
  "source_paths src_root haystack = dedup (path_scan src_root False haystack)"

definition path_hits :: "ClassifyRoute \<Rightarrow> string \<Rightarrow> nat" where
  "path_hits route haystack =
     (let roots = filter (\<lambda>src_root. src_root \<noteq> [])
            (dedup (map (\<lambda>spec. dict_get SPECIALTY_PATH_ROOTS (lower spec) []) (cr_specialties route)))
      in sum_list (map (\<lambda>src_root. length (source_paths src_root haystack)) roots))"

text \<open>A search for \<open>\b\<close> word \<open>\b\<close>: \<open>prev\<close> is the character before the position, if any.\<close>

fun prev_is_word :: "char option \<Rightarrow> bool" where
  "prev_is_word None = False"
| "prev_is_word (Some c) = is_word_char c"

fun word_scan :: "string \<Rightarrow> char option \<Rightarrow> string \<Rightarrow> bool" where
  "word_scan w prev s =
     (if (if starts_with s w
          then prev_is_word prev \<noteq> head_is_word s
            \<and> (if w = [] then prev_is_word prev else last_is_word w) \<noteq> head_is_word (drop (length w) s)
          else False)
      then True
      else (case s of [] \<Rightarrow> False | c # cs \<Rightarrow> word_scan w (Some c) cs))"

declare word_scan.simps [simp del]

definition word_in_haystack :: "string \<Rightarrow> string \<Rightarrow> bool" where
  "word_in_haystack word haystack = word_scan (lower word) None haystack"

section \<open>Scoring a route\<close>

definition PRECISE_SYNONYMS :: "string list" where
  "PRECISE_SYNONYMS = [''refactor'']"

definition DIRECT_HIT :: nat where "DIRECT_HIT = 2"
definition SYNONYM_HIT :: nat where "SYNONYM_HIT = 1"
definition OVERRIDE_DEFAULT_SCORE :: nat where "OVERRIDE_DEFAULT_SCORE = 2"
definition UNROUTEABLE_MIN_HITS :: nat where "UNROUTEABLE_MIN_HITS = 2"

record RouteMatch =
  rm_score :: nat
  rm_direct :: nat

definition route_match_score :: "ClassifyRoute \<Rightarrow> string \<Rightarrow> RouteMatch option" where
  "route_match_score route haystack =
     (let hit = (\<lambda>word. word_in_haystack word haystack);
          synonyms = (\<lambda>spec. dict_get SPECIALTY_SYNONYMS (lower spec) []);
          precise = (\<lambda>spec. lower spec \<in> set PRECISE_SYNONYMS);
          direct_specs = filter hit (cr_specialties route);
          precise_specs = filter hit (concat (map synonyms (filter precise (cr_specialties route))));
          broad_specs = filter hit (concat (map synonyms
            (filter (\<lambda>spec. \<not> precise spec) (cr_specialties route))));
          paths = path_hits route haystack in
      if cr_specialties route \<noteq> []
          \<and> \<not> (direct_specs \<noteq> [] \<or> precise_specs \<noteq> [] \<or> broad_specs \<noteq> [] \<or> paths \<noteq> 0)
      then None
      else (let lang_hits = filter hit (cr_languages route);
                direct = length direct_specs + length precise_specs + length lang_hits + paths
            in Some \<lparr>rm_score = DIRECT_HIT * direct + SYNONYM_HIT * length broad_specs,
                     rm_direct = direct\<rparr>))"

section \<open>Specialties nobody on the stage covers\<close>

definition specialty_evidence :: "string \<Rightarrow> (string, nat) dict" where
  "specialty_evidence haystack =
     map (\<lambda>(spec, synonyms). (spec, length (filter (\<lambda>word. word_in_haystack word haystack)
            (spec # synonyms)))) SPECIALTY_SYNONYMS"

definition routes_by_specialist :: "WorkflowStageDef \<Rightarrow> bool" where
  "routes_by_specialist stage \<longleftrightarrow>
     length (dedup (map cr_agent_id (filter (\<lambda>r. \<not> cr_default r) (sd_classify_routes stage)))) > 1"

definition specialty_is_owned :: "WorkflowStageDef \<Rightarrow> string \<Rightarrow> bool" where
  "specialty_is_owned stage specialty \<longleftrightarrow>
     list_ex (\<lambda>route. list_ex (\<lambda>spec. lower spec = specialty) (cr_specialties route)
                      \<or> contains (lower (cr_agent_id route)) specialty) (sd_classify_routes stage)"

definition unowned_specialty :: "WorkflowStageDef \<Rightarrow> string \<Rightarrow> string \<times> nat" where
  "unowned_specialty stage haystack =
     (if \<not> routes_by_specialist stage then ([], 0)
      else (case filter (\<lambda>(spec, hits). hits \<noteq> 0) (specialty_evidence haystack) of
              [] \<Rightarrow> ([], 0)
            | first # rest \<Rightarrow>
                (let evidence = first # rest;
                     (top, top_hits) = max_by snd first rest in
                 if specialty_is_owned stage top then ([], 0)
                 else if top_hits < UNROUTEABLE_MIN_HITS then ([], 0)
                 else if list_ex (\<lambda>(spec, hits). hits \<ge> top_hits \<and> specialty_is_owned stage spec) evidence
                 then ([], 0)
                 else (top, top_hits))))"

section \<open>The decision\<close>

text \<open>\<open>" ".join(value)\<close> of a decoded column; \<open>None\<close> where it raises \<open>TypeError\<close>.\<close>

fun str_item :: "json \<Rightarrow> string option" where
  "str_item (JStr s) = Some s"
| "str_item _ = None"

fun join_json :: "json \<Rightarrow> string option" where
  "join_json (JStr s) = Some (join '' '' (map (\<lambda>c. [c]) s))"
| "join_json (JList xs) =
     (if list_all (\<lambda>x. str_item x \<noteq> None) xs
      then Some (join '' '' (map (\<lambda>x. the (str_item x)) xs)) else None)"
| "join_json (JObj kvs) = Some (join '' '' (map fst kvs))"
| "join_json _ = None"

definition classify_haystack :: "Ticket \<Rightarrow> string" where
  "classify_haystack ticket =
     (let acceptance_criteria =
            (case json_loads_or_list (tk_acceptance_criteria_json ticket) of
               Inl e \<Rightarrow> []
             | Inr v \<Rightarrow> (case join_json v of None \<Rightarrow> [] | Some s \<Rightarrow> s))
      in lower (join '' '' [tk_title ticket, tk_external_id ticket, acceptance_criteria]))"

record ClassifyDecision =
  cd_route :: "ClassifyRoute option"
  cd_basis :: ClassifyBasis
  cd_detail :: string

text \<open>One turn of the loop over the routes: the last default seen, and the first best match.\<close>

type_synonym best = "(ClassifyRoute \<times> RouteMatch) option"

definition weigh_route ::
    "string \<Rightarrow> ClassifyRoute \<Rightarrow> ClassifyRoute option \<times> best \<Rightarrow> ClassifyRoute option \<times> best" where
  "weigh_route haystack route acc =
     (let (default_route, best) = acc in
      (if cr_default route then Some route else default_route,
       (case route_match_score route haystack of
          None \<Rightarrow> best
        | Some match \<Rightarrow>
            (case best of
               None \<Rightarrow> Some (route, match)
             | Some (_, best_match) \<Rightarrow>
                 if rm_score match > rm_score best_match then Some (route, match) else best))))"

text \<open>The message; its one dash outside the modelled characters is spelt as its UTF-8 bytes.\<close>

definition unrouteable_detail :: "WorkflowStageDef \<Rightarrow> string \<Rightarrow> nat \<Rightarrow> string" where
  "unrouteable_detail stage unowned unowned_hits =
     (let declared = sort (dedup (concat (map cr_specialties (sd_classify_routes stage))));
          covered = join '', '' declared;
          agents = sort (dedup (filter (\<lambda>a. a \<noteq> []) (map cr_agent_id (sd_classify_routes stage))))
      in ''this ticket reads as '' @ repr_str unowned @ '' work ('' @ digits_of unowned_hits
         @ '' matching terms) and no route on stage '' @ repr_str (sd_key stage)
         @ '' covers that specialty '' @ [char_of (226::nat), char_of (128::nat), char_of (148::nat)]
         @ '' the routes cover '' @ (if covered = [] then ''(nothing)'' else covered)
         @ '' across agents '' @ join '', '' agents @ ''. Add a route for '' @ repr_str unowned
         @ '' to the workflow template, or re-scope the ticket'')"

definition classify_decision ::
    "string list \<Rightarrow> Ticket \<Rightarrow> WorkflowStageDef \<Rightarrow> ClassifyDecision option" where
  "classify_decision studio ticket stage =
     (if sd_stage_type stage \<noteq> ''classify'' \<or> sd_classify_routes stage = [] then None
      else
        (let haystack = classify_haystack ticket;
             (default_route, best) = fold (weigh_route haystack) (sd_classify_routes stage) (None, None);
             threshold = (if default_route \<noteq> None then OVERRIDE_DEFAULT_SCORE else 1);
             (unowned, unowned_hits) = unowned_specialty stage haystack;
             next_agent = strip (tk_next_agent ticket);
             matches = filter (\<lambda>route. cr_agent_id route = next_agent) (sd_classify_routes stage);
             fallback = (case default_route of Some r \<Rightarrow> r
                         | None \<Rightarrow> (case best of Some (r, _) \<Rightarrow> r
                                    | None \<Rightarrow> hd (sd_classify_routes stage)));
             earned = (case best of
                 Some (best_route, best_match) \<Rightarrow>
                   if rm_score best_match \<ge> threshold then Some (best_route, best_match) else None
               | None \<Rightarrow> None)
         in (case earned of
               Some (best_route, best_match) \<Rightarrow>
                 Some \<lparr>cd_route = Some best_route, cd_basis = ClassifyBasis.CONTENT,
                   cd_detail = ''matched on '' @ digits_of (rm_direct best_match)
                     @ '' declared term(s), score '' @ digits_of (rm_score best_match)\<rparr>
             | None \<Rightarrow>
                 if unowned \<noteq> []
                 then Some \<lparr>cd_route = None, cd_basis = ClassifyBasis.UNROUTEABLE,
                   cd_detail = unrouteable_detail stage unowned unowned_hits\<rparr>
                 else if next_agent \<noteq> [] \<and> get_agent studio next_agent \<and> length matches = 1
                 then Some \<lparr>cd_route = Some (hd matches), cd_basis = ClassifyBasis.PIN,
                   cd_detail = ''next_agent '' @ repr_str next_agent\<rparr>
                 else Some \<lparr>cd_route = Some fallback, cd_basis = ClassifyBasis.DEFAULT,
                   cd_detail = ''no route earned the choice''\<rparr>)))"

section \<open>Reading the decision\<close>

definition resolve_classify_route ::
    "string list \<Rightarrow> Ticket \<Rightarrow> WorkflowStageDef \<Rightarrow> string \<times> string" where
  "resolve_classify_route studio ticket stage =
     (case classify_decision studio ticket stage of
        None \<Rightarrow> (sd_agent_id stage, sd_skill_name stage)
      | Some decision \<Rightarrow>
          (case cd_route decision of
             None \<Rightarrow> ([], [])
           | Some route \<Rightarrow> (cr_agent_id route,
               if cr_skill_name route \<noteq> [] then cr_skill_name route else sd_skill_name stage)))"

definition unrouteable_classify_detail ::
    "string list \<Rightarrow> Ticket \<Rightarrow> WorkflowStageDef \<Rightarrow> string" where
  "unrouteable_classify_detail studio ticket stage =
     (case classify_decision studio ticket stage of
        None \<Rightarrow> []
      | Some decision \<Rightarrow>
          if cd_basis decision \<noteq> ClassifyBasis.UNROUTEABLE then [] else cd_detail decision)"

definition resolve_classify_branch :: "string list \<Rightarrow> Ticket \<Rightarrow> WorkflowStageDef \<Rightarrow> string" where
  "resolve_classify_branch studio ticket stage =
     (case classify_decision studio ticket stage of
        None \<Rightarrow> []
      | Some decision \<Rightarrow> (case cd_route decision of None \<Rightarrow> [] | Some route \<Rightarrow> cr_to_stage route))"

section \<open>The hint\<close>

definition LEGACY_DEFAULT_AGENT_STAGES :: "string list" where
  "LEGACY_DEFAULT_AGENT_STAGES = [''implementation'', ''implement'']"

definition agent_is_overridable :: "WorkflowStageDef \<Rightarrow> bool" where
  "agent_is_overridable stage \<longleftrightarrow>
     sd_agent_is_default stage \<or> sd_key stage \<in> set LEGACY_DEFAULT_AGENT_STAGES"

definition resolve_next_agent_from_routes ::
    "string list \<Rightarrow> Ticket \<Rightarrow> WorkflowStageDef \<Rightarrow> (string \<times> string) option" where
  "resolve_next_agent_from_routes studio ticket stage =
     (let next_agent = strip (tk_next_agent ticket) in
      if next_agent = [] then None
      else if \<not> get_agent studio next_agent then None
      else if sd_classify_routes stage \<noteq> [] then
        (case find (\<lambda>route. cr_agent_id route = next_agent) (sd_classify_routes stage) of
           Some route \<Rightarrow> Some (next_agent,
             if cr_skill_name route \<noteq> [] then cr_skill_name route else sd_skill_name stage)
         | None \<Rightarrow> None)
      else Some (next_agent, sd_skill_name stage))"

definition resolve_next_agent_override ::
    "string list \<Rightarrow> Ticket \<Rightarrow> WorkflowStageDef \<Rightarrow> (string \<times> string) option" where
  "resolve_next_agent_override studio ticket stage =
     (let next_agent = strip (tk_next_agent ticket) in
      if strip (sd_agent_id stage) = []
          \<and> sd_stage_type stage \<notin> {''classify'', ''gate'', ''parallel''} then None
      else if next_agent = [] \<or> sd_stage_type stage \<in> {''parallel'', ''gate''} then None
      else if \<not> get_agent studio next_agent then None
      else if sd_classify_routes stage \<noteq> [] then resolve_next_agent_from_routes studio ticket stage
      else if sd_stage_type stage = ''classify'' then resolve_next_agent_from_routes studio ticket stage
      else if agent_is_overridable stage then Some (next_agent, sd_skill_name stage)
      else if sd_agent_id stage = [] then Some (next_agent, sd_skill_name stage)
      else None)"

section \<open>Kinds of stage\<close>

definition VERIFY_STAGE_TYPE :: string where "VERIFY_STAGE_TYPE = ''verify''"
definition PARALLEL_STAGE_TYPE :: string where "PARALLEL_STAGE_TYPE = ''parallel''"
definition DEFAULT_VERIFIER_AGENT :: string where "DEFAULT_VERIFIER_AGENT = ''verifier''"

definition is_parallel_stage :: "WorkflowStageDef \<Rightarrow> bool" where
  "is_parallel_stage stage \<longleftrightarrow> sd_stage_type stage = PARALLEL_STAGE_TYPE"

definition is_agentless_stage :: "WorkflowStageDef \<Rightarrow> bool" where
  "is_agentless_stage stage =
     (if sd_stage_type stage \<in> {''classify'', ''gate'', ''parallel'', VERIFY_STAGE_TYPE} then False
      else strip (sd_agent_id stage) = [])"

definition is_prunable_stage :: "WorkflowStageDef \<Rightarrow> bool" where
  "is_prunable_stage stage \<longleftrightarrow> sd_optional stage \<and> \<not> is_terminal_stage stage"

definition prunable_stage_keys :: "WorkflowStageDef list \<Rightarrow> string list" where
  "prunable_stage_keys stages = map sd_key (filter is_prunable_stage (ordered stages))"

section \<open>Skip conditions\<close>

definition UI_PATH_MARKERS :: "string list" where
  "UI_PATH_MARKERS = [''client/'', ''.tsx'']"

definition took_light_route :: "string list \<Rightarrow> Ticket \<Rightarrow> WorkflowStageDef list \<Rightarrow> bool" where
  "took_light_route studio ticket stages =
     list_ex (\<lambda>stage. sd_stage_type stage = ''classify''
       \<and> (case classify_decision studio ticket stage of
            None \<Rightarrow> False
          | Some decision \<Rightarrow>
              (case cd_route decision of None \<Rightarrow> False | Some route \<Rightarrow> strip (cr_to_stage route) \<noteq> []))) stages"

definition plan_names_no_ui_paths :: "string list option \<Rightarrow> bool" where
  "plan_names_no_ui_paths plans =
     (case plans of
        None \<Rightarrow> False
      | Some texts \<Rightarrow>
          if texts = [] then False
          else \<not> list_ex (\<lambda>plan. list_ex (\<lambda>marker. contains plan marker) UI_PATH_MARKERS) texts)"

definition should_skip_stage ::
    "string list \<Rightarrow> string list option \<Rightarrow> Ticket \<Rightarrow> WorkflowStageDef \<Rightarrow> WorkflowStageDef list \<Rightarrow> bool" where
  "should_skip_stage studio plans ticket stage stages =
     (let condition = strip (sd_skip_when stage) in
      if condition = [] then False
      else if condition = ''has_description'' then strip (tk_description ticket) \<noteq> []
      else if condition = ''has_acceptance_criteria'' then
        (case json_loads_or_list (tk_acceptance_criteria_json ticket) of
           Inl e \<Rightarrow> False
         | Inr criteria \<Rightarrow> json_truthy criteria)
      else if condition = ''routed_as_light_work'' then took_light_route studio ticket stages
      else if condition = ''no_ui_work''
      then took_light_route studio ticket stages \<or> plan_names_no_ui_paths plans
      else False)"

section \<open>Pins and the dispatched agent\<close>

definition stage_offers_agent :: "WorkflowStageDef \<Rightarrow> string \<Rightarrow> (string \<times> string) option" where
  "stage_offers_agent stage agent_id =
     (case find (\<lambda>route. cr_agent_id route = agent_id) (sd_classify_routes stage) of
        Some route \<Rightarrow> Some (agent_id,
          if cr_skill_name route \<noteq> [] then cr_skill_name route else sd_skill_name stage)
      | None \<Rightarrow>
          if strip (sd_agent_id stage) = agent_id then Some (agent_id, sd_skill_name stage) else None)"

definition resolve_scope_reroute_pin ::
    "string list \<Rightarrow> Ticket \<Rightarrow> WorkflowStageDef \<Rightarrow> (string \<times> string) option" where
  "resolve_scope_reroute_pin studio ticket stage =
     (let pinned = strip (tk_scope_reroute_agent ticket) in
      if pinned = [] \<or> \<not> get_agent studio pinned then None else stage_offers_agent stage pinned)"

definition repair_pin_applies :: "WorkflowStageDef \<Rightarrow> bool" where
  "repair_pin_applies stage \<longleftrightarrow> sd_stage_type stage \<noteq> ''gate''"

definition resolve_repair_pin ::
    "string list \<Rightarrow> Ticket \<Rightarrow> WorkflowStageDef \<Rightarrow> (string \<times> string) option" where
  "resolve_repair_pin studio ticket stage =
     (if strip (tk_next_agent ticket) \<noteq> REPAIR_AGENT_ID then None
      else if \<not> repair_pin_applies stage \<or> \<not> get_agent studio REPAIR_AGENT_ID then None
      else Some (REPAIR_AGENT_ID, []))"

definition resolve_stage_execution ::
    "string list \<Rightarrow> Ticket \<Rightarrow> WorkflowStageDef \<Rightarrow> string \<times> string" where
  "resolve_stage_execution studio ticket stage =
     (case resolve_scope_reroute_pin studio ticket stage of
        Some pinned \<Rightarrow> pinned
      | None \<Rightarrow>
        (case resolve_repair_pin studio ticket stage of
           Some repair \<Rightarrow> repair
         | None \<Rightarrow>
            if sd_stage_type stage = ''classify'' then resolve_classify_route studio ticket stage
            else if sd_stage_type stage = ''gate''
            then (if sd_agent_id stage \<noteq> [] then sd_agent_id stage else ''gatekeeper'', sd_skill_name stage)
            else if is_parallel_stage stage then ([], [])
            else if sd_stage_type stage = VERIFY_STAGE_TYPE
            then (if sd_agent_id stage \<noteq> [] then sd_agent_id stage else DEFAULT_VERIFIER_AGENT,
                  sd_skill_name stage)
            else (case resolve_next_agent_override studio ticket stage of
                    Some routed \<Rightarrow> routed
                  | None \<Rightarrow> (sd_agent_id stage, sd_skill_name stage))))"

definition resolve_display_agent :: "string list \<Rightarrow> Ticket \<Rightarrow> WorkflowStageDef \<Rightarrow> string" where
  "resolve_display_agent studio ticket stage =
     (let agent_id = fst (resolve_stage_execution studio ticket stage);
          members = filter (\<lambda>a. a \<noteq> []) (map pa_agent_id (sd_parallel_agents stage)) in
      if agent_id \<noteq> [] then agent_id
      else if is_parallel_stage stage \<and> members \<noteq> [] then hd members
      else sd_agent_id stage)"

definition ticket_stage_definition ::
    "Ticket \<Rightarrow> WorkflowStageDef list \<Rightarrow> string \<Rightarrow> WorkflowStageDef option" where
  "ticket_stage_definition ticket stages stage_key =
     (let key = (if stage_key \<noteq> [] then stage_key else tk_workflow_stage_key ticket) in
      if key = [] then None else find (\<lambda>stage. sd_key stage = key) stages)"

definition ticket_stage_agent ::
    "string list \<Rightarrow> Ticket \<Rightarrow> WorkflowStageDef list \<Rightarrow> string \<Rightarrow> string" where
  "ticket_stage_agent studio ticket stages stage_key =
     (case ticket_stage_definition ticket stages stage_key of
        None \<Rightarrow> [] | Some stage \<Rightarrow> resolve_display_agent studio ticket stage)"

section \<open>Facts\<close>

text \<open>A word is found exactly where it stands between two word boundaries.\<close>

definition word_boundary :: "string \<Rightarrow> string \<Rightarrow> bool" where
  "word_boundary l r \<longleftrightarrow> last_is_word l \<noteq> head_is_word r"

lemma last_is_word_append:
  "last_is_word (l @ w) \<longleftrightarrow> (if w = [] then last_is_word l else last_is_word w)"
  by (simp add: last_is_word_def)

lemma last_is_word_simps [simp]:
  "last_is_word [] = False" "last_is_word (l @ [c]) = is_word_char c"
  by (simp_all add: last_is_word_def)

lemma ex_list: "(\<exists>l. Q l) \<longleftrightarrow> Q [] \<or> (\<exists>x l. Q (x # l))"
  by (metis list.exhaust)

definition prev_of :: "string \<Rightarrow> char option" where
  "prev_of l = (if l = [] then None else Some (last l))"

lemma prev_is_word_prev_of [simp]: "prev_is_word (prev_of l) = last_is_word l"
  by (simp add: prev_of_def last_is_word_def)

lemma match_here:
  "(if starts_with s w then last_is_word l \<noteq> head_is_word s
     \<and> (if w = [] then last_is_word l else last_is_word w) \<noteq> head_is_word (drop (length w) s)
    else False)
   \<longleftrightarrow> (\<exists>r. s = w @ r \<and> word_boundary l (w @ r) \<and> word_boundary (l @ w) r)"
  by (auto simp: starts_with_iff word_boundary_def last_is_word_append)

lemma word_scan_iff:
  "word_scan w (prev_of l0) s \<longleftrightarrow>
     (\<exists>l r. s = l @ w @ r \<and> word_boundary (l0 @ l) (w @ r) \<and> word_boundary (l0 @ l @ w) r)"
proof (induction s arbitrary: l0)
  case Nil
  show ?case
    by (cases w) (auto simp: word_scan.simps word_boundary_def last_is_word_append)
next
  case (Cons c s)
  note here = match_here [of "c # s" w l0]
  have "word_scan w (Some c) s \<longleftrightarrow>
     (\<exists>l r. s = l @ w @ r \<and> word_boundary (l0 @ c # l) (w @ r) \<and> word_boundary (l0 @ c # l @ w) r)"
    using Cons.IH [of "l0 @ [c]"] by (simp add: prev_of_def)
  moreover have "(\<exists>l r. c # s = l @ w @ r \<and> word_boundary (l0 @ l) (w @ r) \<and> word_boundary (l0 @ l @ w) r)
     \<longleftrightarrow> (\<exists>r. c # s = w @ r \<and> word_boundary l0 (w @ r) \<and> word_boundary (l0 @ w) r)
       \<or> (\<exists>l r. s = l @ w @ r \<and> word_boundary (l0 @ c # l) (w @ r) \<and> word_boundary (l0 @ c # l @ w) r)"
    by (subst ex_list) simp
  ultimately show ?case
    unfolding word_scan.simps [of w "prev_of l0" "c # s"] prev_is_word_prev_of here list.case
    by (simp only: if_bool_eq_disj simp_thms) blast
qed

lemma word_in_haystack_iff:
  "word_in_haystack word haystack \<longleftrightarrow>
     (\<exists>l r. haystack = l @ lower word @ r \<and> word_boundary l (lower word @ r)
        \<and> word_boundary (l @ lower word) r)"
  using word_scan_iff [of "lower word" "[]" haystack] by (simp add: word_in_haystack_def prev_of_def)

section \<open>The loop over the routes\<close>

lemma weigh_route_eq:
  "weigh_route h route (d, b) =
     (if cr_default route then Some route else d,
      case route_match_score route h of
        None \<Rightarrow> b
      | Some match \<Rightarrow>
          (case b of
             None \<Rightarrow> Some (route, match)
           | Some (_, best_match) \<Rightarrow>
               if rm_score match > rm_score best_match then Some (route, match) else b))"
  by (simp add: weigh_route_def)

definition best_of :: "string \<Rightarrow> ClassifyRoute list \<Rightarrow> best \<Rightarrow> bool" where
  "best_of h routes b \<longleftrightarrow>
     (case b of
        None \<Rightarrow> \<forall>r \<in> set routes. route_match_score r h = None
      | Some (r, m) \<Rightarrow> r \<in> set routes \<and> route_match_score r h = Some m
          \<and> (\<forall>r' \<in> set routes. \<forall>m'. route_match_score r' h = Some m' \<longrightarrow> rm_score m' \<le> rm_score m))"

lemma weigh_routes:
  assumes "fold (weigh_route h) routes (None, None) = (d, b)"
  shows "d = find cr_default (rev routes)" and "best_of h routes b"
proof -
  have "fst (fold (weigh_route h) routes (None, None)) = find cr_default (rev routes)
      \<and> best_of h routes (snd (fold (weigh_route h) routes (None, None)))"
  proof (induction routes rule: rev_induct)
    case Nil
    show ?case by (simp add: best_of_def)
  next
    case (snoc x xs)
    obtain d b where db: "fold (weigh_route h) xs (None, None) = (d, b)" by fastforce
    with snoc have b: "best_of h xs b" and d: "d = find cr_default (rev xs)" by simp_all
    have "best_of h (xs @ [x]) (snd (weigh_route h x (d, b)))"
      using b unfolding best_of_def weigh_route_eq
      by (cases "route_match_score x h"; cases b) (auto, meson dual_order.trans less_imp_le)
    with d show ?case by (simp add: db weigh_route_eq)
  qed
  with assms show "d = find cr_default (rev routes)" and "best_of h routes b" by simp_all
qed

text \<open>The four ways a decision comes about.\<close>

definition earned_route :: "WorkflowStageDef \<Rightarrow> string \<Rightarrow> (ClassifyRoute \<times> RouteMatch) option" where
  "earned_route stage h =
     (let (d, b) = fold (weigh_route h) (sd_classify_routes stage) (None, None) in
      case b of Some (r, m) \<Rightarrow>
          if rm_score m \<ge> (if d \<noteq> None then OVERRIDE_DEFAULT_SCORE else 1) then Some (r, m) else None
        | None \<Rightarrow> None)"

lemma classify_decision_cases:
  assumes "classify_decision studio t stage = Some c"
  obtains (content) r m where "earned_route stage (classify_haystack t) = Some (r, m)"
      and "cd_basis c = ClassifyBasis.CONTENT" and "cd_route c = Some r"
  | (unrouteable) spec hits where "earned_route stage (classify_haystack t) = None"
      and "unowned_specialty stage (classify_haystack t) = (spec, hits)" and "spec \<noteq> []"
      and "cd_basis c = ClassifyBasis.UNROUTEABLE" and "cd_route c = None"
      and "cd_detail c = unrouteable_detail stage spec hits"
  | (pin) r where "earned_route stage (classify_haystack t) = None"
      and "fst (unowned_specialty stage (classify_haystack t)) = []"
      and "filter (\<lambda>route. cr_agent_id route = strip (tk_next_agent t)) (sd_classify_routes stage) = [r]"
      and "get_agent studio (strip (tk_next_agent t))"
      and "cd_basis c = ClassifyBasis.PIN" and "cd_route c = Some r"
  | (default) r where "earned_route stage (classify_haystack t) = None"
      and "fst (unowned_specialty stage (classify_haystack t)) = []"
      and "cd_basis c = ClassifyBasis.DEFAULT" and "cd_route c = Some r"
      and "r \<in> set (sd_classify_routes stage)"
      and "\<exists>x \<in> set (sd_classify_routes stage). cr_default x \<Longrightarrow> cr_default r"
proof -
  let ?h = "classify_haystack t" and ?rs = "sd_classify_routes stage"
  obtain d b where db: "fold (weigh_route ?h) ?rs (None, None) = (d, b)" by fastforce
  note best = weigh_routes [OF db]
  obtain spec hits where un: "unowned_specialty stage ?h = (spec, hits)" by fastforce
  have earned: "earned_route stage ?h = (case b of Some (r, m) \<Rightarrow>
          if rm_score m \<ge> (if d \<noteq> None then OVERRIDE_DEFAULT_SCORE else 1) then Some (r, m) else None
        | None \<Rightarrow> None)"
    by (simp only: earned_route_def db prod.case Let_def)
  from assms have nc: "sd_stage_type stage = ''classify''" and ne: "?rs \<noteq> []" by (auto simp: classify_decision_def split: if_splits)
  define fb where "fb = (case d of Some r \<Rightarrow> r | None \<Rightarrow> (case b of Some (r, _) \<Rightarrow> r | None \<Rightarrow> hd ?rs))"
  have fb: "fb \<in> set ?rs" "\<exists>x \<in> set ?rs. cr_default x \<Longrightarrow> cr_default fb"
    using best ne by (auto simp: fb_def best_of_def find_None_iff' dest: find_Some_iff' split: option.splits)
  let ?na = "strip (tk_next_agent t)"
  let ?ms = "filter (\<lambda>route. cr_agent_id route = ?na) ?rs"
  have c: "Some c = (case earned_route stage ?h of
               Some (best_route, best_match) \<Rightarrow>
                 Some \<lparr>cd_route = Some best_route, cd_basis = ClassifyBasis.CONTENT,
                   cd_detail = ''matched on '' @ digits_of (rm_direct best_match)
                     @ '' declared term(s), score '' @ digits_of (rm_score best_match)\<rparr>
             | None \<Rightarrow>
                 if spec \<noteq> []
                 then Some \<lparr>cd_route = None, cd_basis = ClassifyBasis.UNROUTEABLE,
                   cd_detail = unrouteable_detail stage spec hits\<rparr>
                 else if ?na \<noteq> [] \<and> get_agent studio ?na \<and> length ?ms = 1
                 then Some \<lparr>cd_route = Some (hd ?ms), cd_basis = ClassifyBasis.PIN,
                   cd_detail = ''next_agent '' @ repr_str ?na\<rparr>
                 else Some \<lparr>cd_route = Some fb, cd_basis = ClassifyBasis.DEFAULT,
                   cd_detail = ''no route earned the choice''\<rparr>)"
    unfolding assms [symmetric] classify_decision_def Let_def db un earned fb_def
    using nc ne by (simp only: prod.case simp_thms if_False if_True)
  show thesis
  proof (cases "earned_route stage ?h")
    case (Some rm)
    then show thesis using c content by (cases rm) auto
  next
    case None
    show thesis
    proof (cases "spec = []")
      case False
      with None c un unrouteable show thesis by simp
    next
      case True
      show thesis
      proof (cases "?na \<noteq> [] \<and> get_agent studio ?na \<and> length ?ms = 1")
        case pinned: True
        then obtain r where "?ms = [r]" by (auto simp: length_Suc_conv)
        with None True c pinned un show thesis by (intro pin [of r]) simp_all
      next
        case False
        with None True c un fb show thesis by (intro default [of fb]) auto
      qed
    qed
  qed
qed

lemma earned_route_best:
  assumes "earned_route stage h = Some (r, m)"
  shows "r \<in> set (sd_classify_routes stage)" and "route_match_score r h = Some m"
    and "r' \<in> set (sd_classify_routes stage) \<Longrightarrow> route_match_score r' h = Some m' \<Longrightarrow>
           rm_score m' \<le> rm_score m"
    and "\<exists>x \<in> set (sd_classify_routes stage). cr_default x \<Longrightarrow> OVERRIDE_DEFAULT_SCORE \<le> rm_score m"
    and "0 < rm_score m"
proof -
  let ?rs = "sd_classify_routes stage"
  obtain d b where db: "fold (weigh_route h) ?rs (None, None) = (d, b)" by fastforce
  note best = weigh_routes [OF db]
  from assms have b: "b = Some (r, m)"
    and thr: "rm_score m \<ge> (if d \<noteq> None then OVERRIDE_DEFAULT_SCORE else 1)"
    by (auto simp: earned_route_def db split: option.splits if_splits prod.splits)
  from best(2) show "r \<in> set ?rs" "route_match_score r h = Some m"
    "r' \<in> set ?rs \<Longrightarrow> route_match_score r' h = Some m' \<Longrightarrow> rm_score m' \<le> rm_score m"
    by (auto simp: best_of_def b)
  show "OVERRIDE_DEFAULT_SCORE \<le> rm_score m" if "\<exists>x \<in> set ?rs. cr_default x"
  proof -
    have "d \<noteq> None" using that unfolding best(1) find_None_iff' by auto
    with thr show ?thesis by simp
  qed
  from thr show "0 < rm_score m" by (auto simp: OVERRIDE_DEFAULT_SCORE_def split: if_splits)
qed

lemma unowned_specialty_unowned:
  assumes "unowned_specialty stage h = (spec, hits)" and "spec \<noteq> []"
  shows "routes_by_specialist stage" and "\<not> specialty_is_owned stage spec"
    and "UNROUTEABLE_MIN_HITS \<le> hits" and "(spec, hits) \<in> set (specialty_evidence h)"
proof -
  from assms obtain first rest where rb: "routes_by_specialist stage"
    and ev: "filter (\<lambda>(spec, hits). hits \<noteq> 0) (specialty_evidence h) = first # rest"
    by (auto simp: unowned_specialty_def split: if_splits list.splits)
  show "routes_by_specialist stage" by (fact rb)
  obtain top n where top: "max_by snd first rest = (top, n)" by fastforce
  have un: "unowned_specialty stage h =
     (if specialty_is_owned stage top then ([], 0)
      else if n < UNROUTEABLE_MIN_HITS then ([], 0)
      else if list_ex (\<lambda>(spec, hits). hits \<ge> n \<and> specialty_is_owned stage spec) (first # rest)
      then ([], 0) else (top, n))"
    using rb by (simp only: unowned_specialty_def ev list.case Let_def top prod.case simp_thms if_True if_False)
  from assms have eq: "spec = top" "hits = n" "\<not> specialty_is_owned stage top" "UNROUTEABLE_MIN_HITS \<le> n"
    unfolding un by (simp_all split: if_splits)
  then show "\<not> specialty_is_owned stage spec" "UNROUTEABLE_MIN_HITS \<le> hits" by simp_all
  have "(top, n) \<in> set (first # rest)" using max_by_in [of snd first rest] by (simp add: top)
  with ev eq show "(spec, hits) \<in> set (specialty_evidence h)"
    by (metis (no_types, lifting) mem_Collect_eq set_filter)
qed

lemma REPAIR_AGENT_registered [simp]: "get_agent studio REPAIR_AGENT_ID"
  by (simp add: get_agent_def dict_has_def AGENTS_def REPAIR_AGENT_ID_def)

lemma resolve_next_agent_override_declared:
  assumes "sd_stage_type stage \<noteq> ''classify''" and "sd_classify_routes stage = []"
    and "\<not> agent_is_overridable stage"
  shows "resolve_next_agent_override studio t stage = None"
proof (cases "sd_agent_id stage = []")
  case True
  then have "strip (sd_agent_id stage) = []" by (simp add: strip_def lstrip_def)
  then show ?thesis using assms by (auto simp: resolve_next_agent_override_def Let_def)
next
  case False
  with assms show ?thesis by (simp add: resolve_next_agent_override_def Let_def)
qed

lemma filter_singleD: "filter P xs = [x] \<Longrightarrow> P x"
  by (metis filter_eq_ConsD)

lemma classify_decision_unrouteable_None:
  assumes "classify_decision studio t stage = Some c" and "cd_basis c = ClassifyBasis.UNROUTEABLE"
  shows "cd_route c = None"
  using assms(1) by (cases rule: classify_decision_cases) (use assms(2) in simp_all)

section \<open>Properties\<close>


text \<open>evidence decides, and only evidence takes the choice from a declared default. A
  decision on content names a route whose score no other route of the stage exceeds; when the
  template declares a default that score is at least two, so one synonym on its own never
  overrides it.\<close>

theorem content_decision_best:
  assumes "classify_decision studio t stage = Some c" and "cd_basis c = ClassifyBasis.CONTENT"
  shows "\<exists>r m. cd_route c = Some r \<and> route_match_score r (classify_haystack t) = Some m
     \<and> (\<forall>r' \<in> set (sd_classify_routes stage). \<forall>m'.
          route_match_score r' (classify_haystack t) = Some m' \<longrightarrow> rm_score m' \<le> rm_score m)
     \<and> (list_ex cr_default (sd_classify_routes stage) \<longrightarrow> 2 \<le> rm_score m)"
  using assms(1)
proof (cases rule: classify_decision_cases)
  case (content r m)
  note best = earned_route_best [OF content(1)]
  have "list_ex cr_default (sd_classify_routes stage) \<longrightarrow> 2 \<le> rm_score m"
    using best(4) by (auto simp: list_ex_iff OVERRIDE_DEFAULT_SCORE_def)
  with best(2,3) content(3) show ?thesis by blast
qed (use assms(2) in simp_all)

definition sample_route :: "string \<Rightarrow> string \<Rightarrow> bool \<Rightarrow> ClassifyRoute" where
  "sample_route spec agent is_default = \<lparr>cr_languages = [], cr_specialties = [spec],
     cr_agent_id = agent, cr_skill_name = [], cr_default = is_default, cr_to_stage = []\<rparr>"

definition sample_classify :: "WorkflowStageDef" where
  "sample_classify = (plain_stage ''implement'' 2)\<lparr>sd_stage_type := ''classify'',
     sd_classify_routes := [sample_route ''frontend'' ''frontend_implementer'' False,
       sample_route ''backend'' ''backend_implementer'' True]\<rparr>"

theorem content_decision_best_witness:
  "\<exists>c r m. classify_decision [] ((new_ticket ''T1'')\<lparr>tk_title := ''Frontend modal''\<rparr>) sample_classify = Some c
     \<and> cd_basis c = ClassifyBasis.CONTENT \<and> cd_route c = Some r
     \<and> route_match_score r ''frontend modal t1 '' = Some m \<and> 2 \<le> rm_score m"
proof -
  let ?t = "(new_ticket ''T1'')\<lparr>tk_title := ''Frontend modal''\<rparr>"
  have h: "classify_haystack ?t = ''frontend modal t1 ''" by code_simp
  have d: "list_ex cr_default (sd_classify_routes sample_classify)" by code_simp
  have "case classify_decision [] ?t sample_classify of Some c \<Rightarrow> cd_basis c = ClassifyBasis.CONTENT | None \<Rightarrow> False"
    by code_simp
  then obtain c where c: "classify_decision [] ?t sample_classify = Some c" "cd_basis c = ClassifyBasis.CONTENT"
    by (cases "classify_decision [] ?t sample_classify") simp_all
  from content_decision_best [OF c] h d c show ?thesis by metis
qed

text \<open>the sticky hint steers only where it is unambiguous: a decision by the pin means that
  no route earned the choice, that the hint names a registered agent, and that exactly one
  route of the stage dispatches it.\<close>

theorem pin_decision_unambiguous:
  assumes "classify_decision studio t stage = Some c" and "cd_basis c = ClassifyBasis.PIN"
  shows "\<exists>r. cd_route c = Some r \<and> earned_route stage (classify_haystack t) = None
     \<and> get_agent studio (strip (tk_next_agent t))
     \<and> filter (\<lambda>route. cr_agent_id route = strip (tk_next_agent t)) (sd_classify_routes stage) = [r]"
  using assms(1) by (cases rule: classify_decision_cases) (use assms(2) in auto)

theorem pin_decision_unambiguous_witness:
  "\<exists>c r. classify_decision [] ((new_ticket ''T1'')\<lparr>tk_next_agent := ''frontend_implementer''\<rparr>)
       sample_classify = Some c
     \<and> cd_route c = Some r \<and> cr_agent_id r = ''frontend_implementer''"
proof -
  let ?t = "(new_ticket ''T1'')\<lparr>tk_next_agent := ''frontend_implementer''\<rparr>"
  have "case classify_decision [] ?t sample_classify of Some c \<Rightarrow> cd_basis c = ClassifyBasis.PIN | None \<Rightarrow> False"
    by code_simp
  then obtain c where c: "classify_decision [] ?t sample_classify = Some c" "cd_basis c = ClassifyBasis.PIN"
    by (cases "classify_decision [] ?t sample_classify") simp_all
  from pin_decision_unambiguous [OF c] obtain r where r: "cd_route c = Some r"
    "filter (\<lambda>route. cr_agent_id route = strip (tk_next_agent ?t)) (sd_classify_routes sample_classify) = [r]"
    by (elim exE conjE) (rule that)
  have "strip (tk_next_agent ?t) = ''frontend_implementer''" by code_simp
  moreover from r(2) have "cr_agent_id r = strip (tk_next_agent ?t)" by (rule filter_singleD)
  ultimately have "cr_agent_id r = ''frontend_implementer''" by (rule trans [rotated])
  with c(1) r(1) show ?thesis by (intro exI conjI)
qed

text \<open>a stale hint cannot take over a stage. On an ordinary stage with no routes that the
  template does not mark overridable, and with no reroute or repair pin set, the agent
  dispatched is the stage's own, whatever \<open>next_agent\<close> holds; so an agentless stage never
  takes its agent from the hint.\<close>

theorem hint_never_overrides_declared:
  assumes "sd_stage_type stage \<notin> {''classify'', ''gate'', ''parallel'', ''verify''}"
    and "sd_classify_routes stage = []" and "\<not> agent_is_overridable stage"
    and "strip (tk_scope_reroute_agent t) = []" and "strip (tk_next_agent t) \<noteq> REPAIR_AGENT_ID"
  shows "resolve_stage_execution studio t stage = (sd_agent_id stage, sd_skill_name stage)"
  using assms resolve_next_agent_override_declared [of stage studio t]
  by (simp add: resolve_stage_execution_def resolve_scope_reroute_pin_def resolve_repair_pin_def
      is_parallel_stage_def PARALLEL_STAGE_TYPE_def VERIFY_STAGE_TYPE_def)

theorem hint_never_overrides_declared_witness:
  "resolve_stage_execution [] ((new_ticket ''T1'')\<lparr>tk_next_agent := ''ac_gatekeeper''\<rparr>)
     ((plain_stage ''learning'' 9)\<lparr>sd_agent_id := ''learning''\<rparr>) = (''learning'', [])"
proof -
  let ?t = "(new_ticket ''T1'')\<lparr>tk_next_agent := ''ac_gatekeeper''\<rparr>"
  let ?s = "(plain_stage ''learning'' 9)\<lparr>sd_agent_id := ''learning''\<rparr>"
  have "sd_stage_type ?s \<notin> {''classify'', ''gate'', ''parallel'', ''verify''}"
    and "sd_classify_routes ?s = []" by (simp_all add: plain_stage_def)
  moreover have "\<not> agent_is_overridable ?s" "strip (tk_scope_reroute_agent ?t) = []"
    "strip (tk_next_agent ?t) \<noteq> REPAIR_AGENT_ID" by code_simp+
  ultimately have "resolve_stage_execution [] ?t ?s = (sd_agent_id ?s, sd_skill_name ?s)"
    by (rule hint_never_overrides_declared)
  then show ?thesis by (simp add: plain_stage_def)
qed

text \<open>a reader of an unrouteable classify stage is not shown a gap: with no pin set, the
  dispatcher resolves no agent, and the display answers the stage's static agent, one that
  the stage will not dispatch.\<close>

theorem unrouteable_shows_static_agent:
  assumes "classify_decision studio t stage = Some c" and "cd_route c = None"
    and "strip (tk_scope_reroute_agent t) = []" and "strip (tk_next_agent t) \<noteq> REPAIR_AGENT_ID"
  shows "resolve_stage_execution studio t stage = ([], [])
     \<and> resolve_display_agent studio t stage = sd_agent_id stage"
proof -
  from assms(1) have "sd_stage_type stage = ''classify''"
    by (auto simp: classify_decision_def split: if_splits)
  with assms show ?thesis
    by (simp add: resolve_display_agent_def resolve_stage_execution_def resolve_scope_reroute_pin_def
        resolve_repair_pin_def resolve_classify_route_def is_parallel_stage_def PARALLEL_STAGE_TYPE_def)
qed

definition sample_frontend_only :: "WorkflowStageDef" where
  "sample_frontend_only = (plain_stage ''implement'' 2)\<lparr>sd_stage_type := ''classify'',
     sd_agent_id := ''static_qa'',
     sd_classify_routes := [sample_route ''frontend'' ''frontend_implementer'' False,
       sample_route ''refactor'' ''presentation'' False]\<rparr>"

theorem unrouteable_shows_static_agent_witness:
  "resolve_stage_execution [] ((new_ticket ''T1'')\<lparr>tk_title := ''api endpoint''\<rparr>) sample_frontend_only = ([], [])
   \<and> resolve_display_agent [] ((new_ticket ''T1'')\<lparr>tk_title := ''api endpoint''\<rparr>) sample_frontend_only
       = ''static_qa''"
proof -
  let ?t = "(new_ticket ''T1'')\<lparr>tk_title := ''api endpoint''\<rparr>"
  have "case classify_decision [] ?t sample_frontend_only of Some c \<Rightarrow> cd_basis c = ClassifyBasis.UNROUTEABLE | None \<Rightarrow> False"
    by code_simp
  then obtain c where c: "classify_decision [] ?t sample_frontend_only = Some c"
      "cd_basis c = ClassifyBasis.UNROUTEABLE"
    by (cases "classify_decision [] ?t sample_frontend_only") simp_all
  have "cd_route c = None"
    using classify_decision_unrouteable_None [OF c] .
  moreover have "strip (tk_scope_reroute_agent ?t) = []" "strip (tk_next_agent ?t) \<noteq> REPAIR_AGENT_ID"
    by code_simp+
  moreover have "sd_agent_id sample_frontend_only = ''static_qa''" by code_simp
  ultimately show ?thesis using unrouteable_shows_static_agent [OF c(1)] by simp
qed

end
