(* ===== verification/WorkflowRouting.thy ===== *)
theory WorkflowRouting
  imports StudioRouting
begin

text \<open>
  \<open>services/workflow_routing.py\<close>: moving a ticket's cursor when a stage passes or
  rejects. A pass goes where the template sends it, past stages whose skip condition
  already holds; a reject goes upstream, resets the span it sends back and may pin the
  agent that redoes it. An exception abandons the whole operation (the caller's session
  is rolled back), so the error values carry no state.
\<close>

definition routes_forward :: "WorkflowStageDef list \<Rightarrow> string \<Rightarrow> string \<Rightarrow> bool" where
  "routes_forward stages from_key to_key =
     (let keys = ordered_keys stages in
      case (index_of keys from_key, index_of keys to_key) of
        (Some i, Some j) \<Rightarrow> j > i
      | _ \<Rightarrow> False)"

definition valid_route_targets :: "WorkflowStageDef list \<Rightarrow> string \<Rightarrow> string \<Rightarrow> string list" where
  "valid_route_targets stages from_key outcome =
     (if outcome \<noteq> ''reject'' then []
      else (let keys = ordered_keys stages in
            case index_of keys from_key of None \<Rightarrow> [] | Some i \<Rightarrow> take (i + 1) keys))"

text \<open>The dash of the hint is spelt as its UTF-8 bytes.\<close>

definition validate_route_target ::
    "WorkflowStageDef list \<Rightarrow> string \<Rightarrow> string \<Rightarrow> string \<Rightarrow> bool \<Rightarrow> string result" where
  "validate_route_target stages from_key outcome route_to strict =
     (let q = [char_of (39::nat)];
          reason =
            (if route_to \<notin> sd_key ` set stages
             then ''Unknown target stage '' @ q @ route_to @ q
             else if outcome \<noteq> ''reject''
             then ''next_stage_key '' @ q @ route_to @ q @ '' is only valid with outcome=''
               @ q @ ''reject'' @ q @ '' (upstream rework); on a pass the workflow decides the next stage''
             else if routes_forward stages from_key route_to
             then ''Rework stage '' @ q @ route_to @ q @ '' must not come after stage ''
               @ q @ from_key @ q
             else [])
      in if reason = [] then Inr []
         else if strict then
           (let targets = valid_route_targets stages from_key outcome;
                hint = (if targets \<noteq> [] then join '', '' targets
                  else ''(none '' @ [char_of (226::nat), char_of (128::nat), char_of (148::nat)]
                    @ '' omit next_stage_key)'')
            in Inl (ValueError (reason @ ''. Valid targets from '' @ q @ from_key @ q @ '': '' @ hint)))
         else Inr reason)"

text \<open>The loop of \<open>_advance_past_skipped\<close>, bounded by its first argument.\<close>

fun advance_hops ::
    "nat \<Rightarrow> string list \<Rightarrow> string list option \<Rightarrow> WorkflowStageDef list \<Rightarrow> transition list \<Rightarrow> Ticket
       \<Rightarrow> StageRoutePlan \<Rightarrow> string list \<Rightarrow> StageRoutePlan \<times> string list" where
  "advance_hops 0 studio plans stages transitions ticket plan skipped = (plan, skipped)"
| "advance_hops (Suc n) studio plans stages transitions ticket plan skipped =
     (case find (\<lambda>stage. sd_key stage = rp_to_key plan) (rev stages) of
        None \<Rightarrow> (plan, skipped)
      | Some target \<Rightarrow>
          if \<not> should_skip_stage studio plans ticket target stages then (plan, skipped)
          else if is_terminal_stage target then (plan, skipped)
          else
            (case resolve_next_stage_key stages transitions (rp_to_key plan) ''pass'' [] of
               Inr (Some onward) \<Rightarrow>
                 if rp_to_key onward \<in> set skipped then (plan, skipped)
                 else advance_hops n studio plans stages transitions ticket onward
                        (skipped @ [rp_to_key plan])
             | _ \<Rightarrow> (plan, skipped)))"

definition advance_past_skipped ::
    "string list \<Rightarrow> string list option \<Rightarrow> WorkflowStageDef list \<Rightarrow> transition list \<Rightarrow> Ticket
       \<Rightarrow> StageRoutePlan \<Rightarrow> string \<Rightarrow> StageRoutePlan \<times> string list" where
  "advance_past_skipped studio plans stages transitions ticket plan outcome =
     (if outcome \<noteq> ''pass'' then (plan, [])
      else advance_hops (length stages) studio plans stages transitions ticket plan [])"

definition record_passed_over ::
    "WorkflowInstance \<Rightarrow> WorkflowStageDef list \<Rightarrow> stage_map \<Rightarrow> string list \<Rightarrow> string \<Rightarrow> string
       \<Rightarrow> (WorkflowInstance \<times> stage_map) result" where
  "record_passed_over instance stages stage_map skipped_keys branch_from branch_to =
     (let marked = fold (\<lambda>key m. dict_set key StageStatus.WONT_DO m) skipped_keys stage_map;
          marked = (if branch_to \<noteq> [] then skip_intermediate_stages marked stages branch_from branch_to
                    else marked)
      in if skipped_keys \<noteq> [] \<or> branch_to \<noteq> []
         then bind_result (parse_stage_notes instance) (\<lambda>notes.
           Inr (instance\<lparr>wi_stages_json := serialize_stage_map marked stages notes\<rparr>, marked))
         else Inr (instance, marked))"

definition classify_branch_target ::
    "string list \<Rightarrow> WorkflowStageDef list \<Rightarrow> Ticket \<Rightarrow> string \<Rightarrow> string \<Rightarrow> string \<Rightarrow> string" where
  "classify_branch_target studio stages ticket from_key outcome route_to =
     (if outcome \<noteq> ''pass'' \<or> route_to \<noteq> [] then []
      else (case find (\<lambda>stage. sd_key stage = from_key) stages of
              None \<Rightarrow> []
            | Some from_stage \<Rightarrow>
                if sd_stage_type from_stage \<noteq> ''classify'' then []
                else resolve_classify_branch studio ticket from_stage))"

definition previous_stage_key :: "WorkflowStageDef list \<Rightarrow> string \<Rightarrow> string option" where
  "previous_stage_key stages from_key =
     (let keys = ordered_keys stages in
      case index_of keys from_key of
        None \<Rightarrow> None
      | Some idx \<Rightarrow> if idx = 0 then None else Some (keys ! (idx - 1)))"

definition reject_fallback_key :: "WorkflowStageDef list \<Rightarrow> string \<Rightarrow> string \<Rightarrow> string option" where
  "reject_fallback_key stages from_key next_agent =
     (let agent_id = strip next_agent in
      case find (\<lambda>s. sd_key s = from_key) stages of
        Some stage \<Rightarrow>
          if agent_id \<noteq> [] \<and> stage_offers_agent stage agent_id \<noteq> None then Some from_key
          else previous_stage_key stages from_key
      | None \<Rightarrow> previous_stage_key stages from_key)"

definition rework_blocking_issues :: "string \<Rightarrow> string \<Rightarrow> string \<Rightarrow> string \<Rightarrow> string" where
  "rework_blocking_issues blocking_issues misroute_reason to_key pin_refusal =
     (let nl = [char_of (10::nat), char_of (10::nat)]; q = [char_of (39::nat)];
          blocking_issues =
            (if misroute_reason \<noteq> [] then
               (let nt = ''('' @ misroute_reason @ ''; routed to '' @ q @ to_key @ q @ '' instead.)''
                in if blocking_issues \<noteq> [] then blocking_issues @ nl @ nt else nt)
             else blocking_issues)
      in if pin_refusal \<noteq> [] then
           (let nt = ''('' @ pin_refusal @ ''.)''
            in if blocking_issues \<noteq> [] then nt @ nl @ blocking_issues else nt)
         else blocking_issues)"

text \<open>The ticket after the call, and why the agent was not pinned (empty when it was).\<close>

definition pin_reject_agent ::
    "string list \<Rightarrow> Ticket \<Rightarrow> WorkflowStageDef list \<Rightarrow> string \<Rightarrow> string \<Rightarrow> string \<Rightarrow> string
       \<Rightarrow> (Ticket \<times> string) result" where
  "pin_reject_agent studio ticket stages outcome from_key to_key next_agent =
     (let agent_id = strip next_agent in
      if outcome \<noteq> ''reject'' \<or> agent_id = [] then Inr (ticket, [])
      else
        (let q = [char_of (39::nat)];
             ends = map sd_order (List.map_filter
               (\<lambda>key. find (\<lambda>stage. sd_key stage = key) (rev stages)) [to_key, from_key])
         in case ends of
              [] \<Rightarrow> Inl (ValueError ''min() iterable argument is empty'')
            | e # es \<Rightarrow>
                (let lo = fold min es e; hi = fold max es e;
                     span = filter (\<lambda>stage. lo \<le> sd_order stage \<and> sd_order stage \<le> hi) stages
                 in if get_agent studio agent_id
                       \<and> list_ex (\<lambda>s. stage_offers_agent s agent_id \<noteq> None) span
                    then Inr (ticket\<lparr>tk_scope_reroute_agent := agent_id\<rparr>, [])
                    else Inr (ticket, ''Reject named agent '' @ q @ agent_id @ q
                      @ '', which no stage from '' @ q @ to_key @ q @ '' to '' @ q @ from_key @ q
                      @ '' runs; no agent was pinned and routing chooses as usual''))))"

section \<open>The route\<close>

text \<open>The plan a route settles on: the vetted target, the branch and the plan.\<close>

definition plan_route ::
    "string list \<Rightarrow> Ticket \<Rightarrow> WorkflowStageDef list \<Rightarrow> transition list \<Rightarrow> string \<Rightarrow> string \<Rightarrow> string
       \<Rightarrow> string \<Rightarrow> bool \<Rightarrow> (StageRoutePlan \<times> string \<times> string) result" where
  "plan_route studio ticket stages transitions from_key outcome route_to next_agent strict =
     (if strict \<and> from_key \<notin> sd_key ` set stages
      then Inl (ValueError (''Unknown stage key: '' @ from_key))
      else
        bind_result (if route_to \<noteq> []
                     then validate_route_target stages from_key outcome route_to strict
                     else Inr []) (\<lambda>misroute_reason.
          let route_to = (if misroute_reason \<noteq> [] then [] else route_to);
              branch_to = classify_branch_target studio stages ticket from_key outcome route_to
          in bind_result (resolve_next_stage_key stages transitions from_key outcome
                 (if route_to \<noteq> [] then route_to else branch_to)) (\<lambda>plan.
             let plan = (if plan = None \<and> outcome = ''reject''
                         then (case reject_fallback_key stages from_key next_agent of
                                 Some fallback_key \<Rightarrow>
                                   if fallback_key \<noteq> []
                                   then Some \<lparr>rp_from_key = from_key, rp_to_key = fallback_key,
                                     rp_outcome = outcome, rp_upstream = True,
                                     rp_transition_agent_id = []\<rparr>
                                   else None
                               | None \<Rightarrow> None)
                         else plan)
             in (case plan of
                   None \<Rightarrow> Inl (ValueError (''No workflow route defined from stage ''
                     @ [char_of (39::nat)] @ from_key @ [char_of (39::nat)] @ '' with outcome ''
                     @ [char_of (39::nat)] @ outcome @ [char_of (39::nat)]))
                 | Some plan \<Rightarrow> Inr (plan, misroute_reason, branch_to)))))"

text \<open>The reject branch: reset the span, move the cursor, say what was not honoured.\<close>

definition rework_move ::
    "string list \<Rightarrow> Workflow \<Rightarrow> WorkflowStageDef list \<Rightarrow> stage_map \<Rightarrow> string \<Rightarrow> string \<Rightarrow> StageRoutePlan
       \<Rightarrow> string \<Rightarrow> string \<Rightarrow> string \<Rightarrow> Workflow result" where
  "rework_move studio w stages stage_map from_key outcome plan misroute_reason next_agent blocking_issues =
     (let stage_map = reset_upstream_stages stage_map stages from_key (rp_to_key plan) in
      bind_result (parse_stage_notes (wf_instance w)) (\<lambda>notes.
        let instance = (wf_instance w)\<lparr>wi_stages_json := serialize_stage_map stage_map stages notes\<rparr>;
            ticket = (wf_ticket w)\<lparr>tk_workflow_stage_key := rp_to_key plan,
                       tk_workflow_stage_status := StageStatus.PENDING\<rparr>
        in bind_result (pin_reject_agent studio ticket stages outcome from_key (rp_to_key plan) next_agent)
             (\<lambda>(ticket, pin_refusal).
                let issues = rework_blocking_issues blocking_issues misroute_reason (rp_to_key plan) pin_refusal
                in Inr (w\<lparr>wf_instance := instance,
                          wf_ticket := ticket\<lparr>tk_blocking_issues := take 2000 issues,
                                              tk_next_status := ''Proceed''\<rparr>\<rparr>))))"

text \<open>The pass branch: record what was stepped over, complete the stage, move the cursor.\<close>

definition advance_move ::
    "int \<Rightarrow> Workflow \<Rightarrow> WorkflowStageDef list \<Rightarrow> stage_map \<Rightarrow> string \<Rightarrow> StageRoutePlan \<Rightarrow> string list
       \<Rightarrow> string \<Rightarrow> Workflow result" where
  "advance_move now w stages stage_map from_key plan skipped_keys branch_to =
     bind_result (record_passed_over (wf_instance w) stages stage_map skipped_keys
         (if branch_to \<noteq> [] then from_key else []) (if branch_to \<noteq> [] then rp_to_key plan else []))
       (\<lambda>(instance, stage_map).
          let w = w\<lparr>wf_instance := instance\<rparr> in
          bind_result
            (if map_of stage_map from_key \<noteq> Some StageStatus.WONT_DO
             then bind_result (set_stage_status now w stages from_key StageStatus.DONE None)
                    (\<lambda>(w, _). Inr w)
             else Inr w)
            (\<lambda>w. Inr (w\<lparr>wf_ticket := (wf_ticket w)\<lparr>tk_workflow_stage_key := rp_to_key plan,
                         tk_blocking_issues := [], tk_block_kind := None,
                         tk_next_status := ''Proceed''\<rparr>\<rparr>)))"

text \<open>Who runs next.\<close>

definition choose_next_agent ::
    "string list \<Rightarrow> Ticket \<Rightarrow> WorkflowStageDef list \<Rightarrow> string \<Rightarrow> StageRoutePlan \<Rightarrow> string \<Rightarrow> Ticket" where
  "choose_next_agent studio ticket stages outcome plan next_agent =
     (let target_stage = find (\<lambda>stage. sd_key stage = rp_to_key plan) stages;
          agent_hint = (if outcome = ''reject'' then next_agent else []);
          chosen_agent = strip (if agent_hint \<noteq> [] then agent_hint else rp_transition_agent_id plan);
          chosen_agent =
            (case target_stage of
               Some stage \<Rightarrow> if chosen_agent = [] then fst (resolve_stage_execution studio ticket stage)
                             else chosen_agent
             | None \<Rightarrow> chosen_agent)
      in if chosen_agent \<noteq> [] then ticket\<lparr>tk_next_agent := chosen_agent\<rparr>
         else (case target_stage of
                 Some stage \<Rightarrow> if sd_agent_id stage \<noteq> []
                               then ticket\<lparr>tk_next_agent := sd_agent_id stage\<rparr> else ticket
               | None \<Rightarrow> ticket))"

text \<open>
  The whole move: the workflow after it, the plan, and the current stage of the
  orchestration run, where one was given.
\<close>

definition apply_stage_route ::
    "int \<Rightarrow> string list \<Rightarrow> string list option \<Rightarrow> Workflow \<Rightarrow> WorkflowStageDef list \<Rightarrow> transition list
       \<Rightarrow> string \<Rightarrow> string \<Rightarrow> string \<Rightarrow> string \<Rightarrow> string \<Rightarrow> string option \<Rightarrow> bool
       \<Rightarrow> (Workflow \<times> StageRoutePlan \<times> string option) result" where
  "apply_stage_route now studio plans w stages transitions from_key outcome route_to next_agent
       blocking_issues orch_run strict =
     bind_result (plan_route studio (wf_ticket w) stages transitions from_key outcome route_to
         next_agent strict) (\<lambda>(plan, misroute_reason, branch_to).
       let (plan, skipped_keys) =
             advance_past_skipped studio plans stages transitions (wf_ticket w) plan outcome
       in bind_result (parse_stage_map (wf_instance w) stages) (\<lambda>stage_map.
          bind_result
            (if rp_upstream plan \<or> outcome = ''reject''
             then rework_move studio w stages stage_map from_key outcome plan misroute_reason
                    next_agent blocking_issues
             else advance_move now w stages stage_map from_key plan skipped_keys branch_to) (\<lambda>w.
          bind_result (reconcile_workflow_state now w stages True) (\<lambda>(w, _).
            Inr (w\<lparr>wf_ticket := choose_next_agent studio (wf_ticket w) stages outcome plan next_agent\<rparr>,
                 plan, map_option (\<lambda>_. rp_to_key plan) orch_run)))))"

definition normalize_transitions_for_api :: "transition list \<Rightarrow> (string, string) dict list" where
  "normalize_transitions_for_api items =
     map (\<lambda>item.
       [(''from'', dict_get item (JStr ''from'') []), (''to'', dict_get item (JStr ''to'') []),
        (''when'', if transition_when item \<noteq> [] then transition_when item else ''default'')]
       @ (let agent_id = dict_get item (JStr ''agent_id'') [] in
          if agent_id \<noteq> [] then [(''agent_id'', agent_id)] else [])) items"

section \<open>Facts\<close>

lemma routes_forward_iff:
  "routes_forward stages a b \<longleftrightarrow>
     (\<exists>i j. stage_index stages a = Some i \<and> stage_index stages b = Some j \<and> i < j)"
  unfolding stage_index_def routes_forward_def Let_def
  by (auto split: option.splits simp del: index_of_None_iff)

lemma valid_route_targets_reject:
  assumes "distinct (map sd_key stages)"
  shows "k \<in> set (valid_route_targets stages from_key ''reject'') \<longleftrightarrow>
    from_key \<in> sd_key ` set stages \<and> k \<in> sd_key ` set stages \<and> \<not> routes_forward stages from_key k"
proof (cases "stage_index stages from_key")
  case None
  then have "index_of (ordered_keys stages) from_key = None" by (simp add: stage_index_def)
  with None show ?thesis by (auto simp: valid_route_targets_def Let_def simp del: index_of_None_iff)
next
  case (Some i)
  then have i: "i < length stages" by (simp add: stage_index_Some)
  have mem: "k \<in> set (valid_route_targets stages from_key ''reject'') \<longleftrightarrow>
      (\<exists>j \<le> i. ordered_keys stages ! j = k)"
    using Some i by (fastforce simp: valid_route_targets_def stage_index_def Let_def in_set_conv_nth less_Suc_eq_le)
  have from_in: "from_key \<in> sd_key ` set stages" using Some by (metis option.distinct(1) stage_index_None_iff)
  show ?thesis
  proof (cases "stage_index stages k")
    case None
    then have "k \<notin> sd_key ` set stages" by simp
    moreover have "ordered_keys stages ! j \<noteq> k" if "j \<le> i" for j
      using that i \<open>k \<notin> _\<close> nth_mem [of j "ordered_keys stages"] by auto
    ultimately show ?thesis by (auto simp: mem)
  next
    case (Some j)
    then have "k \<in> sd_key ` set stages" by (metis option.distinct(1) stage_index_None_iff)
    moreover have "(\<exists>j' \<le> i. ordered_keys stages ! j' = k) \<longleftrightarrow> j \<le> i"
      using Some stage_index_Some [OF Some] stage_index_nth [OF assms] i
      by (metis le_less_trans option.inject)
    ultimately show ?thesis
      using from_in Some \<open>stage_index stages from_key = Some i\<close> by (auto simp: mem routes_forward_iff)
  qed
qed

lemma validate_route_target_ok:
  "validate_route_target stages from_key outcome route_to strict = Inr [] \<longleftrightarrow>
     route_to \<in> sd_key ` set stages \<and> outcome = ''reject'' \<and> \<not> routes_forward stages from_key route_to"
  by (simp add: validate_route_target_def Let_def)

lemma validate_route_target_lenient:
  "\<exists>reason. validate_route_target stages from_key outcome route_to False = Inr reason"
  by (simp add: validate_route_target_def Let_def)

section \<open>Skipping\<close>

definition hop_skippable where
  "hop_skippable studio plans stages ticket k \<longleftrightarrow>
     (\<exists>stage \<in> set stages. sd_key stage = k \<and> should_skip_stage studio plans ticket stage stages
        \<and> \<not> is_terminal_stage stage)"

lemma advance_hops_skipped:
  assumes "advance_hops n studio plans stages transitions ticket plan skipped = (plan', skipped')"
  shows "\<exists>ks. skipped' = skipped @ ks \<and> length ks \<le> n
           \<and> (\<forall>k \<in> set ks. hop_skippable studio plans stages ticket k)
           \<and> (ks = [] \<longrightarrow> plan' = plan) \<and> (ks \<noteq> [] \<longrightarrow> hd ks = rp_to_key plan)"
  using assms
proof (induction n arbitrary: plan skipped)
  case (Suc n)
  show ?case
  proof (cases "plan' = plan \<and> skipped' = skipped")
    case False
    with Suc.prems obtain target onward where
      target: "find (\<lambda>stage. sd_key stage = rp_to_key plan) (rev stages) = Some target"
      and skip: "should_skip_stage studio plans ticket target stages" "\<not> is_terminal_stage target"
      and rest: "advance_hops n studio plans stages transitions ticket onward
                   (skipped @ [rp_to_key plan]) = (plan', skipped')"
      by (auto split: option.splits if_splits sum.splits)
    from Suc.IH [OF rest] obtain ks where "skipped' = (skipped @ [rp_to_key plan]) @ ks"
      "length ks \<le> n" "\<forall>k \<in> set ks. hop_skippable studio plans stages ticket k" by blast
    moreover have "hop_skippable studio plans stages ticket (rp_to_key plan)"
      using find_Some_iff' [OF target] skip by (auto simp: hop_skippable_def)
    ultimately show ?thesis by (intro exI [of _ "rp_to_key plan # ks"]) simp
  qed simp
qed simp

lemma advance_hops_distinct:
  assumes "advance_hops n studio plans stages transitions ticket plan skipped = (plan', skipped')"
    and "distinct skipped"
    and "rp_to_key plan \<in> set skipped \<Longrightarrow>
      \<exists>onward. resolve_next_stage_key stages transitions (rp_to_key plan) ''pass'' [] = Inr (Some onward)
         \<and> rp_to_key onward \<in> set skipped"
  shows "distinct skipped'"
  using assms
proof (induction n arbitrary: plan skipped)
  case (Suc n)
  show ?case
  proof (cases "plan' = plan \<and> skipped' = skipped")
    case False
    with Suc.prems(1) obtain onward where
      onward: "resolve_next_stage_key stages transitions (rp_to_key plan) ''pass'' [] = Inr (Some onward)"
      and fresh: "rp_to_key onward \<notin> set skipped"
      and rest: "advance_hops n studio plans stages transitions ticket onward
                   (skipped @ [rp_to_key plan]) = (plan', skipped')"
      by (auto split: option.splits if_splits sum.splits)
    have new: "rp_to_key plan \<notin> set skipped" using Suc.prems(3) onward fresh by auto
    show ?thesis
      by (rule Suc.IH [OF rest]) (use Suc.prems(2) new onward fresh in auto)
  qed (use Suc.prems in simp)
qed simp

section \<open>The moves\<close>

lemma bind_pair_Inr:
  "bind_result r (\<lambda>(a, b). f a b) = Inr c \<longleftrightarrow> (\<exists>a b. r = Inr (a, b) \<and> f a b = Inr c)"
  by (auto simp: bind_result_Inr_iff)

lemma parse_of_map:
  assumes "parse_stage_map inst stages = Inr m"
  shows "tabulate stages (\<lambda>k. dict_get m k StageStatus.PENDING) = m"
proof -
  from parse_stage_map_tabulated [OF assms] obtain f where f: "m = tabulate stages f" by blast
  show ?thesis unfolding f by (rule tabulate_cong) (simp add: dict_get_tabulate)
qed

lemma pin_reject_agent_frame:
  assumes "pin_reject_agent studio t stages outcome from_key to_key next_agent = Inr (t', refusal)"
  shows "t' = t \<or> t' = t\<lparr>tk_scope_reroute_agent := strip next_agent\<rparr>"
  using assms by (auto simp: pin_reject_agent_def Let_def split: if_splits list.splits)

lemma rework_move_Inr:
  assumes "rework_move studio w stages m from_key outcome plan misroute_reason next_agent issues = Inr w'"
  shows "parse_stage_map (wf_instance w') stages =
      Inr (tabulate stages (\<lambda>k. dict_get (reset_upstream_stages m stages from_key (rp_to_key plan)) k
             StageStatus.PENDING))"
    and "tk_workflow_stage_key (wf_ticket w') = rp_to_key plan"
    and "length (tk_blocking_issues (wf_ticket w')) \<le> 2000"
proof -
  from assms obtain ns t refusal where
    "w' = w\<lparr>wf_instance := (wf_instance w)\<lparr>wi_stages_json :=
             serialize_stage_map (reset_upstream_stages m stages from_key (rp_to_key plan)) stages ns\<rparr>,
            wf_ticket := t\<lparr>tk_blocking_issues := take 2000
                (rework_blocking_issues issues misroute_reason (rp_to_key plan) refusal),
              tk_next_status := ''Proceed''\<rparr>\<rparr>"
    and pin: "pin_reject_agent studio ((wf_ticket w)\<lparr>tk_workflow_stage_key := rp_to_key plan,
                tk_workflow_stage_status := StageStatus.PENDING\<rparr>) stages outcome from_key
                (rp_to_key plan) next_agent = Inr (t, refusal)"
    by (auto simp: rework_move_def Let_def bind_pair_Inr bind_result_Inr_iff)
  then show "parse_stage_map (wf_instance w') stages =
      Inr (tabulate stages (\<lambda>k. dict_get (reset_upstream_stages m stages from_key (rp_to_key plan)) k
             StageStatus.PENDING))"
    and "tk_workflow_stage_key (wf_ticket w') = rp_to_key plan"
    and "length (tk_blocking_issues (wf_ticket w')) \<le> 2000"
    using pin_reject_agent_frame [OF pin] by (auto intro: parse_serialize)
qed

definition passed_over :: "WorkflowStageDef list \<Rightarrow> stage_map \<Rightarrow> string list \<Rightarrow> string \<Rightarrow> string \<Rightarrow> stage_map" where
  "passed_over stages m skipped branch_from branch_to =
     (let marked = fold (\<lambda>key m. dict_set key StageStatus.WONT_DO m) skipped m
      in if branch_to \<noteq> [] then skip_intermediate_stages marked stages branch_from branch_to else marked)"

lemma record_passed_over_Inr:
  assumes "parse_stage_map inst stages = Inr m"
    and "record_passed_over inst stages m skipped branch_from branch_to = Inr (inst', m')"
  shows "m' = passed_over stages m skipped branch_from branch_to"
    and "parse_stage_map inst' stages = Inr (tabulate stages (\<lambda>k. dict_get m' k StageStatus.PENDING))"
proof -
  show m': "m' = passed_over stages m skipped branch_from branch_to"
    using assms(2) by (auto simp: record_passed_over_def passed_over_def Let_def bind_result_Inr_iff split: if_splits)
  show "parse_stage_map inst' stages = Inr (tabulate stages (\<lambda>k. dict_get m' k StageStatus.PENDING))"
  proof (cases "skipped \<noteq> [] \<or> branch_to \<noteq> []")
    case True
    with assms(2) obtain ns where "inst' = inst\<lparr>wi_stages_json := serialize_stage_map m' stages ns\<rparr>"
      unfolding record_passed_over_def Let_def by (auto simp: bind_result_Inr_iff)
    then show ?thesis by (simp add: parse_serialize [of _ m' stages ns])
  next
    case False
    with assms(2) have "inst' = inst" "m' = m" by (simp_all add: record_passed_over_def)
    with assms(1) parse_of_map [OF assms(1)] show ?thesis by simp
  qed
qed

lemma advance_move_Inr:
  assumes m: "parse_stage_map (wf_instance w) stages = Inr m"
    and step: "advance_move now w stages m from_key plan skipped branch_to = Inr w'"
    and m': "m' = passed_over stages m skipped (if branch_to \<noteq> [] then from_key else [])
                    (if branch_to \<noteq> [] then rp_to_key plan else [])"
  shows "parse_stage_map (wf_instance w') stages = Inr (tabulate stages
      (\<lambda>k. if k = from_key \<and> map_of m' from_key \<noteq> Some StageStatus.WONT_DO then StageStatus.DONE
           else dict_get m' k StageStatus.PENDING))"
    and "tk_workflow_stage_key (wf_ticket w') = rp_to_key plan"
    and "tk_blocking_issues (wf_ticket w') = []" and "tk_block_kind (wf_ticket w') = None"
proof -
  from step obtain inst m1 w1 where
    rec: "record_passed_over (wf_instance w) stages m skipped (if branch_to \<noteq> [] then from_key else [])
        (if branch_to \<noteq> [] then rp_to_key plan else []) = Inr (inst, m1)"
    and w1: "(if map_of m1 from_key \<noteq> Some StageStatus.WONT_DO
             then bind_result (set_stage_status now (w\<lparr>wf_instance := inst\<rparr>) stages from_key StageStatus.DONE None)
                    (\<lambda>(w, _). Inr w)
             else Inr (w\<lparr>wf_instance := inst\<rparr>)) = Inr w1"
    and w': "w' = w1\<lparr>wf_ticket := (wf_ticket w1)\<lparr>tk_workflow_stage_key := rp_to_key plan,
                         tk_blocking_issues := [], tk_block_kind := None,
                         tk_next_status := ''Proceed''\<rparr>\<rparr>"
    unfolding advance_move_def Let_def by (auto simp: bind_result_Inr_iff)
  note parsed = record_passed_over_Inr [OF m rec]
  have m1: "m1 = m'" using parsed(1) m' by simp
  show "parse_stage_map (wf_instance w') stages = Inr (tabulate stages
      (\<lambda>k. if k = from_key \<and> map_of m' from_key \<noteq> Some StageStatus.WONT_DO then StageStatus.DONE
           else dict_get m' k StageStatus.PENDING))"
  proof (cases "map_of m' from_key \<noteq> Some StageStatus.WONT_DO")
    case True
    with w1 m1 obtain m2 where
      set: "set_stage_status now (w\<lparr>wf_instance := inst\<rparr>) stages from_key StageStatus.DONE None = Inr (w1, m2)"
      by (auto simp: bind_pair_Inr)
    from set obtain f where
      f: "parse_stage_map (wf_instance (w\<lparr>wf_instance := inst\<rparr>)) stages = Inr (tabulate stages f)"
      and after: "parse_stage_map (wf_instance w1) stages
        = Inr (tabulate stages (f(from_key := StageStatus.DONE)))"
      by (rule set_stage_status_Inr)
    from f parsed(2) have "tabulate stages f = tabulate stages (\<lambda>k. dict_get m' k StageStatus.PENDING)"
      by (simp add: m1)
    then have "f k = dict_get m' k StageStatus.PENDING" if "k \<in> sd_key ` set stages" for k
      using that by (metis map_of_tabulate option.inject)
    then have "tabulate stages (f(from_key := StageStatus.DONE)) = tabulate stages
      (\<lambda>k. if k = from_key \<and> map_of m' from_key \<noteq> Some StageStatus.WONT_DO then StageStatus.DONE
           else dict_get m' k StageStatus.PENDING)"
      using True by (intro tabulate_cong) simp
    with after show ?thesis by (simp add: w')
  next
    case False
    with w1 parsed(2) m1 show ?thesis by (auto simp: w')
  qed
qed (use step in \<open>auto simp: advance_move_def Let_def bind_result_Inr_iff\<close>)

lemma choose_next_agent_frame:
  "choose_next_agent studio t stages outcome plan next_agent =
     t\<lparr>tk_next_agent := tk_next_agent (choose_next_agent studio t stages outcome plan next_agent)\<rparr>"
proof -
  have frame: "(if c \<noteq> [] then t\<lparr>tk_next_agent := c\<rparr>
         else (case target of
                 Some stage \<Rightarrow> if sd_agent_id stage \<noteq> []
                               then t\<lparr>tk_next_agent := sd_agent_id stage\<rparr> else t
               | None \<Rightarrow> t)) =
      t\<lparr>tk_next_agent := tk_next_agent (if c \<noteq> [] then t\<lparr>tk_next_agent := c\<rparr>
         else (case target of
                 Some stage \<Rightarrow> if sd_agent_id stage \<noteq> []
                               then t\<lparr>tk_next_agent := sd_agent_id stage\<rparr> else t
               | None \<Rightarrow> t))\<rparr>" for c and target :: "WorkflowStageDef option"
    by (cases "c = []"; cases target) simp_all
  show ?thesis
    unfolding choose_next_agent_def Let_def by (rule frame)
qed

lemma apply_stage_route_Inr:
  assumes "apply_stage_route now studio plans w stages transitions from_key outcome route_to next_agent
       blocking_issues orch_run strict = Inr (w', plan, orch')"
  obtains plan0 misroute_reason branch_to skipped m w1 w2 m2 where
    "plan_route studio (wf_ticket w) stages transitions from_key outcome route_to next_agent strict
       = Inr (plan0, misroute_reason, branch_to)"
    and "advance_past_skipped studio plans stages transitions (wf_ticket w) plan0 outcome = (plan, skipped)"
    and "parse_stage_map (wf_instance w) stages = Inr m"
    and "(if rp_upstream plan \<or> outcome = ''reject''
             then rework_move studio w stages m from_key outcome plan misroute_reason
                    next_agent blocking_issues
             else advance_move now w stages m from_key plan skipped branch_to) = Inr w1"
    and "reconcile_workflow_state now w1 stages True = Inr (w2, m2)"
    and "w' = w2\<lparr>wf_ticket := choose_next_agent studio (wf_ticket w2) stages outcome plan next_agent\<rparr>"
    and "orch' = map_option (\<lambda>_. rp_to_key plan) orch_run"
proof -
  from assms obtain plan0 misroute_reason branch_to where
    p0: "plan_route studio (wf_ticket w) stages transitions from_key outcome route_to next_agent strict
       = Inr (plan0, misroute_reason, branch_to)"
    unfolding apply_stage_route_def by (fastforce simp: bind_result_Inr_iff)
  obtain plan1 skipped where
    adv: "advance_past_skipped studio plans stages transitions (wf_ticket w) plan0 outcome = (plan1, skipped)"
    by fastforce
  from assms obtain m w1 w2 m2 where rest: "parse_stage_map (wf_instance w) stages = Inr m"
    "(if rp_upstream plan1 \<or> outcome = ''reject''
             then rework_move studio w stages m from_key outcome plan1 misroute_reason
                    next_agent blocking_issues
             else advance_move now w stages m from_key plan1 skipped branch_to) = Inr w1"
    "reconcile_workflow_state now w1 stages True = Inr (w2, m2)"
    "(w', plan, orch') = (w2\<lparr>wf_ticket := choose_next_agent studio (wf_ticket w2) stages outcome plan1 next_agent\<rparr>,
       plan1, map_option (\<lambda>_. rp_to_key plan1) orch_run)"
    unfolding apply_stage_route_def Let_def p0 bind_result_simps prod.case adv
    by (elim bind_result_Inr_iff [THEN iffD1, THEN exE] conjE) (auto simp: bind_result_Inr_iff)
  then have eqs: "plan1 = plan" "orch' = map_option (\<lambda>_. rp_to_key plan) orch_run"
    "w' = w2\<lparr>wf_ticket := choose_next_agent studio (wf_ticket w2) stages outcome plan next_agent\<rparr>"
    by simp_all
  show thesis
    by (rule that [OF p0 adv [unfolded eqs(1)] rest(1) rest(2) [unfolded eqs(1)] rest(3) eqs(3,2)])
qed

section \<open>Properties\<close>

lemma validate_not_reject:
  "outcome \<noteq> ''reject'' \<Longrightarrow> \<exists>reason. reason \<noteq> []
     \<and> validate_route_target stages from_key outcome route_to False = Inr reason"
  "outcome \<noteq> ''reject'' \<Longrightarrow> \<exists>m. validate_route_target stages from_key outcome route_to True = Inl (ValueError m)"
  by (simp_all add: validate_route_target_def Let_def)

text \<open>an agent cannot steer a pass. On any outcome but a reject, a route target the agent
  names changes nothing but the recorded reason: the plan and the branch are those the template
  gives without it. A strict caller gets an error instead.\<close>

theorem pass_ignores_route_hint:
  assumes "outcome \<noteq> ''reject''" and "route_to \<noteq> []"
  shows "(\<exists>reason. plan_route studio t stages transitions from_key outcome route_to next_agent False
       = bind_result (plan_route studio t stages transitions from_key outcome [] next_agent False)
           (\<lambda>(plan, _, branch_to). Inr (plan, reason, branch_to)))
     \<and> (\<exists>m. plan_route studio t stages transitions from_key outcome route_to next_agent True = Inl (ValueError m))"
proof
  from validate_not_reject(1) [OF assms(1), of stages from_key route_to] obtain reason where
    r: "reason \<noteq> []" "validate_route_target stages from_key outcome route_to False = Inr reason" by blast
  have "plan_route studio t stages transitions from_key outcome route_to next_agent False
       = bind_result (plan_route studio t stages transitions from_key outcome [] next_agent False)
           (\<lambda>(plan, _, branch_to). Inr (plan, reason, branch_to))"
    using assms r
    by (cases "resolve_next_stage_key stages transitions from_key outcome
          (classify_branch_target studio stages t from_key outcome [])")
      (auto simp: plan_route_def split: option.split)
  then show "\<exists>reason. plan_route studio t stages transitions from_key outcome route_to next_agent False
       = bind_result (plan_route studio t stages transitions from_key outcome [] next_agent False)
           (\<lambda>(plan, _, branch_to). Inr (plan, reason, branch_to))" ..
  show "\<exists>m. plan_route studio t stages transitions from_key outcome route_to next_agent True = Inl (ValueError m)"
    using validate_not_reject(2) [OF assms(1), of stages from_key route_to] assms(2)
    by (auto simp: plan_route_def)
qed

theorem pass_ignores_route_hint_witness:
  "\<exists>reason. plan_route [] (new_ticket ''T1'') sample_stages [] ''plan'' ''pass'' ''done'' [] False
     = Inr (\<lparr>rp_from_key = ''plan'', rp_to_key = ''implement'', rp_outcome = ''pass'', rp_upstream = False,
          rp_transition_agent_id = []\<rparr>, reason, [])"
proof -
  have p: "plan_route [] (new_ticket ''T1'') sample_stages [] ''plan'' ''pass'' [] [] False
     = Inr (\<lparr>rp_from_key = ''plan'', rp_to_key = ''implement'', rp_outcome = ''pass'', rp_upstream = False,
          rp_transition_agent_id = []\<rparr>, [], [])" by code_simp
  have "''pass'' \<noteq> ''reject''" "''done'' \<noteq> []" by simp_all
  from pass_ignores_route_hint [OF this, of "[]" "new_ticket ''T1''" sample_stages "[]" "''plan''" "[]"] p
  show ?thesis by simp
qed

lemma previous_stage_not_forward:
  assumes "distinct (map sd_key stages)" and "previous_stage_key stages from_key = Some k"
  shows "\<not> routes_forward stages from_key k"
proof -
  from assms(2) obtain i where i: "stage_index stages from_key = Some i" "i \<noteq> 0"
      "k = ordered_keys stages ! (i - 1)"
    by (auto simp: previous_stage_key_def stage_index_def Let_def split: option.splits if_splits)
  from stage_index_Some [OF i(1)] have "i - 1 < length stages" by linarith
  from stage_index_nth [OF assms(1) this] i show ?thesis by (auto simp: routes_forward_iff)
qed



text \<open>skipping. A pass walks past only stages of the template that declare a skip condition
  the ticket meets and that do not end the workflow; it passes over each at most once, so
  over no more than the template has, and no other outcome skips anything.\<close>

theorem skipped_stages_skippable:
  assumes "advance_past_skipped studio plans stages transitions t plan outcome = (plan', skipped)"
  shows "distinct skipped \<and> length skipped \<le> length stages
     \<and> (\<forall>k \<in> set skipped. \<exists>stage \<in> set stages. sd_key stage = k
          \<and> should_skip_stage studio plans t stage stages \<and> \<not> is_terminal_stage stage)
     \<and> (skipped = [] \<longrightarrow> plan' = plan) \<and> (outcome \<noteq> ''pass'' \<longrightarrow> skipped = [])"
proof (cases "outcome = ''pass''")
  case True
  with assms have hops: "advance_hops (length stages) studio plans stages transitions t plan [] = (plan', skipped)"
    by (simp add: advance_past_skipped_def)
  have "distinct skipped" by (rule advance_hops_distinct [OF hops]) simp_all
  with advance_hops_skipped [OF hops] True show ?thesis by (auto simp: hop_skippable_def)
next
  case False
  with assms show ?thesis by (simp add: advance_past_skipped_def)
qed

definition sample_skip_stages :: "WorkflowStageDef list" where
  "sample_skip_stages = [plain_stage ''plan'' 1, (plain_stage ''spec'' 2)\<lparr>sd_skip_when := ''has_description''\<rparr>,
     plain_stage ''implement'' 3]"

theorem skipped_stages_skippable_witness:
  "\<exists>plan'. advance_past_skipped [] None sample_skip_stages [] ((new_ticket ''T1'')\<lparr>tk_description := ''x''\<rparr>)
     \<lparr>rp_from_key = ''plan'', rp_to_key = ''spec'', rp_outcome = ''pass'', rp_upstream = False,
      rp_transition_agent_id = []\<rparr> ''pass'' = (plan', [''spec''])
     \<and> (\<exists>stage \<in> set sample_skip_stages. sd_key stage = ''spec'' \<and> \<not> is_terminal_stage stage)"
proof -
  let ?p = "\<lparr>rp_from_key = ''plan'', rp_to_key = ''spec'', rp_outcome = ''pass'', rp_upstream = False,
      rp_transition_agent_id = []\<rparr>"
  let ?t = "(new_ticket ''T1'')\<lparr>tk_description := ''x''\<rparr>"
  have "snd (advance_past_skipped [] None sample_skip_stages [] ?t ?p ''pass'') = [''spec'']" by code_simp
  then obtain plan' where a: "advance_past_skipped [] None sample_skip_stages [] ?t ?p ''pass'' = (plan', [''spec''])"
    by (metis prod.collapse)
  from skipped_stages_skippable [OF a] a show ?thesis by (auto simp: list.set)
qed


lemma choose_next_agent_fields:
  "tk_blocking_issues (choose_next_agent studio t stages outcome plan next_agent) = tk_blocking_issues t"
  "tk_workflow_stage_key (choose_next_agent studio t stages outcome plan next_agent) = tk_workflow_stage_key t"
  "tk_state (choose_next_agent studio t stages outcome plan next_agent) = tk_state t"
  by (subst choose_next_agent_frame, simp)+

lemma plan_route_pass_branch:
  assumes "plan_route studio t stages transitions from_key ''pass'' route_to next_agent strict
       = Inr (plan, mis, branch_to)"
    and "classify_branch_target studio stages t from_key ''pass'' [] = []"
  shows "branch_to = []"
proof -
  have "classify_branch_target studio stages t from_key ''pass'' r = []" for r
    using assms(2) by (simp add: classify_branch_target_def)
  with assms(1) show ?thesis
    by (auto simp: plan_route_def bind_result_Inr_iff Let_def split: option.splits if_splits)
qed

lemma apply_route_map:
  assumes "apply_stage_route now studio plans w stages transitions from_key outcome route_to next_agent
       blocking_issues orch_run strict = Inr (w', plan, orch')"
    and "parse_stage_map (wf_instance w1) stages = Inr m1"
    and "reconcile_workflow_state now w1 stages True = Inr (w2, m2)"
    and "w' = w2\<lparr>wf_ticket := choose_next_agent studio (wf_ticket w2) stages outcome plan next_agent\<rparr>"
  shows "parse_stage_map (wf_instance w') stages = Inr m1"
  using reconcile_keeps_map [OF assms(3)] assms(2,4) by simp

text \<open>C2: what a reject does. When the plan lands in the template at or before the rejecting
  stage, every stage from the target through the rejecting one is pending afterwards and every
  other status is as it was; nothing upstream of the target is lost. Whatever the message and
  the router's notes, at most 2000 characters of it are stored.\<close>

theorem reject_route_effect:
  assumes "apply_stage_route now studio plans w stages transitions from_key ''reject'' route_to next_agent
       blocking_issues orch_run strict = Inr (w', plan, orch')"
    and "parse_stage_map (wf_instance w) stages = Inr m" and "distinct (map sd_key stages)"
    and "stage_index stages from_key = Some f" and "stage_index stages (rp_to_key plan) = Some i" and "i \<le> f"
  shows "\<exists>m'. parse_stage_map (wf_instance w') stages = Inr m'
     \<and> (\<forall>k \<in> sd_key ` set stages. map_of m' k =
          (if i \<le> the (stage_index stages k) \<and> the (stage_index stages k) \<le> f
           then Some StageStatus.PENDING else map_of m k))
     \<and> length (tk_blocking_issues (wf_ticket w')) \<le> 2000"
proof -
  from assms(1) obtain mis m0 w1 w2 m2 where m0: "parse_stage_map (wf_instance w) stages = Inr m0"
    and w1: "rework_move studio w stages m0 from_key ''reject'' plan mis next_agent blocking_issues = Inr w1"
    and rec: "reconcile_workflow_state now w1 stages True = Inr (w2, m2)"
    and w': "w' = w2\<lparr>wf_ticket := choose_next_agent studio (wf_ticket w2) stages ''reject'' plan next_agent\<rparr>"
    by (rule apply_stage_route_Inr) (simp split: if_splits)
  from m0 assms(2) have m0m: "m0 = m" by simp
  note moved = rework_move_Inr [OF w1]
  let ?r = "reset_upstream_stages m stages from_key (rp_to_key plan)"
  have "parse_stage_map (wf_instance w') stages = Inr (tabulate stages (\<lambda>k. dict_get ?r k StageStatus.PENDING))"
    by (rule apply_route_map [OF assms(1) moved(1) [unfolded m0m] rec w'])
  moreover have "map_of (tabulate stages (\<lambda>k. dict_get ?r k StageStatus.PENDING)) k =
      (if i \<le> the (stage_index stages k) \<and> the (stage_index stages k) \<le> f
       then Some StageStatus.PENDING else map_of m k)" if k: "k \<in> sd_key ` set stages" for k
  proof -
    obtain j where j: "stage_index stages k = Some j" using k by (metis stage_index_None_iff not_None_eq)
    from parse_stage_map_tabulated [OF assms(2)] obtain g where g: "m = tabulate stages g" by blast
    show ?thesis using reset_upstream_lookup [OF assms(3-6), of m k] k j
      by (simp add: map_of_tabulate dict_get_def g)
  qed
  moreover have "tk_blocking_issues (wf_ticket w') = tk_blocking_issues (wf_ticket w1)"
  proof -
    from rec obtain d ns where "w2 = apply_derivation now w1 stages True d ns" by (rule reconcile_Inr)
    then show ?thesis by (simp add: w' choose_next_agent_fields reconciled_ticket)
  qed
  ultimately show ?thesis using moved(3) by auto
qed


definition sample_done_workflow :: "Workflow" where
  "sample_done_workflow = sample_workflow\<lparr>wf_instance := (wf_instance sample_workflow)
     \<lparr>wi_stages_json := stages_up_to_done_json sample_stages ''plan''\<rparr>\<rparr>"

theorem reject_route_effect_witness:
  "\<exists>w' plan orch' m'. apply_stage_route 7 [] None sample_done_workflow sample_stages [] ''implement'' ''reject'' [] []
       ''redo'' None False = Inr (w', plan, orch')
     \<and> parse_stage_map (wf_instance w') sample_stages = Inr m'
     \<and> map_of m' ''plan'' = Some StageStatus.PENDING"
proof -
  let ?r = "apply_stage_route 7 [] None sample_done_workflow sample_stages [] ''implement'' ''reject'' [] []
       ''redo'' None False"
  have "case ?r of Inr (w', plan, orch') \<Rightarrow> rp_to_key plan = ''plan'' | Inl e \<Rightarrow> False" by code_simp
  then obtain w' plan orch' where r: "?r = Inr (w', plan, orch')" and to: "rp_to_key plan = ''plan''"
    by (cases ?r) (simp_all split: prod.splits)
  have m: "parse_stage_map (wf_instance sample_done_workflow) sample_stages
     = Inr [(''plan'', StageStatus.DONE), (''implement'', StageStatus.PENDING), (''done'', StageStatus.PENDING)]"
    by code_simp
  have d: "distinct (map sd_key sample_stages)" "stage_index sample_stages ''implement'' = Some 1"
    "stage_index sample_stages ''plan'' = Some 0" "(0::nat) \<le> 1" by code_simp+
  have k: "''plan'' \<in> sd_key ` set sample_stages" by (simp add: sample_stages_def plain_stage_def)
  from reject_route_effect [OF r m d(1,2) _ d(4)] d(3) to obtain m' where
    "parse_stage_map (wf_instance w') sample_stages = Inr m'"
    and all: "\<forall>k \<in> sd_key ` set sample_stages. map_of m' k =
          (if 0 \<le> the (stage_index sample_stages k) \<and> the (stage_index sample_stages k) \<le> 1
           then Some StageStatus.PENDING else map_of [(''plan'', StageStatus.DONE),
             (''implement'', StageStatus.PENDING), (''done'', StageStatus.PENDING)] k)" by metis
  moreover from bspec [OF all k] d(3) have "map_of m' ''plan'' = Some StageStatus.PENDING" by simp
  ultimately show ?thesis using r by (intro exI conjI)
qed

text \<open>what a pass does. When the plan goes forward without a classify branch, the stages it
  skipped are won't-do afterwards, the passing stage is done unless it was recorded won't-do,
  and every other status is as it was.\<close>

theorem pass_route_effect:
  assumes "apply_stage_route now studio plans w stages transitions from_key ''pass'' route_to next_agent
       blocking_issues orch_run strict = Inr (w', plan, orch')"
    and "parse_stage_map (wf_instance w) stages = Inr m" and "\<not> rp_upstream plan"
    and "classify_branch_target studio stages (wf_ticket w) from_key ''pass'' [] = []"
  shows "\<exists>m' plan0 skipped. parse_stage_map (wf_instance w') stages = Inr m'
     \<and> advance_past_skipped studio plans stages transitions (wf_ticket w) plan0 ''pass'' = (plan, skipped)
     \<and> (\<forall>k \<in> sd_key ` set stages. map_of m' k =
          (if k = from_key \<and> k \<notin> set skipped \<and> map_of m k \<noteq> Some StageStatus.WONT_DO then Some StageStatus.DONE
           else if k \<in> set skipped then Some StageStatus.WONT_DO else map_of m k))"
proof -
  from assms(1) obtain plan0 mis branch_to skipped m0 w1 w2 m2 where
    p: "plan_route studio (wf_ticket w) stages transitions from_key ''pass'' route_to next_agent strict
       = Inr (plan0, mis, branch_to)"
    and adv: "advance_past_skipped studio plans stages transitions (wf_ticket w) plan0 ''pass'' = (plan, skipped)"
    and m0: "parse_stage_map (wf_instance w) stages = Inr m0"
    and w1: "(if rp_upstream plan \<or> ''pass'' = ''reject''
             then rework_move studio w stages m0 from_key ''pass'' plan mis next_agent blocking_issues
             else advance_move now w stages m0 from_key plan skipped branch_to) = Inr w1"
    and rec: "reconcile_workflow_state now w1 stages True = Inr (w2, m2)"
    and w': "w' = w2\<lparr>wf_ticket := choose_next_agent studio (wf_ticket w2) stages ''pass'' plan next_agent\<rparr>"
    by (rule apply_stage_route_Inr)
  have b: "branch_to = []" by (rule plan_route_pass_branch [OF p assms(4)])
  from m0 assms(2) have mm: "m0 = m" by simp
  from w1 assms(3) b mm have w1': "advance_move now w stages m from_key plan skipped [] = Inr w1" by simp
  let ?m1 = "passed_over stages m skipped [] []"
  have look: "map_of ?m1 k = (if k \<in> set skipped then Some StageStatus.WONT_DO else map_of m k)" for k
    by (simp add: passed_over_def map_of_fold_set)
  note moved = advance_move_Inr(1) [OF assms(2) w1', of ?m1, simplified]
  note after = apply_route_map [OF assms(1) moved rec w']
  from parse_stage_map_tabulated [OF assms(2)] obtain g where g: "m = tabulate stages g" by blast
  show ?thesis
    by (intro exI conjI, rule after, rule adv) (auto simp: map_of_tabulate look [unfolded g] dict_get_def g)
qed

theorem pass_route_effect_witness:
  "\<exists>w' plan orch' m'. apply_stage_route 7 [] None sample_workflow sample_stages [] ''plan'' ''pass'' [] []
       [] None False = Inr (w', plan, orch')
     \<and> parse_stage_map (wf_instance w') sample_stages = Inr m'"
proof -
  let ?r = "apply_stage_route 7 [] None sample_workflow sample_stages [] ''plan'' ''pass'' [] [] [] None False"
  have "case ?r of Inr (w', plan, orch') \<Rightarrow> \<not> rp_upstream plan | Inl e \<Rightarrow> False" by code_simp
  then obtain w' plan orch' where r: "?r = Inr (w', plan, orch')" and up: "\<not> rp_upstream plan"
    by (cases ?r) (simp_all split: prod.splits)
  have m: "parse_stage_map (wf_instance sample_workflow) sample_stages
     = Inr [(''plan'', StageStatus.PENDING), (''implement'', StageStatus.PENDING), (''done'', StageStatus.PENDING)]"
    by code_simp
  have b: "classify_branch_target [] sample_stages (wf_ticket sample_workflow) ''plan'' ''pass'' [] = []"
    by code_simp
  from pass_route_effect [OF r m up b] r show ?thesis by (elim exE conjE) (intro exI conjI)
qed

end
