(* ===== verification/Board.thy ===== *)
theory Board
  imports TicketStates
begin

text \<open>
  The rows the ticket services share, and the queries they make of them: the tables
  \<open>tickets\<close>, \<open>workspaces\<close>, \<open>ticket_dependencies\<close>, \<open>initiative_members\<close> and
  \<open>initiative_number_pool\<close> of \<open>models/domain\<close>, each a list in row order, and the event
  log. A query without an order returns its rows in table order. The parent links make a
  relation \<open>parents\<close>, whose closure the walks over the tree compute.
\<close>

record TicketDependency =
  td_id :: string
  td_ticket_id :: string
  td_depends_on_ticket_id :: string
  td_created_by :: string

record Workspace =
  ws_id :: string
  ws_slug :: string
  ws_ticket_prefix :: string
  ws_last_ticket_number :: int

record Board =
  bd_tickets :: "Ticket list"
  bd_workspaces :: "Workspace list"
  bd_dependencies :: "TicketDependency list"
  bd_members :: "(string \<times> string) list"
  bd_initiative_pool :: "int option"
  bd_events :: "DomainEvent list"

definition empty_board :: Board where
  "empty_board = \<lparr>bd_tickets = [], bd_workspaces = [], bd_dependencies = [], bd_members = [],
     bd_initiative_pool = None, bd_events = []\<rparr>"

section \<open>Queries and writes\<close>

definition get_ticket :: "Board \<Rightarrow> string \<Rightarrow> Ticket option" where
  "get_ticket b i = find (\<lambda>t. tk_id t = i) (bd_tickets b)"

definition get_workspace :: "Board \<Rightarrow> string \<Rightarrow> Workspace option" where
  "get_workspace b i = find (\<lambda>w. ws_id w = i) (bd_workspaces b)"

definition put_ticket :: "Ticket \<Rightarrow> Board \<Rightarrow> Board" where
  "put_ticket t b = b\<lparr>bd_tickets := map (\<lambda>u. if tk_id u = tk_id t then t else u) (bd_tickets b)\<rparr>"

definition put_workspace :: "Workspace \<Rightarrow> Board \<Rightarrow> Board" where
  "put_workspace w b = b\<lparr>bd_workspaces := map (\<lambda>u. if ws_id u = ws_id w then w else u) (bd_workspaces b)\<rparr>"

definition children_of :: "Board \<Rightarrow> string \<Rightarrow> Ticket list" where
  "children_of b i = filter (\<lambda>t. tk_parent_ticket_id t = Some i) (bd_tickets b)"

text \<open>Rows whose parent is one of the given ids, for an \<open>IN\<close> query.\<close>

definition children_in :: "Board \<Rightarrow> string list \<Rightarrow> Ticket list" where
  "children_in b ids =
     filter (\<lambda>t. case tk_parent_ticket_id t of None \<Rightarrow> False | Some p \<Rightarrow> p \<in> set ids) (bd_tickets b)"

definition ids_of :: "Board \<Rightarrow> string list" where
  "ids_of b = map tk_id (bd_tickets b)"

lemma get_ticket_Some: "get_ticket b i = Some t \<Longrightarrow> tk_id t = i \<and> t \<in> set (bd_tickets b)"
  unfolding get_ticket_def by (drule find_Some_iff') auto

lemma get_ticket_id: "get_ticket b i = Some t \<Longrightarrow> tk_id t = i"
  by (simp add: get_ticket_Some)

lemma get_ticket_None_iff: "get_ticket b i = None \<longleftrightarrow> i \<notin> set (ids_of b)"
  unfolding get_ticket_def ids_of_def find_None_iff' by auto

lemma get_ticket_ex: "i \<in> set (ids_of b) \<Longrightarrow> \<exists>t. get_ticket b i = Some t"
  by (metis get_ticket_None_iff not_None_eq)

lemma get_ticket_unique:
  assumes "distinct (ids_of b)" and "t \<in> set (bd_tickets b)"
  shows "get_ticket b (tk_id t) = Some t"
proof -
  from assms(2) obtain u where u: "get_ticket b (tk_id t) = Some u"
    using get_ticket_ex [of "tk_id t" b] by (auto simp: ids_of_def)
  from get_ticket_Some [OF u] assms have "u = t"
    by (auto simp: ids_of_def distinct_map dest: inj_onD)
  with u show ?thesis by simp
qed

lemma ids_of_put_ticket [simp]: "ids_of (put_ticket t b) = ids_of b"
  by (auto simp: ids_of_def put_ticket_def)

lemma put_ticket_fields [simp]:
  "bd_workspaces (put_ticket t b) = bd_workspaces b"
  "bd_dependencies (put_ticket t b) = bd_dependencies b"
  "bd_members (put_ticket t b) = bd_members b"
  "bd_initiative_pool (put_ticket t b) = bd_initiative_pool b"
  "bd_events (put_ticket t b) = bd_events b"
  by (simp_all add: put_ticket_def)

lemma find_map_put:
  "find (\<lambda>u. tk_id u = i) (map (\<lambda>u. if tk_id u = tk_id t then t else u) ts) =
     (if i = tk_id t then (if \<exists>u \<in> set ts. tk_id u = i then Some t else None)
      else find (\<lambda>u. tk_id u = i) ts)"
  by (induction ts) auto

lemma get_put_ticket:
  "get_ticket (put_ticket t b) i =
     (if i = tk_id t then (if i \<in> set (ids_of b) then Some t else None) else get_ticket b i)"
proof -
  have "(\<exists>u \<in> set (bd_tickets b). tk_id u = j) \<longleftrightarrow> j \<in> set (ids_of b)" for j
    by (auto simp: ids_of_def)
  then show ?thesis by (simp add: get_ticket_def put_ticket_def find_map_put)
qed

lemma get_put_ticket_self [simp]:
  "get_ticket b i = Some u \<Longrightarrow> tk_id t = i \<Longrightarrow> get_ticket (put_ticket t b) i = Some t"
  using get_ticket_None_iff [of b i] by (simp add: get_put_ticket)

section \<open>The tree\<close>

text \<open>\<open>session.get(Ticket, t.parent_ticket_id)\<close> where the column is set and not empty.\<close>

definition parent_id :: "Ticket \<Rightarrow> string option" where
  "parent_id t = (case tk_parent_ticket_id t of None \<Rightarrow> None | Some p \<Rightarrow> if p = [] then None else Some p)"

definition parents :: "Board \<Rightarrow> (string \<times> string) set" where
  "parents b = {(c, p). \<exists>t. get_ticket b c = Some t \<and> parent_id t = Some p}"

lemma parents_iff: "(c, p) \<in> parents b \<longleftrightarrow> (\<exists>t. get_ticket b c = Some t \<and> parent_id t = Some p)"
  by (simp add: parents_def)

lemma parents_functional: "(c, p) \<in> parents b \<Longrightarrow> (c, q) \<in> parents b \<Longrightarrow> p = q"
  by (auto simp: parents_iff)

lemma parents_source: "(c, p) \<in> parents b \<Longrightarrow> c \<in> set (ids_of b)"
  by (metis get_ticket_None_iff option.distinct(1) parents_iff)

text \<open>Rows not yet visited: the measure every walk over the rows decreases.\<close>

definition unseen :: "Board \<Rightarrow> string list \<Rightarrow> nat" where
  "unseen b seen = card (set (ids_of b) - set seen)"

lemma unseen_less:
  assumes "i \<in> set (ids_of b)" and "i \<notin> set seen" and "insert i (set seen) \<subseteq> set seen'"
  shows "unseen b seen' < unseen b seen"
  unfolding unseen_def
proof (rule psubset_card_mono)
  show "finite (set (ids_of b) - set seen)" by simp
  show "set (ids_of b) - set seen' \<subset> set (ids_of b) - set seen" using assms by blast
qed

lemma unseen_le: "set seen \<subseteq> set seen' \<Longrightarrow> unseen b seen' \<le> unseen b seen"
  unfolding unseen_def by (rule card_mono) auto

lemma unseen_put_ticket [simp]: "unseen (put_ticket t b) seen = unseen b seen"
  by (simp add: unseen_def)

section \<open>Walking up\<close>

text \<open>\<open>ancestor_ids\<close>: the parents above a row, bounded by the ids already found.\<close>

function ancestor_walk :: "Board \<Rightarrow> Ticket option \<Rightarrow> string list \<Rightarrow> string list" where
  "ancestor_walk b None found = found"
| "ancestor_walk b (Some t) found =
     (case parent_id t of
        None \<Rightarrow> found
      | Some p \<Rightarrow> if p \<in> set found then found else ancestor_walk b (get_ticket b p) (found @ [p]))"
  by pat_completeness auto
termination
proof (relation "measure (\<lambda>(b, cur, found). case cur of None \<Rightarrow> 0 | Some t \<Rightarrow> Suc (unseen b found))",
    goal_cases)
  case (2 b t found p)
  show ?case
  proof (cases "get_ticket b p")
    case (Some u)
    then have "p \<in> set (ids_of b)" by (metis get_ticket_None_iff option.distinct(1))
    from unseen_less [OF this 2(2), of "found @ [p]"] Some show ?thesis by simp
  qed simp
qed simp

definition ancestor_ids :: "Board \<Rightarrow> string \<Rightarrow> string list" where
  "ancestor_ids b ticket_id = ancestor_walk b (get_ticket b ticket_id) []"

lemma ancestor_walk_sound:
  assumes "cur = get_ticket b i" and "x \<in> set (ancestor_walk b cur found)"
  shows "x \<in> set found \<or> (i, x) \<in> (parents b)\<^sup>+"
  using assms
proof (induction b cur found arbitrary: i rule: ancestor_walk.induct)
  case (2 b t found)
  show ?case
  proof (cases "parent_id t")
    case None
    with 2(3) show ?thesis by simp
  next
    case (Some p)
    have step: "(i, p) \<in> parents b" using 2(2) [symmetric] Some by (simp add: parents_iff)
    show ?thesis
    proof (cases "p \<in> set found")
      case True
      with Some 2(3) show ?thesis by simp
    next
      case False
      with Some 2(3) have "x \<in> set (ancestor_walk b (get_ticket b p) (found @ [p]))" by simp
      from 2(1) [OF Some False refl this] step show ?thesis by (auto intro: trancl_into_trancl2)
    qed
  qed
qed simp

lemma ancestor_walk_complete:
  assumes "cur = get_ticket b i"
    and "\<And>x y. x \<in> set found \<Longrightarrow> x \<noteq> i \<Longrightarrow> (x, y) \<in> parents b \<Longrightarrow> y \<in> set found"
  shows "set found \<subseteq> set (ancestor_walk b cur found)
     \<and> (\<forall>x y. x \<in> insert i (set (ancestor_walk b cur found)) \<longrightarrow> (x, y) \<in> parents b
          \<longrightarrow> y \<in> set (ancestor_walk b cur found))"
  using assms
proof (induction b cur found arbitrary: i rule: ancestor_walk.induct)
  case (1 b found)
  then have "(i, y) \<notin> parents b" for y by (auto simp: parents_iff)
  with 1(2) show ?case by auto
next
  case (2 b t found)
  show ?case
  proof (cases "parent_id t")
    case None
    with 2(2) have "(i, y) \<notin> parents b" for y by (auto simp: parents_iff)
    with 2(3) None show ?thesis by auto
  next
    case (Some p)
    have step: "(i, y) \<in> parents b \<longleftrightarrow> y = p" for y
      using 2(2) [symmetric] Some by (auto simp: parents_iff)
    show ?thesis
    proof (cases "p \<in> set found")
      case True
      with Some step 2(3) show ?thesis by (auto, metis)
    next
      case False
      have prem: "y \<in> set (found @ [p])" if "x \<in> set (found @ [p])" "x \<noteq> p" "(x, y) \<in> parents b" for x y
        using that 2(3) [of x y] step [of y] by auto
      from 2(1) [OF Some False refl] prem
      have "set (found @ [p]) \<subseteq> set (ancestor_walk b (get_ticket b p) (found @ [p]))
         \<and> (\<forall>x y. x \<in> insert p (set (ancestor_walk b (get_ticket b p) (found @ [p])))
              \<longrightarrow> (x, y) \<in> parents b \<longrightarrow> y \<in> set (ancestor_walk b (get_ticket b p) (found @ [p])))"
        by auto
      with Some False step show ?thesis by auto
    qed
  qed
qed

text \<open>The walk finds exactly the rows above: it terminates on any table, cyclic ones included.\<close>

lemma ancestor_ids_iff: "x \<in> set (ancestor_ids b i) \<longleftrightarrow> (i, x) \<in> (parents b)\<^sup>+"
proof
  assume "x \<in> set (ancestor_ids b i)"
  then show "(i, x) \<in> (parents b)\<^sup>+"
    using ancestor_walk_sound [OF refl, of x b i "[]"] by (simp add: ancestor_ids_def)
next
  let ?A = "set (ancestor_ids b i)"
  have closed: "\<forall>x y. x \<in> insert i ?A \<longrightarrow> (x, y) \<in> parents b \<longrightarrow> y \<in> ?A"
    using ancestor_walk_complete [where b = b and i = i and found = "[]", OF refl] by (simp add: ancestor_ids_def)
  assume "(i, x) \<in> (parents b)\<^sup>+"
  then show "x \<in> ?A"
    by (induction rule: trancl_induct) (use closed in blast)+
qed

section \<open>Walking down\<close>

function subtree_walk :: "Board \<Rightarrow> string list \<Rightarrow> string list \<Rightarrow> string list" where
  "subtree_walk b frontier found =
     (if frontier = [] then found
      else (let frontier' = filter (\<lambda>c. c \<notin> set found) (map tk_id (children_in b frontier))
            in subtree_walk b frontier' (found @ frontier')))"
  by pat_completeness auto
termination
proof (relation "measures [\<lambda>(b, frontier, found). unseen b found, \<lambda>(b, frontier, found). length frontier]",
    goal_cases)
  case (2 b frontier found x)
  show ?case
  proof (cases x)
    case (Cons c cs)
    then have "c \<in> set x" by simp
    with 2(2) have "c \<in> set (map tk_id (children_in b frontier))" and new: "c \<notin> set found" by auto
    then have "c \<in> set (ids_of b)" by (auto simp: children_in_def ids_of_def)
    from unseen_less [OF this new, of "found @ x"] Cons show ?thesis by auto
  qed (use 2 in simp)
qed simp

declare subtree_walk.simps [simp del]

definition subtree_ids :: "Board \<Rightarrow> string \<Rightarrow> string list" where
  "subtree_ids b root_id = subtree_walk b [root_id] [root_id]"

text \<open>Row ids are a primary key, and not empty.\<close>

definition keyed :: "Board \<Rightarrow> bool" where
  "keyed b \<longleftrightarrow> distinct (ids_of b) \<and> [] \<notin> set (ids_of b)"

lemma keyed_put_ticket [simp]: "keyed (put_ticket t b) \<longleftrightarrow> keyed b"
  by (simp add: keyed_def)

lemma children_in_iff:
  assumes "keyed b" and "[] \<notin> set ids"
  shows "c \<in> set (map tk_id (children_in b ids)) \<longleftrightarrow> (\<exists>p \<in> set ids. (c, p) \<in> parents b)"
proof
  assume "c \<in> set (map tk_id (children_in b ids))"
  then obtain t p where t: "t \<in> set (bd_tickets b)" "tk_id t = c" "tk_parent_ticket_id t = Some p" "p \<in> set ids"
    by (auto simp: children_in_def split: option.splits)
  have "get_ticket b c = Some t"
    using get_ticket_unique [of b t] assms(1) t(1,2) by (simp add: keyed_def)
  with t assms(2) have "(c, p) \<in> parents b" by (auto simp: parents_iff parent_id_def)
  with t(4) show "\<exists>p \<in> set ids. (c, p) \<in> parents b" ..
next
  assume "\<exists>p \<in> set ids. (c, p) \<in> parents b"
  then obtain p t where "p \<in> set ids" "get_ticket b c = Some t" "parent_id t = Some p"
    by (auto simp: parents_iff)
  then show "c \<in> set (map tk_id (children_in b ids))"
    using get_ticket_Some [of b c t]
    by (auto simp: children_in_def parent_id_def split: option.splits if_splits)
qed

lemma subtree_walk_sound:
  assumes "keyed b" and "set frontier \<subseteq> set found" and "[] \<notin> set found"
    and "\<And>x. x \<in> set found \<Longrightarrow> (x, r) \<in> (parents b)\<^sup>*"
    and "x \<in> set (subtree_walk b frontier found)"
  shows "(x, r) \<in> (parents b)\<^sup>*"
  using assms
proof (induction b frontier found rule: subtree_walk.induct)
  case (1 b frontier found)
  show ?case
  proof (cases "frontier = []")
    case True
    with 1 show ?thesis by (simp add: subtree_walk.simps)
  next
    case False
    let ?f = "filter (\<lambda>c. c \<notin> set found) (map tk_id (children_in b frontier))"
    have ne: "[] \<notin> set frontier" using 1(3,4) by blast
    have f: "(y, r) \<in> (parents b)\<^sup>*" "y \<noteq> []" if "y \<in> set ?f" for y
    proof -
      from that have "y \<in> set (map tk_id (children_in b frontier))" by auto
      then obtain p where p: "p \<in> set frontier" "(y, p) \<in> parents b"
        using children_in_iff [OF 1(2) ne] by blast
      with 1(3,5) show "(y, r) \<in> (parents b)\<^sup>*" by (blast intro: converse_rtrancl_into_rtrancl)
      show "y \<noteq> []" using parents_source [OF p(2)] 1(2) by (auto simp: keyed_def)
    qed
    show ?thesis
    proof (rule 1(1) [OF False refl 1(2)])
      show "set ?f \<subseteq> set (found @ ?f)" by auto
      show "[] \<notin> set (found @ ?f)" using f(2) 1(4) by auto
      show "(y, r) \<in> (parents b)\<^sup>*" if "y \<in> set (found @ ?f)" for y
        using that f(1) 1(5) by auto
      show "x \<in> set (subtree_walk b ?f (found @ ?f))"
        using 1(6) False by (subst (asm) subtree_walk.simps) (simp add: Let_def)
    qed
  qed
qed

lemma subtree_walk_complete:
  assumes "keyed b" and "set frontier \<subseteq> set found" and "[] \<notin> set found"
    and "\<And>x p. p \<in> set found - set frontier \<Longrightarrow> (x, p) \<in> parents b \<Longrightarrow> x \<in> set found"
  shows "set found \<subseteq> set (subtree_walk b frontier found)
     \<and> (\<forall>x p. p \<in> set (subtree_walk b frontier found) \<longrightarrow> (x, p) \<in> parents b
          \<longrightarrow> x \<in> set (subtree_walk b frontier found))"
  using assms
proof (induction b frontier found rule: subtree_walk.induct)
  case (1 b frontier found)
  show ?case
  proof (cases "frontier = []")
    case True
    then have "subtree_walk b frontier found = found" by (simp add: subtree_walk.simps)
    with 1(5) True show ?thesis by auto
  next
    case False
    let ?f = "filter (\<lambda>c. c \<notin> set found) (map tk_id (children_in b frontier))"
    have ne: "[] \<notin> set frontier" using 1(3,4) by blast
    have kids: "x \<in> set (found @ ?f)" if "p \<in> set frontier" "(x, p) \<in> parents b" for x p
      using children_in_iff [OF 1(2) ne, of x] that by auto
    have step: "subtree_walk b frontier found = subtree_walk b ?f (found @ ?f)"
      using False by (subst subtree_walk.simps) (simp add: Let_def)
    have "set (found @ ?f) \<subseteq> set (subtree_walk b ?f (found @ ?f))
     \<and> (\<forall>x p. p \<in> set (subtree_walk b ?f (found @ ?f)) \<longrightarrow> (x, p) \<in> parents b
          \<longrightarrow> x \<in> set (subtree_walk b ?f (found @ ?f)))"
    proof (rule 1(1) [OF False refl 1(2)])
      show "set ?f \<subseteq> set (found @ ?f)" by auto
      show "[] \<notin> set (found @ ?f)"
        using 1(2,4) by (auto simp: keyed_def children_in_def ids_of_def)
      show "x \<in> set (found @ ?f)" if "p \<in> set (found @ ?f) - set ?f" "(x, p) \<in> parents b" for x p
        using that kids [of p x] 1(5) [of p x] by auto
    qed
    then show ?thesis unfolding step by simp
  qed
qed

text \<open>The walk finds exactly the row itself and everything below it.\<close>

lemma subtree_ids_iff:
  assumes "keyed b" and "r \<noteq> []"
  shows "x \<in> set (subtree_ids b r) \<longleftrightarrow> (x, r) \<in> (parents b)\<^sup>*"
proof
  assume "x \<in> set (subtree_ids b r)"
  then show "(x, r) \<in> (parents b)\<^sup>*"
    using subtree_walk_sound [OF assms(1), of "[r]" "[r]" r x] assms(2) by (simp add: subtree_ids_def)
next
  have closed: "r \<in> set (subtree_ids b r)"
    "\<And>x p. p \<in> set (subtree_ids b r) \<Longrightarrow> (x, p) \<in> parents b \<Longrightarrow> x \<in> set (subtree_ids b r)"
    using subtree_walk_complete [OF assms(1), of "[r]" "[r]"] assms(2) by (auto simp: subtree_ids_def)
  assume "(x, r) \<in> (parents b)\<^sup>*"
  then show "x \<in> set (subtree_ids b r)"
    by (induction rule: converse_rtrancl_induct) (use closed in blast)+
qed

end
