(* ===== verification/Dependencies.thy ===== *)
theory Dependencies
  imports Board
begin

text \<open>
  \<open>services/ticket_dependencies.py\<close>: the "waits for" edges between tickets. They are kept
  acyclic on insert, and a ticket may not wait on an ancestor, whichever of the edge and
  the parent link is written last. The locale \<open>reach_oracle\<close> is what the insert needs of
  the cycle check; \<open>reaches\<close>, the depth-first search of the code, provides it.
\<close>

definition ANCESTOR_WAIT_REFUSED :: string where
  "ANCESTOR_WAIT_REFUSED =
     ''A ticket cannot depend on an ancestor; a parent is done only when its children are''"

definition REPARENT_ONTO_PREREQUISITE_REFUSED :: string where
  "REPARENT_ONTO_PREREQUISITE_REFUSED =
     ''Cannot reparent under a ticket this subtree already depends on''"

section \<open>Guards\<close>

definition refuse_wait_on_ancestor :: "Board \<Rightarrow> string \<Rightarrow> string \<Rightarrow> unit result" where
  "refuse_wait_on_ancestor b ticket_id depends_on =
     (if depends_on \<in> set (ancestor_ids b ticket_id) then Inl (ValueError ANCESTOR_WAIT_REFUSED)
      else Inr ())"

definition refuse_reparent_onto_a_prerequisite :: "Board \<Rightarrow> string \<Rightarrow> string \<Rightarrow> unit result" where
  "refuse_reparent_onto_a_prerequisite b ticket_id new_parent_id =
     (let new_ancestors = new_parent_id # ancestor_ids b new_parent_id;
          subtree = subtree_ids b ticket_id;
          rows = filter (\<lambda>row. td_ticket_id row \<in> set subtree) (bd_dependencies b)
      in if list_ex (\<lambda>row. td_depends_on_ticket_id row \<in> set new_ancestors) rows
         then Inl (ValueError REPARENT_ONTO_PREREQUISITE_REFUSED) else Inr ())"

section \<open>Edges that wait on an ancestor\<close>

record AncestorWait =
  aw_edge :: TicketDependency
  aw_dependent :: Ticket
  aw_ancestor :: Ticket

text \<open>The inner walk: does \<open>target\<close> sit above \<open>cursor\<close>.\<close>

function wait_walk :: "Board \<Rightarrow> string \<Rightarrow> string option \<Rightarrow> string list \<Rightarrow> bool" where
  "wait_walk b target None seen = False"
| "wait_walk b target (Some cursor) seen =
     (if cursor = target then True
      else if cursor \<in> set seen then False
      else wait_walk b target (case get_ticket b cursor of None \<Rightarrow> None | Some t \<Rightarrow> parent_id t)
             (seen @ [cursor]))"
  by pat_completeness auto
termination
proof (relation "measures [\<lambda>(b, target, cur, seen). unseen b seen,
      \<lambda>(b, target, cur, seen). case cur of None \<Rightarrow> 0 | Some c \<Rightarrow> (1::nat)]", goal_cases)
  case (2 b target cursor seen)
  show ?case
  proof (cases "get_ticket b cursor")
    case None
    have "unseen b (seen @ [cursor]) \<le> unseen b seen" by (rule unseen_le) auto
    with None show ?thesis by auto
  next
    case (Some t)
    then have "cursor \<in> set (ids_of b)" by (metis get_ticket_None_iff option.distinct(1))
    from unseen_less [OF this 2(2), of "seen @ [cursor]"] show ?thesis by simp
  qed
qed simp

definition ancestor_waits :: "Board \<Rightarrow> AncestorWait list" where
  "ancestor_waits b =
     concat (map (\<lambda>edge.
       let start = (case get_ticket b (td_ticket_id edge) of None \<Rightarrow> None | Some t \<Rightarrow> parent_id t) in
       if wait_walk b (td_depends_on_ticket_id edge) start []
       then (case (get_ticket b (td_ticket_id edge), get_ticket b (td_depends_on_ticket_id edge)) of
               (Some waiting, Some higher) \<Rightarrow>
                 [\<lparr>aw_edge = edge, aw_dependent = waiting, aw_ancestor = higher\<rparr>]
             | _ \<Rightarrow> [])
       else []) (bd_dependencies b))"

fun drop_ancestor_waits :: "Board \<Rightarrow> AncestorWait list \<Rightarrow> Board \<times> nat" where
  "drop_ancestor_waits b [] = (b, 0)"
| "drop_ancestor_waits b (wait # waits) =
     (if \<exists>edge \<in> set (bd_dependencies b). td_id edge = td_id (aw_edge wait)
      then (let (b', deleted) = drop_ancestor_waits
                  (b\<lparr>bd_dependencies := filter (\<lambda>edge. td_id edge \<noteq> td_id (aw_edge wait)) (bd_dependencies b)\<rparr>)
                  waits
            in (b', deleted + 1))
      else drop_ancestor_waits b waits)"

section \<open>The service\<close>

definition prerequisites :: "Board \<Rightarrow> string \<Rightarrow> string list" where
  "prerequisites b ticket_id =
     map td_depends_on_ticket_id (filter (\<lambda>row. td_ticket_id row = ticket_id) (bd_dependencies b))"

definition dependents :: "Board \<Rightarrow> string \<Rightarrow> string list" where
  "dependents b ticket_id =
     map td_ticket_id (filter (\<lambda>row. td_depends_on_ticket_id row = ticket_id) (bd_dependencies b))"

text \<open>
  \<open>_reaches\<close>: the stack is a list whose head is its top, so \<open>extend\<close> pushes the reverse of
  the rows. It stops because each visit consumes a ticket that has edges, or shortens the
  stack.
\<close>

definition sources_left :: "Board \<Rightarrow> string list \<Rightarrow> nat" where
  "sources_left b seen = card (td_ticket_id ` set (bd_dependencies b) - set seen)"

function reaches_walk :: "Board \<Rightarrow> string \<Rightarrow> string list \<Rightarrow> string list \<Rightarrow> bool" where
  "reaches_walk b target [] seen = False"
| "reaches_walk b target (current # stack) seen =
     (if current = target then True
      else if current \<in> set seen then reaches_walk b target stack seen
      else reaches_walk b target (rev (prerequisites b current) @ stack) (current # seen))"
  by pat_completeness auto
termination
proof (relation "measures [\<lambda>(b, target, stack, seen). sources_left b seen,
      \<lambda>(b, target, stack, seen). length stack]", goal_cases)
  case (3 b target current stack seen)
  show ?case
  proof (cases "current \<in> td_ticket_id ` set (bd_dependencies b)")
    case True
    have "sources_left b (current # seen) < sources_left b seen"
      unfolding sources_left_def by (rule psubset_card_mono) (use True 3(2) in auto)
    then show ?thesis by simp
  next
    case False
    then have "prerequisites b current = []" by (auto simp: prerequisites_def filter_empty_conv)
    moreover have "sources_left b (current # seen) \<le> sources_left b seen"
      unfolding sources_left_def by (rule card_mono) auto
    ultimately show ?thesis by auto
  qed
qed auto

definition reaches :: "Board \<Rightarrow> string \<Rightarrow> string \<Rightarrow> bool" where
  "reaches b start target = reaches_walk b target [start] []"

text \<open>The new row's id is drawn by the database layer and is an argument.\<close>

definition add_dependency ::
    "string \<Rightarrow> Board \<Rightarrow> string \<Rightarrow> string \<Rightarrow> string \<Rightarrow> (Board \<times> TicketDependency) result" where
  "add_dependency new_id b ticket_id depends_on created_by =
     (if ticket_id = depends_on then Inl (ValueError ''A ticket cannot depend on itself'')
      else bind_result (refuse_wait_on_ancestor b ticket_id depends_on) (\<lambda>_.
        case find (\<lambda>row. td_ticket_id row = ticket_id \<and> td_depends_on_ticket_id row = depends_on)
               (bd_dependencies b) of
          Some existing \<Rightarrow> Inr (b, existing)
        | None \<Rightarrow>
            if reaches b depends_on ticket_id
            then Inl (DependencyCycleError depends_on ticket_id)
            else (let edge = \<lparr>td_id = new_id, td_ticket_id = ticket_id,
                              td_depends_on_ticket_id = depends_on, td_created_by = created_by\<rparr>
                  in Inr (b\<lparr>bd_dependencies := bd_dependencies b @ [edge]\<rparr>, edge))))"

definition remove_dependency :: "Board \<Rightarrow> string \<Rightarrow> string \<Rightarrow> Board \<times> bool" where
  "remove_dependency b ticket_id depends_on =
     (case find (\<lambda>row. td_ticket_id row = ticket_id \<and> td_depends_on_ticket_id row = depends_on)
            (bd_dependencies b) of
        None \<Rightarrow> (b, False)
      | Some edge \<Rightarrow> (b\<lparr>bd_dependencies := remove1 edge (bd_dependencies b)\<rparr>, True))"

definition SATISFIED_STATES :: "TicketState list" where
  "SATISFIED_STATES = [TicketState.DONE, TicketState.WONT_DO]"

definition unmet_prerequisites :: "Board \<Rightarrow> string \<Rightarrow> Ticket list" where
  "unmet_prerequisites b ticket_id =
     (let ids = prerequisites b ticket_id in
      if ids = [] then []
      else filter (\<lambda>row. tk_state row \<notin> set SATISFIED_STATES)
             (filter (\<lambda>row. tk_id row \<in> set ids) (bd_tickets b)))"

definition prerequisites_map :: "Board \<Rightarrow> string list \<Rightarrow> (string, string list) dict" where
  "prerequisites_map b ticket_ids =
     map (\<lambda>tid. (tid, dedup (prerequisites b tid))) (dedup ticket_ids)"

section \<open>The graph\<close>

definition edges :: "Board \<Rightarrow> (string \<times> string) set" where
  "edges b = (\<lambda>row. (td_ticket_id row, td_depends_on_ticket_id row)) ` set (bd_dependencies b)"

lemma edges_iff: "(x, y) \<in> edges b \<longleftrightarrow> y \<in> set (prerequisites b x)"
  by (auto simp: edges_def prerequisites_def image_iff)

lemma edges_put_ticket [simp]: "edges (put_ticket t b) = edges b"
  by (simp add: edges_def)

text \<open>What an insert relies on: a search that decides reachability. Refusing an edge whose far
  end reaches its near end is then exactly refusing a cycle.\<close>

locale reach_oracle =
  fixes graph :: "(string \<times> string) set" and finds :: "string \<Rightarrow> string \<Rightarrow> bool"
  assumes finds_iff: "finds s t \<longleftrightarrow> (s, t) \<in> graph\<^sup>*"
begin

lemma insert_keeps_acyclic:
  assumes "acyclic graph" and "\<not> finds y x"
  shows "acyclic (insert (x, y) graph)"
  using assms by (simp add: finds_iff acyclic_insert)

lemma refusal_exact: "acyclic graph \<Longrightarrow> finds y x \<longleftrightarrow> \<not> acyclic (insert (x, y) graph)"
  by (simp add: finds_iff acyclic_insert)

end

lemma reaches_walk_iff:
  assumes "target \<notin> set seen"
    and "\<And>x y. x \<in> set seen \<Longrightarrow> (x, y) \<in> edges b \<Longrightarrow> y \<in> set seen \<union> set stack"
  shows "reaches_walk b target stack seen \<longleftrightarrow> (\<exists>s \<in> set stack. (s, target) \<in> (edges b)\<^sup>*)"
  using assms
proof (induction b target stack seen rule: reaches_walk.induct)
  case (2 b target current stack seen)
  consider (found) "current = target" | (old) "current \<noteq> target" "current \<in> set seen"
    | (fresh) "current \<noteq> target" "current \<notin> set seen" by blast
  then show ?case
  proof cases
    case found
    then show ?thesis by auto
  next
    case old
    have IH: "reaches_walk b target stack seen \<longleftrightarrow> (\<exists>s \<in> set stack. (s, target) \<in> (edges b)\<^sup>*)"
      by (rule 2(1)) (use old 2(3,4) in fastforce)+
    have escape: "\<exists>s \<in> set stack. (s, target) \<in> (edges b)\<^sup>*"
      if "(x, target) \<in> (edges b)\<^sup>*" "x \<in> set seen" for x
      using that
    proof (induction rule: converse_rtrancl_induct)
      case base
      with 2(3) show ?case by simp
    next
      case (step x y)
      with 2(4) [of x y] old show ?case by auto
    qed
    from old IH escape [of current] show ?thesis by auto
  next
    case fresh
    have IH: "reaches_walk b target (rev (prerequisites b current) @ stack) (current # seen) \<longleftrightarrow>
        (\<exists>s \<in> set (rev (prerequisites b current) @ stack). (s, target) \<in> (edges b)\<^sup>*)"
      by (rule 2(2)) (use fresh 2(3,4) in \<open>auto simp: edges_iff\<close>)
    have "(current, target) \<in> (edges b)\<^sup>* \<longleftrightarrow> (\<exists>s \<in> set (prerequisites b current). (s, target) \<in> (edges b)\<^sup>*)"
      using fresh(1) by (metis converse_rtranclE converse_rtrancl_into_rtrancl edges_iff)
    with fresh IH show ?thesis by auto
  qed
qed simp

interpretation cycle_check: reach_oracle "edges b" "reaches b" for b
proof
  fix s t
  have "reaches_walk b t [s] [] \<longleftrightarrow> (\<exists>s' \<in> set [s]. (s', t) \<in> (edges b)\<^sup>*)"
    by (rule reaches_walk_iff) simp_all
  then show "reaches b s t \<longleftrightarrow> (s, t) \<in> (edges b)\<^sup>*"
    unfolding reaches_def by (simp only: list.set) blast
qed

section \<open>Facts\<close>

lemma wait_walk_sound:
  "wait_walk b target cur seen \<Longrightarrow> cur = Some c \<Longrightarrow> (c, target) \<in> (parents b)\<^sup>*"
proof (induction b target cur seen arbitrary: c rule: wait_walk.induct)
  case (2 b target cursor seen)
  show ?case
  proof (cases "cursor = target")
    case True
    with 2 show ?thesis by simp
  next
    case False
    with 2(2) have new: "cursor \<notin> set seen"
      and rest: "wait_walk b target (case get_ticket b cursor of None \<Rightarrow> None | Some t \<Rightarrow> parent_id t)
                   (seen @ [cursor])" by (auto split: if_splits)
    from rest obtain t p where t: "get_ticket b cursor = Some t" "parent_id t = Some p"
      by (auto split: option.splits) (metis not_None_eq wait_walk.simps(1))
    then have "(cursor, p) \<in> parents b" by (auto simp: parents_iff)
    moreover have "(p, target) \<in> (parents b)\<^sup>*" using 2(1) [OF False new rest] t by simp
    ultimately show ?thesis using 2(3) by (auto intro: converse_rtrancl_into_rtrancl)
  qed
qed simp

lemma add_dependency_cases:
  assumes "add_dependency new_id b t d by_whom = Inr (b', edge)"
  shows "t \<noteq> d \<and> d \<notin> set (ancestor_ids b t)
     \<and> (b' = b \<and> (t, d) \<in> edges b
        \<or> \<not> reaches b d t \<and> edges b' = insert (t, d) (edges b)
          \<and> bd_tickets b' = bd_tickets b)"
  using assms
  by (auto simp: add_dependency_def refuse_wait_on_ancestor_def edges_def Let_def image_iff
      split: if_splits option.splits dest!: find_Some_iff')

lemma remove_dependency_edges:
  "edges (fst (remove_dependency b t d)) \<subseteq> edges b"
  "bd_tickets (fst (remove_dependency b t d)) = bd_tickets b"
  using set_remove1_subset [where 'a = TicketDependency]
  by (fastforce simp: remove_dependency_def edges_def split: option.splits)+

lemma parents_cong: "bd_tickets b' = bd_tickets b \<Longrightarrow> parents b' = parents b"
  by (simp add: parents_def get_ticket_def)

lemma edges_drop_ancestor_waits:
  "edges (fst (drop_ancestor_waits b waits)) \<subseteq> edges b
     \<and> bd_tickets (fst (drop_ancestor_waits b waits)) = bd_tickets b"
proof (induction waits arbitrary: b)
  case (Cons w ws)
  let ?b = "b\<lparr>bd_dependencies := filter (\<lambda>edge. td_id edge \<noteq> td_id (aw_edge w)) (bd_dependencies b)\<rparr>"
  have "edges ?b \<subseteq> edges b" by (auto simp: edges_def)
  moreover obtain b' n where "drop_ancestor_waits ?b ws = (b', n)" by fastforce
  ultimately show ?case using Cons.IH [of b] Cons.IH [of ?b] by auto
qed simp

text \<open>No edge waits on an ancestor.\<close>

definition no_ancestor_wait :: "Board \<Rightarrow> bool" where
  "no_ancestor_wait b \<longleftrightarrow> edges b \<inter> (parents b)\<^sup>+ = {}"

lemma no_ancestor_wait_subset:
  "no_ancestor_wait b \<Longrightarrow> edges b' \<subseteq> edges b \<Longrightarrow> bd_tickets b' = bd_tickets b \<Longrightarrow> no_ancestor_wait b'"
  using parents_cong [of b' b] by (auto simp: no_ancestor_wait_def)

lemma add_dependency_keeps:
  assumes "add_dependency new_id b t d by_whom = Inr (b', edge)"
  shows "acyclic (edges b) \<Longrightarrow> acyclic (edges b')" and "no_ancestor_wait b \<Longrightarrow> no_ancestor_wait b'"
proof -
  note c = add_dependency_cases [OF assms]
  show "acyclic (edges b')" if "acyclic (edges b)"
    using c that cycle_check.insert_keeps_acyclic [of b d t] by auto
  show "no_ancestor_wait b'" if "no_ancestor_wait b"
  proof -
    have "(t, d) \<notin> (parents b)\<^sup>+" using c by (simp add: ancestor_ids_iff)
    with c that parents_cong [of b' b] show ?thesis by (auto simp: no_ancestor_wait_def)
  qed
qed

end
