(* ===== verification/TicketIds.thy ===== *)
theory TicketIds
  imports Board
begin

text \<open>
  \<open>services/ticket_ids.py\<close>: the shareable ticket id
  \<open>prefix-milestone-number\<close>. Only the number identifies a ticket, so the id can be
  re-spelled when the ticket moves; resolution tries the spellings a row carries and then
  the number. The patterns are written out as functions: a structured id is its text before
  the first dash, its text after the last one, and what is between.
\<close>

definition NO_MILESTONE_SEGMENT :: string where "NO_MILESTONE_SEGMENT = ''none''"
definition FALLBACK_PREFIX :: string where "FALLBACK_PREFIX = ''ws''"
definition PREFIX_LENGTH :: nat where "PREFIX_LENGTH = 3"
definition MILESTONE_CODE_WORDS :: nat where "MILESTONE_CODE_WORDS = 2"
definition MILESTONE_CODE_MAX :: nat where "MILESTONE_CODE_MAX = 24"
definition INITIATIVE_SLUG_FALLBACK :: string where "INITIATIVE_SLUG_FALLBACK = ''initiative''"

definition MILESTONE_NOISE_WORDS :: "string list" where
  "MILESTONE_NOISE_WORDS = [''track'', ''milestone'', ''m'']"

definition MILESTONE_STOP_WORDS :: "string list" where
  "MILESTONE_STOP_WORDS = [''the'', ''a'', ''an'', ''and'', ''of'', ''for'', ''to'']"

section \<open>Words and codes\<close>

text \<open>\<open>re.split\<close> on runs of anything but \<open>[a-z0-9]\<close>, empty pieces dropped.\<close>

function split_words :: "string \<Rightarrow> string list" where
  "split_words s =
     (case dropWhile (\<lambda>c. \<not> is_lower_alnum c) s of
        [] \<Rightarrow> []
      | c # cs \<Rightarrow> (c # takeWhile is_lower_alnum cs) # split_words (dropWhile is_lower_alnum cs))"
  by pat_completeness auto
termination
proof (relation "measure length", goal_cases)
  case (2 s c cs)
  have "length (dropWhile is_lower_alnum cs) \<le> length cs" by (rule length_dropWhile_le)
  also have "\<dots> < length (dropWhile (\<lambda>c. \<not> is_lower_alnum c) s)" using 2 by simp
  also have "\<dots> \<le> length s" by (rule length_dropWhile_le)
  finally show ?case by simp
qed simp

declare split_words.simps [simp del]

definition title_words :: "string \<Rightarrow> string list" where
  "title_words text = split_words (lower text)"

text \<open>\<open>^[a-z]?\d+$\<close>.\<close>

definition is_ordinal :: "string \<Rightarrow> bool" where
  "is_ordinal w =
     (case w of
        [] \<Rightarrow> False
      | c # cs \<Rightarrow> (is_digit c \<and> list_all is_digit cs)
                  \<or> (is_lower_alnum c \<and> \<not> is_digit c \<and> cs \<noteq> [] \<and> list_all is_digit cs))"

text \<open>\<open>for length in range(3, max(len, 3) + 1)\<close>, then a numbered suffix.\<close>

definition first_free :: "string \<Rightarrow> string list \<Rightarrow> string" where
  "first_free stem taken =
     (case find (\<lambda>suffix. stem @ digits_of suffix \<notin> set taken) [2..<length taken + 3] of
        Some suffix \<Rightarrow> stem @ digits_of suffix
      | None \<Rightarrow> stem)"

definition derive_workspace_prefix :: "string \<Rightarrow> string list \<Rightarrow> string" where
  "derive_workspace_prefix slug taken =
     (let letters = filter is_lower_alnum (lower slug);
          letters = (if letters = [] then FALLBACK_PREFIX else letters)
      in case find (\<lambda>n. take n letters \<notin> set taken) [PREFIX_LENGTH..<max (length letters) PREFIX_LENGTH + 1] of
           Some n \<Rightarrow> take n letters
         | None \<Rightarrow> first_free (take PREFIX_LENGTH letters) taken)"

fun drop_noise :: "string list \<Rightarrow> string list" where
  "drop_noise [] = []"
| "drop_noise (w # ws) =
     (if w \<in> set MILESTONE_NOISE_WORDS \<or> is_ordinal w
      then (case ws of
              [] \<Rightarrow> []
            | v # vs \<Rightarrow> if length v = 1 \<or> is_ordinal v then drop_noise vs else drop_noise (v # vs))
      else w # ws)"

definition strip_dashes :: "string \<Rightarrow> string" where
  "strip_dashes s = rev (dropWhile (\<lambda>c. c = CHR ''-'') (rev (dropWhile (\<lambda>c. c = CHR ''-'') s)))"

definition derive_milestone_code :: "string \<Rightarrow> string list \<Rightarrow> string" where
  "derive_milestone_code title taken =
     (let ws = drop_noise (title_words title);
          kept = filter (\<lambda>w. w \<notin> set MILESTONE_STOP_WORDS) ws;
          code = strip_dashes (take MILESTONE_CODE_MAX
            (join ''-'' (take MILESTONE_CODE_WORDS (if kept \<noteq> [] then kept else ws))));
          code = (if code = [] \<or> code = NO_MILESTONE_SEGMENT then ''milestone'' else code)
      in if code \<notin> set taken then code else first_free (code @ ''-'') taken)"

section \<open>Spelling and parsing\<close>

definition spell_external_id :: "string \<Rightarrow> string \<Rightarrow> int \<Rightarrow> string" where
  "spell_external_id prefix milestone_code number =
     join ''-'' [if strip prefix \<noteq> [] then strip prefix else FALLBACK_PREFIX,
                if strip milestone_code \<noteq> [] then strip milestone_code else NO_MILESTONE_SEGMENT,
                str_int number]"

definition spell_initiative_external_id :: "string \<Rightarrow> int \<Rightarrow> string" where
  "spell_initiative_external_id slug n =
     (let cleaned = lower (strip_dashes (strip slug));
          cleaned = (if cleaned = [] then INITIATIVE_SLUG_FALLBACK else cleaned)
      in ''init-'' @ cleaned @ ''-'' @ str_int n)"

text \<open>A structured id: its prefix and its number.\<close>

definition parse_structured :: "string \<Rightarrow> (string \<times> nat) option" where
  "parse_structured s =
     (let dash = (\<lambda>c. c \<noteq> CHR ''-'');
          prefix = takeWhile dash s; rest = dropWhile dash s;
          number = rev (takeWhile dash (rev s)) in
      if rest \<noteq> [] \<and> prefix \<noteq> [] \<and> list_all is_lower_alnum prefix
          \<and> list_all (\<lambda>c. is_lower_alnum c \<or> c = CHR ''-'') rest
          \<and> number \<noteq> [] \<and> list_all is_digit number
      then Some (prefix, digits_value number) else None)"

definition parse_ticket_number :: "string \<Rightarrow> nat option" where
  "parse_ticket_number v = map_option snd (parse_structured (lower (strip v)))"

definition parse_workspace_prefix :: "string \<Rightarrow> string option" where
  "parse_workspace_prefix v = map_option fst (parse_structured (lower (strip v)))"

text \<open>\<open>^init-(slug)-(number)$\<close>: the slug of an initiative's id.\<close>

definition initiative_slug_from_external_id :: "string \<Rightarrow> string option" where
  "initiative_slug_from_external_id external_id =
     (let s = lower (strip external_id);
          rest = drop 5 s; number = rev (takeWhile (\<lambda>c. c \<noteq> CHR ''-'') (rev rest));
          slug = take (length rest - length number - 1) rest in
      if starts_with s ''init-'' \<and> length number < length rest \<and> number \<noteq> [] \<and> list_all is_digit number
          \<and> slug \<noteq> [] \<and> list_all (\<lambda>c. is_lower_alnum c \<or> c = CHR ''-'') slug
      then Some slug else None)"

section \<open>Issuing\<close>

text \<open>\<open>int(max or 0)\<close> of a column.\<close>

definition max_or_zero :: "int list \<Rightarrow> int" where
  "max_or_zero xs = (case xs of [] \<Rightarrow> 0 | x # ys \<Rightarrow> fold max ys x)"

definition next_initiative_number :: "Board \<Rightarrow> Board \<times> int" where
  "next_initiative_number b =
     (let pool = (case bd_initiative_pool b of None \<Rightarrow> 0 | Some n \<Rightarrow> n);
          live_max = max_or_zero (map tk_ticket_number
            (filter (\<lambda>t. tk_work_item_type t = INITIATIVE) (bd_tickets b)));
          issued = (if pool > live_max then pool + 1 else live_max + 1)
      in (b\<lparr>bd_initiative_pool := Some issued\<rparr>, issued))"

definition next_ticket_number :: "Board \<Rightarrow> Workspace \<Rightarrow> Board \<times> int" where
  "next_ticket_number b workspace =
     (let highest_live = max_or_zero (map tk_ticket_number
            (filter (\<lambda>t. tk_workspace_id t = Some (ws_id workspace)) (bd_tickets b)));
          issued = max (ws_last_ticket_number workspace) highest_live + 1
      in (put_workspace (workspace\<lparr>ws_last_ticket_number := issued\<rparr>) b, issued))"

definition workspace_prefix :: "Board \<Rightarrow> Workspace \<Rightarrow> Board \<times> string" where
  "workspace_prefix b workspace =
     (if strip (ws_ticket_prefix workspace) \<noteq> [] then (b, strip (ws_ticket_prefix workspace))
      else
        (let taken = filter (\<lambda>p. p \<noteq> []) (map ws_ticket_prefix
               (filter (\<lambda>w. ws_id w \<noteq> ws_id workspace) (bd_workspaces b)));
             prefix = derive_workspace_prefix (ws_slug workspace) taken
         in (put_workspace (workspace\<lparr>ws_ticket_prefix := prefix\<rparr>) b, prefix)))"

definition milestone_code :: "Board \<Rightarrow> Ticket \<Rightarrow> Board \<times> string" where
  "milestone_code b milestone =
     (if strip (tk_milestone_code milestone) \<noteq> [] then (b, strip (tk_milestone_code milestone))
      else
        (let taken = filter (\<lambda>c. c \<noteq> []) (map tk_milestone_code
               (filter (\<lambda>t. tk_workspace_id t = tk_workspace_id milestone \<and> tk_id t \<noteq> tk_id milestone)
                  (bd_tickets b)));
             code = derive_milestone_code (tk_title milestone) taken
         in (put_ticket (milestone\<lparr>tk_milestone_code := code\<rparr>) b, code)))"

function milestone_walk :: "Board \<Rightarrow> Ticket \<Rightarrow> string list \<Rightarrow> Ticket option" where
  "milestone_walk b current seen =
     (case parent_id current of
        None \<Rightarrow> None
      | Some p \<Rightarrow>
          (case get_ticket b p of
             None \<Rightarrow> None
           | Some parent \<Rightarrow>
               if tk_id parent \<in> set seen then None
               else if tk_work_item_type parent = MILESTONE then Some parent
               else milestone_walk b parent (seen @ [tk_id parent])))"
  by pat_completeness auto
termination
proof (relation "measure (\<lambda>(b, current, seen). unseen b seen)", goal_cases)
  case (2 b current seen p parent)
  then have "tk_id parent \<in> set (ids_of b)"
    using get_ticket_Some [OF 2(2)] by (auto simp: ids_of_def)
  from unseen_less [OF this 2(3), of "seen @ [tk_id parent]"] show ?case by simp
qed simp

declare milestone_walk.simps [simp del]

definition ancestor_milestone :: "Board \<Rightarrow> Ticket \<Rightarrow> Ticket option" where
  "ancestor_milestone b ticket =
     (if tk_work_item_type ticket = MILESTONE then Some ticket
      else milestone_walk b ticket [tk_id ticket])"

definition milestone_segment_for :: "Board \<Rightarrow> Ticket \<Rightarrow> Board \<times> string" where
  "milestone_segment_for b ticket =
     (case ancestor_milestone b ticket of
        Some milestone \<Rightarrow> milestone_code b milestone
      | None \<Rightarrow> (b, NO_MILESTONE_SEGMENT))"

text \<open>
  \<open>workspace_prefix\<close>, \<open>milestone_segment_for\<close> and the assignment, in evaluation order; a
  milestone's own code is written to its row first, so the row is re-read before the id is.
\<close>

definition spell_ticket :: "Board \<Rightarrow> string \<Rightarrow> Workspace \<Rightarrow> Board" where
  "spell_ticket b ticket_id workspace =
     (let (b, prefix) = workspace_prefix b workspace in
      case get_ticket b ticket_id of
        None \<Rightarrow> b
      | Some ticket \<Rightarrow>
          (let (b, segment) = milestone_segment_for b ticket in
           case get_ticket b ticket_id of
             None \<Rightarrow> b
           | Some ticket \<Rightarrow>
               put_ticket (ticket\<lparr>tk_external_id :=
                 spell_external_id prefix segment (tk_ticket_number ticket)\<rparr>) b))"

definition respell_external_id :: "Board \<Rightarrow> string \<Rightarrow> Workspace \<Rightarrow> Board" where
  "respell_external_id b ticket_id workspace = spell_ticket b ticket_id workspace"

definition assign_external_id :: "Board \<Rightarrow> string \<Rightarrow> Workspace \<Rightarrow> string \<Rightarrow> Board" where
  "assign_external_id b ticket_id workspace supplied_id =
     (case get_ticket b ticket_id of
        None \<Rightarrow> b
      | Some ticket \<Rightarrow>
          (let ticket = (if strip supplied_id \<noteq> []
                         then ticket\<lparr>tk_legacy_external_id := strip supplied_id\<rparr> else ticket);
               (b, ticket) =
                 (if tk_ticket_number ticket = 0
                  then (let (b, number) = next_ticket_number (put_ticket ticket b) workspace
                        in (b, ticket\<lparr>tk_ticket_number := number\<rparr>))
                  else (b, ticket));
               b = put_ticket ticket b;
               workspace = (case get_workspace b (ws_id workspace) of Some w \<Rightarrow> w | None \<Rightarrow> workspace)
           in spell_ticket b ticket_id workspace))"

definition reissue_in_workspace :: "Board \<Rightarrow> string list \<Rightarrow> string \<Rightarrow> Board" where
  "reissue_in_workspace b ticket_ids workspace_id =
     (let reset = (\<lambda>i b. case get_ticket b i of
              None \<Rightarrow> b
            | Some t \<Rightarrow> put_ticket (if tk_work_item_type t = MILESTONE
                then t\<lparr>tk_ticket_number := 0, tk_milestone_code := []\<rparr>
                else t\<lparr>tk_ticket_number := 0\<rparr>) b);
          issue = (\<lambda>i b. case (get_ticket b i, get_workspace b workspace_id) of
              (Some t, Some w) \<Rightarrow>
                (let t = (if strip (tk_legacy_external_id t) = []
                          then t\<lparr>tk_legacy_external_id := tk_external_id t\<rparr> else t)
                 in assign_external_id (put_ticket t b) i w [])
            | _ \<Rightarrow> b)
      in fold issue ticket_ids (fold reset ticket_ids b))"

section \<open>Resolving\<close>

text \<open>\<open>str.isdigit\<close> below 256: the superscripts count, and \<open>int\<close> then refuses them.\<close>

definition is_digit_string :: "string \<Rightarrow> bool" where
  "is_digit_string s \<longleftrightarrow> s \<noteq> [] \<and> list_all (\<lambda>c. is_digit c \<or> code_point c \<in> {178, 179, 185}) s"

definition int_of_string :: "string \<Rightarrow> nat result" where
  "int_of_string s =
     (if s \<noteq> [] \<and> list_all is_digit s then Inr (digits_value s)
      else Inl (ValueError (''invalid literal for int() with base 10: '' @ repr_str s)))"

definition tickets_spelled ::
    "Board \<Rightarrow> (Ticket \<Rightarrow> string) \<Rightarrow> string \<Rightarrow> string option \<Rightarrow> Ticket list" where
  "tickets_spelled b column ref workspace_id =
     sort_key tk_external_id
       (filter (\<lambda>t. column t \<in> {ref, lower ref}
            \<and> (case workspace_id of
                 None \<Rightarrow> True
               | Some i \<Rightarrow> i = [] \<or> tk_workspace_id t = Some i \<or> tk_workspace_id t = None)) (bd_tickets b))"

definition resolve :: "Board \<Rightarrow> string \<Rightarrow> string option \<Rightarrow> Ticket option result" where
  "resolve b v workspace_id =
     (let ref = strip v in
      if ref = [] then Inr None
      else
        (case tickets_spelled b tk_external_id ref workspace_id @
              tickets_spelled b tk_legacy_external_id ref workspace_id of
           t # _ \<Rightarrow> Inr (Some t)
         | [] \<Rightarrow>
             (let lowered = lower ref;
                  workspace = (case workspace_id of
                      None \<Rightarrow> None | Some i \<Rightarrow> if i = [] then None else get_workspace b i);
                  by_number = (\<lambda>w n. find (\<lambda>t. tk_workspace_id t = Some (ws_id w)
                      \<and> tk_ticket_number t = int n) (bd_tickets b)) in
              case workspace of
                Some w \<Rightarrow>
                  if is_digit_string lowered
                  then bind_result (int_of_string lowered) (\<lambda>n. Inr (by_number w n))
                  else if parse_workspace_prefix lowered \<noteq> Some (ws_ticket_prefix w) then Inr None
                  else (case parse_ticket_number lowered of
                          None \<Rightarrow> Inr None | Some n \<Rightarrow> Inr (by_number w n))
              | None \<Rightarrow>
                  (case (parse_workspace_prefix lowered, parse_ticket_number lowered) of
                     (Some prefix, Some n) \<Rightarrow>
                       (case find (\<lambda>w. ws_ticket_prefix w = prefix) (bd_workspaces b) of
                          None \<Rightarrow> Inr None | Some w \<Rightarrow> Inr (by_number w n))
                   | _ \<Rightarrow> Inr None))))"

definition resolve_one :: "Board \<Rightarrow> string \<Rightarrow> string option \<Rightarrow> Ticket result" where
  "resolve_one b v workspace_id =
     (let ref = strip v;
          ambiguous = (\<lambda>matches why. Inl (AmbiguousTicketReference ref (map tk_external_id matches) why));
          by_id = tickets_spelled b tk_external_id ref workspace_id;
          by_legacy = tickets_spelled b tk_legacy_external_id ref workspace_id in
      if length by_id > 1
      then ambiguous by_id (digits_of (length by_id) @ '' tickets carry it as external_id'')
      else if by_id = [] \<and> length by_legacy > 1
      then ambiguous by_legacy (digits_of (length by_legacy) @ '' tickets carry it as legacy_external_id'')
      else bind_result (if ref \<noteq> [] then resolve b ref workspace_id else Inr None) (\<lambda>found.
        case found of
          Some t \<Rightarrow> Inr t
        | None \<Rightarrow>
            if workspace_id = None \<and> is_digit_string ref
            then bind_result (int_of_string ref) (\<lambda>n.
              let numbered = sort_key tk_external_id
                    (filter (\<lambda>t. tk_ticket_number t = int n) (bd_tickets b))
              in if numbered \<noteq> []
                 then ambiguous numbered ''ticket numbers are unique only within a workspace''
                 else Inl (TicketNotFound ref))
            else Inl (TicketNotFound ref)))"

section \<open>Facts\<close>

text \<open>Among \<open>length taken + 1\<close> distinct candidates one is free.\<close>

lemma first_free_fresh: "first_free stem taken \<notin> set taken"
proof (cases "find (\<lambda>n. stem @ digits_of n \<notin> set taken) [2..<length taken + 3]")
  case (Some n)
  then show ?thesis using find_Some_iff' [OF Some] by (simp add: first_free_def)
next
  case None
  let ?c = "(\<lambda>n. stem @ digits_of n) ` {2..<length taken + 3}"
  have "inj_on (\<lambda>n. stem @ digits_of n) {2..<length taken + 3}"
    by (auto intro!: inj_onI simp: digits_of_inj)
  then have "card ?c = length taken + 1" by (simp add: card_image)
  moreover have "?c \<subseteq> set taken" using None by (auto simp: find_None_iff')
  then have "card ?c \<le> length taken"
    by (meson List.finite_set card_length card_mono order_trans)
  ultimately show ?thesis by simp
qed

lemma max_or_zero_ge: "x \<in> set xs \<Longrightarrow> x \<le> max_or_zero xs"
proof -
  have "y \<le> fold max ys m" if "y \<in> insert m (set ys)" for y m and ys :: "int list"
    using that
  proof (induction ys arbitrary: m y)
    case (Cons z zs)
    from Cons.IH [of "max z m" "max z m"] have "max z m \<le> fold max zs (max z m)" by simp
    with Cons show ?case by fastforce
  qed simp
  then show "x \<in> set xs \<Longrightarrow> x \<le> max_or_zero xs" by (cases xs) (auto simp: max_or_zero_def)
qed

text \<open>Text that survives stripping and lower-casing: dashes, digits and lower-case letters.\<close>

definition is_id_char :: "char \<Rightarrow> bool" where
  "is_id_char c \<longleftrightarrow> is_lower_alnum c \<or> c = CHR ''-''"

lemma is_id_char_stable: "is_id_char c \<Longrightarrow> \<not> is_space c \<and> lower_char c = c"
  by (auto simp: is_id_char_def is_lower_alnum_def is_space_def lower_char_def code_point_def Let_def)

lemma digit_is_id_char: "is_digit c \<Longrightarrow> is_lower_alnum c \<and> c \<noteq> CHR ''-''"
  by (auto simp: is_digit_def is_lower_alnum_def code_point_def Let_def)

lemma lower_alnum_not_dash: "is_lower_alnum c \<Longrightarrow> c \<noteq> CHR ''-''"
  by (auto simp: is_lower_alnum_def code_point_def Let_def)

lemma strip_id: "list_all is_id_char s \<Longrightarrow> strip s = s"
proof -
  assume s: "list_all is_id_char s"
  have drop: "dropWhile is_space xs = xs" if "list_all is_id_char xs" for xs
    using that by (cases xs) (auto simp: is_id_char_stable)
  from s have "list_all is_id_char (rev s)" by (simp add: list_all_iff)
  with s show ?thesis by (simp add: strip_def lstrip_def drop)
qed

lemma lower_id: "list_all is_id_char s \<Longrightarrow> lower s = s"
  unfolding lower_def by (induction s) (auto simp: is_id_char_stable)

lemma parse_structured_spelled:
  assumes "prefix \<noteq> []" and "list_all is_lower_alnum prefix" and "list_all is_id_char mid"
  shows "parse_structured (prefix @ CHR ''-'' # mid @ CHR ''-'' # digits_of n) = Some (prefix, n)"
proof -
  note d = digits_of_digits [of n]
  have nodash: "\<forall>c \<in> set prefix. c \<noteq> CHR ''-''" "\<forall>c \<in> set (digits_of n). c \<noteq> CHR ''-''"
    using assms(2) d by (auto simp: list_all_iff dest: lower_alnum_not_dash digit_is_id_char)
  have "takeWhile (\<lambda>c. c \<noteq> CHR ''-'') (prefix @ CHR ''-'' # mid @ CHR ''-'' # digits_of n) = prefix"
    and "dropWhile (\<lambda>c. c \<noteq> CHR ''-'') (prefix @ CHR ''-'' # mid @ CHR ''-'' # digits_of n)
      = CHR ''-'' # mid @ CHR ''-'' # digits_of n"
    using nodash(1) by (simp_all add: takeWhile_append dropWhile_append)
  moreover have "takeWhile (\<lambda>c. c \<noteq> CHR ''-'') (rev (prefix @ CHR ''-'' # mid @ CHR ''-'' # digits_of n))
      = rev (digits_of n)"
    using nodash(2) by (simp add: takeWhile_append)
  moreover have "list_all (\<lambda>c. is_lower_alnum c \<or> c = CHR ''-'') (mid @ CHR ''-'' # digits_of n)"
    using assms(3) d by (auto simp: list_all_iff is_id_char_def dest: digit_is_id_char)
  ultimately show ?thesis
    using assms(1,2) d by (simp add: parse_structured_def Let_def)
qed

section \<open>Properties\<close>

text \<open>the number in a shared id can always be read back. For a workspace prefix of letters
  and digits and a milestone segment of letters, digits and dashes, the id the code spells
  parses to that prefix and that number, whatever the segment.\<close>

theorem spelled_id_parses:
  assumes "prefix \<noteq> []" and "list_all is_lower_alnum prefix"
    and "segment \<noteq> []" and "list_all is_id_char segment"
  shows "parse_ticket_number (spell_external_id prefix segment (int n)) = Some n
     \<and> parse_workspace_prefix (spell_external_id prefix segment (int n)) = Some prefix"
proof -
  have p: "list_all is_id_char prefix" using assms(2) by (auto simp: list_all_iff is_id_char_def)
  have digits: "list_all is_id_char (digits_of n)"
    using digits_of_digits [of n] by (auto simp: list_all_iff is_id_char_def dest: digit_is_id_char)
  have spelled: "spell_external_id prefix segment (int n) = prefix @ CHR ''-'' # segment @ CHR ''-'' # digits_of n"
    using assms(1,3) by (simp add: spell_external_id_def strip_id [OF p] strip_id [OF assms(4)] str_int_def)
  have all: "list_all is_id_char (prefix @ CHR ''-'' # segment @ CHR ''-'' # digits_of n)"
    using p digits assms(4) by (simp add: is_id_char_def)
  show ?thesis
    by (simp add: parse_ticket_number_def parse_workspace_prefix_def spelled strip_id [OF all]
        lower_id [OF all] parse_structured_spelled [OF assms(1,2,4)])
qed

theorem spelled_id_parses_witness:
  "parse_ticket_number ''lor-mcp-gateway-142'' = Some 142
   \<and> parse_workspace_prefix ''lor-mcp-gateway-142'' = Some ''lor''"
proof -
  have h: "''lor'' \<noteq> []" "list_all is_lower_alnum ''lor''" "''mcp-gateway'' \<noteq> []"
    "list_all is_id_char ''mcp-gateway''" by code_simp+
  have "spell_external_id ''lor'' ''mcp-gateway'' (int 142) = ''lor-mcp-gateway-142''" by code_simp
  with spelled_id_parses [OF h, of 142] show ?thesis by simp
qed

lemma sort_key_empty_iff: "sort_key f xs = [] \<longleftrightarrow> xs = []"
  by (metis length_0_conv length_sort)

text \<open>a shared link survives a move. In a workspace whose prefix is lower-case letters and
  digits, an id spelled with that prefix and a ticket's number finds the ticket, whatever the
  milestone segment it was spelled with, provided no row carries that exact spelling and the
  number is the ticket's alone in the workspace.\<close>

theorem old_spelling_resolves:
  assumes "prefix \<noteq> []" and "list_all is_lower_alnum prefix"
    and "segment \<noteq> []" and "list_all is_id_char segment"
    and "get_workspace b i = Some w" and "i \<noteq> []" and "ws_ticket_prefix w = prefix"
    and "t \<in> set (bd_tickets b)" and "tk_workspace_id t = Some i" and "tk_ticket_number t = int n"
    and "\<And>u. u \<in> set (bd_tickets b) \<Longrightarrow> tk_workspace_id u = Some i \<Longrightarrow> tk_ticket_number u = int n \<Longrightarrow> u = t"
    and "\<And>u. u \<in> set (bd_tickets b) \<Longrightarrow> spell_external_id prefix segment (int n)
           \<notin> {tk_external_id u, tk_legacy_external_id u}"
  shows "resolve b (spell_external_id prefix segment (int n)) (Some i) = Inr (Some t)"
proof -
  let ?s = "spell_external_id prefix segment (int n)"
  have p: "list_all is_id_char prefix" using assms(2) by (auto simp: list_all_iff is_id_char_def)
  have digits: "list_all is_id_char (digits_of n)"
    using digits_of_digits [of n] by (auto simp: list_all_iff is_id_char_def dest: digit_is_id_char)
  have spelled: "?s = prefix @ CHR ''-'' # segment @ CHR ''-'' # digits_of n"
    using assms(1,3) by (simp add: spell_external_id_def strip_id [OF p] strip_id [OF assms(4)] str_int_def)
  have all: "list_all is_id_char ?s" using p digits assms(4) by (simp add: spelled is_id_char_def)
  have ne: "?s \<noteq> []" by (simp add: spelled)
  have none: "tickets_spelled b tk_external_id ?s (Some i) = []" "tickets_spelled b tk_legacy_external_id ?s (Some i) = []"
    unfolding tickets_spelled_def sort_key_empty_iff lower_id [OF all] filter_empty_conv
    using assms(12) by fastforce+
  have notdigits: "\<not> is_digit_string ?s"
    by (simp add: spelled is_digit_string_def is_digit_def code_point_def)
  have parsed: "parse_workspace_prefix ?s = Some prefix" "parse_ticket_number ?s = Some n"
    by (simp_all add: parse_ticket_number_def parse_workspace_prefix_def spelled
        strip_id [OF all [unfolded spelled]] lower_id [OF all [unfolded spelled]]
        parse_structured_spelled [OF assms(1,2,4)])
  have ws: "ws_id w = i" using assms(5) find_Some_iff' [of _ "bd_workspaces b" w]
    by (auto simp: get_workspace_def)
  have "find (\<lambda>u. tk_workspace_id u = Some i \<and> tk_ticket_number u = int n) (bd_tickets b) = Some t"
  proof (cases "find (\<lambda>u. tk_workspace_id u = Some i \<and> tk_ticket_number u = int n) (bd_tickets b)")
    case None
    with assms(8-10) show ?thesis by (auto simp: find_None_iff')
  next
    case (Some u)
    with find_Some_iff' [OF Some] assms(11) show ?thesis by auto
  qed
  then show ?thesis
    using assms(5-7) ws
    by (simp add: resolve_def Let_def strip_id [OF all] lower_id [OF all] ne none notdigits parsed)
qed

definition sample_ids_board :: Board where
  "sample_ids_board = empty_board\<lparr>
     bd_workspaces := [\<lparr>ws_id = ''w1'', ws_slug = ''loregarden'', ws_ticket_prefix = ''lor'',
                        ws_last_ticket_number = 7\<rparr>],
     bd_tickets := [(new_ticket ''T7'')\<lparr>tk_external_id := ''lor-bootstrap-7'', tk_ticket_number := 7,
                      tk_workspace_id := Some ''w1''\<rparr>]\<rparr>"

theorem old_spelling_resolves_witness:
  "\<exists>t. resolve sample_ids_board ''lor-none-7'' (Some ''w1'') = Inr (Some t) \<and> tk_id t = ''T7''"
proof -
  let ?t = "(new_ticket ''T7'')\<lparr>tk_external_id := ''lor-bootstrap-7'', tk_ticket_number := 7,
                      tk_workspace_id := Some ''w1''\<rparr>"
  let ?w = "\<lparr>ws_id = ''w1'', ws_slug = ''loregarden'', ws_ticket_prefix = ''lor'', ws_last_ticket_number = 7\<rparr>"
  have h: "''lor'' \<noteq> []" "list_all is_lower_alnum ''lor''" "''none'' \<noteq> []" "list_all is_id_char ''none''"
    by code_simp+
  have w: "get_workspace sample_ids_board ''w1'' = Some ?w" "''w1'' \<noteq> []" "ws_ticket_prefix ?w = ''lor''"
    by (simp_all add: get_workspace_def sample_ids_board_def)
  have rows: "bd_tickets sample_ids_board = [?t]" by (simp add: sample_ids_board_def)
  have s: "spell_external_id ''lor'' ''none'' 7 = ''lor-none-7''" by code_simp
  have "resolve sample_ids_board (spell_external_id ''lor'' ''none'' (int 7)) (Some ''w1'') = Inr (Some ?t)"
    by (rule old_spelling_resolves [OF h w]) (auto simp: rows s new_ticket_def)
  then show ?thesis by (simp add: s new_ticket_def)
qed

text \<open>a number is issued once. The number a workspace issues is above every number it has
  ever issued and every number a live row of it carries, and issuing again, even after rows
  were deleted, gives a larger one: the high-water mark lives on the workspace row.\<close>

theorem ticket_number_fresh:
  assumes "next_ticket_number b w = (b', n)" and "get_workspace b (ws_id w) = Some w"
  shows "ws_last_ticket_number w < n
     \<and> (\<forall>t \<in> set (bd_tickets b). tk_workspace_id t = Some (ws_id w) \<longrightarrow> tk_ticket_number t < n)
     \<and> (\<exists>w'. get_workspace b' (ws_id w) = Some w' \<and> ws_last_ticket_number w' = n
          \<and> (\<forall>b2. n < snd (next_ticket_number b2 w')))"
proof -
  let ?m = "max_or_zero (map tk_ticket_number (filter (\<lambda>t. tk_workspace_id t = Some (ws_id w)) (bd_tickets b)))"
  have n: "n = max (ws_last_ticket_number w) ?m + 1"
    and b': "b' = put_workspace (w\<lparr>ws_last_ticket_number := n\<rparr>) b"
    using assms(1) by (auto simp: next_ticket_number_def Let_def)
  have live: "tk_ticket_number t < n" if "t \<in> set (bd_tickets b)" "tk_workspace_id t = Some (ws_id w)" for t
    using max_or_zero_ge [of "tk_ticket_number t"
        "map tk_ticket_number (filter (\<lambda>t. tk_workspace_id t = Some (ws_id w)) (bd_tickets b))"] that
    by (auto simp: n)
  have "find (\<lambda>u. ws_id u = ws_id w) (map (\<lambda>u. if ws_id u = ws_id w then w\<lparr>ws_last_ticket_number := n\<rparr> else u) ws)
      = Some (w\<lparr>ws_last_ticket_number := n\<rparr>)" if "find (\<lambda>u. ws_id u = ws_id w) ws = Some w" for ws
    using that by (induction ws) auto
  with assms(2) have "get_workspace b' (ws_id w) = Some (w\<lparr>ws_last_ticket_number := n\<rparr>)"
    by (simp add: get_workspace_def b' put_workspace_def)
  with live show ?thesis by (auto simp: n next_ticket_number_def Let_def)
qed

theorem ticket_number_fresh_witness:
  "\<exists>w. get_workspace sample_ids_board ''w1'' = Some w \<and> 7 < snd (next_ticket_number sample_ids_board w)"
proof -
  let ?w = "\<lparr>ws_id = ''w1'', ws_slug = ''loregarden'', ws_ticket_prefix = ''lor'', ws_last_ticket_number = 7\<rparr>"
  have w: "get_workspace sample_ids_board (ws_id ?w) = Some ?w"
    by (simp add: get_workspace_def sample_ids_board_def)
  from ticket_number_fresh [OF prod.collapse [symmetric] w] w show ?thesis by auto
qed

text \<open>generated codes are unique: the prefix derived for a workspace and the code derived for
  a milestone are never among those already taken; the suffix search always ends.\<close>

theorem derived_codes_fresh:
  "derive_workspace_prefix slug taken \<notin> set taken \<and> derive_milestone_code title taken \<notin> set taken"
proof
  show "derive_workspace_prefix slug taken \<notin> set taken"
    by (auto simp: derive_workspace_prefix_def Let_def first_free_fresh split: option.splits
        dest: find_Some_iff')
  show "derive_milestone_code title taken \<notin> set taken"
    by (auto simp: derive_milestone_code_def Let_def first_free_fresh)
qed

end
