(* ===== verification/Hierarchy.thy ===== *)
theory Hierarchy
  imports Dependencies TicketIds
begin

text \<open>
  \<open>services/hierarchy_service.py\<close> and \<open>services/initiative_coverage.py\<close>: which work item may
  sit under which, moving one under another parent, and which tickets an initiative covers.
  A move is refused when it would close a cycle of parent links or put a ticket under one it
  waits for.
\<close>

section \<open>Counting and collecting\<close>

definition child_count :: "Board \<Rightarrow> string \<Rightarrow> nat" where
  "child_count b ticket_id = length (children_of b ticket_id)"

text \<open>\<open>queue\<close> is a list whose last element is popped.\<close>

fun scope_add :: "string list \<Rightarrow> string list \<times> string list \<Rightarrow> string list \<times> string list" where
  "scope_add [] (scope, queue) = (scope, queue)"
| "scope_add (c # cs) (scope, queue) =
     (if c \<notin> set scope then scope_add cs (scope @ [c], queue @ [c]) else scope_add cs (scope, queue))"

lemma scope_add_grows:
  "scope_add cs (scope, queue) = (scope', queue') \<Longrightarrow>
     \<exists>new. scope' = scope @ new \<and> queue' = queue @ new \<and> set new \<subseteq> set cs \<and> set new \<inter> set scope = {}
       \<and> distinct new"
proof (induction cs arbitrary: scope queue)
  case (Cons c cs)
  show ?case
  proof (cases "c \<in> set scope")
    case True
    with Cons.prems have "scope_add cs (scope, queue) = (scope', queue')" by simp
    from Cons.IH [OF this] show ?thesis by fastforce
  next
    case False
    with Cons.prems have "scope_add cs (scope @ [c], queue @ [c]) = (scope', queue')" by simp
    from Cons.IH [OF this] obtain new where "scope' = (scope @ [c]) @ new" "queue' = (queue @ [c]) @ new"
      "set new \<subseteq> set cs" "set new \<inter> set (scope @ [c]) = {}" "distinct new" by blast
    with False show ?thesis by (intro exI [of _ "c # new"]) auto
  qed
qed simp

function collect_walk :: "Board \<Rightarrow> string list \<Rightarrow> string list \<Rightarrow> string list" where
  "collect_walk b scope queue =
     (if queue = [] then scope
      else (case scope_add (map tk_id (children_of b (last queue))) (scope, butlast queue) of
              (scope', queue') \<Rightarrow> collect_walk b scope' queue'))"
  by pat_completeness auto
termination
proof (relation "measures [\<lambda>(b, scope, queue). unseen b scope, \<lambda>(b, scope, queue). length queue]",
    goal_cases)
  case (2 b scope queue scope' queue')
  from scope_add_grows [OF 2(2) [symmetric]] obtain new where new: "scope' = scope @ new" "queue' = butlast queue @ new"
    "set new \<subseteq> set (map tk_id (children_of b (last queue)))" "set new \<inter> set scope = {}" by blast
  show ?case
  proof (cases new)
    case Nil
    with new 2(1) show ?thesis by simp
  next
    case (Cons c cs)
    with new(3,4) have "c \<in> set (ids_of b)" "c \<notin> set scope"
      by (auto simp: children_of_def ids_of_def)
    moreover have "insert c (set scope) \<subseteq> set scope'" using new Cons by auto
    ultimately have "unseen b scope' < unseen b scope" by (rule unseen_less)
    then show ?thesis by simp
  qed
qed simp

declare collect_walk.simps [simp del]

definition collect_ticket_scope_ids :: "Board \<Rightarrow> string \<Rightarrow> string list" where
  "collect_ticket_scope_ids b ticket_id = collect_walk b [ticket_id] [ticket_id]"

section \<open>Parent rules\<close>

definition validate_parent_child :: "WorkItemType \<Rightarrow> WorkItemType \<Rightarrow> unit result" where
  "validate_parent_child parent_type child_type =
     (let allowed = VALID_HIERARCHY parent_type in
      if child_type \<notin> set allowed
      then Inl (ValueError (work_item_type_value parent_type @ '' cannot contain ''
             @ work_item_type_value child_type @ ''; allowed: [''
             @ join '', '' (map (\<lambda>t. repr_str (work_item_type_value t)) allowed) @ '']''))
      else Inr ())"

definition PARENTLESS_TYPES :: "WorkItemType list" where
  "PARENTLESS_TYPES = [INITIATIVE, MILESTONE]"

definition validate_parent_assignment :: "WorkItemType \<Rightarrow> WorkItemType option \<Rightarrow> unit result" where
  "validate_parent_assignment child_type parent_type =
     (case parent_type of
        None \<Rightarrow>
          if child_type \<notin> set PARENTLESS_TYPES
          then Inl (ValueError (work_item_type_value child_type @ '' requires a parent work item''))
          else Inr ()
      | Some p \<Rightarrow> validate_parent_child p child_type)"

function descendant_walk :: "Board \<Rightarrow> Ticket option \<Rightarrow> string \<Rightarrow> string list \<Rightarrow> bool" where
  "descendant_walk b None ancestor seen = False"
| "descendant_walk b (Some current) ancestor seen =
     (case parent_id current of
        None \<Rightarrow> False
      | Some p \<Rightarrow>
          if p \<in> set seen then False
          else if p = ancestor then True
          else descendant_walk b (get_ticket b p) ancestor (seen @ [p]))"
  by pat_completeness auto
termination
proof (relation "measure (\<lambda>(b, cur, a, seen). case cur of None \<Rightarrow> 0 | Some t \<Rightarrow> Suc (unseen b seen))",
    goal_cases)
  case (2 b current ancestor seen p)
  show ?case
  proof (cases "get_ticket b p")
    case (Some u)
    then have "p \<in> set (ids_of b)" by (metis get_ticket_None_iff option.distinct(1))
    from unseen_less [OF this 2(2), of "seen @ [p]"] Some show ?thesis by simp
  qed simp
qed simp

definition is_descendant :: "Board \<Rightarrow> Ticket \<Rightarrow> Ticket \<Rightarrow> bool" where
  "is_descendant b candidate ancestor = descendant_walk b (Some candidate) (tk_id ancestor) []"

section \<open>Descendants of several roots\<close>

type_synonym owners = "(string, string) dict"

fun adopt :: "Ticket list \<Rightarrow> owners \<times> (string, Ticket list) dict \<times> string list
    \<Rightarrow> owners \<times> (string, Ticket list) dict \<times> string list" where
  "adopt [] acc = acc"
| "adopt (child # rows) (owner, found, frontier) =
     (if dict_has owner (tk_id child) then adopt rows (owner, found, frontier)
      else (let owner_root = dict_get owner (case tk_parent_ticket_id child of None \<Rightarrow> [] | Some p \<Rightarrow> p) [] in
            adopt rows (dict_set (tk_id child) owner_root owner,
              dict_set owner_root (dict_get found owner_root [] @ [child]) found,
              frontier @ [tk_id child])))"

lemma adopt_grows:
  assumes "adopt rows (owner, found, frontier) = (owner', found', frontier')"
  shows "\<exists>new. frontier' = frontier @ new \<and> dict_keys owner' = dict_keys owner @ new
     \<and> set new \<subseteq> set (map tk_id rows)"
  using assms
proof (induction rows arbitrary: owner found frontier)
  case (Cons c cs)
  show ?case
  proof (cases "dict_has owner (tk_id c)")
    case True
    with Cons.prems have "adopt cs (owner, found, frontier) = (owner', found', frontier')" by simp
    from Cons.IH [OF this] show ?thesis by fastforce
  next
    case False
    with Cons.prems obtain o1 f1 where "adopt cs (dict_set (tk_id c) o1 owner, f1, frontier @ [tk_id c])
        = (owner', found', frontier')" by (simp add: Let_def)
    from Cons.IH [OF this] obtain new where "frontier' = (frontier @ [tk_id c]) @ new"
      "dict_keys owner' = dict_keys (dict_set (tk_id c) o1 owner) @ new" "set new \<subseteq> set (map tk_id cs)" by blast
    with False show ?thesis by (intro exI [of _ "tk_id c # new"]) (auto simp: dict_keys_set)
  qed
qed simp

lemma adopt_fresh:
  assumes "adopt rows (owner, found, frontier) = (owner', found', frontier @ new)"
  shows "set new \<inter> set (dict_keys owner) = {}"
  using assms
proof (induction rows arbitrary: owner found frontier new)
  case (Cons c cs)
  show ?case
  proof (cases "dict_has owner (tk_id c)")
    case True
    with Cons show ?thesis by simp
  next
    case False
    with Cons.prems obtain o1 f1 where
      rest: "adopt cs (dict_set (tk_id c) o1 owner, f1, frontier @ [tk_id c]) = (owner', found', frontier @ new)"
      by (simp add: Let_def)
    from adopt_grows [OF rest] obtain new' where "frontier @ new = (frontier @ [tk_id c]) @ new'" by blast
    then have new: "new = tk_id c # new'" by simp
    from Cons.IH [of "dict_set (tk_id c) o1 owner" f1 "frontier @ [tk_id c]" new'] rest new
    have "set new' \<inter> set (dict_keys (dict_set (tk_id c) o1 owner)) = {}" by simp
    moreover have "tk_id c \<notin> set (dict_keys owner)" using False by (simp add: dict_has_iff dict_keys_def)
    ultimately show ?thesis using False by (auto simp: new dict_keys_set)
  qed
qed simp

function descend :: "Board \<Rightarrow> string list \<Rightarrow> owners \<Rightarrow> (string, Ticket list) dict \<Rightarrow> (string, Ticket list) dict" where
  "descend b frontier owner found =
     (if frontier = [] then found
      else (case adopt (children_in b frontier) (owner, found, []) of
              (owner', found', frontier') \<Rightarrow> descend b frontier' owner' found'))"
  by pat_completeness auto
termination
proof (relation "measures [\<lambda>(b, frontier, owner, found). unseen b (dict_keys owner),
      \<lambda>(b, frontier, owner, found). length frontier]", goal_cases)
  case (2 b frontier owner found owner' rest found' frontier')
  then have a: "adopt (children_in b frontier) (owner, found, []) = (owner', found', [] @ frontier')" by simp
  from adopt_grows [OF a] have keys: "dict_keys owner' = dict_keys owner @ frontier'"
    and sub: "set frontier' \<subseteq> set (map tk_id (children_in b frontier))" by auto
  show ?case
  proof (cases frontier')
    case Nil
    with keys 2(1) show ?thesis by simp
  next
    case (Cons c cs)
    with sub adopt_fresh [OF a] have "c \<in> set (ids_of b)" "c \<notin> set (dict_keys owner)"
      by (auto simp: children_in_def ids_of_def)
    from unseen_less [OF this, of "dict_keys owner'"] Cons keys show ?thesis by auto
  qed
qed simp

declare descend.simps [simp del]

definition descendants_by_root :: "Board \<Rightarrow> string list \<Rightarrow> (string, Ticket list) dict" where
  "descendants_by_root b root_ids =
     descend b root_ids (dict_of (map (\<lambda>r. (r, r)) root_ids)) (dict_of (map (\<lambda>r. (r, [])) root_ids))"

section \<open>Moving a ticket\<close>

definition respell_subtree :: "Board \<Rightarrow> string \<Rightarrow> Board" where
  "respell_subtree b ticket_id =
     (case get_ticket b ticket_id of
        None \<Rightarrow> b
      | Some ticket \<Rightarrow>
          (case (case tk_workspace_id ticket of None \<Rightarrow> None | Some i \<Rightarrow> get_workspace b i) of
             None \<Rightarrow> b
           | Some workspace \<Rightarrow>
               fold (\<lambda>i b. case (get_ticket b i, get_workspace b (ws_id workspace)) of
                   (Some item, Some w) \<Rightarrow>
                     if tk_ticket_number item \<noteq> 0 then respell_external_id b i w else b
                 | _ \<Rightarrow> b)
                 (ticket_id # map tk_id (dict_get (descendants_by_root b [ticket_id]) ticket_id [])) b))"

definition relink :: "Board \<Rightarrow> Ticket \<Rightarrow> string option \<Rightarrow> Board" where
  "relink b ticket parent =
     put_ticket (ticket\<lparr>tk_parent_ticket_id := parent, tk_revision := tk_revision ticket + 1,
       tk_last_updated_by := ''human''\<rparr>) b"

definition reparent_ticket :: "Board \<Rightarrow> Ticket \<Rightarrow> string option \<Rightarrow> Board result" where
  "reparent_ticket b ticket parent_ticket_id =
     bind_result
       (case parent_ticket_id of
          None \<Rightarrow> bind_result (validate_parent_assignment (tk_work_item_type ticket) None) (\<lambda>_.
                   Inr None)
        | Some pid \<Rightarrow>
            (case get_ticket b pid of
               None \<Rightarrow> Inl (ValueError ''Parent work item not found in workspace'')
             | Some parent \<Rightarrow>
                 if tk_workspace_id parent \<noteq> None \<and> tk_workspace_id parent \<noteq> tk_workspace_id ticket
                 then Inl (ValueError ''Parent work item not found in workspace'')
                 else if tk_id parent = tk_id ticket
                 then Inl (ValueError ''A work item cannot be its own parent'')
                 else if is_descendant b parent ticket
                 then Inl (ValueError ''Cannot reparent a work item beneath one of its own descendants'')
                 else bind_result (validate_parent_assignment (tk_work_item_type ticket)
                        (Some (tk_work_item_type parent))) (\<lambda>_.
                   if tk_is_integration_review ticket \<and> tk_work_item_type parent = INITIATIVE
                   then Inl (ValueError ''An integration review stays with the work it reviews'')
                   else bind_result (refuse_reparent_onto_a_prerequisite b (tk_id ticket) (tk_id parent))
                          (\<lambda>_. Inr (Some (tk_id parent))))))
       (\<lambda>parent. Inr (respell_subtree (relink b ticket parent) (tk_id ticket)))"

section \<open>What an initiative covers\<close>

record InitiativeRoots =
  ir_roots :: "Ticket list"
  ir_member_ids :: "string list"

text \<open>\<open>_order\<close>: priority, then age, then id.\<close>

definition coverage_order :: "Ticket \<Rightarrow> int \<times> int \<times> string" where
  "coverage_order t = (tk_priority t, tk_created_at t, tk_id t)"

definition roots_of_initiative :: "Board \<Rightarrow> string \<Rightarrow> InitiativeRoots" where
  "roots_of_initiative b initiative_id =
     (let children = children_of b initiative_id;
          rows = filter (\<lambda>t. \<exists>row \<in> set (bd_members b). row = (initiative_id, tk_id t)) (bd_tickets b);
          members = filter (\<lambda>t. tk_id t \<notin> set (map tk_id children)) rows
      in \<lparr>ir_roots = sort_key coverage_order (children @ members), ir_member_ids = map tk_id members\<rparr>)"

definition initiative_roots :: "Board \<Rightarrow> string list \<Rightarrow> (string, InitiativeRoots) dict" where
  "initiative_roots b initiative_ids = dict_of (map (\<lambda>i. (i, roots_of_initiative b i)) initiative_ids)"

record InitiativeCoverage =
  ic_roots :: "Ticket list"
  ic_member_ids :: "string list"
  ic_trees :: "(string, Ticket list) dict"

definition coverage_tickets :: "InitiativeCoverage \<Rightarrow> Ticket list" where
  "coverage_tickets c =
     ic_roots c @ concat (map (\<lambda>r. dict_get (ic_trees c) (tk_id r) []) (ic_roots c))"

definition initiative_coverage :: "Board \<Rightarrow> string \<Rightarrow> InitiativeCoverage" where
  "initiative_coverage b initiative_id =
     (let roots = roots_of_initiative b initiative_id in
      \<lparr>ic_roots = ir_roots roots, ic_member_ids = ir_member_ids roots,
       ic_trees = descendants_by_root b (map tk_id (ir_roots roots))\<rparr>)"

definition plan_coverage :: "Board \<Rightarrow> Ticket \<Rightarrow> InitiativeCoverage" where
  "plan_coverage b t =
     (if tk_work_item_type t = INITIATIVE then initiative_coverage b (tk_id t)
      else \<lparr>ic_roots = [t], ic_member_ids = [], ic_trees = descendants_by_root b [tk_id t]\<rparr>)"

definition covered_ticket_ids :: "Board \<Rightarrow> string \<Rightarrow> string list" where
  "covered_ticket_ids b ticket_id =
     (case get_ticket b ticket_id of
        Some t \<Rightarrow>
          if tk_work_item_type t = INITIATIVE
          then sort (dedup (map tk_id (coverage_tickets (initiative_coverage b ticket_id))))
          else map tk_id (dict_get (descendants_by_root b [ticket_id]) ticket_id [])
      | None \<Rightarrow> map tk_id (dict_get (descendants_by_root b [ticket_id]) ticket_id []))"

definition initiatives_tracking :: "Board \<Rightarrow> string list \<Rightarrow> string list" where
  "initiatives_tracking b ticket_ids =
     sort (dedup (map fst (filter (\<lambda>row. snd row \<in> set ticket_ids) (bd_members b))))"

definition tracked_ticket_ids :: "Board \<Rightarrow> string list \<Rightarrow> string list" where
  "tracked_ticket_ids b ticket_ids =
     dedup (map snd (filter (\<lambda>row. snd row \<in> set ticket_ids) (bd_members b)))"

definition member_initiative_ids :: "Board \<Rightarrow> string list" where
  "member_initiative_ids b = dedup (map fst (bd_members b))"

definition members_among :: "Board \<Rightarrow> string list \<Rightarrow> (string, string list) dict" where
  "members_among b ticket_ids =
     fold (\<lambda>(i, t) acc. dict_set i (dict_get acc i [] @ [t]) acc)
       (filter (\<lambda>row. snd row \<in> set ticket_ids) (bd_members b)) []"

section \<open>Links\<close>

text \<open>Two boards with the same rows, the same parent links and the same edges.\<close>

definition same_links :: "Board \<Rightarrow> Board \<Rightarrow> bool" where
  "same_links b b' \<longleftrightarrow> ids_of b' = ids_of b \<and> bd_dependencies b' = bd_dependencies b
     \<and> (\<forall>i. map_option parent_id (get_ticket b' i) = map_option parent_id (get_ticket b i))"

lemma same_links_refl [simp]: "same_links b b"
  by (simp add: same_links_def)

lemma same_links_trans: "same_links a b \<Longrightarrow> same_links b c \<Longrightarrow> same_links a c"
  by (simp add: same_links_def)

lemma same_links_parents: "same_links b b' \<Longrightarrow> parents b' = parents b \<and> edges b' = edges b \<and> keyed b' = keyed b"
proof -
  assume s: "same_links b b'"
  have "(c, p) \<in> parents b' \<longleftrightarrow> (c, p) \<in> parents b" for c p
  proof -
    from s have "map_option parent_id (get_ticket b' c) = map_option parent_id (get_ticket b c)"
      by (simp add: same_links_def)
    then show ?thesis by (cases "get_ticket b' c"; cases "get_ticket b c") (auto simp: parents_iff)
  qed
  then have "parents b' = parents b" by auto
  with s show ?thesis by (simp add: same_links_def edges_def keyed_def)
qed

lemma same_links_put_workspace [simp]: "same_links b (put_workspace w b)"
  by (simp add: same_links_def put_workspace_def ids_of_def get_ticket_def)

lemma same_links_put_ticket:
  "get_ticket b (tk_id t) = Some u \<Longrightarrow> parent_id t = parent_id u \<Longrightarrow> same_links b (put_ticket t b)"
  using get_ticket_None_iff [of b "tk_id t"] by (auto simp: same_links_def get_put_ticket)

lemma parent_id_update [simp]:
  "parent_id (t\<lparr>tk_external_id := x\<rparr>) = parent_id t"
  "parent_id (t\<lparr>tk_milestone_code := y\<rparr>) = parent_id t"
  by (simp_all add: parent_id_def)

lemma milestone_walk_row:
  "milestone_walk b cur seen = Some m \<Longrightarrow> \<exists>i. get_ticket b i = Some m"
proof (induction b cur seen rule: milestone_walk.induct)
  case (1 b cur seen)
  from 1(2) obtain p u where p: "parent_id cur = Some p" and u: "get_ticket b p = Some u"
    and new: "tk_id u \<notin> set seen"
    and or: "m = u \<or> milestone_walk b u (seen @ [tk_id u]) = Some m"
    by (subst (asm) milestone_walk.simps) (auto split: option.splits if_splits)
  show ?case
  proof (cases "tk_work_item_type u = MILESTONE")
    case True
    with 1(2) p u new have "m = u" by (subst (asm) milestone_walk.simps) simp
    with u show ?thesis by blast
  next
    case False
    with 1(2) p u new have "milestone_walk b u (seen @ [tk_id u]) = Some m"
      by (subst (asm) milestone_walk.simps) simp
    from 1(1) [OF p u new False this] show ?thesis .
  qed
qed

lemma same_links_spell_ticket: "same_links b (spell_ticket b i w)"
proof -
  obtain b1 prefix where b1: "workspace_prefix b w = (b1, prefix)" by fastforce
  then have s1: "same_links b b1" by (auto simp: workspace_prefix_def Let_def split: if_splits)
  show ?thesis
  proof (cases "get_ticket b1 i")
    case None
    with b1 s1 show ?thesis by (simp add: spell_ticket_def)
  next
    case (Some t)
    obtain b2 segment where b2: "milestone_segment_for b1 t = (b2, segment)" by fastforce
    have s2: "same_links b1 b2"
    proof (cases "ancestor_milestone b1 t")
      case None
      with b2 show ?thesis by (simp add: milestone_segment_for_def)
    next
      case (Some m)
      have "\<exists>j. get_ticket b1 j = Some m"
      proof (cases "tk_work_item_type t = MILESTONE")
        case True
        with Some \<open>get_ticket b1 i = Some t\<close> show ?thesis by (auto simp: ancestor_milestone_def)
      next
        case False
        with Some show ?thesis using milestone_walk_row by (fastforce simp: ancestor_milestone_def)
      qed
      then have "get_ticket b1 (tk_id m) = Some m" using get_ticket_Some by auto
      then show ?thesis
        using b2 Some same_links_put_ticket [of b1 "m\<lparr>tk_milestone_code := c\<rparr>" m for c]
        by (auto simp: milestone_segment_for_def milestone_code_def Let_def split: if_splits)
    qed
    show ?thesis
    proof (cases "get_ticket b2 i")
      case None
      with Some b1 b2 same_links_trans [OF s1 s2] show ?thesis by (simp add: spell_ticket_def)
    next
      case (Some u)
      then have "get_ticket b2 (tk_id (u\<lparr>tk_external_id := x\<rparr>)) = Some u" for x
        using get_ticket_Some [OF Some] by simp
      then have "same_links b2 (put_ticket (u\<lparr>tk_external_id := x\<rparr>) b2)" for x
        by (rule same_links_put_ticket) simp
      with same_links_trans [OF s1 same_links_trans [OF s2]] b1 b2 \<open>get_ticket b1 i = Some t\<close> Some
      show ?thesis by (simp add: spell_ticket_def)
    qed
  qed
qed

lemma same_links_fold:
  "(\<And>x b. same_links b (f x b)) \<Longrightarrow> same_links b (fold f xs b)"
proof (induction xs arbitrary: b)
  case (Cons x xs)
  from same_links_trans [OF Cons.prems [of b x] Cons.IH [OF Cons.prems]] show ?case by simp
qed simp

lemma same_links_respell_subtree: "same_links b (respell_subtree b i)"
proof (cases "get_ticket b i")
  case None
  then show ?thesis by (simp add: respell_subtree_def)
next
  case (Some t)
  have step: "same_links b (case (get_ticket b i, get_workspace b k) of
        (Some item, Some w) \<Rightarrow> if tk_ticket_number item \<noteq> 0 then respell_external_id b i w else b
      | _ \<Rightarrow> b)" for b i k
    by (simp add: respell_external_id_def same_links_spell_ticket split: option.split)
  show ?thesis
  proof (cases "case tk_workspace_id t of None \<Rightarrow> None | Some i \<Rightarrow> get_workspace b i")
    case None
    with Some show ?thesis by (simp add: respell_subtree_def)
  next
    case ws: (Some w)
    show ?thesis
      unfolding respell_subtree_def Some option.case ws by (rule same_links_fold) (rule step)
  qed
qed

section \<open>The move\<close>

lemma descendant_walk_iff:
  assumes "get_ticket b i = cur" and "a \<notin> set seen"
    and "\<And>x y. x \<in> set seen \<Longrightarrow> x \<noteq> i \<Longrightarrow> (x, y) \<in> parents b \<Longrightarrow> y \<in> set seen"
  shows "descendant_walk b cur a seen \<longleftrightarrow> (i, a) \<in> (parents b)\<^sup>+"
  using assms
proof (induction b cur a seen arbitrary: i rule: descendant_walk.induct)
  case (1 b a seen)
  then have "(i, y) \<notin> parents b" for y by (simp add: parents_iff)
  then show ?case by (auto dest: tranclD)
next
  case (2 b t a seen)
  show ?case
  proof (cases "parent_id t")
    case None
    with 2(2) have "(i, y) \<notin> parents b" for y by (simp add: parents_iff)
    with None show ?thesis by (auto dest: tranclD)
  next
    case (Some p)
    have link: "(i, y) \<in> parents b \<longleftrightarrow> y = p" for y using 2(2) Some by (auto simp: parents_iff)
    have via: "(i, a) \<in> (parents b)\<^sup>+ \<longleftrightarrow> p = a \<or> (p, a) \<in> (parents b)\<^sup>+"
    proof -
      have "(i, a) \<in> (parents b)\<^sup>+ \<longleftrightarrow> (\<exists>y. (i, y) \<in> parents b \<and> (y, a) \<in> (parents b)\<^sup>*)"
        by (meson tranclD rtrancl_into_trancl2)
      then show ?thesis by (simp add: link rtrancl_eq_or_trancl) blast
    qed
    show ?thesis
    proof (cases "p \<in> set seen")
      case True
      have "y \<in> set seen" if "(x, y) \<in> (parents b)\<^sup>+" "x \<in> insert i (set seen)" for x y
        using that
      proof (induction rule: trancl_induct)
        case (base y)
        then show ?case using True link [of y] 2(4) [of x y] by auto
      next
        case (step y z)
        then have "y \<in> set seen" and yz: "(y, z) \<in> parents b" by simp_all
        with True 2(4) [of y z] link [of z] show ?case by (cases "y = i") auto
      qed
      with 2(3) Some True show ?thesis by auto
    next
      case new: False
      show ?thesis
      proof (cases "p = a")
        case True
        with Some new via show ?thesis by simp
      next
        case False
        have prem: "y \<in> set (seen @ [p])" if "x \<in> set (seen @ [p])" "x \<noteq> p" "(x, y) \<in> parents b" for x y
          using that 2(4) [of x y] link [of y] by auto
        have "descendant_walk b (get_ticket b p) a (seen @ [p]) \<longleftrightarrow> (p, a) \<in> (parents b)\<^sup>+"
          using 2(1) [OF Some new False refl] False 2(3) prem by simp
        with Some new False via show ?thesis by simp
      qed
    qed
  qed
qed

lemma is_descendant_iff:
  assumes "get_ticket b (tk_id c) = Some c"
  shows "is_descendant b c a \<longleftrightarrow> (tk_id c, tk_id a) \<in> (parents b)\<^sup>+"
  using descendant_walk_iff [of b "tk_id c" "Some c" "tk_id a" "[]"] assms by (simp add: is_descendant_def)

text \<open>One link of a functional parent relation replaced by another.\<close>

lemma trancl_off_path:
  assumes "\<And>x y. (x, y) \<in> R' \<Longrightarrow> x \<noteq> t \<Longrightarrow> (x, y) \<in> R" and "(y, a) \<in> R'\<^sup>+" and "(y, t) \<notin> R\<^sup>*"
  shows "(y, a) \<in> R\<^sup>+"
  using assms(2,3)
proof (induction rule: converse_trancl_induct)
  case (base y)
  then have "y \<noteq> t" by auto
  with assms(1) base show ?case by blast
next
  case (step y z)
  then have "y \<noteq> t" by auto
  with assms(1) step(1) have yz: "(y, z) \<in> R" by blast
  with step(4) have "(z, t) \<notin> R\<^sup>*" by (meson converse_rtrancl_into_rtrancl)
  with step(3) yz show ?case by (blast intro: trancl_into_trancl2)
qed

lemma trancl_relinked:
  assumes "\<And>x y. (x, y) \<in> R' \<Longrightarrow> x \<noteq> t \<Longrightarrow> (x, y) \<in> R" and "\<And>y. (t, y) \<in> R' \<Longrightarrow> y = p"
    and "(p, t) \<notin> R\<^sup>*" and "(x, a) \<in> R'\<^sup>+"
  shows "(x, a) \<in> R\<^sup>+ \<or> ((x, t) \<in> R\<^sup>* \<and> (a = p \<or> (p, a) \<in> R\<^sup>+))"
  using assms(4)
proof (induction rule: converse_trancl_induct)
  case (base y)
  then show ?case using assms(1,2) by (cases "y = t") auto
next
  case (step y z)
  show ?case
  proof (cases "y = t")
    case True
    with assms(2) step(1) have "z = p" by blast
    with trancl_off_path [OF assms(1) step(2)] assms(3) True show ?thesis by auto
  next
    case False
    with assms(1) step(1) have "(y, z) \<in> R" by blast
    with step(3) show ?thesis by (meson converse_rtrancl_into_rtrancl trancl_into_trancl2)
  qed
qed

lemma reparent_ticket_links:
  assumes "reparent_ticket b t parent = Inr b'" and "get_ticket b (tk_id t) = Some t" and "keyed b"
  shows "edges b' = edges b" and "keyed b'"
    and "(x, y) \<in> parents b' \<Longrightarrow> x \<noteq> tk_id t \<Longrightarrow> (x, y) \<in> parents b"
    and "(tk_id t, y) \<in> parents b' \<longleftrightarrow> parent = Some y"
    and "parent = Some p \<Longrightarrow> (p, tk_id t) \<notin> (parents b)\<^sup>*
           \<and> (\<forall>x d. (x, d) \<in> edges b \<longrightarrow> (x, tk_id t) \<in> (parents b)\<^sup>* \<longrightarrow> d \<noteq> p \<and> (p, d) \<notin> (parents b)\<^sup>+)"
proof -
  have b': "b' = respell_subtree (relink b t parent) (tk_id t)"
    using assms(1)
    by (auto simp: reparent_ticket_def bind_result_Inr_iff split: option.splits if_splits dest: get_ticket_Some)
  note links = same_links_parents [OF same_links_respell_subtree [of "relink b t parent" "tk_id t"], folded b']
  show "edges b' = edges b" using links by (simp add: relink_def)
  show "keyed b'" using links assms(3) by (simp add: relink_def)
  let ?t = "t\<lparr>tk_parent_ticket_id := parent, tk_revision := tk_revision t + 1, tk_last_updated_by := ''human''\<rparr>"
  have get: "get_ticket (relink b t parent) x = (if x = tk_id t then Some ?t else get_ticket b x)" for x
    using assms(2) get_ticket_None_iff [of b "tk_id t"] by (simp add: relink_def get_put_ticket)
  show "(x, y) \<in> parents b' \<Longrightarrow> x \<noteq> tk_id t \<Longrightarrow> (x, y) \<in> parents b"
    using links by (simp add: parents_iff get)
  have known: "p \<noteq> []" if "parent = Some p" for p
  proof -
    from assms(1) that obtain u where "get_ticket b p = Some u"
      by (auto simp: reparent_ticket_def split: option.splits)
    then have "p \<in> set (ids_of b)" by (metis get_ticket_None_iff option.distinct(1))
    with assms(3) show ?thesis by (auto simp: keyed_def)
  qed
  show "(tk_id t, y) \<in> parents b' \<longleftrightarrow> parent = Some y"
    using links known by (auto simp: parents_iff get parent_id_def split: option.splits)
  assume p: "parent = Some p"
  from assms(1) p obtain u where u: "get_ticket b p = Some u"
    by (auto simp: reparent_ticket_def split: option.splits)
  then have uid: "tk_id u = p" by (simp add: get_ticket_Some)
  from assms(1) p u have other: "p \<noteq> tk_id t" and nd: "\<not> is_descendant b u t"
    and ok: "refuse_reparent_onto_a_prerequisite b (tk_id t) p = Inr ()"
    by (auto simp: reparent_ticket_def bind_result_Inr_iff uid split: if_splits)
  have "(p, tk_id t) \<notin> (parents b)\<^sup>+" using nd is_descendant_iff [of b u t] u uid by simp
  with other have notin: "(p, tk_id t) \<notin> (parents b)\<^sup>*" by (simp add: rtrancl_eq_or_trancl)
  have tid: "tk_id t \<noteq> []"
    using assms(2,3) get_ticket_None_iff [of b "tk_id t"] by (auto simp: keyed_def)
  have "d \<noteq> p \<and> (p, d) \<notin> (parents b)\<^sup>+" if "(x, d) \<in> edges b" "(x, tk_id t) \<in> (parents b)\<^sup>*" for x d
  proof -
    from that(1) obtain row where row: "row \<in> set (bd_dependencies b)" "td_ticket_id row = x"
        "td_depends_on_ticket_id row = d" by (auto simp: edges_def)
    have "x \<in> set (subtree_ids b (tk_id t))" using subtree_ids_iff [OF assms(3) tid] that(2) by simp
    with ok row have "d \<notin> set (p # ancestor_ids b p)"
      by (auto simp: refuse_reparent_onto_a_prerequisite_def Let_def list_ex_iff split: if_splits)
    then show ?thesis by (simp add: ancestor_ids_iff)
  qed
  with notin show "(p, tk_id t) \<notin> (parents b)\<^sup>*
           \<and> (\<forall>x d. (x, d) \<in> edges b \<longrightarrow> (x, tk_id t) \<in> (parents b)\<^sup>* \<longrightarrow> d \<noteq> p \<and> (p, d) \<notin> (parents b)\<^sup>+)"
    by blast
qed

lemma trancl_mono_id: "R' \<subseteq> R \<Longrightarrow> (x, y) \<in> R'\<^sup>+ \<Longrightarrow> (x, y) \<in> R\<^sup>+"
  by (meson trancl_mono)

lemma reparent_ticket_keeps:
  assumes "reparent_ticket b t parent = Inr b'" and "get_ticket b (tk_id t) = Some t" and "keyed b"
  shows "acyclic (parents b) \<Longrightarrow> acyclic (parents b')"
    and "no_ancestor_wait b \<Longrightarrow> no_ancestor_wait b'"
proof -
  note links = reparent_ticket_links [OF assms]
  have moved: "(x, a) \<in> (parents b)\<^sup>+ \<or> (\<exists>p. parent = Some p \<and> (x, tk_id t) \<in> (parents b)\<^sup>*
       \<and> (a = p \<or> (p, a) \<in> (parents b)\<^sup>+))" if "(x, a) \<in> (parents b')\<^sup>+" for x a
  proof (cases parent)
    case None
    have "parents b' \<subseteq> parents b" using links(3,4) None by auto
    from trancl_mono_id [OF this that] show ?thesis by (rule disjI1)
  next
    case (Some p)
    have "(x, a) \<in> (parents b)\<^sup>+ \<or> ((x, tk_id t) \<in> (parents b)\<^sup>* \<and> (a = p \<or> (p, a) \<in> (parents b)\<^sup>+))"
    proof (rule trancl_relinked [OF _ _ _ that])
      show "\<And>x y. (x, y) \<in> parents b' \<Longrightarrow> x \<noteq> tk_id t \<Longrightarrow> (x, y) \<in> parents b" by (rule links(3))
      show "\<And>y. (tk_id t, y) \<in> parents b' \<Longrightarrow> y = p" using links(4) Some by simp
      show "(p, tk_id t) \<notin> (parents b)\<^sup>*" using links(5) [OF Some] by blast
    qed
    with Some show ?thesis by blast
  qed
  show "acyclic (parents b')" if "acyclic (parents b)"
  proof (rule acyclicI, rule allI)
    fix x
    show "(x, x) \<notin> (parents b')\<^sup>+"
    proof
      assume "(x, x) \<in> (parents b')\<^sup>+"
      from moved [OF this] that obtain p where p: "parent = Some p" "(x, tk_id t) \<in> (parents b)\<^sup>*"
        "x = p \<or> (p, x) \<in> (parents b)\<^sup>+" by (auto simp: acyclic_def)
      then have "(p, tk_id t) \<in> (parents b)\<^sup>*" by (meson rtrancl_trans trancl_into_rtrancl)
      with links(5) [OF p(1)] show False by blast
    qed
  qed
  show "no_ancestor_wait b'" if "no_ancestor_wait b"
    unfolding no_ancestor_wait_def links(1)
  proof (rule equals0I, clarify)
    fix x d
    assume e: "(x, d) \<in> edges b" and a: "(x, d) \<in> (parents b')\<^sup>+"
    from that e have "(x, d) \<notin> (parents b)\<^sup>+" by (auto simp: no_ancestor_wait_def)
    with moved [OF a] obtain p where "parent = Some p" "(x, tk_id t) \<in> (parents b)\<^sup>*"
      "d = p \<or> (p, d) \<in> (parents b)\<^sup>+" by blast
    with links(5) e show False by blast
  qed
qed

section \<open>Every write of a link\<close>

text \<open>One write: a new row, an edge added or removed, a ticket moved, or a repair.\<close>

inductive board_step :: "Board \<Rightarrow> Board \<Rightarrow> bool" where
  created: "tk_id t \<noteq> [] \<Longrightarrow> tk_id t \<notin> set (ids_of b) \<Longrightarrow>
     (\<And>p. parent_id t = Some p \<Longrightarrow> p \<in> set (ids_of b)) \<Longrightarrow>
     tk_id t \<notin> snd ` parents b \<Longrightarrow> tk_id t \<notin> fst ` edges b \<Longrightarrow>
     board_step b (b\<lparr>bd_tickets := bd_tickets b @ [t]\<rparr>)"
| depended: "add_dependency new_id b t d by_whom = Inr (b', edge) \<Longrightarrow> board_step b b'"
| released: "remove_dependency b t d = (b', removed) \<Longrightarrow> board_step b b'"
| reparented: "get_ticket b (tk_id t) = Some t \<Longrightarrow> reparent_ticket b t parent = Inr b' \<Longrightarrow> board_step b b'"
| repaired: "drop_ancestor_waits b (ancestor_waits b) = (b', n) \<Longrightarrow> board_step b b'"

inductive_cases board_stepE: "board_step b b'"

definition sound_links :: "Board \<Rightarrow> bool" where
  "sound_links b \<longleftrightarrow> keyed b \<and> acyclic (parents b) \<and> acyclic (edges b) \<and> no_ancestor_wait b"

lemma created_links:
  assumes "tk_id t \<notin> set (ids_of b)"
  shows "parents (b\<lparr>bd_tickets := bd_tickets b @ [t]\<rparr>) =
     parents b \<union> (case parent_id t of None \<Rightarrow> {} | Some p \<Rightarrow> {(tk_id t, p)})"
proof -
  have get: "get_ticket (b\<lparr>bd_tickets := bd_tickets b @ [t]\<rparr>) i =
      (if i = tk_id t then Some t else get_ticket b i)" for i
  proof -
    have "find P (xs @ [t]) = (case find P xs of Some u \<Rightarrow> Some u | None \<Rightarrow> if P t then Some t else None)"
      for P and xs :: "Ticket list"
      by (induction xs) auto
    then show ?thesis
      using assms get_ticket_None_iff [of b "tk_id t"]
      by (auto simp: get_ticket_def split: option.splits)
  qed
  have none: "get_ticket b (tk_id t) = None" using assms by (simp add: get_ticket_None_iff)
  show ?thesis
    unfolding parents_def get by (auto simp: none split: option.splits if_splits)
qed

lemma board_step_sound:
  assumes "board_step b b'" and "sound_links b"
  shows "sound_links b'"
  using assms(1)
proof cases
  case (created t)
  let ?b = "b\<lparr>bd_tickets := bd_tickets b @ [t]\<rparr>"
  have k: "keyed ?b" using created assms(2) by (simp add: sound_links_def keyed_def ids_of_def)
  have e: "edges ?b = edges b" by (simp add: edges_def)
  show ?thesis
  proof (cases "parent_id t")
    case None
    then have "parents ?b = parents b" using created_links [OF created(3)] by simp
    with k e assms(2) created(1) show ?thesis by (simp add: sound_links_def no_ancestor_wait_def)
  next
    case (Some p)
    then have p: "parents ?b = insert (tk_id t, p) (parents b)" using created_links [OF created(3)] by simp
    have fresh: "(x, tk_id t) \<notin> (parents b)\<^sup>+" for x
      using created(5) by (metis image_eqI snd_conv tranclE)
    have ne: "p \<noteq> tk_id t" using created(3,4) Some by auto
    have "(p, tk_id t) \<notin> (parents b)\<^sup>*" using fresh [of p] ne by (simp add: rtrancl_eq_or_trancl)
    then have a: "acyclic (parents ?b)" using assms(2) by (simp add: p sound_links_def acyclic_insert)
    have "(x, d) \<notin> (parents ?b)\<^sup>+" if "(x, d) \<in> edges b" for x d
    proof -
      have "x \<noteq> tk_id t" using that created(6) by force
      then have "(x, tk_id t) \<notin> (parents b)\<^sup>*" using fresh by (simp add: rtrancl_eq_or_trancl)
      moreover have "(x, d) \<notin> (parents b)\<^sup>+" using assms(2) that by (auto simp: sound_links_def no_ancestor_wait_def)
      ultimately show ?thesis by (simp add: p trancl_insert)
    qed
    with k e a assms(2) created(1) show ?thesis by (auto simp: sound_links_def no_ancestor_wait_def)
  qed
next
  case (depended new_id t d by_whom edge)
  note keeps = add_dependency_keeps [OF depended]
  have "bd_tickets b' = bd_tickets b" using add_dependency_cases [OF depended] by auto
  with keeps assms(2) parents_cong [of b' b] show ?thesis
    by (simp add: sound_links_def keyed_def ids_of_def)
next
  case (released t d removed)
  then have b': "b' = fst (remove_dependency b t d)" by simp
  note r = remove_dependency_edges [of b t d, folded b']
  have "acyclic (edges b')" using acyclic_subset [OF _ r(1)] assms(2) by (simp add: sound_links_def)
  with no_ancestor_wait_subset [OF _ r] r(2) assms(2) parents_cong [OF r(2)] show ?thesis
    by (simp add: sound_links_def keyed_def ids_of_def)
next
  case (reparented t parent)
  from assms(2) have k: "keyed b" by (simp add: sound_links_def)
  from reparent_ticket_keeps [OF reparented(2,1) k] reparent_ticket_links(1,2) [OF reparented(2,1) k] assms(2)
  show ?thesis by (simp add: sound_links_def)
next
  case (repaired n)
  then have b': "b' = fst (drop_ancestor_waits b (ancestor_waits b))" by simp
  have r: "edges b' \<subseteq> edges b" "bd_tickets b' = bd_tickets b"
    using edges_drop_ancestor_waits [of b "ancestor_waits b"] by (simp_all add: b')
  have "acyclic (edges b')" using acyclic_subset [OF _ r(1)] assms(2) by (simp add: sound_links_def)
  with no_ancestor_wait_subset [OF _ r] r(2) assms(2) parents_cong [OF r(2)] show ?thesis
    by (simp add: sound_links_def keyed_def ids_of_def)
qed

section \<open>Properties\<close>

text \<open>C8: the links stay sound under every write. From a board whose parent links and dependency
  edges are acyclic and on which no ticket waits on an ancestor, any sequence of ticket
  creations, dependency inserts and removals, moves under another parent and repairs leads to
  such a board: neither half of an ancestor wait can be completed by the other.\<close>

theorem links_stay_sound:
  assumes "board_step\<^sup>*\<^sup>* b b'" and "keyed b" and "acyclic (parents b)" and "acyclic (edges b)"
    and "edges b \<inter> (parents b)\<^sup>+ = {}"
  shows "acyclic (parents b') \<and> acyclic (edges b') \<and> edges b' \<inter> (parents b')\<^sup>+ = {}"
proof -
  have "sound_links b'"
    using assms(1)
  proof (induction rule: rtranclp_induct)
    case base
    with assms(2-5) show ?case by (simp add: sound_links_def no_ancestor_wait_def)
  next
    case (step y z)
    then show ?case by (blast intro: board_step_sound)
  qed
  then show ?thesis by (simp add: sound_links_def no_ancestor_wait_def)
qed

text \<open>Two features with one task each, on one board.\<close>

definition sample_row :: "string \<Rightarrow> WorkItemType \<Rightarrow> string option \<Rightarrow> Ticket" where
  "sample_row i kind parent = (new_ticket i)\<lparr>tk_work_item_type := kind, tk_parent_ticket_id := parent\<rparr>"

definition sample_board :: Board where
  "sample_board = empty_board\<lparr>bd_tickets :=
     [sample_row ''P1'' CAPABILITY None, sample_row ''P2'' CAPABILITY None,
      sample_row ''A'' TASK (Some ''P1''), sample_row ''B'' TASK (Some ''P2'')]\<rparr>"

lemma sample_board_parents: "parents sample_board = {(''A'', ''P1''), (''B'', ''P2'')}"
  by (auto simp: parents_def get_ticket_def sample_board_def sample_row_def new_ticket_def parent_id_def
      split: if_splits)

lemma sample_board_not_above: "(''A'', ''B'') \<notin> (parents sample_board)\<^sup>+"
proof
  assume "(''A'', ''B'') \<in> (parents sample_board)\<^sup>+"
  then obtain z where "(z, ''B'') \<in> parents sample_board" by (rule tranclE)
  then show False by (simp add: sample_board_parents)
qed

lemma sample_board_sound: "keyed sample_board" "acyclic (parents sample_board)"
  "edges sample_board = {}"
proof -
  show "keyed sample_board"
    by (simp add: keyed_def ids_of_def sample_board_def sample_row_def new_ticket_def)
  have "acyclic {(''A'', ''P1''), (''B'', ''P2'')}"
    by (rule acyclicI_order [where f = "\<lambda>x. if x \<in> {''A'', ''B''} then (1::nat) else 0"]) auto
  then show "acyclic (parents sample_board)" by (simp add: sample_board_parents)
  show "edges sample_board = {}" by (simp add: edges_def sample_board_def empty_board_def)
qed

theorem links_stay_sound_witness:
  "\<exists>b'. board_step\<^sup>*\<^sup>* sample_board b' \<and> edges b' = {(''A'', ''P2'')} \<and> acyclic (edges b')"
proof -
  have "case add_dependency ''d1'' sample_board ''A'' ''P2'' [] of
      Inr (b', edge) \<Rightarrow> bd_dependencies b' = [\<lparr>td_id = ''d1'', td_ticket_id = ''A'',
        td_depends_on_ticket_id = ''P2'', td_created_by = []\<rparr>] | Inl e \<Rightarrow> False"
    by code_simp
  then obtain b' edge where b': "add_dependency ''d1'' sample_board ''A'' ''P2'' [] = Inr (b', edge)"
    and deps: "bd_dependencies b' = [\<lparr>td_id = ''d1'', td_ticket_id = ''A'',
        td_depends_on_ticket_id = ''P2'', td_created_by = []\<rparr>]"
    by (cases "add_dependency ''d1'' sample_board ''A'' ''P2'' []") auto
  from b' have step: "board_step\<^sup>*\<^sup>* sample_board b'" by (blast intro: board_step.depended)
  have "edges b' = {(''A'', ''P2'')}" by (simp add: edges_def deps)
  moreover have "acyclic (edges b')"
    using links_stay_sound [OF step sample_board_sound(1,2)] by (simp add: sample_board_sound(3) acyclic_def)
  ultimately show ?thesis using step by (intro exI [of _ b'] conjI)
qed

text \<open>the two guards do not see a wait that closes through two parents. On a board with two
  parents of one task each, making each task wait for the other's parent is accepted twice;
  each task then has an unmet prerequisite that can only be done once the other task is, so
  neither can be picked up: a deadlock that no single edge or ancestor shows.\<close>

theorem crossed_parents_deadlock:
  "\<exists>b1 e1 b2 e2. add_dependency ''d1'' sample_board ''A'' ''P2'' [] = Inr (b1, e1)
     \<and> add_dependency ''d2'' b1 ''B'' ''P1'' [] = Inr (b2, e2)
     \<and> map tk_id (unmet_prerequisites b2 ''A'') = [''P2'']
     \<and> map tk_id (unmet_prerequisites b2 ''B'') = [''P1'']
     \<and> map tk_id (children_of b2 ''P1'') = [''A''] \<and> map tk_id (children_of b2 ''P2'') = [''B'']"
proof -
  have "case add_dependency ''d1'' sample_board ''A'' ''P2'' [] of
      Inr (b1, e1) \<Rightarrow>
        (case add_dependency ''d2'' b1 ''B'' ''P1'' [] of
           Inr (b2, e2) \<Rightarrow> map tk_id (unmet_prerequisites b2 ''A'') = [''P2'']
             \<and> map tk_id (unmet_prerequisites b2 ''B'') = [''P1'']
             \<and> map tk_id (children_of b2 ''P1'') = [''A''] \<and> map tk_id (children_of b2 ''P2'') = [''B'']
         | Inl e \<Rightarrow> False)
    | Inl e \<Rightarrow> False"
    by code_simp
  then show ?thesis by (auto split: sum.splits)
qed

text \<open>the cycle check is exact: with the edges acyclic, an insert that passed the other
  guards and is not there already is refused exactly when it would close a cycle, and
  otherwise adds that one edge.\<close>

theorem add_dependency_exact:
  assumes "acyclic (edges b)" and "t \<noteq> d" and "(t, d) \<notin> (parents b)\<^sup>+" and "(t, d) \<notin> edges b"
  shows "case add_dependency new_id b t d by_whom of
     Inr (b', edge) \<Rightarrow> acyclic (insert (t, d) (edges b)) \<and> edges b' = insert (t, d) (edges b)
   | Inl e \<Rightarrow> \<not> acyclic (insert (t, d) (edges b)) \<and> e = DependencyCycleError d t"
proof -
  have none: "find (\<lambda>row. td_ticket_id row = t \<and> td_depends_on_ticket_id row = d) (bd_dependencies b) = None"
    using assms(4) by (force simp: find_None_iff' edges_def)
  have "refuse_wait_on_ancestor b t d = Inr ()"
    using assms(3) by (simp add: refuse_wait_on_ancestor_def ancestor_ids_iff)
  with assms(2) none cycle_check.refusal_exact [OF assms(1), of d t] show ?thesis
    by (auto simp: add_dependency_def Let_def edges_def)
qed

theorem add_dependency_exact_witness:
  "is_ok (add_dependency ''d1'' sample_board ''A'' ''B'' [])"
proof -
  have a: "acyclic (edges sample_board)" and n: "(''A'', ''B'') \<notin> edges sample_board"
    by (simp_all add: sample_board_sound(3) acyclic_def)
  have "acyclic {(''A'', ''B'')}"
    by (rule acyclicI_order [where f = "\<lambda>x. if x = ''A'' then (1::nat) else 0"]) auto
  then have c: "acyclic (insert (''A'', ''B'') (edges sample_board))"
    by (simp only: sample_board_sound(3))
  have "''A'' \<noteq> ''B''" by simp
  note exact = add_dependency_exact [OF a this sample_board_not_above n, of "''d1''" "[]"]
  show ?thesis
  proof (cases "add_dependency ''d1'' sample_board ''A'' ''B'' []")
    case (Inl e)
    with exact c show ?thesis by (simp only: sum.case simp_thms)
  next
    case (Inr r)
    then show ?thesis by (simp add: is_ok_def)
  qed
qed

text \<open>the walk over the tree is exact and ends on any table, one with a cycle of parent links
  included: what it finds are the tickets above, or below, in the parent relation.\<close>

theorem tree_walks_exact:
  assumes "keyed b" and "r \<noteq> []"
  shows "set (ancestor_ids b r) = {x. (r, x) \<in> (parents b)\<^sup>+}
     \<and> set (subtree_ids b r) = {x. (x, r) \<in> (parents b)\<^sup>*}"
  using ancestor_ids_iff subtree_ids_iff [OF assms] by auto

theorem tree_walks_exact_witness:
  "''A'' \<in> set (subtree_ids sample_board ''P1'') \<and> ''B'' \<notin> set (ancestor_ids sample_board ''A'')"
proof -
  have p: "(''A'', ''P1'') \<in> (parents sample_board)\<^sup>*" by (simp add: sample_board_parents r_into_rtrancl)
  have "''P1'' \<noteq> []" "''A'' \<noteq> []" by simp_all
  note down = tree_walks_exact [OF sample_board_sound(1) this(1)]
    and up = tree_walks_exact [OF sample_board_sound(1) this(2)]
  show ?thesis
  proof
    show "''A'' \<in> set (subtree_ids sample_board ''P1'')" using down p by simp
    show "''B'' \<notin> set (ancestor_ids sample_board ''A'')" using up sample_board_not_above by simp
  qed
qed

end
