(* ===== verification/Rollup.thy ===== *)
theory Rollup
  imports Hierarchy
begin

text \<open>
  \<open>services/ticket_rollup.py\<close>: a parent's state follows its children. A push walks up from a
  changed ticket and then to the initiatives that track what moved; a sweep at startup
  recomputes every parent, deepest first. Both go through the recomputing door \<open>derive\<close>, of
  which only the contract \<open>state_door\<close> is used.
\<close>

section \<open>One parent\<close>

definition derive_parent_state :: "TicketState list \<Rightarrow> TicketState option" where
  "derive_parent_state child_states =
     (if child_states = [] then None
      else if list_ex (\<lambda>state. state = TicketState.BLOCKED) child_states then Some TicketState.BLOCKED
      else if list_all in_resolved child_states then Some TicketState.DONE
      else if list_ex (\<lambda>state. state \<noteq> TicketState.BACKLOG) child_states
        then Some TicketState.IN_PROGRESS
      else Some TicketState.BACKLOG)"

definition has_children :: "Board \<Rightarrow> string \<Rightarrow> bool" where
  "has_children b ticket_id \<longleftrightarrow> children_of b ticket_id \<noteq> []"

definition child_states :: "Board \<Rightarrow> string \<Rightarrow> TicketState list" where
  "child_states b pid =
     (case get_ticket b pid of
        Some parent \<Rightarrow>
          if tk_work_item_type parent = INITIATIVE
          then map tk_state (ir_roots (roots_of_initiative b pid))
          else map tk_state (children_of b pid)
      | None \<Rightarrow> map tk_state (children_of b pid))"

definition stamp_tickets_kind :: "Ticket \<Rightarrow> TicketState \<Rightarrow> Ticket \<times> bool" where
  "stamp_tickets_kind parent target =
     (let rolled_up = (tk_state parent = TicketState.BLOCKED \<and> target = TicketState.BLOCKED) in
      if rolled_up \<and> tk_block_kind parent = None
      then (parent\<lparr>tk_block_kind := Some TICKETS\<rparr>, True)
      else if \<not> rolled_up \<and> tk_block_kind parent = Some TICKETS
      then (parent\<lparr>tk_block_kind := None\<rparr>, True)
      else (parent, False))"

text \<open>The row after the two writes, and whether either wrote.\<close>

definition align :: "int \<Rightarrow> Ticket \<Rightarrow> TicketState \<Rightarrow> Ticket \<times> bool" where
  "align now parent target =
     (let (parent, moved) = derive now parent target ''rollup'';
          (parent, stamped) = stamp_tickets_kind parent target
      in (parent, stamped \<or> moved))"

definition reconcile_parent :: "int \<Rightarrow> Board \<Rightarrow> Ticket \<Rightarrow> Board \<times> bool" where
  "reconcile_parent now b parent =
     (case derive_parent_state (child_states b (tk_id parent)) of
        None \<Rightarrow> (b, False)
      | Some target \<Rightarrow> (let (parent, changed) = align now parent target in (put_ticket parent b, changed)))"

lemma reconcile_parent_ids [simp]: "ids_of (fst (reconcile_parent now b t)) = ids_of b"
  by (simp add: reconcile_parent_def split: option.split prod.split)

lemma reconcile_parent_unseen [simp]: "unseen (fst (reconcile_parent now b t)) seen = unseen b seen"
  by (simp add: unseen_def)

section \<open>The walk up\<close>

text \<open>The loop of \<open>reconcile_ancestors\<close>: the board, the ids that changed and the ids seen.\<close>

function climb ::
    "int \<Rightarrow> Board \<Rightarrow> string list \<Rightarrow> string list \<Rightarrow> string option \<Rightarrow> Board \<times> string list \<times> string list" where
  "climb now b seen changed None = (b, changed, seen)"
| "climb now b seen changed (Some p) =
     (if p \<in> set seen then (b, changed, seen)
      else (case get_ticket b p of
              None \<Rightarrow> (b, changed, seen @ [p])
            | Some parent \<Rightarrow>
                if snd (reconcile_parent now b parent)
                then climb now (fst (reconcile_parent now b parent)) (seen @ [p]) (changed @ [p])
                       (parent_id parent)
                else (fst (reconcile_parent now b parent), changed, seen @ [p])))"
  by pat_completeness auto
termination
proof (relation "measure (\<lambda>(now, b, seen, changed, cur). unseen b seen)", goal_cases)
  case (2 now b seen changed p parent)
  then have "p \<in> set (ids_of b)" by (metis get_ticket_None_iff option.distinct(1))
  from unseen_less [OF this 2(1), of "seen @ [p]"] show ?case by simp
qed simp

fun reconcile_tracked :: "int \<Rightarrow> Board \<Rightarrow> string list \<Rightarrow> string list \<Rightarrow> Board \<times> string list" where
  "reconcile_tracked now b seen [] = (b, [])"
| "reconcile_tracked now b seen (i # is) =
     (if i \<in> set seen then reconcile_tracked now b seen is
      else (case get_ticket b i of
              None \<Rightarrow> reconcile_tracked now b (seen @ [i]) is
            | Some initiative \<Rightarrow>
                (let (b, moved) = reconcile_parent now b initiative;
                     (b, changed) = reconcile_tracked now b (seen @ [i]) is
                 in (b, if moved then i # changed else changed))))"

definition reconcile_tracking :: "int \<Rightarrow> Board \<Rightarrow> string list \<Rightarrow> string list \<Rightarrow> Board \<times> string list" where
  "reconcile_tracking now b moved seen = reconcile_tracked now b seen (initiatives_tracking b moved)"

definition announce_rollup :: "Board \<Rightarrow> string list \<Rightarrow> Board" where
  "announce_rollup b changed =
     fold (\<lambda>i b. case get_ticket b i of
         None \<Rightarrow> b
       | Some parent \<Rightarrow> b\<lparr>bd_events := event_add (bd_events b) TICKET_STATE_CHANGED
             (tk_workspace_id parent) (tk_id parent)
             [(''state'', ticket_state_value (tk_state parent)), (''actor'', ''rollup'')]\<rparr>) changed b"

definition reconcile_ancestors :: "int \<Rightarrow> Board \<Rightarrow> Ticket \<Rightarrow> Board \<times> string list" where
  "reconcile_ancestors now b ticket =
     (let (b, changed, seen) = climb now b [tk_id ticket] [] (parent_id ticket);
          (b, tracked) = reconcile_tracking now b (tk_id ticket # changed) seen;
          changed = changed @ tracked
      in (if changed \<noteq> [] then announce_rollup b changed else b, changed))"

definition reconcile_lineage :: "int \<Rightarrow> Board \<Rightarrow> string option \<Rightarrow> Board \<times> string list" where
  "reconcile_lineage now b pid =
     (case pid of
        None \<Rightarrow> (b, [])
      | Some p \<Rightarrow>
          if p = [] then (b, [])
          else (case get_ticket b p of
                  None \<Rightarrow> (b, [])
                | Some parent \<Rightarrow>
                    (let (b, changed) = reconcile_parent now b parent in
                     if \<not> changed then (b, [])
                     else (case get_ticket b p of
                             None \<Rightarrow> (b, [p])
                           | Some parent \<Rightarrow>
                               (let (b, above) = reconcile_ancestors now b parent in (b, p # above))))))"

section \<open>The sweep\<close>

text \<open>\<open>depth\<close>: the steps up from a row, through the parents the sweep loaded.\<close>

function depth_walk :: "Board \<Rightarrow> string list \<Rightarrow> string list \<Rightarrow> nat \<Rightarrow> string option \<Rightarrow> nat" where
  "depth_walk b loaded seen steps None = steps"
| "depth_walk b loaded seen steps (Some p) =
     (if p \<in> set seen then steps
      else depth_walk b loaded (seen @ [p]) (steps + 1)
             (if p \<in> set loaded then (case get_ticket b p of None \<Rightarrow> None | Some node \<Rightarrow> parent_id node)
              else None))"
  by pat_completeness auto
termination
proof (relation "measures [\<lambda>(b, loaded, seen, steps, cur). unseen b seen,
      \<lambda>(b, loaded, seen, steps, cur). case cur of None \<Rightarrow> 0 | Some c \<Rightarrow> (1::nat)]", goal_cases)
  case (2 b loaded seen steps p)
  show ?case
  proof (cases "p \<in> set (ids_of b)")
    case False
    then have "get_ticket b p = None" by (simp add: get_ticket_None_iff)
    moreover have "unseen b (seen @ [p]) \<le> unseen b seen" by (rule unseen_le) auto
    ultimately show ?thesis by auto
  next
    case True
    from unseen_less [OF this 2, of "seen @ [p]"] show ?thesis by simp
  qed
qed simp

definition swept_ids :: "Board \<Rightarrow> string list" where
  "swept_ids b =
     dedup (filter (\<lambda>i. i \<noteq> []) (List.map_filter tk_parent_ticket_id (bd_tickets b)) @ member_initiative_ids b)"

definition swept_parents :: "Board \<Rightarrow> Ticket list" where
  "swept_parents b = filter (\<lambda>t. tk_id t \<in> set (swept_ids b)) (bd_tickets b)"

definition depth :: "Board \<Rightarrow> Ticket \<Rightarrow> nat" where
  "depth b parent = depth_walk b (map tk_id (swept_parents b)) [tk_id parent] 0 (parent_id parent)"

definition sweep_order :: "Board \<Rightarrow> string list" where
  "sweep_order b = map tk_id (sort_key (\<lambda>p. - int (depth b p)) (swept_parents b))"

fun sweep :: "int \<Rightarrow> Board \<Rightarrow> string list \<Rightarrow> Board \<times> string list" where
  "sweep now b [] = (b, [])"
| "sweep now b (i # is) =
     (case get_ticket b i of
        None \<Rightarrow> sweep now b is
      | Some parent \<Rightarrow>
          (let (b, moved) = reconcile_parent now b parent; (b, changed) = sweep now b is
           in (b, if moved then i # changed else changed)))"

definition reconcile_all_parents :: "int \<Rightarrow> Board \<Rightarrow> Board \<times> string list" where
  "reconcile_all_parents now b = sweep now b (sweep_order b)"

section \<open>One write\<close>

lemma stamp_frame [simp]:
  "tk_id (fst (stamp_tickets_kind t s)) = tk_id t"
  "tk_parent_ticket_id (fst (stamp_tickets_kind t s)) = tk_parent_ticket_id t"
  "tk_work_item_type (fst (stamp_tickets_kind t s)) = tk_work_item_type t"
  "tk_state (fst (stamp_tickets_kind t s)) = tk_state t"
  "tk_state_locked (fst (stamp_tickets_kind t s)) = tk_state_locked t"
  by (simp_all add: stamp_tickets_kind_def Let_def)

lemma two_writes_unchanged:
  "\<not> snd (if p then (x, True) else if q then (y, True) else (t, False)) \<Longrightarrow>
     fst (if p then (x, True) else if q then (y, True) else (t, False)) = t"
  by (cases p; cases q) simp_all

lemma stamp_unchanged: "\<not> snd (stamp_tickets_kind t s) \<Longrightarrow> fst (stamp_tickets_kind t s) = t"
  unfolding stamp_tickets_kind_def Let_def by (rule two_writes_unchanged)

lemma stamp_idempotent: "\<not> snd (stamp_tickets_kind (fst (stamp_tickets_kind t s)) s)"
  by (simp add: stamp_tickets_kind_def Let_def)

lemma align_eq:
  "align now t s = (fst (stamp_tickets_kind (fst (derive now t s ''rollup'')) s),
     snd (stamp_tickets_kind (fst (derive now t s ''rollup'')) s) \<or> snd (derive now t s ''rollup''))"
  by (simp add: align_def split: prod.split)

lemma align_frame [simp]:
  "tk_id (fst (align now t s)) = tk_id t"
  "tk_parent_ticket_id (fst (align now t s)) = tk_parent_ticket_id t"
  "tk_work_item_type (fst (align now t s)) = tk_work_item_type t"
  by (simp_all add: align_eq derive_door.door_frame_fields)

lemma align_state:
  "tk_state (fst (align now t s)) =
     (if tk_state_locked t \<or> tk_state t \<in> {TicketState.WONT_DO, TicketState.PARKED} then tk_state t else s)"
proof (cases "tk_state_locked t \<or> tk_state t \<in> {TicketState.WONT_DO, TicketState.PARKED}")
  case True
  then have "\<not> snd (derive now t s ''rollup'')"
    using derive_door.door_locked derive_door.door_decided by blast
  then have "fst (derive now t s ''rollup'') = t" by (rule derive_door.door_unchanged)
  with True show ?thesis by (simp add: align_eq)
next
  case False
  then have "tk_state (fst (derive now t s ''rollup'')) = s"
    by (intro derive_door.door_moves) auto
  with False show ?thesis by (simp only: align_eq fst_conv stamp_frame if_False)
qed

lemma align_unchanged:
  assumes "\<not> snd (align now t s)"
  shows "fst (align now t s) = t"
proof -
  from assms have d: "\<not> snd (derive now t s ''rollup'')"
    and st: "\<not> snd (stamp_tickets_kind (fst (derive now t s ''rollup'')) s)"
    unfolding align_eq by simp_all
  from derive_door.door_unchanged [OF d] stamp_unchanged [OF st] show ?thesis
    unfolding align_eq by simp
qed

lemma derive_snd_cong:
  "tk_state t = tk_state u \<Longrightarrow> tk_state_locked t = tk_state_locked u \<Longrightarrow>
     snd (derive now t s a) = snd (derive now' u s a')"
  by (simp add: derive_door.door_writes_iff)

lemma align_idempotent: "\<not> snd (align now' (fst (align now t s)) s)"
proof -
  let ?d = "fst (derive now t s ''rollup'')" and ?a = "fst (align now t s)"
  have a: "?a = fst (stamp_tickets_kind ?d s)" by (simp add: align_eq)
  have "snd (derive now' ?a s ''rollup'') = snd (derive now ?d s ''rollup'')"
    unfolding a by (rule derive_snd_cong) simp_all
  then have d: "\<not> snd (derive now' ?a s ''rollup'')" by (simp add: derive_door.door_idempotent)
  then have "fst (derive now' ?a s ''rollup'') = ?a" by (rule derive_door.door_unchanged)
  moreover have "\<not> snd (stamp_tickets_kind ?a s)" unfolding a by (rule stamp_idempotent)
  ultimately show ?thesis using d by (simp only: align_eq [of now' ?a] snd_conv simp_thms)
qed

lemma align_snd_now: "snd (align now t s) = snd (align now' t s)"
proof (cases "snd (derive now t s ''rollup'')")
  case True
  then have "snd (derive now' t s ''rollup'')" by (simp add: derive_door.door_writes_iff)
  with True show ?thesis by (simp add: align_eq)
next
  case False
  then have "\<not> snd (derive now' t s ''rollup'')" by (simp add: derive_door.door_writes_iff)
  with False show ?thesis by (simp add: align_eq derive_door.door_unchanged)
qed

section \<open>Whose state a row feeds\<close>

text \<open>Row \<open>i\<close> is one of those \<open>q\<close> summarises: its child, or its member where \<open>q\<close> is an initiative.\<close>

definition feeds :: "Board \<Rightarrow> string \<Rightarrow> string \<Rightarrow> bool" where
  "feeds b i q \<longleftrightarrow>
     (\<exists>t. get_ticket b i = Some t \<and>
        (tk_parent_ticket_id t = Some q
         \<or> (q, i) \<in> set (bd_members b)
            \<and> (\<exists>u. get_ticket b q = Some u \<and> tk_work_item_type u = INITIATIVE)))"

lemma map_same_row:
  assumes "\<And>u. u \<in> set us \<Longrightarrow> tk_id u \<noteq> tk_id t'"
  shows "map (\<lambda>u. if tk_id u = tk_id t' then t' else u) us = us"
  using assms by (induction us) auto

lemma filter_put_ticket:
  assumes "keyed b" and "get_ticket b (tk_id t') = Some t" and "P t' = P t" and "\<not> P t"
  shows "filter P (bd_tickets (put_ticket t' b)) = filter P (bd_tickets b)"
proof -
  let ?f = "\<lambda>u. if tk_id u = tk_id t' then t' else u"
  have row: "u = t" if "u \<in> set (bd_tickets b)" "tk_id u = tk_id t'" for u
    using get_ticket_unique [of b u] that assms(1,2) by (simp add: keyed_def)
  have "filter P (map ?f us) = filter P us" if "set us \<subseteq> set (bd_tickets b)" for us
    using that
  proof (induction us)
    case (Cons u us)
    then show ?case using row [of u] assms(3,4) by auto
  qed simp
  from this [OF order_refl] show ?thesis by (simp add: put_ticket_def)
qed

lemma children_of_put:
  assumes "keyed b" and "get_ticket b (tk_id t') = Some t"
    and "tk_parent_ticket_id t' = tk_parent_ticket_id t" and "tk_parent_ticket_id t \<noteq> Some q"
  shows "children_of (put_ticket t' b) q = children_of b q"
  unfolding children_of_def using assms by (intro filter_put_ticket) auto

lemma child_states_put:
  assumes "keyed b" and "get_ticket b (tk_id t') = Some t"
    and "tk_parent_ticket_id t' = tk_parent_ticket_id t" and "tk_work_item_type t' = tk_work_item_type t"
    and "\<not> feeds b (tk_id t') q"
  shows "child_states (put_ticket t' b) q = child_states b q"
proof -
  from assms(2,5) have p: "tk_parent_ticket_id t \<noteq> Some q" by (auto simp: feeds_def)
  note c = children_of_put [OF assms(1-3) p]
  have kind: "map_option tk_work_item_type (get_ticket (put_ticket t' b) q) =
      map_option tk_work_item_type (get_ticket b q)"
    using assms(2,4) get_ticket_None_iff [of b "tk_id t'"] by (auto simp: get_put_ticket)
  show ?thesis
  proof (cases "\<exists>u. get_ticket b q = Some u \<and> tk_work_item_type u = INITIATIVE")
    case False
    with kind c show ?thesis
      by (cases "get_ticket b q"; cases "get_ticket (put_ticket t' b) q") (auto simp: child_states_def)
  next
    case True
    with assms(2,5) have m: "(q, tk_id t') \<notin> set (bd_members b)" by (auto simp: feeds_def)
    have id: "tk_id t = tk_id t'" using get_ticket_Some [OF assms(2)] by simp
    have "filter (\<lambda>t. \<exists>row \<in> set (bd_members b). row = (q, tk_id t)) (bd_tickets (put_ticket t' b))
        = filter (\<lambda>t. \<exists>row \<in> set (bd_members b). row = (q, tk_id t)) (bd_tickets b)"
      using m id by (intro filter_put_ticket [OF assms(1,2)]) auto
    with c have "roots_of_initiative (put_ticket t' b) q = roots_of_initiative b q"
      by (simp add: roots_of_initiative_def)
    with True kind show ?thesis by (auto simp: child_states_def)
  qed
qed

section \<open>Settled boards\<close>

text \<open>No reconcile of row \<open>i\<close> would write.\<close>

definition settled :: "Board \<Rightarrow> string \<Rightarrow> bool" where
  "settled b i \<longleftrightarrow>
     (case get_ticket b i of None \<Rightarrow> True | Some t \<Rightarrow> \<not> snd (reconcile_parent 0 b t))"

lemma reconcile_parent_eq:
  "reconcile_parent now b t =
     (case derive_parent_state (child_states b (tk_id t)) of
        None \<Rightarrow> (b, False)
      | Some s \<Rightarrow> (put_ticket (fst (align now t s)) b, snd (align now t s)))"
  by (simp add: reconcile_parent_def split: option.split prod.split)

lemma reconcile_snd_now: "snd (reconcile_parent now b t) = snd (reconcile_parent now' b t)"
  using align_snd_now [of now t _ now'] by (simp add: reconcile_parent_eq split: option.split)

lemma settled_row: "get_ticket b i = Some t \<Longrightarrow> settled b i \<longleftrightarrow> \<not> snd (reconcile_parent now b t)"
  using reconcile_snd_now [of now b t 0] by (simp add: settled_def)

text \<open>The same rows, links and kinds.\<close>

definition same_shape :: "Board \<Rightarrow> Board \<Rightarrow> bool" where
  "same_shape b b' \<longleftrightarrow> ids_of b' = ids_of b \<and> bd_members b' = bd_members b
     \<and> (\<forall>i. map_option (\<lambda>t. (tk_parent_ticket_id t, tk_work_item_type t)) (get_ticket b' i)
          = map_option (\<lambda>t. (tk_parent_ticket_id t, tk_work_item_type t)) (get_ticket b i))"

lemma same_shape_refl [simp]: "same_shape b b"
  by (simp add: same_shape_def)

lemma same_shape_trans: "same_shape a b \<Longrightarrow> same_shape b c \<Longrightarrow> same_shape a c"
  by (simp add: same_shape_def)

lemma same_shape_row:
  assumes "same_shape b b'" and "get_ticket b i = Some t"
  shows "\<exists>t'. get_ticket b' i = Some t' \<and> tk_parent_ticket_id t' = tk_parent_ticket_id t
     \<and> tk_work_item_type t' = tk_work_item_type t"
proof -
  from assms(1) have "map_option (\<lambda>t. (tk_parent_ticket_id t, tk_work_item_type t)) (get_ticket b' i)
      = map_option (\<lambda>t. (tk_parent_ticket_id t, tk_work_item_type t)) (get_ticket b i)"
    by (simp add: same_shape_def)
  with assms(2) show ?thesis by (cases "get_ticket b' i") auto
qed

lemma same_shape_sym: "same_shape b b' \<Longrightarrow> same_shape b' b"
  by (simp add: same_shape_def)

lemma same_shape_keyed: "same_shape b b' \<Longrightarrow> keyed b' = keyed b"
  by (simp add: same_shape_def keyed_def)

lemma same_shape_members: "same_shape b b' \<Longrightarrow> bd_members b' = bd_members b"
  by (simp add: same_shape_def)

lemma same_shape_parents:
  assumes "same_shape b b'"
  shows "parents b' = parents b"
proof -
  have "parents a \<subseteq> parents c" if "same_shape a c" for a c
    proof (rule subrelI)
      fix x p assume "(x, p) \<in> parents a"
      then obtain t where t: "get_ticket a x = Some t" "parent_id t = Some p" by (auto simp: parents_iff)
      from same_shape_row [OF that t(1)] obtain u where "get_ticket c x = Some u"
        "tk_parent_ticket_id u = tk_parent_ticket_id t" by blast
      with t(2) show "(x, p) \<in> parents c" by (auto simp: parents_iff parent_id_def)
    qed
  from this [OF assms] this [OF same_shape_sym [OF assms]] show ?thesis by blast
qed

lemma same_shape_put:
  assumes "get_ticket b (tk_id t') = Some t" and "tk_parent_ticket_id t' = tk_parent_ticket_id t"
    and "tk_work_item_type t' = tk_work_item_type t"
  shows "same_shape b (put_ticket t' b)"
proof -
  have "get_ticket (put_ticket t' b) i = (if i = tk_id t' then Some t' else get_ticket b i)" for i
    using assms(1) get_put_ticket_self [OF assms(1) refl] by (simp add: get_put_ticket)
  with assms show ?thesis by (simp add: same_shape_def)
qed

lemma put_ticket_same:
  assumes "keyed b" and "get_ticket b (tk_id t) = Some t"
  shows "put_ticket t b = b"
proof -
  have "map (\<lambda>u. if tk_id u = tk_id t then t else u) (bd_tickets b) = bd_tickets b"
  proof (rule map_idI)
    fix u assume "u \<in> set (bd_tickets b)"
    with assms(1) have u: "get_ticket b (tk_id u) = Some u"
      using get_ticket_unique [of b u] by (simp add: keyed_def)
    have "t = u" if "tk_id u = tk_id t"
      using assms(2) [folded that] u by (simp only: option.inject)
    then show "(if tk_id u = tk_id t then t else u) = u" by (cases "tk_id u = tk_id t") (simp_all only: if_True if_False)
  qed
  then show ?thesis by (simp add: put_ticket_def)
qed

lemma settled_put:
  assumes "keyed b" and "get_ticket b (tk_id t') = Some t"
    and "tk_parent_ticket_id t' = tk_parent_ticket_id t" and "tk_work_item_type t' = tk_work_item_type t"
    and "\<not> feeds b (tk_id t') q" and "q \<noteq> tk_id t'"
  shows "settled (put_ticket t' b) q \<longleftrightarrow> settled b q"
proof (cases "get_ticket b q")
  case None
  with assms(6) show ?thesis by (simp add: settled_def get_put_ticket)
next
  case (Some u)
  with assms(6) have "get_ticket (put_ticket t' b) q = Some u" by (simp add: get_put_ticket)
  with Some child_states_put [OF assms(1-5)] get_ticket_Some [OF Some] show ?thesis
    by (simp add: settled_def reconcile_parent_def split: option.split prod.split)
qed

lemma reconcile_step:
  assumes "keyed b" and "get_ticket b i = Some t"
  shows "same_shape b (fst (reconcile_parent now b t))"
    and "\<not> snd (reconcile_parent now b t) \<Longrightarrow> fst (reconcile_parent now b t) = b"
    and "\<not> feeds b i i \<Longrightarrow> settled (fst (reconcile_parent now b t)) i"
    and "\<not> feeds b i q \<Longrightarrow> q \<noteq> i \<Longrightarrow> settled (fst (reconcile_parent now b t)) q = settled b q"
proof -
  from get_ticket_Some [OF assms(2)] have id: "tk_id t = i" by simp
  have all: "same_shape b (fst (reconcile_parent now b t))
     \<and> (\<not> snd (reconcile_parent now b t) \<longrightarrow> fst (reconcile_parent now b t) = b)
     \<and> (\<not> feeds b i i \<longrightarrow> settled (fst (reconcile_parent now b t)) i)
     \<and> (\<not> feeds b i q \<longrightarrow> q \<noteq> i \<longrightarrow> settled (fst (reconcile_parent now b t)) q = settled b q)"
  proof (cases "derive_parent_state (child_states b i)")
    case None
    with assms id show ?thesis by (simp add: reconcile_parent_def settled_def)
  next
    case (Some target)
    let ?t = "fst (align now t target)"
    have b': "fst (reconcile_parent now b t) = put_ticket ?t b"
      and s': "snd (reconcile_parent now b t) = snd (align now t target)"
      using Some id by (simp_all add: reconcile_parent_def split: prod.split)
    have g: "get_ticket b (tk_id ?t) = Some t" using assms(2) id by simp
    have self: "settled (put_ticket ?t b) i" if "\<not> feeds b i i"
    proof -
      have "get_ticket (put_ticket ?t b) i = Some ?t" using assms(2) id by simp
      moreover have "child_states (put_ticket ?t b) i = child_states b i"
        by (rule child_states_put [OF assms(1) g]) (use that id in simp_all)
      ultimately show ?thesis
        using Some id align_idempotent [of 0 now t target]
        by (simp add: settled_def reconcile_parent_eq)
    qed
    moreover have "put_ticket ?t b = b" if "\<not> snd (align now t target)"
      using align_unchanged [OF that] put_ticket_same [OF assms(1), of t] assms(2) id by simp
    ultimately show ?thesis
      unfolding b' s' using same_shape_put [OF g] settled_put [OF assms(1) g, of q] id by simp
  qed
  from all show "same_shape b (fst (reconcile_parent now b t))" by blast
  from all show "\<not> snd (reconcile_parent now b t) \<Longrightarrow> fst (reconcile_parent now b t) = b" by blast
  from all show "\<not> feeds b i i \<Longrightarrow> settled (fst (reconcile_parent now b t)) i" by blast
  from all show "\<not> feeds b i q \<Longrightarrow> q \<noteq> i \<Longrightarrow> settled (fst (reconcile_parent now b t)) q = settled b q" by blast
qed

text \<open>What the initiative services keep: initiatives have no parent, and no member is one.\<close>

definition coverage_sound :: "Board \<Rightarrow> bool" where
  "coverage_sound b \<longleftrightarrow>
     (\<forall>i t. get_ticket b i = Some t \<longrightarrow> tk_work_item_type t = INITIATIVE \<longrightarrow> tk_parent_ticket_id t = None)
     \<and> (\<forall>i m. (i, m) \<in> set (bd_members b) \<longrightarrow>
          (\<forall>t. get_ticket b i = Some t \<longrightarrow> tk_work_item_type t = INITIATIVE)
          \<and> (\<forall>t. get_ticket b m = Some t \<longrightarrow> tk_work_item_type t \<noteq> INITIATIVE))"

lemma coverage_sound_shape:
  assumes "same_shape b b'" and "coverage_sound b"
  shows "coverage_sound b'"
  unfolding coverage_sound_def
proof (intro conjI allI impI)
  fix i t assume t: "get_ticket b' i = Some t"
  from same_shape_row [OF same_shape_sym [OF assms(1)] t] obtain u where u: "get_ticket b i = Some u"
    "tk_parent_ticket_id u = tk_parent_ticket_id t" "tk_work_item_type u = tk_work_item_type t" by blast
  show "tk_parent_ticket_id t = None" if "tk_work_item_type t = INITIATIVE"
    using assms(2) u that by (auto simp: coverage_sound_def)
  show "tk_work_item_type t = INITIATIVE" if "(i, m) \<in> set (bd_members b')" for m
    using assms(2) u that same_shape_members [OF assms(1)] by (auto simp: coverage_sound_def)
  show "tk_work_item_type t \<noteq> INITIATIVE" if "(m, i) \<in> set (bd_members b')" for m
    using assms(2) u that same_shape_members [OF assms(1)] by (auto simp: coverage_sound_def)
qed

lemma no_self_feed:
  assumes "keyed b" and "acyclic (parents b)" and "coverage_sound b"
  shows "\<not> feeds b i i"
proof
  assume "feeds b i i"
  then obtain t where t: "get_ticket b i = Some t"
    and or: "tk_parent_ticket_id t = Some i
       \<or> (i, i) \<in> set (bd_members b) \<and> (\<exists>u. get_ticket b i = Some u \<and> tk_work_item_type u = INITIATIVE)"
    by (auto simp: feeds_def)
  from t assms(1) have "i \<noteq> []" using get_ticket_None_iff [of b i] by (auto simp: keyed_def)
  from or show False
  proof
    assume "tk_parent_ticket_id t = Some i"
    with t \<open>i \<noteq> []\<close> have "(i, i) \<in> parents b" by (auto simp: parents_iff parent_id_def)
    with assms(2) show False by (auto simp: acyclic_def)
  next
    assume "(i, i) \<in> set (bd_members b) \<and> (\<exists>u. get_ticket b i = Some u \<and> tk_work_item_type u = INITIATIVE)"
    with assms(3) show False unfolding coverage_sound_def by blast
  qed
qed

section \<open>A push settles the board\<close>

lemma feedsE:
  assumes "feeds b i q" and "get_ticket b i = Some t"
  obtains "tk_parent_ticket_id t = Some q"
  | u where "(q, i) \<in> set (bd_members b)" "get_ticket b q = Some u" "tk_work_item_type u = INITIATIVE"
  using assms by (auto simp: feeds_def)

lemma settled_missing: "get_ticket b q = None \<Longrightarrow> settled b q"
  by (simp add: settled_def)

lemma unsettled_not_Nil: "keyed b \<Longrightarrow> \<not> settled b q \<Longrightarrow> q \<noteq> []"
  using settled_missing [of b q] get_ticket_None_iff [of b q] by (auto simp: keyed_def)

lemma tracking_iff:
  "q \<in> set (initiatives_tracking b ids) \<longleftrightarrow> (\<exists>m \<in> set ids. (q, m) \<in> set (bd_members b))"
  by (force simp: initiatives_tracking_def)

lemma tracking_shape: "same_shape b b' \<Longrightarrow> initiatives_tracking b' ids = initiatives_tracking b ids"
  by (simp add: initiatives_tracking_def same_shape_members)

lemma climb_settles:
  assumes "climb now b seen changed cur = (b', changed', seen')"
    and "keyed b" and "acyclic (parents b)" and "coverage_sound b"
    and "\<And>s p. s \<in> set seen \<Longrightarrow> cur = Some p \<Longrightarrow> (s, p) \<in> (parents b)\<^sup>+"
    and "\<And>s u. s \<in> set seen \<Longrightarrow> cur \<noteq> None \<Longrightarrow> get_ticket b s = Some u \<Longrightarrow> tk_work_item_type u \<noteq> INITIATIVE"
    and "\<And>q. \<not> settled b q \<Longrightarrow>
           cur = Some q \<or> q \<notin> set seen \<and> q \<in> set (initiatives_tracking b (moved @ changed))"
  shows "same_shape b b'
    \<and> (\<forall>q. \<not> settled b' q \<longrightarrow> q \<notin> set seen' \<and> q \<in> set (initiatives_tracking b (moved @ changed')))"
  using assms
proof (induction now b seen changed cur rule: climb.induct)
  case (1 now b seen changed)
  then show ?case by auto
next
  case (2 now b seen changed p)
  show ?case
  proof (cases "p \<in> set seen")
    case True
    with 2(6) [OF True refl] 2(4) show ?thesis by (auto simp: acyclic_def)
  next
    case new: False
    show ?thesis
    proof (cases "get_ticket b p")
      case None
      with 2(2) new have e: "b' = b" "changed' = changed" "seen' = seen @ [p]" by simp_all
      have "q \<notin> set seen' \<and> q \<in> set (initiatives_tracking b (moved @ changed'))" if "\<not> settled b q" for q
        using 2(8) [OF that] settled_missing [OF None] that e by auto
      with e show ?thesis by simp
    next
      case (Some parent)
      let ?r = "reconcile_parent now b parent"
      note step = reconcile_step [OF 2(3) Some, where now = now]
      note nofeed = no_self_feed [OF 2(3-5)]
      show ?thesis
      proof (cases "snd ?r")
        case False
        with 2(2) new Some step(2) have e: "b' = b" "changed' = changed" "seen' = seen @ [p]" by simp_all
        from False settled_row [OF Some, of now] have "settled b p" by simp
        then have "q \<notin> set seen' \<and> q \<in> set (initiatives_tracking b (moved @ changed'))" if "\<not> settled b q" for q
          using 2(8) [OF that] that e by auto
        with e show ?thesis by simp
      next
        case True
        let ?b = "fst ?r"
        have sh: "same_shape b ?b" by (rule step(1))
        have climb: "climb now ?b (seen @ [p]) (changed @ [p]) (parent_id parent) = (b', changed', seen')"
          using 2(2) new Some True by simp
        have up: "(p, p') \<in> parents b" if "parent_id parent = Some p'" for p'
          using Some that by (auto simp: parents_iff)
        have nontop: "tk_work_item_type parent \<noteq> INITIATIVE" if "parent_id parent \<noteq> None"
          using that 2(5) Some by (auto simp: coverage_sound_def parent_id_def)
        have res: "same_shape ?b b' \<and> (\<forall>q. \<not> settled b' q \<longrightarrow>
            q \<notin> set seen' \<and> q \<in> set (initiatives_tracking ?b (moved @ changed')))"
        proof (rule 2(1) [OF new Some True climb])
          show "keyed ?b" using 2(3) same_shape_keyed [OF sh] by simp
          show "acyclic (parents ?b)" using 2(4) same_shape_parents [OF sh] by simp
          show "coverage_sound ?b" by (rule coverage_sound_shape [OF sh 2(5)])
          show "(s, p') \<in> (parents ?b)\<^sup>+" if "s \<in> set (seen @ [p])" "parent_id parent = Some p'" for s p'
            using that(1) up [OF that(2)] 2(6) [OF _ refl, of s] same_shape_parents [OF sh]
            by (auto intro: trancl_into_trancl)
          show "tk_work_item_type u \<noteq> INITIATIVE"
            if "s \<in> set (seen @ [p])" "parent_id parent \<noteq> None" "get_ticket ?b s = Some u" for s u
          proof -
            from same_shape_row [OF same_shape_sym [OF sh] that(3)] obtain v where
              v: "get_ticket b s = Some v" "tk_work_item_type v = tk_work_item_type u" by auto
            show ?thesis using that(1) v nontop [OF that(2)] Some 2(7) [of s v] by auto
          qed
          show "parent_id parent = Some q \<or> q \<notin> set (seen @ [p])
              \<and> q \<in> set (initiatives_tracking ?b (moved @ changed @ [p]))" if uq: "\<not> settled ?b q" for q
          proof -
            have qp: "q \<noteq> p" using step(3) [OF nofeed] uq by auto
            show ?thesis
            proof (cases "feeds b p q")
              case True
              then show ?thesis using Some
              proof (rule feedsE)
                assume "tk_parent_ticket_id parent = Some q"
                with unsettled_not_Nil [OF _ uq] 2(3) same_shape_keyed [OF sh] show ?thesis
                  by (simp add: parent_id_def)
              next
                fix u assume u: "(q, p) \<in> set (bd_members b)" "get_ticket b q = Some u"
                  "tk_work_item_type u = INITIATIVE"
                with 2(7) [of q u] have "q \<notin> set seen" by auto
                with u(1) qp show ?thesis by (simp add: tracking_shape [OF sh] tracking_iff)
              qed
            next
              case False
              with step(4) [OF False qp] uq have "\<not> settled b q" by simp
              from 2(8) [OF this] qp show ?thesis
                by (auto simp: tracking_shape [OF sh] tracking_iff)
            qed
          qed
        qed
        with same_shape_trans [OF sh] show ?thesis by (simp add: tracking_shape [OF sh])
      qed
    qed
  qed
qed

lemma tracked_settles:
  assumes "reconcile_tracked now b seen is = (b', changed)"
    and "keyed b" and "acyclic (parents b)" and "coverage_sound b"
    and "\<And>i u. i \<in> set is \<Longrightarrow> get_ticket b i = Some u \<Longrightarrow> tk_work_item_type u = INITIATIVE"
    and "\<And>q. \<not> settled b q \<Longrightarrow> q \<notin> set seen \<and> q \<in> set is"
  shows "settled b' q \<and> same_shape b b'"
  using assms
proof (induction "is" arbitrary: b seen b' changed)
  case Nil
  then show ?case by auto
next
  case (Cons i "is")
  show ?case
  proof (cases "i \<in> set seen")
    case True
    show ?thesis
    proof (rule Cons.IH)
      show "reconcile_tracked now b seen is = (b', changed)" using Cons.prems(1) True by simp
      show "tk_work_item_type u = INITIATIVE" if "j \<in> set is" "get_ticket b j = Some u" for j u
        using Cons.prems(5) [of j u] that by simp
      show "q \<notin> set seen \<and> q \<in> set is" if "\<not> settled b q" for q
        using Cons.prems(6) [OF that] True by auto
    qed (rule Cons.prems)+
  next
    case new: False
    show ?thesis
    proof (cases "get_ticket b i")
      case None
      show ?thesis
      proof (rule Cons.IH)
        show "reconcile_tracked now b (seen @ [i]) is = (b', changed)" using Cons.prems(1) new None by simp
        show "q \<notin> set (seen @ [i]) \<and> q \<in> set is" if "\<not> settled b q" for q
          using Cons.prems(6) [OF that] settled_missing [OF None] that by auto
      qed (use Cons.prems in auto)
    next
      case (Some t)
      let ?b = "fst (reconcile_parent now b t)"
      note step = reconcile_step [OF Cons.prems(2) Some, where now = now]
      obtain c where rest: "reconcile_tracked now ?b (seen @ [i]) is = (b', c)"
        using Cons.prems(1) new Some by (auto split: prod.splits)
      have kind: "tk_work_item_type t = INITIATIVE" using Cons.prems(5) [of i t] Some by simp
      then have top: "tk_parent_ticket_id t = None"
        using Cons.prems(4) Some by (auto simp: coverage_sound_def)
      have nofeed: "\<not> feeds b i q" for q
        using Cons.prems(4) Some kind top unfolding feeds_def coverage_sound_def by auto
      have "settled b' q \<and> same_shape ?b b'"
      proof (rule Cons.IH [OF rest])
        show "keyed ?b" using Cons.prems(2) same_shape_keyed [OF step(1)] by simp
        show "acyclic (parents ?b)" using Cons.prems(3) same_shape_parents [OF step(1)] by simp
        show "coverage_sound ?b" by (rule coverage_sound_shape [OF step(1) Cons.prems(4)])
        show "tk_work_item_type u = INITIATIVE" if "j \<in> set is" "get_ticket ?b j = Some u" for j u
        proof -
          from same_shape_row [OF same_shape_sym [OF step(1)] that(2)] obtain v where
            "get_ticket b j = Some v" "tk_work_item_type v = tk_work_item_type u" by auto
          with Cons.prems(5) [of j v] that(1) show ?thesis by simp
        qed
        show "q \<notin> set (seen @ [i]) \<and> q \<in> set is" if "\<not> settled ?b q" for q
        proof -
          have "q \<noteq> i" using step(3) [OF nofeed] that by auto
          with step(4) [OF nofeed this] that Cons.prems(6) [of q] show ?thesis by auto
        qed
      qed
      with same_shape_trans [OF step(1)] show ?thesis by blast
    qed
  qed
qed

lemma settled_cong:
  assumes "bd_tickets b' = bd_tickets b" and "bd_members b' = bd_members b"
  shows "settled b' q \<longleftrightarrow> settled b q"
proof -
  have "get_ticket b' i = get_ticket b i" "children_of b' i = children_of b i" for i
    using assms(1) by (simp_all add: get_ticket_def children_of_def)
  moreover from this have "roots_of_initiative b' i = roots_of_initiative b i" for i
    using assms by (simp add: roots_of_initiative_def)
  ultimately have "child_states b' i = child_states b i" for i
    by (simp add: child_states_def split: option.split)
  with \<open>\<And>i. get_ticket b' i = get_ticket b i\<close> show ?thesis
    by (simp add: settled_def reconcile_parent_eq split: option.split)
qed

lemma announce_rollup_rows [simp]:
  "bd_tickets (announce_rollup b changed) = bd_tickets b"
  "bd_members (announce_rollup b changed) = bd_members b"
proof -
  have "bd_tickets (announce_rollup b changed) = bd_tickets b
      \<and> bd_members (announce_rollup b changed) = bd_members b"
    unfolding announce_rollup_def by (induction changed arbitrary: b) (auto split: option.split)
  then show "bd_tickets (announce_rollup b changed) = bd_tickets b"
    "bd_members (announce_rollup b changed) = bd_members b" by simp_all
qed

lemma settled_announce [simp]: "settled (announce_rollup b changed) q \<longleftrightarrow> settled b q"
  by (rule settled_cong) simp_all

section \<open>Properties of the push\<close>

text \<open>C30: a push restores the whole board. Take a board on which no parent's stored state
  differs from what its children, or an initiative's members, derive, and write a new state to
  one row with no children: after the walk from that row, again no parent on the board would
  change, though the walk stops at the first ancestor that does not move.\<close>

theorem rollup_settles:
  assumes "keyed b" and "acyclic (parents b)" and "coverage_sound b" and "\<forall>q. settled b q"
    and "get_ticket b (tk_id t') = Some t" and "tk_parent_ticket_id t' = tk_parent_ticket_id t"
    and "tk_work_item_type t' = tk_work_item_type t" and "child_states b (tk_id t') = []"
  shows "settled (fst (reconcile_ancestors now (put_ticket t' b) t')) q"
proof -
  let ?i = "tk_id t'" and ?b = "put_ticket t' b"
  have sh: "same_shape b ?b" by (rule same_shape_put [OF assms(5-7)])
  have sound: "keyed ?b" "acyclic (parents ?b)" "coverage_sound ?b"
    using assms(1,2) same_shape_keyed [OF sh] same_shape_parents [OF sh]
      coverage_sound_shape [OF sh assms(3)] by simp_all
  have row: "get_ticket ?b ?i = Some t'" using assms(5) by simp
  note nofeed = no_self_feed [OF assms(1-3)]
  have self: "settled ?b ?i"
    using row child_states_put [OF assms(1,5-7) nofeed] assms(8)
    by (simp add: settled_def reconcile_parent_eq derive_parent_state_def)
  have unsettled: "feeds b ?i q \<and> q \<noteq> ?i" if "\<not> settled ?b q" for q
    using settled_put [OF assms(1,5-7), of q] assms(4) self that by auto
  obtain b1 changed seen where climb: "climb now ?b [?i] [] (parent_id t') = (b1, changed, seen)"
    by (cases "climb now ?b [?i] [] (parent_id t')") auto
  have up: "same_shape ?b b1 \<and> (\<forall>q. \<not> settled b1 q \<longrightarrow>
      q \<notin> set seen \<and> q \<in> set (initiatives_tracking ?b ([?i] @ changed)))"
  proof (rule climb_settles [OF climb sound])
    show "(s, p) \<in> (parents ?b)\<^sup>+" if "s \<in> set [?i]" "parent_id t' = Some p" for s p
      using that row by (auto simp: parents_iff)
    show "tk_work_item_type u \<noteq> INITIATIVE"
      if "s \<in> set [?i]" "parent_id t' \<noteq> None" "get_ticket ?b s = Some u" for s u
      using that row sound(3) by (auto simp: coverage_sound_def parent_id_def)
    show "parent_id t' = Some q \<or> q \<notin> set [?i] \<and> q \<in> set (initiatives_tracking ?b ([?i] @ []))"
      if "\<not> settled ?b q" for q
    proof -
      from unsettled [OF that] have f: "feeds b ?i q" and ne: "q \<noteq> ?i" by simp_all
      from f assms(5) show ?thesis
      proof (rule feedsE)
        assume "tk_parent_ticket_id t = Some q"
        with unsettled_not_Nil [OF sound(1) that] assms(6) show ?thesis by (simp add: parent_id_def)
      next
        fix u assume "(q, ?i) \<in> set (bd_members b)"
        with ne show ?thesis by (simp add: tracking_iff)
      qed
    qed
  qed
  then have sh1: "same_shape ?b b1" by blast
  obtain b2 tracked where track: "reconcile_tracked now b1 seen (initiatives_tracking b1 (?i # changed)) = (b2, tracked)"
    by fastforce
  have "settled b2 q"
  proof -
    have s1: "keyed b1" "acyclic (parents b1)" "coverage_sound b1"
      using sound same_shape_keyed [OF sh1] same_shape_parents [OF sh1] coverage_sound_shape [OF sh1]
      by simp_all
    have "settled b2 q \<and> same_shape b1 b2"
    proof (rule tracked_settles [OF track s1])
      show "tk_work_item_type u = INITIATIVE"
        if "j \<in> set (initiatives_tracking b1 (?i # changed))" "get_ticket b1 j = Some u" for j u
        using that s1(3) unfolding tracking_iff coverage_sound_def by blast
      show "q \<notin> set seen \<and> q \<in> set (initiatives_tracking b1 (?i # changed))" if "\<not> settled b1 q" for q
        using up that by (simp add: tracking_shape [OF sh1])
    qed
    then show ?thesis ..
  qed
  then show ?thesis
    by (simp add: reconcile_ancestors_def climb reconcile_tracking_def track Let_def)
qed

text \<open>A feature with one task, tracked by an initiative.\<close>

definition sample_tracked :: Board where
  "sample_tracked = empty_board\<lparr>bd_tickets :=
     [sample_row ''I'' INITIATIVE None, sample_row ''P1'' CAPABILITY None,
      sample_row ''A'' TASK (Some ''P1'')], bd_members := [(''I'', ''P1'')]\<rparr>"

lemma sample_tracked_ids: "keyed sample_tracked" "ids_of sample_tracked = [''I'', ''P1'', ''A'']"
  by (simp_all add: keyed_def ids_of_def sample_tracked_def sample_row_def new_ticket_def)

lemma sample_tracked_rows:
  "get_ticket sample_tracked ''I'' = Some (sample_row ''I'' INITIATIVE None)"
  "get_ticket sample_tracked ''P1'' = Some (sample_row ''P1'' CAPABILITY None)"
  "get_ticket sample_tracked ''A'' = Some (sample_row ''A'' TASK (Some ''P1''))"
  by (simp_all add: get_ticket_def sample_tracked_def sample_row_def new_ticket_def)

lemma sample_tracked_cases:
  assumes "get_ticket sample_tracked i = Some t"
  obtains "i = ''I''" "t = sample_row ''I'' INITIATIVE None"
  | "i = ''P1''" "t = sample_row ''P1'' CAPABILITY None"
  | "i = ''A''" "t = sample_row ''A'' TASK (Some ''P1'')"
proof -
  have "i \<in> set (ids_of sample_tracked)" using assms get_ticket_None_iff [of sample_tracked i] by auto
  then consider "i = ''I''" | "i = ''P1''" | "i = ''A''" unfolding sample_tracked_ids by auto
  then show ?thesis
  proof cases
    case 1 with assms show ?thesis by (intro that(1)) (simp_all add: sample_tracked_rows)
  next
    case 2 with assms show ?thesis by (intro that(2)) (simp_all add: sample_tracked_rows)
  next
    case 3 with assms show ?thesis by (intro that(3)) (simp_all add: sample_tracked_rows)
  qed
qed

lemma sample_row_fields [simp]:
  "tk_id (sample_row i k p) = i" "tk_parent_ticket_id (sample_row i k p) = p"
  "tk_work_item_type (sample_row i k p) = k"
  by (simp_all add: sample_row_def new_ticket_def)

lemma ticket_state_update_frame:
  "tk_id (t\<lparr>tk_state := x\<rparr>) = tk_id t" "tk_parent_ticket_id (t\<lparr>tk_state := x\<rparr>) = tk_parent_ticket_id t"
  "tk_work_item_type (t\<lparr>tk_state := x\<rparr>) = tk_work_item_type t"
  by simp_all

lemma sample_tracked_sound: "acyclic (parents sample_tracked)" "coverage_sound sample_tracked"
proof -
  have "parents sample_tracked \<subseteq> {(''A'', ''P1'')}"
    by (auto simp: parents_iff parent_id_def elim!: sample_tracked_cases)
  moreover have "acyclic {(''A'', ''P1'')}"
    by (rule acyclicI_order [where f = "\<lambda>x. if x = ''A'' then (1::nat) else 0"]) auto
  ultimately show "acyclic (parents sample_tracked)" by (rule acyclic_subset [rotated])
  have m: "bd_members sample_tracked = [(''I'', ''P1'')]" by (simp add: sample_tracked_def)
  show "coverage_sound sample_tracked"
    unfolding coverage_sound_def m by (auto elim!: sample_tracked_cases simp: sample_tracked_rows)
qed

theorem rollup_settles_witness:
  "settled (fst (reconcile_ancestors 9 (put_ticket ((sample_row ''A'' TASK (Some ''P1''))\<lparr>tk_state := TicketState.DONE\<rparr>)
      sample_tracked) ((sample_row ''A'' TASK (Some ''P1''))\<lparr>tk_state := TicketState.DONE\<rparr>))) ''I''"
proof (rule rollup_settles [OF sample_tracked_ids(1) sample_tracked_sound,
      where t = "sample_row ''A'' TASK (Some ''P1'')"])
  show "\<forall>q. settled sample_tracked q"
  proof
    fix q
    have s: "settled sample_tracked ''I''" "settled sample_tracked ''P1''" "settled sample_tracked ''A''"
      by code_simp+
    show "settled sample_tracked q"
    proof (cases "get_ticket sample_tracked q")
      case None
      then show ?thesis by (rule settled_missing)
    next
      case (Some t)
      then show ?thesis by (rule sample_tracked_cases) (simp_all add: s)
    qed
  qed
  show "child_states sample_tracked (tk_id ((sample_row ''A'' TASK (Some ''P1''))\<lparr>tk_state := TicketState.DONE\<rparr>)) = []"
    by code_simp
qed (simp_all only: ticket_state_update_frame sample_row_fields sample_tracked_rows)

section \<open>The sweep settles the board\<close>

lemma depth_walk_shift:
  assumes "set seen' = insert s (set seen)" and "\<And>c. cur = Some c \<Longrightarrow> (c, s) \<notin> (parents b)\<^sup>*"
  shows "depth_walk b loaded seen' (Suc n) cur = Suc (depth_walk b loaded seen n cur)"
  using assms
proof (induction b loaded seen n cur arbitrary: seen' rule: depth_walk.induct)
  case (2 b loaded seen n p)
  from 2(3) have ps: "p \<noteq> s" by auto
  show ?case
  proof (cases "p \<in> set seen")
    case True
    with 2(2) show ?thesis by simp
  next
    case False
    with ps 2(2) have new: "p \<notin> set seen'" by simp
    let ?cur = "if p \<in> set loaded then (case get_ticket b p of None \<Rightarrow> None | Some node \<Rightarrow> parent_id node) else None"
    have "depth_walk b loaded (seen' @ [p]) (Suc (n + 1)) ?cur = Suc (depth_walk b loaded (seen @ [p]) (n + 1) ?cur)"
    proof (rule 2(1) [OF False])
      show "set (seen' @ [p]) = insert s (set (seen @ [p]))" using 2(2) by auto
      fix c assume "?cur = Some c"
      then have "(p, c) \<in> parents b" by (auto simp: parents_iff split: if_splits option.splits)
      with 2(3) [OF refl] show "(c, s) \<notin> (parents b)\<^sup>*" by (blast intro: converse_rtrancl_into_rtrancl)
    qed
    with False new show ?thesis by simp
  qed
qed simp

lemma swept_row: "keyed b \<Longrightarrow> t \<in> set (swept_parents b) \<Longrightarrow> get_ticket b (tk_id t) = Some t"
  by (rule get_ticket_unique) (simp_all add: keyed_def swept_parents_def)

lemma swept_parent:
  assumes "get_ticket b i = Some t" and "parent_id t = Some p" and "get_ticket b p = Some u"
  shows "u \<in> set (swept_parents b)"
proof -
  from get_ticket_Some [OF assms(1)] have t: "t \<in> set (bd_tickets b)" by simp
  from assms(2) have p: "tk_parent_ticket_id t = Some p" "p \<noteq> []"
    by (auto simp: parent_id_def split: option.splits if_splits)
  from t p(1) have "p \<in> set (List.map_filter tk_parent_ticket_id (bd_tickets b))"
    by (force simp: List.map_filter_def)
  with p(2) have "p \<in> set (swept_ids b)" by (simp add: swept_ids_def)
  with get_ticket_Some [OF assms(3)] show ?thesis by (simp add: swept_parents_def)
qed

lemma depth_parent:
  assumes "acyclic (parents b)" and "get_ticket b i = Some t" and "parent_id t = Some p"
    and "get_ticket b p = Some u"
  shows "depth b u < depth b t"
proof -
  let ?L = "map tk_id (swept_parents b)"
  have id: "tk_id t = i" "tk_id u = p" using get_ticket_Some assms(2,4) by auto
  have up: "(i, p) \<in> parents b" using assms(2,3) by (auto simp: parents_iff)
  with assms(1) have ne: "p \<noteq> i" by (auto simp: acyclic_def)
  have "p \<in> set ?L" using swept_parent [OF assms(2-4)] id(2) by force
  with ne id assms(3,4) have "depth b t = depth_walk b ?L [i, p] (Suc 0) (parent_id u)"
    by (simp add: depth_def)
  also have "\<dots> = Suc (depth_walk b ?L [p] 0 (parent_id u))"
  proof (rule depth_walk_shift)
    show "set [i, p] = insert i (set [p])" by simp
    fix c assume "parent_id u = Some c"
    with assms(4) have "(p, c) \<in> parents b" by (auto simp: parents_iff)
    with up have "(i, c) \<in> (parents b)\<^sup>+" by (blast intro: trancl_into_trancl)
    then show "(c, i) \<notin> (parents b)\<^sup>*"
      using assms(1) by (auto simp: acyclic_def dest: trancl_rtrancl_trancl)
  qed
  also have "\<dots> = Suc (depth b u)" using id by (simp add: depth_def)
  finally show ?thesis by simp
qed

text \<open>A list of ids in which every id's parent row comes after it.\<close>

fun parents_later :: "Board \<Rightarrow> string list \<Rightarrow> bool" where
  "parents_later b [] = True"
| "parents_later b (i # is) =
     ((\<forall>p. (i, p) \<in> parents b \<longrightarrow> get_ticket b p \<noteq> None \<longrightarrow> p \<in> set is) \<and> parents_later b is)"

lemma sorted_parents_later:
  assumes "keyed b" and "acyclic (parents b)" and "sorted (map (\<lambda>p. - int (depth b p)) ts)"
    and "\<And>t. t \<in> set ts \<Longrightarrow> get_ticket b (tk_id t) = Some t"
    and "\<And>t p u. t \<in> set ts \<Longrightarrow> parent_id t = Some p \<Longrightarrow> get_ticket b p = Some u \<Longrightarrow> u \<in> set ts"
  shows "parents_later b (map tk_id ts)"
  using assms(3-5)
proof (induction ts)
  case (Cons t ts)
  have less: "depth b u < depth b v" if "v \<in> set (t # ts)" "parent_id v = Some p" "get_ticket b p = Some u" for u v p
    using depth_parent [OF assms(2) Cons.prems(2) [OF that(1)] that(2,3)] .
  have "u \<in> set ts" if "parent_id t = Some p" "get_ticket b p = Some u" for p u
    using Cons.prems(3) [of t p u] less [of t p u] that by auto
  moreover have "parents_later b (map tk_id ts)"
  proof (rule Cons.IH)
    show "sorted (map (\<lambda>p. - int (depth b p)) ts)" using Cons.prems(1) by simp
    show "get_ticket b (tk_id v) = Some v" if "v \<in> set ts" for v using Cons.prems(2) that by simp
    show "u \<in> set ts" if "v \<in> set ts" "parent_id v = Some p" "get_ticket b p = Some u" for v p u
    proof -
      have "depth b v \<le> depth b t" using Cons.prems(1) that(1) by auto
      with less [of v p u] that have "u \<noteq> t" by auto
      with Cons.prems(3) [of v p u] that show ?thesis by simp
    qed
  qed
  moreover have "p \<in> tk_id ` set ts" if pp: "(tk_id t, p) \<in> parents b" "get_ticket b p \<noteq> None" for p
  proof -
    from pp(2) obtain u where u: "get_ticket b p = Some u" by blast
    from pp(1) Cons.prems(2) [of t] have "parent_id t = Some p" by (simp add: parents_iff)
    from calculation(1) [OF this u] get_ticket_Some [OF u] show ?thesis by force
  qed
  ultimately show ?case by simp
qed simp

lemma sweep_settles:
  assumes "sweep now b is = (b', changed)" and "keyed b" and "acyclic (parents b)"
    and "bd_members b = []" and "parents_later b is" and "\<And>q. \<not> settled b q \<Longrightarrow> q \<in> set is"
  shows "settled b' q"
  using assms
proof (induction "is" arbitrary: b b' changed)
  case Nil
  from Nil(6) [of q] have "settled b q" by (cases "settled b q") simp_all
  with Nil(1) show ?case by simp
next
  case (Cons i "is")
  show ?case
  proof (cases "get_ticket b i")
    case None
    show ?thesis
    proof (rule Cons.IH)
      show "sweep now b is = (b', changed)" using Cons.prems(1) None by simp
      show "r \<in> set is" if "\<not> settled b r" for r
        using Cons.prems(6) [OF that] settled_missing [OF None] that by auto
    qed (use Cons.prems in auto)
  next
    case (Some t)
    let ?b = "fst (reconcile_parent now b t)"
    note step = reconcile_step [OF Cons.prems(2) Some, where now = now]
    obtain c where rest: "sweep now ?b is = (b', c)"
      using Cons.prems(1) Some by (auto split: prod.splits)
    have feeds: "tk_parent_ticket_id t = Some r" if "feeds b i r" for r
      using that Some Cons.prems(4) by (auto simp: feeds_def)
    have nofeed: "\<not> feeds b i i"
    proof
      assume "feeds b i i"
      from feeds [OF this] Cons.prems(2) Some have "(i, i) \<in> parents b"
        using get_ticket_None_iff [of b i] by (auto simp: parents_iff parent_id_def keyed_def)
      with Cons.prems(3) show False by (auto simp: acyclic_def)
    qed
    have rows: "get_ticket ?b r = None \<longleftrightarrow> get_ticket b r = None" for r by (simp add: get_ticket_None_iff)
    show ?thesis
    proof (rule Cons.IH [OF rest])
      show "keyed ?b" using Cons.prems(2) same_shape_keyed [OF step(1)] by simp
      show "acyclic (parents ?b)" using Cons.prems(3) same_shape_parents [OF step(1)] by simp
      show "bd_members ?b = []" using Cons.prems(4) same_shape_members [OF step(1)] by simp
      have "parents_later ?b xs = parents_later b xs" for xs
        by (induction xs) (simp_all add: same_shape_parents [OF step(1)] rows)
      with Cons.prems(5) show "parents_later ?b is" by simp
      show "r \<in> set is" if u: "\<not> settled ?b r" for r
      proof (cases "feeds b i r")
        case True
        from u settled_missing have "get_ticket b r \<noteq> None" using rows by blast
        moreover from this feeds [OF True] Cons.prems(2) Some have "(i, r) \<in> parents b"
          using get_ticket_None_iff [of b r] by (auto simp: parents_iff parent_id_def keyed_def)
        ultimately show ?thesis using Cons.prems(5) by auto
      next
        case False
        have "r \<noteq> i" using step(3) [OF nofeed] u by auto
        with step(4) [OF False this] u Cons.prems(6) [of r] show ?thesis by auto
      qed
    qed
  qed
qed

text \<open>C9: one sweep settles the tree. On a board with no initiative members and no cycle of
  parents, whatever the stored states are, after one startup sweep no parent would change:
  every row is visited after all the rows below it.\<close>

theorem sweep_settles_tree:
  assumes "keyed b" and "acyclic (parents b)" and "bd_members b = []"
  shows "settled (fst (reconcile_all_parents now b)) q"
proof -
  let ?ts = "sort_key (\<lambda>p. - int (depth b p)) (swept_parents b)"
  obtain b' changed where sweep: "sweep now b (map tk_id ?ts) = (b', changed)" by fastforce
  have "settled b' q"
  proof (rule sweep_settles [OF sweep assms])
    show "parents_later b (map tk_id ?ts)"
    proof (rule sorted_parents_later [OF assms(1,2)])
      show "get_ticket b (tk_id t) = Some t" if "t \<in> set ?ts" for t
        using swept_row [OF assms(1)] that by simp
      show "u \<in> set ?ts" if "t \<in> set ?ts" "parent_id t = Some p" "get_ticket b p = Some u" for t p u
        using swept_parent [OF swept_row [OF assms(1)] that(2,3)] that(1) by simp
    qed simp
    show "r \<in> set (map tk_id ?ts)" if u: "\<not> settled b r" for r
    proof -
      from u obtain t where t: "get_ticket b r = Some t" using settled_missing by fastforce
      have "child_states b r \<noteq> []"
        using u t get_ticket_Some [OF t] by (auto simp: settled_def reconcile_parent_eq derive_parent_state_def)
      then have "children_of b r \<noteq> []"
        using assms(3) t by (auto simp: child_states_def roots_of_initiative_def split: if_splits)
      then obtain c where c: "c \<in> set (bd_tickets b)" "tk_parent_ticket_id c = Some r"
        by (auto simp: children_of_def filter_empty_conv)
      then have "r \<in> set (List.map_filter tk_parent_ticket_id (bd_tickets b))"
        by (force simp: List.map_filter_def)
      with unsettled_not_Nil [OF assms(1) u] get_ticket_Some [OF t] have "t \<in> set (swept_parents b)"
        by (simp add: swept_parents_def swept_ids_def)
      with get_ticket_Some [OF t] show ?thesis by force
    qed
  qed
  with sweep show ?thesis by (simp add: reconcile_all_parents_def sweep_order_def)
qed

text \<open>A milestone, its feature and a finished bug under it, all parents still in the backlog.\<close>

definition sample_chain :: Board where
  "sample_chain = empty_board\<lparr>bd_tickets :=
     [sample_row ''M'' MILESTONE None, sample_row ''F'' FEATURE (Some ''M''),
      (sample_row ''B'' BUG (Some ''F''))\<lparr>tk_state := TicketState.DONE\<rparr>]\<rparr>"

theorem sweep_settles_tree_witness:
  "settled (fst (reconcile_all_parents 0 sample_chain)) ''M''
   \<and> map tk_state (bd_tickets (fst (reconcile_all_parents 0 sample_chain)))
       = [TicketState.DONE, TicketState.DONE, TicketState.DONE]"
proof
  have ids: "ids_of sample_chain = [''M'', ''F'', ''B'']" by code_simp
  have rows: "map_option parent_id (get_ticket sample_chain ''M'') = Some None"
    "map_option parent_id (get_ticket sample_chain ''F'') = Some (Some ''M'')"
    "map_option parent_id (get_ticket sample_chain ''B'') = Some (Some ''F'')" by code_simp+
  have "parents sample_chain \<subseteq> {(''F'', ''M''), (''B'', ''F'')}"
  proof (rule subrelI)
    fix c p assume cp: "(c, p) \<in> parents sample_chain"
    from parents_source [OF cp] ids have "c = ''M'' \<or> c = ''F'' \<or> c = ''B''" by simp
    moreover from cp have "map_option parent_id (get_ticket sample_chain c) = Some (Some p)"
      by (auto simp: parents_iff)
    ultimately show "(c, p) \<in> {(''F'', ''M''), (''B'', ''F'')}" using rows by auto
  qed
  moreover have "acyclic {(''F'', ''M''), (''B'', ''F'')}"
    by (rule acyclicI_order [where f = "\<lambda>x. if x = ''M'' then 0 else if x = ''F'' then 1 else (2::nat)"]) auto
  ultimately have "acyclic (parents sample_chain)" by (rule acyclic_subset [rotated])
  moreover have "keyed sample_chain" by (simp add: keyed_def ids)
  moreover have "bd_members sample_chain = []" by code_simp
  ultimately show "settled (fst (reconcile_all_parents 0 sample_chain)) ''M''"
    by (intro sweep_settles_tree)
  show "map tk_state (bd_tickets (fst (reconcile_all_parents 0 sample_chain)))
       = [TicketState.DONE, TicketState.DONE, TicketState.DONE]" by code_simp
qed

text \<open>with initiatives the sweep may leave one wrong until the next boot. The depth counts
  parent links only, so an initiative and a milestone it tracks as a member are both at depth
  zero and are visited in table order: here the initiative is judged before the milestone
  whose only feature is done, stays in the backlog, and would change on the next sweep.\<close>

theorem sweep_misses_member:
  "\<exists>b. keyed b \<and> coverage_sound b \<and> bd_members b = [(''I'', ''M'')]
     \<and> map tk_state (bd_tickets (fst (reconcile_all_parents 0 b)))
         = [TicketState.BACKLOG, TicketState.DONE, TicketState.DONE]
     \<and> \<not> settled (fst (reconcile_all_parents 0 b)) ''I''"
proof -
  let ?b = "empty_board\<lparr>bd_tickets :=
     [sample_row ''I'' INITIATIVE None, sample_row ''M'' MILESTONE None,
      (sample_row ''F'' FEATURE (Some ''M''))\<lparr>tk_state := TicketState.DONE\<rparr>],
     bd_members := [(''I'', ''M'')]\<rparr>"
  have rows: "bd_tickets ?b = [sample_row ''I'' INITIATIVE None, sample_row ''M'' MILESTONE None,
      (sample_row ''F'' FEATURE (Some ''M''))\<lparr>tk_state := TicketState.DONE\<rparr>]"
    and members: "bd_members ?b = [(''I'', ''M'')]" by simp_all
  have kinds: "map_option tk_work_item_type (get_ticket ?b ''I'') = Some INITIATIVE"
    "map_option tk_work_item_type (get_ticket ?b ''M'') = Some MILESTONE" by code_simp+
  have top: "tk_parent_ticket_id t = None"
    if "get_ticket ?b i = Some t" "tk_work_item_type t = INITIATIVE" for i t
  proof -
    from get_ticket_Some [OF that(1)] have "t \<in> set (bd_tickets ?b)" by simp
    with that(2) show ?thesis unfolding rows by auto
  qed
  have "ids_of ?b = [''I'', ''M'', ''F'']" by code_simp
  then have "keyed ?b" by (simp only: keyed_def) simp
  moreover have "coverage_sound ?b"
    unfolding coverage_sound_def members
  proof (intro conjI allI impI)
    fix i m t assume im: "(i, m) \<in> set [(''I'', ''M'')]"
    show "tk_work_item_type t = INITIATIVE" if "get_ticket ?b i = Some t"
      using im that kinds(1) by (simp only: set_simps insert_iff empty_iff prod.inject simp_thms option.map option.inject)
    show "tk_work_item_type t \<noteq> INITIATIVE" if "get_ticket ?b m = Some t"
    proof -
      from im that kinds(2) have "tk_work_item_type t = MILESTONE"
        by (simp only: set_simps insert_iff empty_iff prod.inject simp_thms option.map option.inject)
      then show ?thesis by simp
    qed
  qed (rule top)
  moreover have "map tk_state (bd_tickets (fst (reconcile_all_parents 0 ?b)))
         = [TicketState.BACKLOG, TicketState.DONE, TicketState.DONE]" by code_simp
  moreover have "\<not> settled (fst (reconcile_all_parents 0 ?b)) ''I''" by code_simp
  ultimately show ?thesis using members by (intro exI [of _ ?b] conjI)
qed

end
