(* ===== verification/StageReport.thy ===== *)
theory StageReport
  imports Vocabulary
begin

text \<open>
  \<open>services/stage_report.py\<close>: finding the report block an agent prints at the end of a run and
  reading it. \<open>json.loads\<close> on a line and the validations of the four payload models are
  the fields of \<open>Readers\<close>: what the JSON parser and pydantic make of a text, \<open>None\<close> when
  they refuse it. Confidences are rationals.
\<close>

section \<open>The report\<close>

record WaiverItem =
  wv_name :: string
  wv_reason :: string

record StageReport =
  sr_status :: string
  sr_confidence :: rat
  sr_reroute_to_stage :: "string option"
  sr_reroute_context :: string
  sr_reroute_to_agent :: "string option"
  sr_unmet_criteria :: "string list"
  sr_blocked_kind :: "BlockKind option"
  sr_options :: "string list"
  sr_kind_as_written :: string
  sr_waiting_on :: "string list"
  sr_waivers :: "WaiverItem list"

text \<open>The payload models, with \<open>None\<close> for a null.\<close>

record ReportPayload =
  pl_status :: "string option"
  pl_confidence :: "rat option"
  pl_reroute_to_stage :: "string option"
  pl_reroute_context :: "string option"
  pl_reroute_to_agent :: "string option"

record BlockPayload =
  pl_blocked_kind :: "string option"
  pl_options :: "string list option"
  pl_waiting_on :: "string list option"

record Readers =
  rd_json :: "string \<Rightarrow> json option"
  rd_report :: "string \<Rightarrow> ReportPayload option"
  rd_criteria :: "string \<Rightarrow> string list option option"
  rd_waivers :: "string \<Rightarrow> (string \<times> string) option list option option"
  rd_block :: "string \<Rightarrow> BlockPayload option"

definition VALID_STATUSES :: "string list" where
  "VALID_STATUSES = [''pass'', ''fail'', ''needs_rework'', ''blocked'']"

fun block_kind_value :: "BlockKind \<Rightarrow> string" where
  "block_kind_value HARNESS = ''harness''"
| "block_kind_value WORK = ''work''"
| "block_kind_value DECISION = ''decision''"
| "block_kind_value HUMAN_ACTION = ''human_action''"
| "block_kind_value TICKETS = ''tickets''"
| "block_kind_value CONFLICT = ''conflict''"

definition block_kind_of :: "string \<Rightarrow> BlockKind option" where
  "block_kind_of value =
     find (\<lambda>kind. block_kind_value kind = value) [HARNESS, WORK, DECISION, HUMAN_ACTION, TICKETS, CONFLICT]"

section \<open>The sentinel block\<close>

definition SENTINEL :: string where
  "SENTINEL = ''<<<LOREGARDEN_STAGE_REPORT>>>''"

definition CLOSERS :: "string list" where
  "CLOSERS = [''<<<END_LOREGARDEN_STAGE_REPORT>>>'', ''<<<END_STAGE_REPORT>>>'']"

definition without_prefix :: "string \<Rightarrow> string \<Rightarrow> string option" where
  "without_prefix p s = (if starts_with s p then Some (drop (length p) s) else None)"

text \<open>\<open>\s*<<<END_(?:LOREGARDEN_)?STAGE_REPORT>>>\<close> at the front of a text: what follows it.\<close>

definition after_closer :: "string \<Rightarrow> string option" where
  "after_closer s =
     (case without_prefix (CLOSERS ! 0) (lstrip s) of
        Some rest \<Rightarrow> Some rest
      | None \<Rightarrow> without_prefix (CLOSERS ! 1) (lstrip s))"

text \<open>\<open>.*?\}\<close> up to the first brace that a closer follows.\<close>

fun body_until_closer :: "string \<Rightarrow> (string \<times> string) option" where
  "body_until_closer [] = None"
| "body_until_closer (c # s) =
     (case (if c = CHR ''}'' then after_closer s else None) of
        Some rest \<Rightarrow> Some ([c], rest)
      | None \<Rightarrow> map_option (\<lambda>(body, rest). (c # body, rest)) (body_until_closer s))"

definition sentinel_at :: "string \<Rightarrow> (string \<times> string) option" where
  "sentinel_at s =
     (case without_prefix SENTINEL s of
        None \<Rightarrow> None
      | Some r \<Rightarrow>
          (case lstrip r of
             [] \<Rightarrow> None
           | c # r \<Rightarrow>
               if c = CHR ''{''
               then map_option (\<lambda>(body, rest). (c # body, rest)) (body_until_closer r)
               else None))"

lemma without_prefix_length: "without_prefix p s = Some rest \<Longrightarrow> length s = length p + length rest"
  by (auto simp: without_prefix_def starts_with_iff split: if_splits)

lemma lstrip_length: "length (lstrip s) \<le> length s"
  by (simp add: lstrip_def length_dropWhile_le)

lemma after_closer_length: "after_closer s = Some rest \<Longrightarrow> length rest < length s"
  using lstrip_length [of s]
  by (auto simp: after_closer_def CLOSERS_def split: option.splits dest!: without_prefix_length)

lemma body_until_closer_length: "body_until_closer s = Some (body, rest) \<Longrightarrow> length rest < length s"
  by (induction s arbitrary: body)
    (fastforce split: option.splits if_splits dest: after_closer_length)+

lemma sentinel_at_length:
  assumes "sentinel_at s = Some (body, rest)"
  shows "length rest < length s"
proof -
  from assms obtain r c r' body' where r: "without_prefix SENTINEL s = Some r" "lstrip r = c # r'"
      "body_until_closer r' = Some (body', rest)"
    by (auto simp: sentinel_at_def split: option.splits list.splits if_splits)
  then show ?thesis
    using without_prefix_length [OF r(1)] lstrip_length [of r] body_until_closer_length [OF r(3)] by simp
qed

text \<open>\<open>_SENTINEL_RE.findall\<close>: the blocks from left to right, not overlapping.\<close>

function sentinel_blocks :: "string \<Rightarrow> string list" where
  "sentinel_blocks [] = []"
| "sentinel_blocks (c # s) =
     (case sentinel_at (c # s) of
        Some (body, rest) \<Rightarrow> body # sentinel_blocks rest
      | None \<Rightarrow> sentinel_blocks s)"
  by pat_completeness auto
termination by (relation "measure length") (auto dest: sentinel_at_length)

section \<open>Where a block can be\<close>

definition is_line_break :: "char \<Rightarrow> bool" where
  "is_line_break c = (let n = code_point c in (10 \<le> n \<and> n \<le> 13) \<or> (28 \<le> n \<and> n \<le> 30) \<or> n = 133)"

text \<open>\<open>str.splitlines\<close>; a carriage return and the line feed after it are one break.\<close>

fun lines_from :: "string \<Rightarrow> string \<Rightarrow> string list" where
  "lines_from line [] = (if line = [] then [] else [rev line])"
| "lines_from line [c] = (if is_line_break c then [rev line] else [rev (c # line)])"
| "lines_from line (c # d # s) =
     (if \<not> is_line_break c then lines_from (c # line) (d # s)
      else if code_point c = 13 \<and> code_point d = 10 then rev line # lines_from [] s
      else rev line # lines_from [] (d # s))"

definition splitlines :: "string \<Rightarrow> string list" where
  "splitlines s = lines_from [] s"

fun embedded_strings :: "json \<Rightarrow> string list" where
  "embedded_strings (JStr s) = (if contains s SENTINEL then [s] else [])"
| "embedded_strings (JObj kvs) = concat (map (\<lambda>(k, v). embedded_strings v) kvs)"
| "embedded_strings (JList xs) = concat (map embedded_strings xs)"
| "embedded_strings _ = []"

definition candidate_texts :: "Readers \<Rightarrow> string \<Rightarrow> string list" where
  "candidate_texts rd stdout =
     stdout # concat (map (\<lambda>line.
       let line = strip line in
       if \<not> starts_with line ''{'' \<or> \<not> contains line SENTINEL then []
       else (case rd_json rd line of None \<Rightarrow> [] | Some data \<Rightarrow> embedded_strings data)) (splitlines stdout))"

section \<open>Reading a block\<close>

definition stripped_items :: "string list option \<Rightarrow> string list" where
  "stripped_items items = filter (\<lambda>item. item \<noteq> []) (map strip (case items of None \<Rightarrow> [] | Some xs \<Rightarrow> xs))"

definition criteria_of :: "Readers \<Rightarrow> string \<Rightarrow> string list" where
  "criteria_of rd payload =
     (case rd_criteria rd payload of None \<Rightarrow> [] | Some items \<Rightarrow> stripped_items items)"

definition waivers_of :: "Readers \<Rightarrow> string \<Rightarrow> WaiverItem list" where
  "waivers_of rd payload =
     (case rd_waivers rd payload of
        None \<Rightarrow> []
      | Some raws \<Rightarrow>
          concat (map (\<lambda>raw. case raw of
              None \<Rightarrow> []
            | Some (name, reason) \<Rightarrow>
                (let name = strip name; reason = strip reason in
                 if name \<noteq> [] \<and> reason \<noteq> [] then [\<lparr>wv_name = name, wv_reason = reason\<rparr>] else []))
            (case raws of None \<Rightarrow> [] | Some xs \<Rightarrow> xs)))"

record BlockFields =
  bf_kind :: "BlockKind option"
  bf_options :: "string list"
  bf_kind_as_written :: string
  bf_waiting_on :: "string list"

definition block_fields_of :: "Readers \<Rightarrow> string \<Rightarrow> BlockFields" where
  "block_fields_of rd payload =
     (case rd_block rd payload of
        None \<Rightarrow> \<lparr>bf_kind = None, bf_options = [], bf_kind_as_written = [], bf_waiting_on = []\<rparr>
      | Some parsed \<Rightarrow>
          (let waiting_on = stripped_items (pl_waiting_on parsed);
               written = (case pl_blocked_kind parsed of None \<Rightarrow> [] | Some w \<Rightarrow> w);
               (kind, unknown) =
                 (if written = [] then (None, [])
                  else
                    (let (kind, unknown) =
                       (case block_kind_of (lower (strip written)) of
                          Some kind \<Rightarrow> (Some kind, [])
                        | None \<Rightarrow> (None, strip written))
                     in if kind = Some TICKETS \<and> waiting_on = [] then (None, strip written)
                        else (kind, unknown)))
           in \<lparr>bf_kind = kind, bf_options = stripped_items (pl_options parsed),
               bf_kind_as_written = unknown,
               bf_waiting_on = (if kind = Some TICKETS then waiting_on else [])\<rparr>))"

definition or_none :: "string option \<Rightarrow> string option" where
  "or_none v = (case v of None \<Rightarrow> None | Some s \<Rightarrow> if s = [] then None else Some s)"

definition or_empty :: "string option \<Rightarrow> string" where
  "or_empty v = (case v of None \<Rightarrow> [] | Some s \<Rightarrow> s)"

definition build_report :: "Readers \<Rightarrow> string \<Rightarrow> StageReport option" where
  "build_report rd payload =
     (case rd_report rd payload of
        None \<Rightarrow> None
      | Some parsed \<Rightarrow>
          (case pl_status parsed of
             None \<Rightarrow> None
           | Some status \<Rightarrow>
               if status \<notin> set VALID_STATUSES then None
               else
                 (let block = block_fields_of rd payload in
                  Some \<lparr>sr_status = status,
                    sr_confidence = max 0 (min 1 (case pl_confidence parsed of None \<Rightarrow> 0 | Some c \<Rightarrow> c)),
                    sr_reroute_to_stage = or_none (pl_reroute_to_stage parsed),
                    sr_reroute_context = or_empty (pl_reroute_context parsed),
                    sr_reroute_to_agent = or_none (Some (strip (or_empty (pl_reroute_to_agent parsed)))),
                    sr_unmet_criteria = criteria_of rd payload,
                    sr_blocked_kind = bf_kind block, sr_options = bf_options block,
                    sr_kind_as_written = bf_kind_as_written block, sr_waiting_on = bf_waiting_on block,
                    sr_waivers = waivers_of rd payload\<rparr>)))"

fun first_report :: "Readers \<Rightarrow> string list \<Rightarrow> StageReport option" where
  "first_report rd [] = None"
| "first_report rd (candidate # rest) =
     (case build_report rd candidate of Some report \<Rightarrow> Some report | None \<Rightarrow> first_report rd rest)"

definition parse_stage_report :: "Readers \<Rightarrow> string \<Rightarrow> StageReport option" where
  "parse_stage_report rd stdout =
     (if stdout = [] \<or> \<not> contains stdout SENTINEL then None
      else first_report rd (rev (concat (map sentinel_blocks (candidate_texts rd stdout)))))"

section \<open>Facts\<close>

lemma without_prefix_append [simp]: "without_prefix p (p @ s) = Some s"
  by (simp add: without_prefix_def starts_with_iff)

lemma without_prefix_Some: "without_prefix p s = Some rest \<longleftrightarrow> s = p @ rest"
  by (auto simp: without_prefix_def starts_with_iff)

lemma lstrip_gap [simp]: "list_all is_space gap \<Longrightarrow> lstrip (gap @ s) = lstrip s"
  by (simp add: lstrip_def list_all_iff dropWhile_append2)

lemma not_space_angle [simp]: "\<not> is_space CHR ''<''" "\<not> is_space CHR ''{''" "\<not> is_space CHR ''}''"
  by code_simp+

lemma lstrip_Cons [simp]: "\<not> is_space c \<Longrightarrow> lstrip (c # s) = c # s"
  by (simp add: lstrip_def)

lemma CLOSERS_nth: "CLOSERS ! 0 = ''<<<END_LOREGARDEN_STAGE_REPORT>>>''" "CLOSERS ! 1 = ''<<<END_STAGE_REPORT>>>''"
  by (simp_all add: CLOSERS_def)

lemma after_closer_closes:
  assumes "closer \<in> set CLOSERS" and "list_all is_space gap"
  shows "after_closer (gap @ closer @ post) = Some post"
proof -
  have "lstrip (closer @ post) = closer @ post" using assms(1) by (auto simp: CLOSERS_def)
  with assms show ?thesis
    by (auto simp: after_closer_def CLOSERS_def without_prefix_def)
qed

lemma after_closer_Some:
  "after_closer s = Some rest \<Longrightarrow> \<exists>gap closer. list_all is_space gap \<and> closer \<in> set CLOSERS \<and> s = gap @ closer @ rest"
proof -
  assume a: "after_closer s = Some rest"
  then obtain closer where "closer \<in> set CLOSERS" "lstrip s = closer @ rest"
    by (auto simp: after_closer_def CLOSERS_def without_prefix_Some split: option.splits)
  moreover have "s = takeWhile is_space s @ lstrip s" by (simp add: lstrip_def)
  moreover have "list_all is_space (takeWhile is_space s)" by (auto simp: list_all_iff dest: set_takeWhileD)
  ultimately show ?thesis by metis
qed

text \<open>A payload ends the first body whose closing brace a closer follows.\<close>

lemma no_closer_inside:
  assumes "\<And>closer. closer \<in> set CLOSERS \<Longrightarrow> \<not> contains (x @ [CHR ''}'']) closer"
  shows "after_closer (x @ [CHR ''}''] @ y) = None"
proof (rule ccontr)
  assume "after_closer (x @ [CHR ''}''] @ y) \<noteq> None"
  then obtain gap closer rest where g: "list_all is_space gap" "closer \<in> set CLOSERS"
      "x @ CHR ''}'' # y = gap @ closer @ rest"
    by (auto dest: after_closer_Some)
  have "CHR ''}'' \<notin> set gap"
    using g(1) not_space_angle(3) by (metis list_all_iff)
  moreover have "CHR ''}'' \<notin> set closer"
    using g(2) by (auto simp only: CLOSERS_def set_simps insert_iff empty_iff)
  ultimately have brace: "CHR ''}'' \<notin> set (gap @ closer)" by simp
  have "(x @ [CHR ''}'']) @ y = (gap @ closer) @ rest" using g(3) by simp
  then have "\<exists>u. x @ [CHR ''}''] = (gap @ closer) @ u"
  proof (subst (asm) append_eq_append_conv2, elim exE disjE conjE)
    fix us assume "(x @ [CHR ''}'']) @ us = gap @ closer"
    then have "CHR ''}'' \<in> set (gap @ closer)" by (metis append.assoc append_Cons in_set_conv_decomp)
    with brace show ?thesis by blast
  qed blast
  then have "contains (x @ [CHR ''}'']) closer" by (auto simp: contains_iff)
  with assms g(2) show False by blast
qed

lemma body_exact:
  assumes "closer \<in> set CLOSERS" and "list_all is_space gap"
    and "\<And>c. c \<in> set CLOSERS \<Longrightarrow> \<not> contains (b @ [CHR ''}'']) c"
  shows "body_until_closer (b @ CHR ''}'' # gap @ closer @ post) = Some (b @ [CHR ''}''], post)"
  using assms(3)
proof (induction b)
  case Nil
  show ?case using after_closer_closes [OF assms(1,2)] by simp
next
  case (Cons c b)
  have inner: "\<not> contains (b @ [CHR ''}'']) d" if "d \<in> set CLOSERS" for d
    using Cons.prems [OF that] by simp
  have "after_closer (b @ [CHR ''}''] @ gap @ closer @ post) = None"
    by (rule no_closer_inside) (rule inner)
  then show ?case using Cons.IH [OF inner] by simp
qed

definition is_payload :: "string \<Rightarrow> bool" where
  "is_payload p \<longleftrightarrow> (\<exists>b. p = CHR ''{'' # b @ [CHR ''}''])
     \<and> (\<forall>closer \<in> set CLOSERS. \<not> contains p closer)"

lemma sentinel_at_block:
  assumes "is_payload p" and "closer \<in> set CLOSERS" and "list_all is_space gap" "list_all is_space gap'"
  shows "sentinel_at (SENTINEL @ gap @ p @ gap' @ closer @ post) = Some (p, post)"
proof -
  from assms(1) obtain b where p: "p = CHR ''{'' # b @ [CHR ''}'']"
    and none: "\<And>c. c \<in> set CLOSERS \<Longrightarrow> \<not> contains p c"
    by (auto simp: is_payload_def)
  have "\<not> contains (b @ [CHR ''}'']) c" if "c \<in> set CLOSERS" for c
    using none [OF that] by (simp add: p)
  from body_exact [OF assms(2,4) this, of post] show ?thesis
    using assms(3) by (simp add: sentinel_at_def p)
qed

lemma sentinel_blocks_skip:
  assumes "\<And>u v. pre = u @ v \<Longrightarrow> v \<noteq> [] \<Longrightarrow> sentinel_at (v @ s) = None"
  shows "sentinel_blocks (pre @ s) = sentinel_blocks s"
  using assms
proof (induction pre)
  case (Cons c pre)
  have "sentinel_at ((c # pre) @ s) = None" by (rule Cons.prems [of "[]"]) simp_all
  moreover have "sentinel_blocks (pre @ s) = sentinel_blocks s"
    by (rule Cons.IH) (rule Cons.prems [of "c # _"], simp_all)
  ultimately show ?case by simp
qed simp

lemma sentinel_blocks_none: "\<not> contains s SENTINEL \<Longrightarrow> sentinel_blocks s = []"
proof (induction s)
  case (Cons c s)
  have "sentinel_at (c # s) = None"
    using Cons.prems by (auto simp: sentinel_at_def without_prefix_def)
  with Cons show ?case by simp
qed simp

lemma sentinel_at_starts: "sentinel_at s \<noteq> None \<Longrightarrow> starts_with s SENTINEL"
  by (auto simp: sentinel_at_def without_prefix_def split: option.splits if_splits)

lemma no_earlier_sentinel:
  assumes "\<not> contains (pre @ butlast SENTINEL) SENTINEL" and "pre = u @ v" "v \<noteq> []"
  shows "sentinel_at (v @ SENTINEL @ t) = None"
proof (rule ccontr)
  assume "sentinel_at (v @ SENTINEL @ t) \<noteq> None"
  then obtain r where r: "v @ SENTINEL @ t = SENTINEL @ r"
    using sentinel_at_starts by (fastforce simp: starts_with_iff)
  define n where "n = length SENTINEL"
  have S: "SENTINEL = butlast SENTINEL @ [last SENTINEL]" and n: "length (butlast SENTINEL) = n - 1" "0 < n"
    by (simp_all add: n_def SENTINEL_def)
  have "n \<le> length (v @ butlast SENTINEL)" using n assms(3) by (cases v) simp_all
  then have "take n (v @ butlast SENTINEL) = take n ((v @ butlast SENTINEL) @ [last SENTINEL] @ t)"
    by (simp only: take_append diff_is_0_eq [THEN iffD2] take_0 append_Nil2)
  also have "\<dots> = take n (v @ SENTINEL @ t)" by (subst S) simp
  also have "\<dots> = SENTINEL" by (simp add: r n_def)
  finally have "v @ butlast SENTINEL = SENTINEL @ drop n (v @ butlast SENTINEL)"
    by (metis append_take_drop_id)
  then have "contains (pre @ butlast SENTINEL) SENTINEL"
    unfolding contains_iff assms(2) by (metis append.assoc)
  with assms(1) show False by blast
qed

definition no_json_report :: "Readers \<Rightarrow> string \<Rightarrow> bool" where
  "no_json_report rd stdout \<longleftrightarrow> (\<forall>line \<in> set (splitlines stdout).
     starts_with (strip line) ''{'' \<and> contains (strip line) SENTINEL \<longrightarrow> rd_json rd (strip line) = None)"

lemma candidate_texts_plain:
  "no_json_report rd stdout \<Longrightarrow> candidate_texts rd stdout = [stdout]"
  by (auto simp: candidate_texts_def no_json_report_def Let_def split: option.splits)

lemma build_report_sound:
  assumes "build_report rd p = Some report"
  shows "sr_status report \<in> set VALID_STATUSES"
    and "0 \<le> sr_confidence report" "sr_confidence report \<le> 1"
    and "sr_reroute_to_stage report \<noteq> Some []" "sr_reroute_to_agent report \<noteq> Some []"
  using assms
  by (auto simp: build_report_def or_none_def Let_def split: option.splits if_splits)

lemma first_report_Some: "first_report rd ps = Some report \<Longrightarrow> \<exists>p \<in> set ps. build_report rd p = Some report"
  by (induction ps) (auto split: option.splits)

lemma stripped_items_nonempty: "[] \<notin> set (stripped_items items)"
  by (simp add: stripped_items_def)

lemma block_fields_tickets:
  "sr_blocked_kind report = Some TICKETS \<longleftrightarrow> sr_waiting_on report \<noteq> []" if "build_report rd p = Some report"
  using that
  by (auto simp: build_report_def block_fields_of_def Let_def split: option.splits if_splits)

section \<open>Properties\<close>


definition sample_readers :: Readers where
  "sample_readers = \<lparr>rd_json = \<lambda>_. None,
     rd_report = \<lambda>p. if p = ''{}'' then Some \<lparr>pl_status = Some ''blocked'', pl_confidence = Some 2,
       pl_reroute_to_stage = Some [], pl_reroute_context = None, pl_reroute_to_agent = None\<rparr> else None,
     rd_criteria = \<lambda>_. None, rd_waivers = \<lambda>_. None,
     rd_block = \<lambda>_. Some \<lparr>pl_blocked_kind = Some ''Tickets '', pl_options = None,
       pl_waiting_on = Some [''lg-1'', '' '']\<rparr>\<rparr>"

definition sample_transcript :: string where
  "sample_transcript = ''done '' @ SENTINEL @ '' '' @ ''{}'' @ [] @ CLOSERS ! 0 @ ''.''"


text \<open>C35: Whatever an agent prints, a report that is read is well formed: its status is one of the
  four, its confidence lies between 0 and 1, it never reroutes to a stage or an agent with an
  empty name, no criterion, option or awaited ticket is blank, every waiver has a name and a
  reason, and it waits for tickets exactly when it names some.\<close>

theorem parsed_report_sound:
  assumes "parse_stage_report rd stdout = Some report"
  shows "sr_status report \<in> set VALID_STATUSES
    \<and> 0 \<le> sr_confidence report \<and> sr_confidence report \<le> 1
    \<and> sr_reroute_to_stage report \<noteq> Some [] \<and> sr_reroute_to_agent report \<noteq> Some []
    \<and> [] \<notin> set (sr_unmet_criteria report) \<and> [] \<notin> set (sr_options report)
    \<and> [] \<notin> set (sr_waiting_on report)
    \<and> list_all (\<lambda>w. wv_name w \<noteq> [] \<and> wv_reason w \<noteq> []) (sr_waivers report)
    \<and> (sr_blocked_kind report = Some TICKETS \<longleftrightarrow> sr_waiting_on report \<noteq> [])"
proof -
  from assms obtain p where p: "build_report rd p = Some report"
    by (auto simp: parse_stage_report_def split: if_splits dest: first_report_Some)
  have waivers: "list_all (\<lambda>w. wv_name w \<noteq> [] \<and> wv_reason w \<noteq> []) (waivers_of rd p)"
    by (auto simp: waivers_of_def list_all_iff Let_def split: option.splits if_splits)
  have "[] \<notin> set (criteria_of rd p)"
    by (simp add: criteria_of_def stripped_items_nonempty split: option.split)
  moreover have "[] \<notin> set (bf_options (block_fields_of rd p))" "[] \<notin> set (bf_waiting_on (block_fields_of rd p))"
    by (auto simp: block_fields_of_def stripped_items_nonempty Let_def split: option.splits prod.splits)
  ultimately show ?thesis
    using build_report_sound [OF p] block_fields_tickets [OF p] p waivers
    by (auto simp: build_report_def Let_def split: option.splits if_splits)
qed

theorem parsed_report_sound_witness:
  "case parse_stage_report sample_readers sample_transcript of
     None \<Rightarrow> False
   | Some report \<Rightarrow> sr_status report \<in> set VALID_STATUSES \<and> sr_blocked_kind report = Some TICKETS
       \<and> sr_waiting_on report = [''lg-1'']"
proof -
  have "parse_stage_report sample_readers sample_transcript = build_report sample_readers ''{}''"
    by code_simp
  moreover have "build_report sample_readers ''{}'' = Some \<lparr>sr_status = ''blocked'', sr_confidence = 1,
      sr_reroute_to_stage = None, sr_reroute_context = [], sr_reroute_to_agent = None,
      sr_unmet_criteria = [], sr_blocked_kind = Some TICKETS, sr_options = [], sr_kind_as_written = [],
      sr_waiting_on = [''lg-1''], sr_waivers = []\<rparr>"
    by code_simp
  ultimately have r: "parse_stage_report sample_readers sample_transcript = Some \<lparr>sr_status = ''blocked'',
      sr_confidence = 1, sr_reroute_to_stage = None, sr_reroute_context = [], sr_reroute_to_agent = None,
      sr_unmet_criteria = [], sr_blocked_kind = Some TICKETS, sr_options = [], sr_kind_as_written = [],
      sr_waiting_on = [''lg-1''], sr_waivers = []\<rparr>" by simp
  from parsed_report_sound [OF r] show ?thesis by (simp add: r)
qed

text \<open>The enum's comment says that waiting for tickets is never a stage report's word; a report
  that names the tickets is read as exactly that.\<close>

theorem report_waits_for_tickets:
  "\<exists>rd stdout report. parse_stage_report rd stdout = Some report
     \<and> sr_status report = ''blocked'' \<and> sr_blocked_kind report = Some TICKETS"
proof -
  have "map_option (\<lambda>r. (sr_status r, sr_blocked_kind r)) (parse_stage_report sample_readers sample_transcript)
      = Some (''blocked'', Some TICKETS)"
    by code_simp
  then show ?thesis by (auto simp: map_option_eq_Some)
qed

end
