(* ===== verification/RunLease.thy ===== *)
theory RunLease
  imports Vocabulary
begin

text \<open>
  \<open>services/run_lease.py\<close>: when a row that says \<open>RUNNING\<close> counts as evidence that something
  runs. Times are microseconds since the epoch. What the code asks of the operating system
  is the record \<open>Machine\<close>: the clock, whether a pid is alive, and whether a run's recorded
  agent process is verifiably still the same one (\<open>liveness(...) is ALIVE\<close>).
\<close>

datatype RunStatus = QUEUED | RUNNING | AWAITING_PERMISSION | SUCCEEDED | FAILED | CANCELLED

text \<open>The columns of a run that the liveness rules, the queue and the retry budget read.\<close>

record AgentRun =
  rn_id :: string
  rn_ticket_id :: "string option"
  rn_stage_key :: string
  rn_status :: RunStatus
  rn_external_harness :: "string option"
  rn_handoff_pid :: "int option"
  rn_agent_pid :: "int option"
  rn_last_seen_at :: "int option"
  rn_started_at :: "int option"
  rn_created_at :: "int option"
  rn_orchestration_run_id :: "string option"
  rn_finished_at :: "int option"
  rn_stderr :: string
  rn_workspace_id :: "string option"
  rn_agent_id :: string
  rn_agent_version :: "int option"
  rn_skill_name :: string
  rn_auto_approve :: bool
  rn_timeout_override_seconds :: "int option"
  rn_dispatch_waiver_approval_id :: string

record Machine =
  mc_now :: int
  mc_pid_alive :: "int \<Rightarrow> bool"
  mc_agent_alive :: "AgentRun \<Rightarrow> bool"

definition microseconds :: "int \<Rightarrow> int" where
  "microseconds seconds = seconds * 1000000"

definition AGENT_RUN_LEASE :: int where
  "AGENT_RUN_LEASE = microseconds (10 * 60)"

definition IN_FLIGHT :: "RunStatus list" where
  "IN_FLIGHT = [QUEUED, RUNNING, AWAITING_PERMISSION]"

definition SUPERVISED :: "RunStatus list" where
  "SUPERVISED = [RUNNING, AWAITING_PERMISSION]"

definition run_has_renewer :: "AgentRun \<Rightarrow> bool" where
  "run_has_renewer run \<longleftrightarrow> rn_external_harness run = None"

text \<open>\<open>run.last_seen_at or run.started_at or run.created_at\<close>.\<close>

definition run_stamp :: "AgentRun \<Rightarrow> int option" where
  "run_stamp run =
     (if rn_last_seen_at run \<noteq> None then rn_last_seen_at run
      else if rn_started_at run \<noteq> None then rn_started_at run
      else rn_created_at run)"

definition agent_run_lease_expired :: "Machine \<Rightarrow> AgentRun \<Rightarrow> int \<Rightarrow> bool" where
  "agent_run_lease_expired m run lease =
     (if rn_status run \<notin> set SUPERVISED then False
      else (case rn_handoff_pid run of
              Some pid \<Rightarrow> \<not> mc_pid_alive m pid
            | None \<Rightarrow>
                if mc_agent_alive m run then False
                else if \<not> run_has_renewer run then False
                else (case run_stamp run of
                        None \<Rightarrow> False
                      | Some stamp \<Rightarrow> mc_now m - stamp > lease)))"

definition run_is_locally_supervised :: "Machine \<Rightarrow> AgentRun \<Rightarrow> bool" where
  "run_is_locally_supervised m run \<longleftrightarrow>
     run_has_renewer run
     \<or> (case rn_handoff_pid run of None \<Rightarrow> False | Some pid \<Rightarrow> mc_pid_alive m pid)"

text \<open>One beat of the renewal thread, over the table of runs.\<close>

definition renew_agent_run_lease :: "Machine \<Rightarrow> AgentRun list \<Rightarrow> string \<Rightarrow> AgentRun list" where
  "renew_agent_run_lease m runs run_id =
     map (\<lambda>run. if rn_id run = run_id \<and> rn_status run \<in> set IN_FLIGHT
                then run\<lparr>rn_last_seen_at := Some (mc_now m)\<rparr> else run) runs"

definition ensure_still_in_flight :: "AgentRun list \<Rightarrow> string \<Rightarrow> unit result" where
  "ensure_still_in_flight runs run_id =
     (case find (\<lambda>run. rn_id run = run_id) runs of
        Some run \<Rightarrow> if rn_status run \<in> set IN_FLIGHT then Inr () else Inl (RuntimeError run_id)
      | None \<Rightarrow> Inl (RuntimeError run_id))"

section \<open>Facts\<close>

lemma lease_expired_supervised: "agent_run_lease_expired m run lease \<Longrightarrow> rn_status run \<in> set SUPERVISED"
  by (simp add: agent_run_lease_expired_def split: if_splits)

lemma lease_expired_renewer:
  "agent_run_lease_expired m run lease \<Longrightarrow> rn_handoff_pid run = None \<Longrightarrow> run_has_renewer run"
  by (simp add: agent_run_lease_expired_def split: if_splits)

text \<open>A run renewed less than a lease ago is not expired.\<close>

lemma renewed_not_expired:
  assumes "run \<in> set (renew_agent_run_lease m runs i)" and "rn_id run = i" and "rn_handoff_pid run = None"
    and "mc_now m' - mc_now m \<le> lease"
  shows "\<not> agent_run_lease_expired m' run lease"
proof -
  from assms(1) obtain r where
    run: "run = (if rn_id r = i \<and> rn_status r \<in> set IN_FLIGHT then r\<lparr>rn_last_seen_at := Some (mc_now m)\<rparr> else r)"
    unfolding renew_agent_run_lease_def set_map by (rule imageE)
  show ?thesis
  proof (cases "rn_id r = i \<and> rn_status r \<in> set IN_FLIGHT")
    case True
    with run have "rn_last_seen_at run = Some (mc_now m)" by simp
    then have "run_stamp run = Some (mc_now m)" by (simp add: run_stamp_def)
    with assms(3,4) show ?thesis by (simp add: agent_run_lease_expired_def)
  next
    case False
    with run have r: "run = r" by simp
    with False assms(2) have "rn_status run \<notin> set IN_FLIGHT" by blast
    then have "rn_status run \<notin> set SUPERVISED" by (simp add: IN_FLIGHT_def SUPERVISED_def)
    then show ?thesis by (simp add: agent_run_lease_expired_def)
  qed
qed

end
