(* ===== verification/RetryBudget.thy ===== *)
theory RetryBudget
  imports RunLease TicketStates
begin

text \<open>
  \<open>services/stage_retry_budget.py\<close> and the part of \<open>services/orchestration.py\<close> that resets
  its counter: the circuit breaker that stops a stage from being dispatched forever. All its
  state is rows of the table \<open>artifacts\<close>, scoped to a ticket and a stage by kind and title.
\<close>

section \<open>The ledger\<close>

record Artifact =
  ar_id :: string
  ar_ticket_id :: string
  ar_kind :: string
  ar_title :: string
  ar_content :: json_text
  ar_created_at :: int

record StageFanoutGroup =
  fg_ticket_id :: string
  fg_stage_key :: string
  fg_pending :: bool

record Ledger =
  lg_artifacts :: "Artifact list"
  lg_runs :: "AgentRun list"
  lg_fanouts :: "StageFanoutGroup list"

record RetryBudgetConfig =
  rb_enabled :: bool
  rb_max_attempts_per_stage :: int
  rb_max_transient_retries :: int

definition default_budget :: RetryBudgetConfig where
  "default_budget = \<lparr>rb_enabled = True, rb_max_attempts_per_stage = 12, rb_max_transient_retries = 5\<rparr>"

definition DISPATCH_KIND :: string where "DISPATCH_KIND = ''stage_dispatch''"
definition DISPATCH_OVERRIDE_KIND :: string where "DISPATCH_OVERRIDE_KIND = ''stage_dispatch_override''"
definition DISPATCH_REROUTE_KIND :: string where "DISPATCH_REROUTE_KIND = ''stage_dispatch_reroute''"
definition RETRY_BLOCK_KIND :: string where "RETRY_BLOCK_KIND = ''stage_retry_block''"

datatype DispatchSurface = HTTP | MCP | QUEUE | FANOUT

fun dispatch_surface_value :: "DispatchSurface \<Rightarrow> string" where
  "dispatch_surface_value HTTP = ''http''"
| "dispatch_surface_value MCP = ''mcp''"
| "dispatch_surface_value QUEUE = ''queue''"
| "dispatch_surface_value FANOUT = ''fanout''"

record DispatchOrigin =
  do_surface :: DispatchSurface
  do_orchestration_run_id :: string
  do_agent_id :: string

record StageBudgetState =
  bs_exempt :: bool
  bs_attempts :: int
  bs_at_budget :: bool

record StageDispatchDecision =
  dd_counts :: bool
  dd_forced :: bool
  dd_exempt_reroute :: bool

definition NO_RENEWER_DISPATCH_CEILING :: int where
  "NO_RENEWER_DISPATCH_CEILING = microseconds (6 * 60 * 60)"

definition stage_dispatch_artifact_title :: "string \<Rightarrow> string" where
  "stage_dispatch_artifact_title stage_key = ''stage-dispatch:'' @ stage_key"

definition override_title :: "string \<Rightarrow> string" where
  "override_title stage_key = ''stage-dispatch-override:'' @ stage_key"

definition reroute_title :: "string \<Rightarrow> string" where
  "reroute_title stage_key = ''stage-dispatch-reroute:'' @ stage_key"

definition block_title :: "string \<Rightarrow> string" where
  "block_title stage_key = ''stage-retry-block:'' @ stage_key"

section \<open>Markers\<close>

definition is_marker :: "string \<Rightarrow> string \<Rightarrow> string \<Rightarrow> Artifact \<Rightarrow> bool" where
  "is_marker ticket_id kind title row \<longleftrightarrow>
     ar_ticket_id row = ticket_id \<and> ar_kind row = kind \<and> ar_title row = title"

definition markers :: "Ledger \<Rightarrow> string \<Rightarrow> string \<Rightarrow> string \<Rightarrow> Artifact list" where
  "markers L ticket_id kind title = filter (is_marker ticket_id kind title) (lg_artifacts L)"

definition add_marker ::
    "string \<Rightarrow> int \<Rightarrow> Ledger \<Rightarrow> string \<Rightarrow> string \<Rightarrow> string \<Rightarrow> json_text \<Rightarrow> Ledger" where
  "add_marker new_id now L ticket_id kind title content =
     L\<lparr>lg_artifacts := lg_artifacts L @ [\<lparr>ar_id = new_id, ar_ticket_id = ticket_id, ar_kind = kind,
        ar_title = title, ar_content = content, ar_created_at = now\<rparr>]\<rparr>"

definition drop_markers :: "Ledger \<Rightarrow> string \<Rightarrow> string \<Rightarrow> string \<Rightarrow> Ledger \<times> nat" where
  "drop_markers L ticket_id kind title =
     (L\<lparr>lg_artifacts := filter (\<lambda>row. \<not> is_marker ticket_id kind title row) (lg_artifacts L)\<rparr>,
      length (markers L ticket_id kind title))"

text \<open>Delete the newest of some rows, by creation time and then id: how many went.\<close>

definition drop_newest :: "Ledger \<Rightarrow> Artifact list \<Rightarrow> Ledger \<times> nat" where
  "drop_newest L rows =
     (case rows of
        [] \<Rightarrow> (L, 0)
      | row # rows \<Rightarrow>
          (let newest = max_by (\<lambda>row. (ar_created_at row, ar_id row)) row rows
           in (L\<lparr>lg_artifacts := filter (\<lambda>r. ar_id r \<noteq> ar_id newest) (lg_artifacts L)\<rparr>, 1)))"

definition drop_latest_marker :: "Ledger \<Rightarrow> string \<Rightarrow> string \<Rightarrow> string \<Rightarrow> Ledger \<times> nat" where
  "drop_latest_marker L ticket_id kind title = drop_newest L (markers L ticket_id kind title)"

definition record_stage_dispatch :: "string \<Rightarrow> int \<Rightarrow> Ledger \<Rightarrow> string \<Rightarrow> string \<Rightarrow> Ledger" where
  "record_stage_dispatch new_id now L ticket_id stage_key =
     add_marker new_id now L ticket_id DISPATCH_KIND (stage_dispatch_artifact_title stage_key)
       (Doc (JObj []))"

definition dispatch_markers :: "Ledger \<Rightarrow> string \<Rightarrow> string \<Rightarrow> Artifact list" where
  "dispatch_markers L ticket_id stage_key =
     markers L ticket_id DISPATCH_KIND (stage_dispatch_artifact_title stage_key)"

definition count_stage_dispatches :: "Ledger \<Rightarrow> string \<Rightarrow> string \<Rightarrow> int" where
  "count_stage_dispatches L ticket_id stage_key = int (length (dispatch_markers L ticket_id stage_key))"

definition clear_stage_dispatches :: "Ledger \<Rightarrow> string \<Rightarrow> string \<Rightarrow> Ledger \<times> nat" where
  "clear_stage_dispatches L ticket_id stage_key =
     (let (L, _) = drop_markers L ticket_id DISPATCH_REROUTE_KIND (reroute_title stage_key)
      in drop_markers L ticket_id DISPATCH_KIND (stage_dispatch_artifact_title stage_key))"

section \<open>Refunds\<close>

definition refund_stage_dispatch_budget :: "Ledger \<Rightarrow> string \<Rightarrow> string \<Rightarrow> Ledger" where
  "refund_stage_dispatch_budget L ticket_id stage_key =
     (let (L, _) = drop_latest_marker L ticket_id DISPATCH_KIND (stage_dispatch_artifact_title stage_key);
          (L, _) = drop_markers L ticket_id RETRY_BLOCK_KIND (block_title stage_key)
      in L)"

definition refund_stage_dispatch_charged_before ::
    "Ledger \<Rightarrow> string \<Rightarrow> string \<Rightarrow> int \<Rightarrow> Ledger \<times> nat" where
  "refund_stage_dispatch_charged_before L ticket_id stage_key cutoff =
     drop_newest L (filter (\<lambda>row. ar_created_at row \<le> cutoff) (dispatch_markers L ticket_id stage_key))"

definition stage_dispatch_marker_ids :: "Ledger \<Rightarrow> string \<Rightarrow> string \<Rightarrow> string list" where
  "stage_dispatch_marker_ids L ticket_id stage_key = map ar_id (dispatch_markers L ticket_id stage_key)"

definition refund_stage_dispatch_charged_since ::
    "Ledger \<Rightarrow> string \<Rightarrow> string \<Rightarrow> string list \<Rightarrow> Ledger \<times> nat" where
  "refund_stage_dispatch_charged_since L ticket_id stage_key markers_before =
     drop_newest L (filter (\<lambda>row. ar_id row \<notin> set markers_before) (dispatch_markers L ticket_id stage_key))"

section \<open>The breaker's own block\<close>

definition record_stage_retry_block :: "string \<Rightarrow> int \<Rightarrow> Ledger \<Rightarrow> string \<Rightarrow> string \<Rightarrow> Ledger" where
  "record_stage_retry_block new_id now L ticket_id stage_key =
     (if markers L ticket_id RETRY_BLOCK_KIND (block_title stage_key) \<noteq> [] then L
      else add_marker new_id now L ticket_id RETRY_BLOCK_KIND (block_title stage_key) (Doc (JObj [])))"

definition clear_stage_retry_block :: "Ledger \<Rightarrow> string \<Rightarrow> string \<Rightarrow> Ledger \<times> nat" where
  "clear_stage_retry_block L ticket_id stage_key =
     drop_markers L ticket_id RETRY_BLOCK_KIND (block_title stage_key)"

definition blocked_on_stage_retry_budget :: "Ledger \<Rightarrow> Ticket \<Rightarrow> string \<Rightarrow> bool" where
  "blocked_on_stage_retry_budget L ticket stage_key \<longleftrightarrow>
     markers L (tk_id ticket) RETRY_BLOCK_KIND (block_title stage_key) \<noteq> []"

definition stage_retry_block_message :: "string \<Rightarrow> int \<Rightarrow> int \<Rightarrow> string" where
  "stage_retry_block_message stage_key attempts max_attempts =
     (let q = [char_of (39::nat)] in
      if attempts < max_attempts then []
      else ''Stage '' @ q @ stage_key @ q @ '' reached its retry budget of '' @ str_int max_attempts
        @ '' dispatches without the workflow advancing past it. Blocking for a human rather than ''
        @ ''dispatching it again.'')"

definition exceeds_stage_retry_budget :: "Ledger \<Rightarrow> string \<Rightarrow> string \<Rightarrow> bool \<Rightarrow> int \<Rightarrow> string" where
  "exceeds_stage_retry_budget L ticket_id stage_key enabled max_attempts =
     (if \<not> enabled then []
      else stage_retry_block_message stage_key (count_stage_dispatches L ticket_id stage_key) max_attempts)"

section \<open>The shared predicate and the orchestrated path\<close>

definition reroute_grants :: "Ledger \<Rightarrow> string \<Rightarrow> string \<Rightarrow> int" where
  "reroute_grants L ticket_id stage_key =
     int (length (markers L ticket_id DISPATCH_REROUTE_KIND (reroute_title stage_key)))"

definition reroute_exempt :: "Ledger \<Rightarrow> Ticket \<Rightarrow> string \<Rightarrow> int \<Rightarrow> bool" where
  "reroute_exempt L ticket stage_key max_free \<longleftrightarrow>
     (if tk_scope_reroute_agent ticket = [] then False
      else reroute_grants L (tk_id ticket) stage_key < max_free)"

definition record_reroute_exempt_dispatch :: "string \<Rightarrow> int \<Rightarrow> Ledger \<Rightarrow> string \<Rightarrow> string \<Rightarrow> Ledger" where
  "record_reroute_exempt_dispatch new_id now L ticket_id stage_key =
     add_marker new_id now L ticket_id DISPATCH_REROUTE_KIND (reroute_title stage_key) (Doc (JObj []))"

definition stage_retry_budget_state ::
    "Ledger \<Rightarrow> Ticket \<Rightarrow> string \<Rightarrow> RetryBudgetConfig \<Rightarrow> StageBudgetState" where
  "stage_retry_budget_state L ticket stage_key config =
     (if reroute_exempt L ticket stage_key (rb_max_attempts_per_stage config)
      then \<lparr>bs_exempt = True, bs_attempts = 0, bs_at_budget = False\<rparr>
      else (let attempts = count_stage_dispatches L (tk_id ticket) stage_key in
            \<lparr>bs_exempt = False, bs_attempts = attempts,
             bs_at_budget = (rb_enabled config \<and> attempts \<ge> rb_max_attempts_per_stage config)\<rparr>))"

text \<open>
  What the breaker asks of \<open>callbacks.block_ticket\<close>. \<open>None\<close> is the value the loop proceeds on.
\<close>

record BlockRequest =
  br_stage_key :: string
  br_message :: string
  br_repair_withheld :: string

definition enforce_stage_retry_budget ::
    "string \<Rightarrow> int \<Rightarrow> Ledger \<Rightarrow> Ticket \<Rightarrow> string \<Rightarrow> RetryBudgetConfig \<Rightarrow> Ledger \<times> BlockRequest option" where
  "enforce_stage_retry_budget new_id now L ticket stage_key config =
     (let state = stage_retry_budget_state L ticket stage_key config; q = [char_of (39::nat)] in
      if bs_exempt state
      then (record_reroute_exempt_dispatch new_id now L (tk_id ticket) stage_key, None)
      else if bs_at_budget state
      then (record_stage_retry_block new_id now L (tk_id ticket) stage_key,
            Some \<lparr>br_stage_key = stage_key,
              br_message = stage_retry_block_message stage_key (bs_attempts state)
                (rb_max_attempts_per_stage config),
              br_repair_withheld = q @ stage_key @ q @ '' reached its dispatch budget (''
                @ str_int (bs_attempts state) @ '' of '' @ str_int (rb_max_attempts_per_stage config)
                @ ''); another agent turn is what the budget exists to stop.''\<rparr>)
      else (record_stage_dispatch new_id now L (tk_id ticket) stage_key, None))"

section \<open>The standalone path\<close>

definition record_stage_dispatch_override ::
    "string \<Rightarrow> int \<Rightarrow> string \<Rightarrow> Ledger \<Rightarrow> string \<Rightarrow> string \<Rightarrow> DispatchOrigin \<Rightarrow> Ledger" where
  "record_stage_dispatch_override new_id now forced_at L ticket_id stage_key origin =
     add_marker new_id now L ticket_id DISPATCH_OVERRIDE_KIND (override_title stage_key)
       (Doc (JObj [(''stage_key'', JStr stage_key), (''forced_at'', JStr forced_at),
          (''surface'', JStr (dispatch_surface_value (do_surface origin))),
          (''orchestration_run_id'', JStr (do_orchestration_run_id origin)),
          (''agent_id'', JStr (do_agent_id origin))]))"

definition stage_retry_refusal_message :: "string \<Rightarrow> int \<Rightarrow> int \<Rightarrow> string" where
  "stage_retry_refusal_message stage_key attempts max_attempts =
     (let q = [char_of (39::nat)] in
      ''Stage '' @ q @ stage_key @ q @ '' has already been dispatched '' @ str_int attempts
      @ '' times, reaching its retry budget of '' @ str_int max_attempts
      @ ''. Reset the stage, or start it again with force=true to dispatch it anyway.'')"

text \<open>The profile of the ticket's workspace, or why it cannot be read.\<close>

definition resolve_stage_retry_budget :: "RetryBudgetConfig result option \<Rightarrow> RetryBudgetConfig" where
  "resolve_stage_retry_budget profile =
     (case profile of
        None \<Rightarrow> default_budget
      | Some (Inr config) \<Rightarrow> config
      | Some (Inl e) \<Rightarrow> default_budget)"

definition is_live_dispatch_evidence :: "Machine \<Rightarrow> AgentRun \<Rightarrow> bool" where
  "is_live_dispatch_evidence m run =
     (if agent_run_lease_expired m run AGENT_RUN_LEASE then False
      else if run_has_renewer run \<or> rn_handoff_pid run \<noteq> None then True
      else (case run_stamp run of
              None \<Rightarrow> False
            | Some stamp \<Rightarrow> mc_now m - stamp \<le> NO_RENEWER_DISPATCH_CEILING))"

definition dispatch_pass_open :: "Machine \<Rightarrow> Ledger \<Rightarrow> string \<Rightarrow> string \<Rightarrow> bool \<Rightarrow> bool" where
  "dispatch_pass_open m L ticket_id stage_key stage_running =
     (if \<not> stage_running then False
      else if list_ex (is_live_dispatch_evidence m)
          (filter (\<lambda>run. rn_ticket_id run = Some ticket_id \<and> rn_stage_key run = stage_key
             \<and> rn_status run = RUNNING) (lg_runs L))
        then True
      else list_ex (\<lambda>g. fg_ticket_id g = ticket_id \<and> fg_stage_key g = stage_key \<and> fg_pending g)
             (lg_fanouts L))"

definition evaluate_standalone_stage_dispatch ::
    "Machine \<Rightarrow> RetryBudgetConfig result option \<Rightarrow> Ledger \<Rightarrow> Ticket \<Rightarrow> string \<Rightarrow> bool \<Rightarrow> bool \<Rightarrow> bool
       \<Rightarrow> StageDispatchDecision result" where
  "evaluate_standalone_stage_dispatch m profile L ticket stage_key stage_already_running force
       budget_reset_pending =
     (if dispatch_pass_open m L (tk_id ticket) stage_key stage_already_running
      then Inr \<lparr>dd_counts = False, dd_forced = False, dd_exempt_reroute = False\<rparr>
      else
        (let config = resolve_stage_retry_budget profile;
             state = stage_retry_budget_state L ticket stage_key config in
         if bs_exempt state
         then Inr \<lparr>dd_counts = False, dd_forced = False, dd_exempt_reroute = True\<rparr>
         else if bs_at_budget state \<and> \<not> budget_reset_pending
         then (if \<not> force
               then Inl (StageRetryBudgetExceeded (stage_retry_refusal_message stage_key
                      (bs_attempts state) (rb_max_attempts_per_stage config)))
               else Inr \<lparr>dd_counts = True, dd_forced = True, dd_exempt_reroute = False\<rparr>)
         else Inr \<lparr>dd_counts = True, dd_forced = False, dd_exempt_reroute = False\<rparr>))"

definition commit_standalone_stage_dispatch ::
    "string \<Rightarrow> string \<Rightarrow> int \<Rightarrow> string \<Rightarrow> Ledger \<Rightarrow> string \<Rightarrow> string \<Rightarrow> StageDispatchDecision \<Rightarrow> DispatchOrigin
       \<Rightarrow> Ledger" where
  "commit_standalone_stage_dispatch new_id override_id now forced_at L ticket_id stage_key decision origin =
     (if dd_exempt_reroute decision then record_reroute_exempt_dispatch new_id now L ticket_id stage_key
      else
        (let L = (if dd_forced decision
                  then record_stage_dispatch_override override_id now forced_at L ticket_id stage_key origin
                  else L)
         in if dd_counts decision then record_stage_dispatch new_id now L ticket_id stage_key else L))"

definition guard_standalone_stage_dispatch ::
    "Machine \<Rightarrow> RetryBudgetConfig result option \<Rightarrow> string \<Rightarrow> string \<Rightarrow> string \<Rightarrow> Ledger \<Rightarrow> Ticket \<Rightarrow> string \<Rightarrow> bool
       \<Rightarrow> bool \<Rightarrow> DispatchOrigin \<Rightarrow> Ledger result" where
  "guard_standalone_stage_dispatch m profile new_id override_id forced_at L ticket stage_key
       stage_already_running force origin =
     bind_result (evaluate_standalone_stage_dispatch m profile L ticket stage_key
         stage_already_running force False) (\<lambda>decision.
       Inr (commit_standalone_stage_dispatch new_id override_id (mc_now m) forced_at L (tk_id ticket)
         stage_key decision origin))"

definition charge_fanout_dispatch :: "string \<Rightarrow> int \<Rightarrow> Ledger \<Rightarrow> string \<Rightarrow> string \<Rightarrow> Ledger" where
  "charge_fanout_dispatch new_id now L ticket_id stage_key =
     record_stage_dispatch new_id now L ticket_id stage_key"

section \<open>Gate fixes and transient retries\<close>

definition gate_failure_artifact_title :: "string \<Rightarrow> string" where
  "gate_failure_artifact_title stage_key =
     ''Transition gate failed '' @ map char_of [226::nat, 128, 148] @ '' '' @ stage_key"

definition foreign_gate_failure_artifact_title :: "string \<Rightarrow> string" where
  "foreign_gate_failure_artifact_title stage_key =
     ''Transition gate failed elsewhere '' @ map char_of [226::nat, 128, 148] @ '' '' @ stage_key"

definition count_gate_fix_attempts :: "Ledger \<Rightarrow> string \<Rightarrow> string \<Rightarrow> int" where
  "count_gate_fix_attempts L ticket_id stage_key =
     int (length (markers L ticket_id ''error'' (gate_failure_artifact_title stage_key)))"

definition TRANSIENT_RETRY_KIND :: string where "TRANSIENT_RETRY_KIND = ''stage_transient_retry''"

definition transient_retry_artifact_title :: "string \<Rightarrow> string" where
  "transient_retry_artifact_title stage_key = ''stage-transient-retry:'' @ stage_key"

definition count_transient_retries :: "Ledger \<Rightarrow> string \<Rightarrow> string \<Rightarrow> int" where
  "count_transient_retries L ticket_id stage_key =
     int (length (markers L ticket_id TRANSIENT_RETRY_KIND (transient_retry_artifact_title stage_key)))"

definition clear_transient_retries :: "Ledger \<Rightarrow> string \<Rightarrow> string \<Rightarrow> Ledger \<times> nat" where
  "clear_transient_retries L ticket_id stage_key =
     drop_markers L ticket_id TRANSIENT_RETRY_KIND (transient_retry_artifact_title stage_key)"

definition record_transient_retry ::
    "string \<Rightarrow> int \<Rightarrow> Ledger \<Rightarrow> string \<Rightarrow> string \<Rightarrow> string \<Rightarrow> string \<Rightarrow> string \<Rightarrow> Ledger" where
  "record_transient_retry new_id now L ticket_id stage_key run_id reason message =
     add_marker new_id now L ticket_id TRANSIENT_RETRY_KIND (transient_retry_artifact_title stage_key)
       (Doc (JObj [(''run_id'', JStr run_id), (''reason'', JStr reason), (''message'', JStr message)]))"

section \<open>Resetting\<close>

definition refresh_stage_retry_budget ::
    "int \<Rightarrow> Ledger \<Rightarrow> Ticket \<Rightarrow> string \<Rightarrow> bool \<Rightarrow> (Ledger \<times> Ticket) result" where
  "refresh_stage_retry_budget now L ticket stage_key clear_dispatches =
     (if stage_key = [] then Inr (L, ticket)
      else
        (let L = (if clear_dispatches
                  then fst (clear_transient_retries (fst (clear_stage_dispatches L (tk_id ticket) stage_key))
                         (tk_id ticket) stage_key)
                  else L);
             (L, ticket) =
               (if blocked_on_stage_retry_budget L ticket stage_key
                then (fst (clear_stage_retry_block L (tk_id ticket) stage_key),
                      ticket\<lparr>tk_blocking_issues := []\<rparr>)
                else (L, ticket))
         in if tk_state ticket = TicketState.BLOCKED \<and> \<not> tk_state_locked ticket
            then bind_result (choose_state now None ticket TicketState.IN_PROGRESS ''human'' False)
                   (\<lambda>(_, ticket, _). Inr (L, ticket\<lparr>tk_next_status := []\<rparr>))
            else Inr (L, ticket)))"

definition stage_start_clears_budget ::
    "Ledger \<Rightarrow> Ticket \<Rightarrow> string \<Rightarrow> (string, StageStatus) dict \<Rightarrow> bool" where
  "stage_start_clears_budget L ticket target_key stage_map =
     (if tk_state ticket \<noteq> TicketState.BLOCKED \<and> map_of stage_map target_key \<noteq> Some StageStatus.BLOCKED
      then False
      else blocked_on_stage_retry_budget L ticket target_key)"

definition prepare_stage_start ::
    "int \<Rightarrow> Ledger \<Rightarrow> Ticket \<Rightarrow> string \<Rightarrow> (string, StageStatus) dict \<Rightarrow> bool \<Rightarrow> (Ledger \<times> Ticket) result" where
  "prepare_stage_start now L ticket target_key stage_map clear_budget =
     (let ticket = ticket\<lparr>tk_blocking_issues := []\<rparr> in
      if tk_state ticket = TicketState.BLOCKED \<or> map_of stage_map target_key = Some StageStatus.BLOCKED
      then refresh_stage_retry_budget now L ticket target_key clear_budget
      else Inr (L, ticket))"

text \<open>
  The budget's part of \<open>start_run\<close>: decide, prepare the ticket, choose the agent, then write
  what was decided. \<open>charged_by_loop\<close> says that the start belongs to a run of the builtin
  autopilot, whose loop has charged the pass already; \<open>resolve\<close> is \<open>resolve_run_agent\<close> on the
  stage's definition. A refusal leaves the ledger as it was; an agent that cannot be resolved
  leaves what the preparation wrote.
\<close>

definition start_charged ::
    "Machine \<Rightarrow> RetryBudgetConfig result option \<Rightarrow> (Ticket \<Rightarrow> string result) \<Rightarrow> string \<Rightarrow> string \<Rightarrow> string
       \<Rightarrow> Ledger \<Rightarrow> Ticket \<Rightarrow> string \<Rightarrow> (string, StageStatus) dict \<Rightarrow> bool \<Rightarrow> bool \<Rightarrow> DispatchSurface
       \<Rightarrow> (Ledger \<times> Ticket) \<times> unit result" where
  "start_charged m profile resolve new_id override_id forced_at L ticket target_key stage_map
       charged_by_loop force surface =
     (let budget_reset_pending = stage_start_clears_budget L ticket target_key stage_map;
          decision =
            (if charged_by_loop then Inr None
             else bind_result (evaluate_standalone_stage_dispatch m profile L ticket target_key
                      (map_of stage_map target_key = Some StageStatus.RUNNING) force budget_reset_pending)
                    (\<lambda>decision. Inr (Some decision)))
      in case decision of
           Inl e \<Rightarrow> ((L, ticket), Inl e)
         | Inr decision \<Rightarrow>
             (case prepare_stage_start (mc_now m) L ticket target_key stage_map budget_reset_pending of
                Inl e \<Rightarrow> ((L, ticket), Inl e)
              | Inr (L, ticket) \<Rightarrow>
                  (case resolve ticket of
                     Inl e \<Rightarrow> ((L, ticket), Inl e)
                   | Inr chosen_agent \<Rightarrow>
                       ((case decision of
                           None \<Rightarrow> L
                         | Some decision \<Rightarrow>
                             commit_standalone_stage_dispatch new_id override_id (mc_now m) forced_at L
                               (tk_id ticket) target_key decision
                               \<lparr>do_surface = surface, do_orchestration_run_id = [],
                                do_agent_id = chosen_agent\<rparr>, ticket), Inr ()))))"

section \<open>Counting markers\<close>

lemmas kind_defs = DISPATCH_KIND_def DISPATCH_OVERRIDE_KIND_def DISPATCH_REROUTE_KIND_def
  RETRY_BLOCK_KIND_def TRANSIENT_RETRY_KIND_def

lemma kinds_neq [simp]:
  "DISPATCH_KIND \<noteq> DISPATCH_OVERRIDE_KIND" "DISPATCH_KIND \<noteq> DISPATCH_REROUTE_KIND"
  "DISPATCH_KIND \<noteq> RETRY_BLOCK_KIND" "DISPATCH_KIND \<noteq> TRANSIENT_RETRY_KIND"
  "DISPATCH_OVERRIDE_KIND \<noteq> DISPATCH_KIND" "DISPATCH_OVERRIDE_KIND \<noteq> DISPATCH_REROUTE_KIND"
  "DISPATCH_OVERRIDE_KIND \<noteq> RETRY_BLOCK_KIND" "DISPATCH_OVERRIDE_KIND \<noteq> TRANSIENT_RETRY_KIND"
  "DISPATCH_REROUTE_KIND \<noteq> DISPATCH_KIND" "DISPATCH_REROUTE_KIND \<noteq> DISPATCH_OVERRIDE_KIND"
  "DISPATCH_REROUTE_KIND \<noteq> RETRY_BLOCK_KIND" "DISPATCH_REROUTE_KIND \<noteq> TRANSIENT_RETRY_KIND"
  "RETRY_BLOCK_KIND \<noteq> DISPATCH_KIND" "RETRY_BLOCK_KIND \<noteq> DISPATCH_OVERRIDE_KIND"
  "RETRY_BLOCK_KIND \<noteq> DISPATCH_REROUTE_KIND" "RETRY_BLOCK_KIND \<noteq> TRANSIENT_RETRY_KIND"
  "TRANSIENT_RETRY_KIND \<noteq> DISPATCH_KIND" "TRANSIENT_RETRY_KIND \<noteq> DISPATCH_OVERRIDE_KIND"
  "TRANSIENT_RETRY_KIND \<noteq> DISPATCH_REROUTE_KIND" "TRANSIENT_RETRY_KIND \<noteq> RETRY_BLOCK_KIND"
  by (simp_all add: kind_defs)

lemma markers_add_other [simp]:
  "kind \<noteq> kind' \<Longrightarrow> markers (add_marker i now L t kind title c) t' kind' title' = markers L t' kind' title'"
  by (simp add: markers_def add_marker_def is_marker_def)

lemma markers_add_same [simp]:
  "length (markers (add_marker i now L t kind title c) t kind title) = Suc (length (markers L t kind title))"
  by (simp add: markers_def add_marker_def is_marker_def)

lemma markers_drop_other [simp]:
  "kind \<noteq> kind' \<Longrightarrow> markers (fst (drop_markers L t kind title)) t' kind' title' = markers L t' kind' title'"
  by (auto simp: markers_def drop_markers_def is_marker_def intro!: filter_cong)

lemma markers_drop_same [simp]: "markers (fst (drop_markers L t kind title)) t kind title = []"
  by (simp add: markers_def drop_markers_def)

definition ledger_keyed :: "Ledger \<Rightarrow> bool" where
  "ledger_keyed L \<longleftrightarrow> distinct (map ar_id (lg_artifacts L))"

definition fresh_id :: "Ledger \<Rightarrow> string \<Rightarrow> bool" where
  "fresh_id L i \<longleftrightarrow> i \<notin> ar_id ` set (lg_artifacts L)"

lemma ledger_keyed_add [simp]:
  "ledger_keyed (add_marker i now L t kind title c) \<longleftrightarrow> ledger_keyed L \<and> fresh_id L i"
  by (auto simp: ledger_keyed_def fresh_id_def add_marker_def)

lemma fresh_id_add: "fresh_id (add_marker i now L t kind title c) j \<longleftrightarrow> fresh_id L j \<and> i \<noteq> j"
  by (auto simp: fresh_id_def add_marker_def)

lemma ledger_keyed_drop_markers: "ledger_keyed L \<Longrightarrow> ledger_keyed (fst (drop_markers L t kind title))"
  by (simp add: ledger_keyed_def drop_markers_def distinct_map_filter)

lemma fresh_id_drop_markers: "fresh_id L i \<Longrightarrow> fresh_id (fst (drop_markers L t kind title)) i"
  by (auto simp: fresh_id_def drop_markers_def)

lemma drop_newest_cases:
  obtains "rows = []" "drop_newest L rows = (L, 0)"
  | newest where "newest \<in> set rows"
    "drop_newest L rows = (L\<lparr>lg_artifacts := filter (\<lambda>r. ar_id r \<noteq> ar_id newest) (lg_artifacts L)\<rparr>, 1)"
proof (cases rows)
  case Nil
  then show ?thesis by (intro that(1)) (simp_all add: drop_newest_def)
next
  case (Cons r rs)
  have "max_by (\<lambda>row. (ar_created_at row, ar_id row)) r rs \<in> set rows"
    using max_by_in [of "\<lambda>row. (ar_created_at row, ar_id row)" r rs] Cons by simp
  then show ?thesis by (rule that(2)) (simp add: drop_newest_def Cons Let_def)
qed

lemma drop_newest_keyed: "ledger_keyed L \<Longrightarrow> ledger_keyed (fst (drop_newest L rows))"
  by (rule drop_newest_cases [of rows L]) (simp_all add: ledger_keyed_def distinct_map_filter)

lemma drop_newest_length:
  "length (markers (fst (drop_newest L rows)) t kind title) \<le> length (markers L t kind title)"
proof (rule drop_newest_cases [of rows L])
  fix newest assume "drop_newest L rows =
    (L\<lparr>lg_artifacts := filter (\<lambda>r. ar_id r \<noteq> ar_id newest) (lg_artifacts L)\<rparr>, 1)"
  moreover have "markers (L\<lparr>lg_artifacts := filter q (lg_artifacts L)\<rparr>) t kind title
      = filter q (markers L t kind title)" for q
    by (simp add: markers_def conj_commute)
  ultimately show ?thesis by simp
qed simp

text \<open>Dropping a dispatch marker leaves the rows of every other kind.\<close>

lemma drop_newest_other:
  assumes "ledger_keyed L" and "set rows \<subseteq> set (markers L t kind title)" and "kind \<noteq> kind'"
  shows "markers (fst (drop_newest L rows)) t' kind' title' = markers L t' kind' title'"
proof (rule drop_newest_cases [of rows L])
  fix newest assume n: "newest \<in> set rows" and d: "drop_newest L rows =
    (L\<lparr>lg_artifacts := filter (\<lambda>r. ar_id r \<noteq> ar_id newest) (lg_artifacts L)\<rparr>, 1)"
  from n assms(2) have nr: "newest \<in> set (lg_artifacts L)" "ar_kind newest = kind"
    by (auto simp: markers_def is_marker_def)
  have "ar_id r \<noteq> ar_id newest" if "r \<in> set (lg_artifacts L)" "ar_kind r = kind'" for r
    using assms(1,3) nr that by (auto simp: ledger_keyed_def distinct_map dest: inj_onD)
  then show ?thesis
    by (auto simp: d markers_def is_marker_def intro!: filter_cong)
qed simp

section \<open>The breaker over any sequence of dispatches\<close>

definition override_count :: "Ledger \<Rightarrow> string \<Rightarrow> string \<Rightarrow> int" where
  "override_count L t k = int (length (markers L t DISPATCH_OVERRIDE_KIND (override_title k)))"

text \<open>
  One write to the budget of stage \<open>k\<close> of ticket \<open>t\<close>: a dispatch by the orchestrator's loop, a
  start by anybody else, a refund or a reset. A fan-out, which an operator asks for and which
  is never refused, is not among them.
\<close>

inductive budget_step :: "RetryBudgetConfig \<Rightarrow> string \<Rightarrow> string \<Rightarrow> Ledger \<Rightarrow> Ledger \<Rightarrow> bool"
  for config t k where
  looped: "fresh_id L i \<Longrightarrow> tk_id ticket = t \<Longrightarrow>
     budget_step config t k L (fst (enforce_stage_retry_budget i now L ticket k config))"
| started: "fresh_id L i \<Longrightarrow> fresh_id L j \<Longrightarrow> i \<noteq> j \<Longrightarrow> tk_id ticket = t \<Longrightarrow>
     start_charged m (Some (Inr config)) resolve i j forced_at L ticket k stage_map by_loop force surface
       = ((L', ticket'), outcome) \<Longrightarrow>
     budget_step config t k L L'"
| parked: "budget_step config t k L (refund_stage_dispatch_budget L t k)"
| orphaned: "budget_step config t k L (fst (refund_stage_dispatch_charged_before L t k cutoff))"
| refunded: "budget_step config t k L (fst (refund_stage_dispatch_charged_since L t k ids))"
| reset: "tk_id ticket = t \<Longrightarrow> refresh_stage_retry_budget now L ticket k clear = Inr (L', ticket') \<Longrightarrow>
     budget_step config t k L L'"

inductive_cases budget_stepE: "budget_step config t k L L'"

definition within_budget :: "RetryBudgetConfig \<Rightarrow> string \<Rightarrow> string \<Rightarrow> Ledger \<Rightarrow> bool" where
  "within_budget config t k L \<longleftrightarrow> ledger_keyed L
     \<and> count_stage_dispatches L t k \<le> rb_max_attempts_per_stage config + override_count L t k
     \<and> reroute_grants L t k \<le> rb_max_attempts_per_stage config"

lemmas budget_counts = count_stage_dispatches_def dispatch_markers_def override_count_def reroute_grants_def

lemma within_budget_drop_newest:
  assumes "within_budget config t k L" and "set rows \<subseteq> set (dispatch_markers L t k)"
  shows "within_budget config t k (fst (drop_newest L rows))"
proof -
  have k: "ledger_keyed L" using assms(1) by (simp add: within_budget_def)
  have "set rows \<subseteq> set (markers L t DISPATCH_KIND (stage_dispatch_artifact_title k))"
    using assms(2) by (simp add: dispatch_markers_def)
  note other = drop_newest_other [OF k this]
  from assms(1) show ?thesis
    using drop_newest_keyed [OF k, of rows]
      drop_newest_length [of L rows t DISPATCH_KIND "stage_dispatch_artifact_title k"]
    by (simp add: within_budget_def budget_counts other)
qed

lemma clear_stage_dispatches_eq:
  "fst (clear_stage_dispatches L t k) =
     fst (drop_markers (fst (drop_markers L t DISPATCH_REROUTE_KIND (reroute_title k))) t DISPATCH_KIND
       (stage_dispatch_artifact_title k))"
  by (simp add: clear_stage_dispatches_def split: prod.split)

lemma refresh_ledger:
  assumes "refresh_stage_retry_budget now L ticket k clear = Inr (L', ticket')"
  defines "L1 \<equiv> if clear \<and> k \<noteq> [] then fst (clear_transient_retries (fst (clear_stage_dispatches L (tk_id ticket) k))
      (tk_id ticket) k) else L"
  shows "(L' = L1 \<or> L' = fst (clear_stage_retry_block L1 (tk_id ticket) k)) \<and> tk_id ticket' = tk_id ticket"
proof (cases "k = []")
  case True
  with assms(1) show ?thesis by (simp add: refresh_stage_retry_budget_def L1_def)
next
  case False
  have chosen: "tk_id u' = tk_id u" if "choose_state now None u s a e = Inr (x, u', y)" for u u' s a e x y
    using choose_state_Inr(1) [OF that] write_state_frame [of u now s a] same_but_stateD(1) by (metis fst_conv)
  from assms(1) False show ?thesis
    by (auto simp: refresh_stage_retry_budget_def L1_def Let_def bind_result_Inr_iff split: if_splits dest: chosen)
qed

text \<open>Between deciding and writing, a start only deletes rows.\<close>

definition thinned :: "string \<Rightarrow> string \<Rightarrow> Ledger \<Rightarrow> Ledger \<Rightarrow> bool" where
  "thinned t k L L' \<longleftrightarrow> (ledger_keyed L \<longrightarrow> ledger_keyed L')
     \<and> (\<forall>i. fresh_id L i \<longrightarrow> fresh_id L' i)
     \<and> override_count L' t k = override_count L t k
     \<and> count_stage_dispatches L' t k \<le> count_stage_dispatches L t k
     \<and> reroute_grants L' t k \<le> reroute_grants L t k"

lemma thinned_refl [simp]: "thinned t k L L"
  by (simp add: thinned_def)

lemma thinned_trans: "thinned t k L L' \<Longrightarrow> thinned t k L' L'' \<Longrightarrow> thinned t k L L''"
  by (auto simp: thinned_def)

lemma thinned_within: "thinned t k L L' \<Longrightarrow> within_budget config t k L \<Longrightarrow> within_budget config t k L'"
  by (auto simp: thinned_def within_budget_def)

lemma thinned_drop_markers:
  assumes "kind \<noteq> DISPATCH_OVERRIDE_KIND"
  shows "thinned t k L (fst (drop_markers L t kind title))"
proof -
  have "length (markers (fst (drop_markers L t kind title)) t kind' title') \<le> length (markers L t kind' title')"
    for kind' title'
  proof -
    have "markers (fst (drop_markers L t kind title)) t kind' title'
        = filter (\<lambda>row. \<not> is_marker t kind title row) (markers L t kind' title')"
      by (simp add: markers_def drop_markers_def conj_commute)
    then show ?thesis by simp
  qed
  moreover note ledger_keyed_drop_markers [of L t kind title] fresh_id_drop_markers [of L _ t kind title]
  ultimately show ?thesis using assms by (simp add: thinned_def budget_counts)
qed

lemma thinned_clear_stage_dispatches: "thinned t k L (fst (clear_stage_dispatches L t k))"
  unfolding clear_stage_dispatches_eq
  by (rule thinned_trans [OF thinned_drop_markers thinned_drop_markers]) simp_all

lemma thinned_refresh:
  assumes "refresh_stage_retry_budget now L ticket k clear = Inr (L', ticket')"
  shows "thinned (tk_id ticket) k L L'"
proof -
  define t where "t = tk_id ticket"
  define L1 where "L1 = (if clear \<and> k \<noteq> [] then
      fst (clear_transient_retries (fst (clear_stage_dispatches L t k)) t k) else L)"
  have L1: "thinned t k L L1"
    by (simp add: L1_def clear_transient_retries_def
        thinned_trans [OF thinned_clear_stage_dispatches thinned_drop_markers])
  have "L' = L1 \<or> L' = fst (clear_stage_retry_block L1 t k)"
    using refresh_ledger [OF assms] unfolding L1_def t_def by (rule conjunct1)
  moreover have "thinned t k L1 (fst (clear_stage_retry_block L1 t k))"
    by (simp add: clear_stage_retry_block_def thinned_drop_markers)
  ultimately show ?thesis using L1 thinned_trans by (auto simp: t_def)
qed

lemma refresh_clears:
  assumes "refresh_stage_retry_budget now L ticket k True = Inr (L', ticket')" and "k \<noteq> []"
  shows "count_stage_dispatches L' (tk_id ticket) k = 0"
  using refresh_ledger [OF assms(1)] assms(2)
  by (auto simp: budget_counts clear_stage_dispatches_eq clear_transient_retries_def clear_stage_retry_block_def)

lemma prepare_thins:
  assumes "prepare_stage_start now L ticket k stage_map clear = Inr (L', ticket')"
  shows "thinned (tk_id ticket) k L L'" and "tk_id ticket' = tk_id ticket"
  using assms thinned_refresh [of now L "ticket\<lparr>tk_blocking_issues := []\<rparr>" k clear L' ticket']
    refresh_ledger [of now L "ticket\<lparr>tk_blocking_issues := []\<rparr>" k clear L' ticket']
  by (auto simp: prepare_stage_start_def Let_def split: if_splits)

lemma prepare_clears:
  assumes "prepare_stage_start now L ticket k stage_map (stage_start_clears_budget L ticket k stage_map)
      = Inr (L', ticket')"
    and "stage_start_clears_budget L ticket k stage_map" and "k \<noteq> []"
  shows "count_stage_dispatches L' (tk_id ticket) k = 0"
  using assms refresh_clears [of now L "ticket\<lparr>tk_blocking_issues := []\<rparr>" k L' ticket']
  by (auto simp: prepare_stage_start_def stage_start_clears_budget_def Let_def split: if_splits)

lemma budget_recordings [simp]:
  "count_stage_dispatches (record_stage_dispatch i now L t k) t k = count_stage_dispatches L t k + 1"
  "count_stage_dispatches (record_reroute_exempt_dispatch i now L t k) t k = count_stage_dispatches L t k"
  "count_stage_dispatches (record_stage_dispatch_override i now forced_at L t k origin) t k
     = count_stage_dispatches L t k"
  "override_count (record_stage_dispatch i now L t k) t k = override_count L t k"
  "override_count (record_reroute_exempt_dispatch i now L t k) t k = override_count L t k"
  "override_count (record_stage_dispatch_override i now forced_at L t k origin) t k = override_count L t k + 1"
  "reroute_grants (record_stage_dispatch i now L t k) t k = reroute_grants L t k"
  "reroute_grants (record_reroute_exempt_dispatch i now L t k) t k = reroute_grants L t k + 1"
  "reroute_grants (record_stage_dispatch_override i now forced_at L t k origin) t k = reroute_grants L t k"
  by (simp_all add: budget_counts record_stage_dispatch_def record_reroute_exempt_dispatch_def
      record_stage_dispatch_override_def)

lemma keyed_recordings [simp]:
  "ledger_keyed (record_stage_dispatch i now L t k) \<longleftrightarrow> ledger_keyed L \<and> fresh_id L i"
  "ledger_keyed (record_reroute_exempt_dispatch i now L t k) \<longleftrightarrow> ledger_keyed L \<and> fresh_id L i"
  "ledger_keyed (record_stage_dispatch_override i now forced_at L t k origin) \<longleftrightarrow> ledger_keyed L \<and> fresh_id L i"
  "fresh_id (record_stage_dispatch_override j now forced_at L t k origin) i \<longleftrightarrow> fresh_id L i \<and> j \<noteq> i"
  by (simp_all add: record_stage_dispatch_def record_reroute_exempt_dispatch_def
      record_stage_dispatch_override_def fresh_id_add)

lemma within_budget_block:
  assumes "within_budget config t k L" and "fresh_id L i"
  shows "within_budget config t k (record_stage_retry_block i now L t k)"
  using assms by (simp add: within_budget_def record_stage_retry_block_def budget_counts)

lemma enforce_within:
  assumes "within_budget config (tk_id ticket) k L" and "fresh_id L i" and "rb_enabled config"
    and "0 \<le> rb_max_attempts_per_stage config"
  shows "within_budget config (tk_id ticket) k (fst (enforce_stage_retry_budget i now L ticket k config))"
proof -
  have "0 \<le> override_count L (tk_id ticket) k" by (simp add: override_count_def)
  then show ?thesis
    using assms within_budget_block [OF assms(1,2), of now]
    by (auto simp: enforce_stage_retry_budget_def stage_retry_budget_state_def Let_def within_budget_def
        reroute_exempt_def split: if_splits)
qed

text \<open>What a decision promises about the ledger it was taken on.\<close>

lemma evaluate_promise:
  assumes "evaluate_standalone_stage_dispatch m (Some (Inr config)) L ticket k running force pending = Inr d"
    and "rb_enabled config"
  shows "dd_exempt_reroute d \<Longrightarrow> reroute_grants L (tk_id ticket) k < rb_max_attempts_per_stage config"
    and "\<not> dd_exempt_reroute d \<Longrightarrow> dd_counts d \<Longrightarrow> \<not> dd_forced d \<Longrightarrow> \<not> pending \<Longrightarrow>
      count_stage_dispatches L (tk_id ticket) k < rb_max_attempts_per_stage config"
    and "dd_forced d \<Longrightarrow> dd_counts d"
  using assms
  by (auto simp: evaluate_standalone_stage_dispatch_def stage_retry_budget_state_def Let_def
      resolve_stage_retry_budget_def reroute_exempt_def split: if_splits)

lemma start_cases:
  assumes "start_charged m profile resolve i j forced_at L ticket k stage_map by_loop force surface
      = ((L', ticket'), outcome)"
  defines "pending \<equiv> stage_start_clears_budget L ticket k stage_map"
  obtains (refused) "L' = L"
  | (prepared) "prepare_stage_start (mc_now m) L ticket k stage_map pending = Inr (L', ticket')"
  | (charged) d L1 origin where
      "evaluate_standalone_stage_dispatch m profile L ticket k
         (map_of stage_map k = Some StageStatus.RUNNING) force pending = Inr d"
      "prepare_stage_start (mc_now m) L ticket k stage_map pending = Inr (L1, ticket')"
      "L' = commit_standalone_stage_dispatch i j (mc_now m) forced_at L1 (tk_id ticket') k d origin"
  using assms(1) unfolding start_charged_def pending_def [symmetric]
  by (fastforce simp: Let_def bind_result_Inr_iff split: if_splits sum.splits option.splits)

lemma start_within:
  assumes start: "start_charged m (Some (Inr config)) resolve i j forced_at L ticket k stage_map by_loop force
      surface = ((L', ticket'), outcome)"
    and within: "within_budget config (tk_id ticket) k L" and ids: "fresh_id L i" "fresh_id L j" "i \<noteq> j"
    and config: "rb_enabled config" "1 \<le> rb_max_attempts_per_stage config" and k: "k \<noteq> []"
  shows "within_budget config (tk_id ticket) k L'"
  using start
proof (cases rule: start_cases)
  case refused
  with within show ?thesis by simp
next
  case prepared
  then show ?thesis using thinned_within [OF prepare_thins(1) within] by blast
next
  let ?pending = "stage_start_clears_budget L ticket k stage_map"
  case (charged d L1 origin)
  note p = charged(2)
  note thin = prepare_thins [OF p]
  have ids1: "fresh_id L1 i" "fresh_id L1 j" using thin(1) ids by (auto simp: thinned_def)
  have w1: "within_budget config (tk_id ticket) k L1" using thinned_within [OF thin(1) within] .
  note promise = evaluate_promise [OF charged(1) config(1)]
  have grants: "dd_exempt_reroute d \<Longrightarrow>
      reroute_grants L1 (tk_id ticket) k < rb_max_attempts_per_stage config"
    using promise(1) thin(1) by (auto simp: thinned_def)
  have room: "\<not> dd_exempt_reroute d \<Longrightarrow> dd_counts d \<Longrightarrow> \<not> dd_forced d \<Longrightarrow>
      count_stage_dispatches L1 (tk_id ticket) k < rb_max_attempts_per_stage config"
    using promise(2) thin(1) prepare_clears [OF p _ k] config(2)
    by (cases ?pending) (auto simp: thinned_def)
  have "0 \<le> override_count L1 (tk_id ticket) k" by (simp add: override_count_def)
  then show ?thesis
    using w1 ids1 ids(3) grants room promise(3)
    by (cases "dd_exempt_reroute d"; cases "dd_forced d"; cases "dd_counts d")
      (auto simp: charged(3) thin(2) commit_standalone_stage_dispatch_def Let_def within_budget_def)
qed

lemma budget_step_within:
  assumes "budget_step config t k L L'" and "within_budget config t k L"
    and "rb_enabled config" "1 \<le> rb_max_attempts_per_stage config" "k \<noteq> []"
  shows "within_budget config t k L'"
  using assms(1)
proof cases
  case (looped i ticket now)
  then show ?thesis using enforce_within [of config ticket k L i now] assms(2-4) by simp
next
  case (started i j ticket m resolve forced_at stage_map by_loop force surface ticket' outcome)
  then show ?thesis using start_within [OF started(5) _ started(1,2,3)] assms(2-5) by simp
next
  case parked
  have "within_budget config t k (fst (drop_latest_marker L t DISPATCH_KIND (stage_dispatch_artifact_title k)))"
    unfolding drop_latest_marker_def
    by (rule within_budget_drop_newest [OF assms(2)]) (simp add: dispatch_markers_def)
  then show ?thesis
    by (simp add: parked refund_stage_dispatch_budget_def split_beta thinned_within [OF thinned_drop_markers])
next
  case (orphaned cutoff)
  show ?thesis
    unfolding orphaned refund_stage_dispatch_charged_before_def
    by (rule within_budget_drop_newest [OF assms(2)]) (rule filter_is_subset)
next
  case (refunded ids)
  show ?thesis
    unfolding refunded refund_stage_dispatch_charged_since_def
    by (rule within_budget_drop_newest [OF assms(2)]) (rule filter_is_subset)
next
  case (reset ticket now clear ticket')
  then show ?thesis using thinned_within [OF thinned_refresh [OF reset(2)]] assms(2) by simp
qed

lemma within_budget_empty:
  "lg_artifacts L = [] \<Longrightarrow> 0 \<le> rb_max_attempts_per_stage config \<Longrightarrow> within_budget config t k L"
  by (simp add: within_budget_def ledger_keyed_def budget_counts markers_def)

definition sample_budget_ticket :: Ticket where
  "sample_budget_ticket = (new_ticket ''t'')\<lparr>tk_state := TicketState.BLOCKED\<rparr>"

definition empty_ledger :: Ledger where
  "empty_ledger = \<lparr>lg_artifacts = [], lg_runs = [], lg_fanouts = []\<rparr>"

definition sample_machine :: Machine where
  "sample_machine = \<lparr>mc_now = microseconds (7 * 60 * 60), mc_pid_alive = \<lambda>_. False, mc_agent_alive = \<lambda>_. False\<rparr>"

section \<open>Properties\<close>

text \<open>C7: However dispatches by the orchestrator's loop, starts by anybody else (forced or not),
  refunds and resets of one stage are interleaved, with the budget enabled the stage never
  holds more charged dispatches than its budget plus the number of forced overrides on record,
  and never more free re-routed dispatches than its budget.\<close>

theorem breaker_bounds:
  assumes "(budget_step config t k)\<^sup>*\<^sup>* L L'"
    and "within_budget config t k L"
    and "rb_enabled config" and "1 \<le> rb_max_attempts_per_stage config" and "k \<noteq> []"
  shows "count_stage_dispatches L' t k \<le> rb_max_attempts_per_stage config + override_count L' t k
    \<and> reroute_grants L' t k \<le> rb_max_attempts_per_stage config"
proof -
  from assms(1) have "within_budget config t k L'"
    by (induction rule: rtranclp_induct) (use assms(2-) budget_step_within in auto)
  then show ?thesis by (simp add: within_budget_def)
qed

definition spent_ledger :: Ledger where
  "spent_ledger = record_stage_dispatch ''d1'' 0 empty_ledger ''t'' ''dev''"

theorem breaker_bounds_witness:
  "count_stage_dispatches spent_ledger ''t'' ''dev''
     \<le> rb_max_attempts_per_stage (default_budget\<lparr>rb_max_attempts_per_stage := 1\<rparr>)
       + override_count spent_ledger ''t'' ''dev''
   \<and> reroute_grants spent_ledger ''t'' ''dev''
     \<le> rb_max_attempts_per_stage (default_budget\<lparr>rb_max_attempts_per_stage := 1\<rparr>)"
proof (rule breaker_bounds [of _ "''t''" "''dev''" empty_ledger])
  let ?c = "default_budget\<lparr>rb_max_attempts_per_stage := 1\<rparr>"
  have "fst (enforce_stage_retry_budget ''d1'' 0 empty_ledger sample_budget_ticket ''dev'' ?c) = spent_ledger"
    by code_simp
  moreover have "budget_step ?c ''t'' ''dev'' empty_ledger
      (fst (enforce_stage_retry_budget ''d1'' 0 empty_ledger sample_budget_ticket ''dev'' ?c))"
    by (rule budget_step.looped) (simp_all add: fresh_id_def empty_ledger_def sample_budget_ticket_def new_ticket_def)
  ultimately show "(budget_step ?c ''t'' ''dev'')\<^sup>*\<^sup>* empty_ledger spent_ledger" by auto
qed (simp_all add: within_budget_empty empty_ledger_def default_budget_def)

text \<open>C33: A start, not forced, of a stage whose budget is spent, on a ticket that is blocked: when
  the block is the breaker's own the start is the decision that resets it, so it goes through,
  the stage is left with the one dispatch it just made and no block mark, and the ticket is
  cleared (and in progress, unless its state is locked); when something else blocked the ticket
  the counter is not reset and the start is refused with the budget's message and changes
  nothing.\<close>

theorem blocked_start_decided:
  assumes "tk_state ticket = TicketState.BLOCKED" and "tk_scope_reroute_agent ticket = []" and "k \<noteq> []"
    and "rb_enabled config" and "rb_max_attempts_per_stage config \<le> count_stage_dispatches L (tk_id ticket) k"
    and "map_of stage_map k \<noteq> Some StageStatus.RUNNING" and "\<And>u. resolve u = Inr agent"
  shows "case start_charged m (Some (Inr config)) resolve i j forced_at L ticket k stage_map False False surface of
      ((L', ticket'), Inr _) \<Rightarrow> blocked_on_stage_retry_budget L ticket k
        \<and> count_stage_dispatches L' (tk_id ticket) k = 1
        \<and> \<not> blocked_on_stage_retry_budget L' ticket' k
        \<and> tk_blocking_issues ticket' = []
        \<and> tk_state ticket' = (if tk_state_locked ticket then TicketState.BLOCKED else TicketState.IN_PROGRESS)
    | ((L', ticket'), Inl e) \<Rightarrow> \<not> blocked_on_stage_retry_budget L ticket k
        \<and> L' = L \<and> ticket' = ticket
        \<and> e = StageRetryBudgetExceeded (stage_retry_refusal_message k
                (count_stage_dispatches L (tk_id ticket) k) (rb_max_attempts_per_stage config))"
proof -
  let ?b = "blocked_on_stage_retry_budget L ticket k"
  let ?fresh = "ticket\<lparr>tk_blocking_issues := []\<rparr>"
  let ?L1 = "fst (clear_transient_retries (fst (clear_stage_dispatches L (tk_id ticket) k)) (tk_id ticket) k)"
  let ?L2 = "fst (clear_stage_retry_block ?L1 (tk_id ticket) k)"
  have pending: "stage_start_clears_budget L ticket k stage_map = ?b"
    by (simp add: stage_start_clears_budget_def assms(1))
  have state: "stage_retry_budget_state L ticket k config =
      \<lparr>bs_exempt = False, bs_attempts = count_stage_dispatches L (tk_id ticket) k, bs_at_budget = True\<rparr>"
    by (simp add: stage_retry_budget_state_def reroute_exempt_def assms)
  have eval: "evaluate_standalone_stage_dispatch m (Some (Inr config)) L ticket k
      (map_of stage_map k = Some StageStatus.RUNNING) False p
      = (if p then Inr \<lparr>dd_counts = True, dd_forced = False, dd_exempt_reroute = False\<rparr>
         else Inl (StageRetryBudgetExceeded (stage_retry_refusal_message k
                (count_stage_dispatches L (tk_id ticket) k) (rb_max_attempts_per_stage config))))" for p
    using assms(6)
    by (simp add: evaluate_standalone_stage_dispatch_def dispatch_pass_open_def Let_def state
        resolve_stage_retry_budget_def)
  show ?thesis
  proof (cases ?b)
    case False
    then show ?thesis by (simp add: start_charged_def pending eval Let_def bind_result_def)
  next
    case True
    have mark: "blocked_on_stage_retry_budget ?L1 ?fresh k"
      using True by (simp add: blocked_on_stage_retry_budget_def clear_transient_retries_def clear_stage_dispatches_eq)
    obtain session' where chosen: "choose_state (mc_now m) None ?fresh TicketState.IN_PROGRESS ''human'' False
        = Inr (session', fst (write_state (mc_now m) ?fresh TicketState.IN_PROGRESS ''human''),
            snd (write_state (mc_now m) ?fresh TicketState.IN_PROGRESS ''human''))"
      using choose_state_accepts [of ?fresh TicketState.IN_PROGRESS "mc_now m" None "''human''" False]
      by (auto simp: assms(1) can_choose_def)
    obtain ticket' where prep: "prepare_stage_start (mc_now m) L ticket k stage_map True = Inr (?L2, ticket')"
      and t': "tk_id ticket' = tk_id ticket" "tk_blocking_issues ticket' = []"
        "tk_state ticket' = (if tk_state_locked ticket then TicketState.BLOCKED else TicketState.IN_PROGRESS)"
      using mark chosen assms(1,3)
      by (cases "tk_state_locked ticket")
        (auto simp: prepare_stage_start_def refresh_stage_retry_budget_def Let_def write_state_def)
    have "count_stage_dispatches ?L2 (tk_id ticket) k = 0"
      "markers ?L2 (tk_id ticket) RETRY_BLOCK_KIND (block_title k) = []"
      by (simp_all add: budget_counts clear_stage_retry_block_def clear_transient_retries_def clear_stage_dispatches_eq)
    moreover have "markers (record_stage_dispatch i (mc_now m) L2 t k) t RETRY_BLOCK_KIND title
        = markers L2 t RETRY_BLOCK_KIND title" for L2 t title
      by (simp add: record_stage_dispatch_def)
    ultimately show ?thesis
      using True t'
      by (simp add: start_charged_def pending eval Let_def prep assms(7) bind_result_def commit_standalone_stage_dispatch_def
          blocked_on_stage_retry_budget_def)
  qed
qed

definition blocked_ledger :: Ledger where
  "blocked_ledger = record_stage_retry_block ''b'' 1 spent_ledger ''t'' ''dev''"

theorem blocked_start_decided_witness:
  "case start_charged sample_machine (Some (Inr (default_budget\<lparr>rb_max_attempts_per_stage := 1\<rparr>)))
       (\<lambda>_. Inr ''dev-agent'') ''i'' ''j'' ''now'' blocked_ledger sample_budget_ticket ''dev'' [] False False HTTP of
      ((L', ticket'), Inr _) \<Rightarrow> blocked_on_stage_retry_budget blocked_ledger sample_budget_ticket ''dev''
        \<and> count_stage_dispatches L' (tk_id sample_budget_ticket) ''dev'' = 1
        \<and> \<not> blocked_on_stage_retry_budget L' ticket' ''dev''
        \<and> tk_blocking_issues ticket' = []
        \<and> tk_state ticket' = (if tk_state_locked sample_budget_ticket then TicketState.BLOCKED
            else TicketState.IN_PROGRESS)
    | ((L', ticket'), Inl e) \<Rightarrow> \<not> blocked_on_stage_retry_budget blocked_ledger sample_budget_ticket ''dev''
        \<and> L' = blocked_ledger \<and> ticket' = sample_budget_ticket
        \<and> e = StageRetryBudgetExceeded (stage_retry_refusal_message ''dev''
                (count_stage_dispatches blocked_ledger (tk_id sample_budget_ticket) ''dev'')
                (rb_max_attempts_per_stage (default_budget\<lparr>rb_max_attempts_per_stage := 1\<rparr>)))"
proof (rule blocked_start_decided)
  have "count_stage_dispatches blocked_ledger ''t'' ''dev'' = 1" by code_simp
  then show "rb_max_attempts_per_stage (default_budget\<lparr>rb_max_attempts_per_stage := 1\<rparr>)
      \<le> count_stage_dispatches blocked_ledger (tk_id sample_budget_ticket) ''dev''"
    by (simp add: sample_budget_ticket_def new_ticket_def)
qed (simp_all add: sample_budget_ticket_def new_ticket_def default_budget_def)

text \<open>A pass that the orchestrator lets through and that turns out to have bought nothing gives
  back what it took: handed the marker ids from before the dispatch, the refund restores the
  ledger exactly and reports one row when the dispatch was charged; when the dispatch went
  through as a free re-route it reports zero and leaves the ledger as it is.\<close>

theorem refund_returns_charge:
  assumes "ledger_keyed L" and "fresh_id L i"
    and "enforce_stage_retry_budget i now L ticket k config = (L', None)"
  shows "refund_stage_dispatch_charged_since L' (tk_id ticket) k (stage_dispatch_marker_ids L (tk_id ticket) k)
    = (if reroute_exempt L ticket k (rb_max_attempts_per_stage config) then (L', 0) else (L, 1))"
proof (cases "reroute_exempt L ticket k (rb_max_attempts_per_stage config)")
  case True
  then have "dispatch_markers L' (tk_id ticket) k = dispatch_markers L (tk_id ticket) k"
    using assms(3) by (auto simp: enforce_stage_retry_budget_def stage_retry_budget_state_def Let_def
        record_reroute_exempt_dispatch_def dispatch_markers_def)
  then show ?thesis
    using True by (simp add: refund_stage_dispatch_charged_since_def stage_dispatch_marker_ids_def drop_newest_def)
next
  case False
  let ?row = "\<lparr>ar_id = i, ar_ticket_id = tk_id ticket, ar_kind = DISPATCH_KIND,
    ar_title = stage_dispatch_artifact_title k, ar_content = Doc (JObj []), ar_created_at = now\<rparr>"
  from False assms(3) have L': "L' = L\<lparr>lg_artifacts := lg_artifacts L @ [?row]\<rparr>"
    by (auto simp: enforce_stage_retry_budget_def stage_retry_budget_state_def Let_def
        record_stage_dispatch_def add_marker_def split: if_splits)
  have fresh: "i \<notin> ar_id ` set (lg_artifacts L)" using assms(2) by (simp add: fresh_id_def)
  then have "filter (\<lambda>row. ar_id row \<notin> set (stage_dispatch_marker_ids L (tk_id ticket) k))
      (dispatch_markers L' (tk_id ticket) k) = [?row]"
    by (auto simp: L' dispatch_markers_def markers_def is_marker_def stage_dispatch_marker_ids_def filter_empty_conv)
  moreover have "filter (\<lambda>r. ar_id r \<noteq> i) (lg_artifacts L) = lg_artifacts L"
    using fresh by (auto simp: filter_id_conv)
  ultimately show ?thesis
    using False by (simp add: refund_stage_dispatch_charged_since_def drop_newest_def L')
qed

theorem refund_returns_charge_witness:
  "refund_stage_dispatch_charged_since spent_ledger (tk_id sample_budget_ticket) ''dev''
     (stage_dispatch_marker_ids empty_ledger (tk_id sample_budget_ticket) ''dev'')
   = (if reroute_exempt empty_ledger sample_budget_ticket ''dev'' (rb_max_attempts_per_stage default_budget)
      then (spent_ledger, 0) else (empty_ledger, 1))"
proof (rule refund_returns_charge)
  show "enforce_stage_retry_budget ''d1'' 0 empty_ledger sample_budget_ticket ''dev'' default_budget
      = (spent_ledger, None)" by code_simp
qed (simp_all add: ledger_keyed_def fresh_id_def empty_ledger_def)

text \<open>A stage whose process died cannot hold its dispatch pass open for ever: when every
  \<open>RUNNING\<close> run of the stage is stranded (its handed-off process is dead, or it has no such
  process, no live agent, and was last seen more than six hours ago) and no fan-out of it is
  pending, the pass is closed, so the next start is decided by the budget.\<close>

theorem stranded_pass_closes:
  assumes "\<And>run. run \<in> set (lg_runs L) \<Longrightarrow> rn_ticket_id run = Some ticket_id \<Longrightarrow> rn_stage_key run = k \<Longrightarrow>
      rn_status run = RUNNING \<Longrightarrow>
      (case rn_handoff_pid run of Some pid \<Rightarrow> \<not> mc_pid_alive m pid
       | None \<Rightarrow> \<not> mc_agent_alive m run \<and>
           (case run_stamp run of None \<Rightarrow> False | Some s \<Rightarrow> mc_now m - s > NO_RENEWER_DISPATCH_CEILING))"
    and "\<And>g. g \<in> set (lg_fanouts L) \<Longrightarrow> fg_ticket_id g = ticket_id \<Longrightarrow> fg_stage_key g = k \<Longrightarrow> \<not> fg_pending g"
  shows "\<not> dispatch_pass_open m L ticket_id k running"
proof -
  have ceiling: "AGENT_RUN_LEASE < NO_RENEWER_DISPATCH_CEILING"
    by (simp add: AGENT_RUN_LEASE_def NO_RENEWER_DISPATCH_CEILING_def microseconds_def)
  have "\<not> is_live_dispatch_evidence m run"
    if "run \<in> set (lg_runs L)" "rn_ticket_id run = Some ticket_id" "rn_stage_key run = k" "rn_status run = RUNNING"
    for run
    using assms(1) [OF that] that(4) ceiling
    by (cases "run_has_renewer run")
      (auto simp: is_live_dispatch_evidence_def agent_run_lease_expired_def SUPERVISED_def split: option.splits)
  with assms(2) show ?thesis
    by (auto simp: dispatch_pass_open_def list_ex_iff)
qed

definition stranded_run :: AgentRun where
  "stranded_run = \<lparr>rn_id = ''r'', rn_ticket_id = Some ''t'', rn_stage_key = ''dev'', rn_status = RUNNING,
     rn_external_harness = Some ''codex'', rn_handoff_pid = None, rn_agent_pid = None, rn_last_seen_at = None,
     rn_started_at = Some 0, rn_created_at = Some 0, rn_orchestration_run_id = None, rn_finished_at = None,
     rn_stderr = [], rn_workspace_id = None, rn_agent_id = [], rn_agent_version = None, rn_skill_name = [],
     rn_auto_approve = False, rn_timeout_override_seconds = None, rn_dispatch_waiver_approval_id = []\<rparr>"

theorem stranded_pass_closes_witness:
  "\<not> dispatch_pass_open sample_machine (empty_ledger\<lparr>lg_runs := [stranded_run]\<rparr>) ''t'' ''dev'' True"
proof (rule stranded_pass_closes)
  fix run assume "run \<in> set (lg_runs (empty_ledger\<lparr>lg_runs := [stranded_run]\<rparr>))"
  then have "run = stranded_run" by simp
  then show "case rn_handoff_pid run of Some pid \<Rightarrow> \<not> mc_pid_alive sample_machine pid
       | None \<Rightarrow> \<not> mc_agent_alive sample_machine run \<and>
           (case run_stamp run of None \<Rightarrow> False
            | Some s \<Rightarrow> mc_now sample_machine - s > NO_RENEWER_DISPATCH_CEILING)"
    by (simp add: stranded_run_def sample_machine_def run_stamp_def NO_RENEWER_DISPATCH_CEILING_def microseconds_def)
qed (simp add: empty_ledger_def)

end
