(* ===== verification/PassHolds.thy ===== *)
theory PassHolds
  imports RetryBudget
begin

text \<open>
  The two records a passing run can be held for: \<open>services/ux_answers.py\<close> (what a user-facing
  change is for) and \<open>services/fix_coverage.py\<close> (how a bug's fix covers the bad state), with the
  validators that decide what counts as an answer. A stored record is JSON read back and
  validated: an object of known fields with text values, trimmed, then judged by the rules.
  The words pydantic puts around a refusal are an argument (\<open>excuse\<close>).
\<close>

section \<open>Answers\<close>

text \<open>pydantic's trimming removes Unicode white space, which leaves the separators 28 to 31.\<close>

definition is_white :: "char \<Rightarrow> bool" where
  "is_white c = (let n = code_point c in (9 \<le> n \<and> n \<le> 13) \<or> n = 32 \<or> n = 133 \<or> n = 160)"

definition trim :: "string \<Rightarrow> string" where
  "trim s = rev (dropWhile is_white (rev (dropWhile is_white s)))"

definition MIN_ANSWER :: nat where "MIN_ANSWER = 10"
definition MIN_WAIVER :: nat where "MIN_WAIVER = 20"

definition answered :: "string \<Rightarrow> nat \<Rightarrow> bool" where
  "answered value minimum \<longleftrightarrow> minimum \<le> length value \<and> \<not> starts_with value ''<''"

definition has_newline :: "string \<Rightarrow> bool" where
  "has_newline s \<longleftrightarrow> list_ex (\<lambda>c. code_point c = 10) s"

text \<open>A field of the stored object: absent is the default, anything but text is refused.\<close>

definition text_field :: "(string, json) dict \<Rightarrow> string \<Rightarrow> string option" where
  "text_field obj name =
     (case map_of obj name of
        None \<Rightarrow> Some []
      | Some (JStr s) \<Rightarrow> Some (trim s)
      | Some _ \<Rightarrow> None)"

definition only_fields :: "(string, json) dict \<Rightarrow> string list \<Rightarrow> bool" where
  "only_fields obj names \<longleftrightarrow> list_all (\<lambda>k. k \<in> set names) (map fst obj)"

section \<open>UX answers\<close>

record UxAnswers =
  ux_question :: string
  ux_action :: string
  ux_real_data :: string
  ux_no_change_reason :: string

definition as_the_check_reads_ux :: "UxAnswers \<Rightarrow> UxAnswers result" where
  "as_the_check_reads_ux a =
     (if list_ex has_newline [ux_question a, ux_action a, ux_real_data a, ux_no_change_reason a]
      then Inl (ValueError ''each answer is one line; the PR section reads a field to its line end'')
      else if ux_no_change_reason a \<noteq> []
      then (if ux_question a \<noteq> [] \<or> ux_action a \<noteq> [] \<or> ux_real_data a \<noteq> []
            then Inl (ValueError ''give either question, action and real_data, or no_change_reason, not both'')
            else if \<not> answered (ux_no_change_reason a) MIN_WAIVER
            then Inl (ValueError ''no_change_reason needs a real reason (20+ characters, not a placeholder)'')
            else Inr a)
      else
        (case find (\<lambda>(name, value). \<not> answered value MIN_ANSWER)
            [(''question'', ux_question a), (''action'', ux_action a), (''real_data'', ux_real_data a)] of
           Some (name, _) \<Rightarrow> Inl (ValueError (name @ '' is missing or a placeholder (10+ characters); ''
             @ ''or give no_change_reason instead of all three''))
         | None \<Rightarrow>
             if \<not> list_ex is_digit (ux_real_data a)
             then Inl (ValueError (''real_data has no number in it: say what the sandbox showed (how many rows, the ''
                    @ ''largest case), not that it looked fine''))
             else Inr a))"

definition validate_ux :: "json \<Rightarrow> UxAnswers option" where
  "validate_ux v =
     (case v of
        JObj obj \<Rightarrow>
          if \<not> only_fields obj [''question'', ''action'', ''real_data'', ''no_change_reason''] then None
          else
            (case (text_field obj ''question'', text_field obj ''action'', text_field obj ''real_data'',
                text_field obj ''no_change_reason'') of
               (Some q, Some a, Some r, Some n) \<Rightarrow>
                 (case as_the_check_reads_ux \<lparr>ux_question = q, ux_action = a, ux_real_data = r,
                      ux_no_change_reason = n\<rparr> of
                    Inr answers \<Rightarrow> Some answers | Inl _ \<Rightarrow> None)
             | _ \<Rightarrow> None)
      | _ \<Rightarrow> None)"

definition ux_lines :: "UxAnswers \<Rightarrow> string list" where
  "ux_lines a =
     (if ux_no_change_reason a \<noteq> [] then [''- **No user-visible change:** '' @ ux_no_change_reason a]
      else [''- **Question:** '' @ ux_question a, ''- **Action:** '' @ ux_action a,
            ''- **Real data:** '' @ ux_real_data a])"

text \<open>The stored JSON text, with an empty column read as an empty object.\<close>

definition loads_or_object :: "json_text \<Rightarrow> json option" where
  "loads_or_object t = (case t of Blank \<Rightarrow> Some (JObj []) | Malformed \<Rightarrow> None | Doc v \<Rightarrow> Some v)"

text \<open>The newest row of a kind on a ticket, the first of them when two share an instant.\<close>

definition newest_of_kind :: "Ledger \<Rightarrow> string \<Rightarrow> string \<Rightarrow> Artifact option" where
  "newest_of_kind L ticket_id kind =
     (case filter (\<lambda>row. ar_ticket_id row = ticket_id \<and> ar_kind row = kind) (lg_artifacts L) of
        [] \<Rightarrow> None
      | row # rows \<Rightarrow> Some (max_by ar_created_at row rows))"

definition UX_ANSWERS :: string where "UX_ANSWERS = ''ux_answers''"
definition FIX_COVERAGE :: string where "FIX_COVERAGE = ''fix_coverage''"
definition UI_DESIGN_AGENT_ID :: string where "UI_DESIGN_AGENT_ID = ''ui-design-decision''"
definition SPEC_AGENT_ID :: string where "SPEC_AGENT_ID = ''spec''"

definition latest_ux_answers :: "(Artifact \<Rightarrow> string) \<Rightarrow> Ledger \<Rightarrow> Ticket \<Rightarrow> UxAnswers option result" where
  "latest_ux_answers excuse L ticket =
     (case newest_of_kind L (tk_id ticket) UX_ANSWERS of
        None \<Rightarrow> Inr None
      | Some artifact \<Rightarrow>
          (case Option.bind (loads_or_object (ar_content artifact)) validate_ux of
             Some answers \<Rightarrow> Inr (Some answers)
           | None \<Rightarrow> Inl (ValueError (tk_external_id ticket @ [char_of (39::nat)] @ ''s recorded UX answers (''
               @ ar_id artifact @ '') no longer validate: '' @ excuse artifact))))"

definition missing_ux_answers :: "(Artifact \<Rightarrow> string) \<Rightarrow> Ledger \<Rightarrow> Ticket \<Rightarrow> string \<Rightarrow> string" where
  "missing_ux_answers excuse L ticket agent_id =
     (if agent_id \<noteq> UI_DESIGN_AGENT_ID then []
      else
        (let advice = (\<lambda>problem. let q = [char_of (39::nat)] in problem
               @ '', and this stage cannot pass without them: the ticket'' @ q @ ''s PR builds its '' @ q
               @ ''User-facing surfaces'' @ q @ '' section from them. Call `loregarden_record_ux_answers` with ''
               @ ''question, action and real_data, or with no_change_reason when nobody can see the ''
               @ ''change, then report pass again.'')
         in case latest_ux_answers excuse L ticket of
              Inr (Some _) \<Rightarrow> []
            | Inr None \<Rightarrow> advice (''No UX answers are recorded for '' @ tk_external_id ticket)
            | Inl (ValueError problem) \<Rightarrow> advice problem
            | Inl _ \<Rightarrow> advice []))"

section \<open>Fix coverage\<close>

record FixCoverage =
  fc_existing :: string
  fc_reentry :: string
  fc_prevention :: string
  fc_learning :: string
  fc_not_a_state_bug :: string

definition NO_DETECTOR :: string where "NO_DETECTOR = ''no detector:''"

definition is_name_char :: "char \<Rightarrow> bool" where
  "is_name_char c \<longleftrightarrow> is_lower_alnum c \<or> c = CHR ''_''"

text \<open>\<open>`([a-z][a-z0-9_]*)`\<close> at the front of a text: the name, and what follows.\<close>

definition backticked_at :: "string \<Rightarrow> (string \<times> string) option" where
  "backticked_at s =
     (case s of
        [] \<Rightarrow> None
      | c # s \<Rightarrow>
          (let name = takeWhile is_name_char s; rest = dropWhile is_name_char s in
           if c = CHR ''`'' \<and> name \<noteq> [] \<and> \<not> is_digit (hd name) \<and> hd name \<noteq> CHR ''_''
              \<and> rest \<noteq> [] \<and> hd rest = CHR ''`''
           then Some (name, tl rest) else None))"

function backticked_names :: "string \<Rightarrow> string list" where
  "backticked_names [] = []"
| "backticked_names (c # s) =
     (case backticked_at (c # s) of
        Some (name, rest) \<Rightarrow> name # backticked_names rest
      | None \<Rightarrow> backticked_names s)"
  by pat_completeness auto
termination
proof (relation "measure length")
  fix c s x name rest assume "backticked_at (c # s) = Some x" "(name, rest) = x"
  then have "rest = tl (dropWhile is_name_char s)"
    by (auto simp: backticked_at_def Let_def split: if_splits)
  then show "(rest, c # s) \<in> measure length"
    using length_dropWhile_le [of is_name_char s] by simp
qed auto

definition is_path_ref_char :: "char \<Rightarrow> bool" where
  "is_path_ref_char c \<longleftrightarrow> is_word_char c \<or> c \<in> {CHR ''.'', CHR ''/'', CHR ''-''}"

text \<open>\<open>[\w./-]+\.py::test_\w+\<close> somewhere in a text.\<close>

definition test_follows :: "string \<Rightarrow> bool" where
  "test_follows s \<longleftrightarrow> starts_with s ''.py::test_''
     \<and> (case drop (length ''.py::test_'') s of [] \<Rightarrow> False | c # _ \<Rightarrow> is_word_char c)"

fun names_a_test :: "string \<Rightarrow> bool" where
  "names_a_test [] = False"
| "names_a_test (c # s) = (is_path_ref_char c \<and> test_follows s \<or> names_a_test s)"

definition check_reentry :: "string \<Rightarrow> unit result" where
  "check_reentry reentry =
     (let q = [char_of (39::nat)] in
      if starts_with (lower reentry) NO_DETECTOR
      then (if \<not> answered (strip (drop (length NO_DETECTOR) reentry)) MIN_WAIVER
            then Inl (ValueError (''reentry '' @ q @ NO_DETECTOR @ q @ '' needs a real reason (20+ characters)''))
            else Inr ())
      else if backticked_names reentry = []
      then Inl (ValueError (''reentry names no invariant: put its name (as it is or will be registered in ''
             @ ''services/invariant_registry.py) in backticks, or write '' @ q @ NO_DETECTOR @ '' <reason>'' @ q))
      else Inr ())"

definition as_the_check_reads_fix :: "FixCoverage \<Rightarrow> FixCoverage result" where
  "as_the_check_reads_fix a =
     (let answers = [(''existing'', fc_existing a), (''reentry'', fc_reentry a),
            (''prevention'', fc_prevention a), (''learning'', fc_learning a)] in
      if list_ex has_newline (map snd answers @ [fc_not_a_state_bug a])
      then Inl (ValueError ''each answer is one line; the PR section reads a field to its line end'')
      else if fc_not_a_state_bug a \<noteq> []
      then (if list_ex (\<lambda>(_, value). value \<noteq> []) answers
            then Inl (ValueError ''give either the four answers or not_a_state_bug, not both'')
            else if \<not> answered (fc_not_a_state_bug a) MIN_WAIVER
            then Inl (ValueError ''not_a_state_bug needs a real reason (20+ characters, not a placeholder)'')
            else Inr a)
      else
        (case find (\<lambda>(name, value). \<not> answered value MIN_ANSWER) answers of
           Some (name, _) \<Rightarrow> Inl (ValueError (name @ '' is missing or a placeholder (10+ characters); ''
             @ ''or give not_a_state_bug instead of all four''))
         | None \<Rightarrow>
             bind_result (check_reentry (fc_reentry a)) (\<lambda>_.
               if \<not> names_a_test (fc_prevention a)
               then Inl (ValueError ''prevention names no test: give it as `path/to/test_file.py::test_name`'')
               else Inr a)))"

definition validate_fix :: "json \<Rightarrow> FixCoverage option" where
  "validate_fix v =
     (case v of
        JObj obj \<Rightarrow>
          if \<not> only_fields obj [''existing'', ''reentry'', ''prevention'', ''learning'', ''not_a_state_bug''] then None
          else
            (case (text_field obj ''existing'', text_field obj ''reentry'', text_field obj ''prevention'',
                text_field obj ''learning'', text_field obj ''not_a_state_bug'') of
               (Some e, Some r, Some p, Some l, Some n) \<Rightarrow>
                 (case as_the_check_reads_fix \<lparr>fc_existing = e, fc_reentry = r, fc_prevention = p,
                      fc_learning = l, fc_not_a_state_bug = n\<rparr> of
                    Inr answers \<Rightarrow> Some answers | Inl _ \<Rightarrow> None)
             | _ \<Rightarrow> None)
      | _ \<Rightarrow> None)"

definition fix_invariants :: "FixCoverage \<Rightarrow> string list" where
  "fix_invariants a = backticked_names (fc_reentry a)"

definition fix_lines :: "FixCoverage \<Rightarrow> string list" where
  "fix_lines a =
     (if fc_not_a_state_bug a \<noteq> [] then [''- **Not a state bug:** '' @ fc_not_a_state_bug a]
      else [''- **Existing:** '' @ fc_existing a, ''- **Re-entry:** '' @ fc_reentry a,
            ''- **Prevention:** '' @ fc_prevention a, ''- **Learning:** '' @ fc_learning a])"

definition needs_fix_coverage :: "Ticket \<Rightarrow> bool" where
  "needs_fix_coverage ticket \<longleftrightarrow> tk_work_item_type ticket = BUG"

definition latest_fix_coverage :: "(Artifact \<Rightarrow> string) \<Rightarrow> Ledger \<Rightarrow> Ticket \<Rightarrow> FixCoverage option result" where
  "latest_fix_coverage excuse L ticket =
     (case newest_of_kind L (tk_id ticket) FIX_COVERAGE of
        None \<Rightarrow> Inr None
      | Some artifact \<Rightarrow>
          (case Option.bind (loads_or_object (ar_content artifact)) validate_fix of
             Some answers \<Rightarrow> Inr (Some answers)
           | None \<Rightarrow> Inl (ValueError (tk_external_id ticket @ [char_of (39::nat)] @ ''s recorded fix coverage (''
               @ ar_id artifact @ '') no longer validates: '' @ excuse artifact))))"

definition missing_fix_coverage :: "(Artifact \<Rightarrow> string) \<Rightarrow> Ledger \<Rightarrow> Ticket \<Rightarrow> string \<Rightarrow> string" where
  "missing_fix_coverage excuse L ticket agent_id =
     (if agent_id \<noteq> SPEC_AGENT_ID \<or> \<not> needs_fix_coverage ticket then []
      else
        (let advice = (\<lambda>problem. problem
               @ '', and this stage cannot pass without it. Decide how the fix covers the ''
               @ ''whole state: existing (how rows already in it are found and repaired, or the query ''
               @ ''showing none), reentry (the invariant that will catch it coming back, in backticks), ''
               @ ''prevention (the test proving it cannot be entered, as path::test_name) and learning ''
               @ ''(why it was reachable). Write each as an acceptance criterion, call ''
               @ ''`loregarden_record_fix_coverage` with them (or with not_a_state_bug when the fix leaves no state ''
               @ ''behind), then report pass again.'')
         in case latest_fix_coverage excuse L ticket of
              Inr (Some _) \<Rightarrow> []
            | Inr None \<Rightarrow> advice (''No fix coverage is recorded for bug '' @ tk_external_id ticket)
            | Inl (ValueError problem) \<Rightarrow> advice problem
            | Inl _ \<Rightarrow> advice []))"

section \<open>Recording\<close>

text \<open>\<open>OrchestrationCallbackService.attach_artifact\<close>, for kinds that are not the unresolved ledger's.\<close>

definition attach_artifact :: "string \<Rightarrow> int \<Rightarrow> Ledger \<Rightarrow> Ticket \<Rightarrow> string \<Rightarrow> string \<Rightarrow> json \<Rightarrow> Ledger" where
  "attach_artifact new_id now L ticket kind title content =
     add_marker new_id now L (tk_id ticket) kind title (Doc content)"

text \<open>\<open>arguments.get(name) or ""\<close>.\<close>

definition argument :: "(string, json) dict \<Rightarrow> string \<Rightarrow> json" where
  "argument arguments name =
     (case map_of arguments name of Some v \<Rightarrow> if json_truthy v then v else JStr [] | None \<Rightarrow> JStr [])"

definition UX_FIELDS :: "string list" where
  "UX_FIELDS = [''question'', ''action'', ''real_data'', ''no_change_reason'']"

definition FIX_FIELDS :: "string list" where
  "FIX_FIELDS = [''existing'', ''reentry'', ''prevention'', ''learning'', ''not_a_state_bug'']"

definition dump_ux :: "UxAnswers \<Rightarrow> json" where
  "dump_ux a = JObj [(''question'', JStr (ux_question a)), (''action'', JStr (ux_action a)),
     (''real_data'', JStr (ux_real_data a)), (''no_change_reason'', JStr (ux_no_change_reason a))]"

definition dump_fix :: "FixCoverage \<Rightarrow> json" where
  "dump_fix a = JObj [(''existing'', JStr (fc_existing a)), (''reentry'', JStr (fc_reentry a)),
     (''prevention'', JStr (fc_prevention a)), (''learning'', JStr (fc_learning a)),
     (''not_a_state_bug'', JStr (fc_not_a_state_bug a))]"

text \<open>The tools. A refusal carries pydantic's reasons, here left out of the message.\<close>

definition record_ux_answers ::
    "string \<Rightarrow> int \<Rightarrow> Ledger \<Rightarrow> Ticket \<Rightarrow> (string, json) dict \<Rightarrow> Ledger result" where
  "record_ux_answers new_id now L ticket arguments =
     (case validate_ux (JObj (map (\<lambda>name. (name, argument arguments name)) UX_FIELDS)) of
        None \<Rightarrow> Inl (ValueError (''UX answers for '' @ tk_external_id ticket @ '' not recorded''))
      | Some answers \<Rightarrow> Inr (attach_artifact new_id now L ticket UX_ANSWERS ''UX answers'' (dump_ux answers)))"

text \<open>The learning is also appended to the memory store, which is outside the model; \<open>has_workspace\<close> says
  whether the ticket has a workspace to append it in.\<close>

definition record_fix_coverage ::
    "string \<Rightarrow> int \<Rightarrow> bool \<Rightarrow> Ledger \<Rightarrow> Ticket \<Rightarrow> (string, json) dict \<Rightarrow> Ledger result" where
  "record_fix_coverage new_id now has_workspace L ticket arguments =
     (case validate_fix (JObj (map (\<lambda>name. (name, argument arguments name)) FIX_FIELDS)) of
        None \<Rightarrow> Inl (ValueError (''Fix coverage for '' @ tk_external_id ticket @ '' not recorded''))
      | Some coverage \<Rightarrow>
          if fc_learning coverage \<noteq> [] \<and> \<not> has_workspace
          then Inl (ValueError (tk_external_id ticket @ '' has no workspace to record its learning in''))
          else Inr (attach_artifact new_id now L ticket FIX_COVERAGE ''Fix coverage'' (dump_fix coverage)))"

section \<open>What is written is read back\<close>

lemma dropWhile_hd: "dropWhile P s = [] \<or> \<not> P (hd (dropWhile P s))"
  using hd_dropWhile [of P s] by blast

lemma dropWhile_id: "s = [] \<or> \<not> P (hd s) \<Longrightarrow> dropWhile P s = s"
  by (cases s) auto

lemma trim_fixed:
  assumes "s = [] \<or> (\<not> is_white (hd s) \<and> \<not> is_white (last s))"
  shows "trim s = s"
proof -
  have "dropWhile is_white s = s" "dropWhile is_white (rev s) = rev s"
    using assms by (intro dropWhile_id; auto simp: hd_rev)+
  then show ?thesis by (simp add: trim_def)
qed

lemma trim_trim [simp]: "trim (trim s) = trim s"
proof (rule trim_fixed)
  define t r where "t = dropWhile is_white s" and "r = dropWhile is_white (rev t)"
  have "last r = last (rev t)" if "r \<noteq> []"
    using that unfolding r_def by (metis last_appendR takeWhile_dropWhile_id)
  moreover have "t = [] \<or> \<not> is_white (hd t)" "r = [] \<or> \<not> is_white (hd r)"
    unfolding t_def r_def by (rule dropWhile_hd)+
  moreover have "t \<noteq> []" if "r \<noteq> []" using that by (auto simp: r_def)
  ultimately show "trim s = [] \<or> (\<not> is_white (hd (trim s)) \<and> \<not> is_white (last (trim s)))"
    by (simp add: trim_def t_def [symmetric] r_def [symmetric] hd_rev last_rev) auto
qed

lemma text_field_trimmed: "text_field obj name = Some s \<Longrightarrow> trim s = s"
  by (auto simp: text_field_def split: option.splits json.splits) (simp add: trim_def)

lemma judged_unchanged:
  "as_the_check_reads_ux a = Inr b \<Longrightarrow> b = a"
  "as_the_check_reads_fix c = Inr d \<Longrightarrow> d = c"
  by (auto simp: as_the_check_reads_ux_def as_the_check_reads_fix_def Let_def bind_result_Inr_iff
      split: if_splits option.splits)

lemma validated_ux:
  assumes "validate_ux v = Some a"
  shows "as_the_check_reads_ux a = Inr a" and "validate_ux (dump_ux a) = Some a"
proof -
  from assms obtain obj q c r n where v: "v = JObj obj"
      "text_field obj ''question'' = Some q" "text_field obj ''action'' = Some c"
      "text_field obj ''real_data'' = Some r" "text_field obj ''no_change_reason'' = Some n"
      "as_the_check_reads_ux \<lparr>ux_question = q, ux_action = c, ux_real_data = r, ux_no_change_reason = n\<rparr> = Inr a"
    by (auto simp: validate_ux_def split: json.splits if_splits option.splits sum.splits)
  note a = judged_unchanged(1) [OF v(6)]
  show judged: "as_the_check_reads_ux a = Inr a" using v(6) a by simp
  have "trim q = q" "trim c = c" "trim r = r" "trim n = n"
    using v(2-5) by (simp_all add: text_field_trimmed)
  with judged show "validate_ux (dump_ux a) = Some a"
    by (simp add: validate_ux_def dump_ux_def only_fields_def text_field_def a)
qed

lemma validated_fix:
  assumes "validate_fix v = Some a"
  shows "as_the_check_reads_fix a = Inr a" and "validate_fix (dump_fix a) = Some a"
proof -
  from assms obtain obj e r q l n where v: "v = JObj obj"
      "text_field obj ''existing'' = Some e" "text_field obj ''reentry'' = Some r"
      "text_field obj ''prevention'' = Some q" "text_field obj ''learning'' = Some l"
      "text_field obj ''not_a_state_bug'' = Some n"
      "as_the_check_reads_fix \<lparr>fc_existing = e, fc_reentry = r, fc_prevention = q, fc_learning = l,
         fc_not_a_state_bug = n\<rparr> = Inr a"
    by (auto simp: validate_fix_def split: json.splits if_splits option.splits sum.splits)
  note a = judged_unchanged(2) [OF v(7)]
  show judged: "as_the_check_reads_fix a = Inr a" using v(7) a by simp
  have "trim e = e" "trim r = r" "trim q = q" "trim l = l" "trim n = n"
    using v(2-6) by (simp_all add: text_field_trimmed)
  with judged show "validate_fix (dump_fix a) = Some a"
    by (simp add: validate_fix_def dump_fix_def only_fields_def text_field_def a)
qed

text \<open>A row written after every other of its kind is the newest.\<close>

lemma max_by_last:
  assumes "\<forall>y \<in> insert x (set ys). f y < f z"
  shows "max_by f x (ys @ [z]) = z"
  using assms by (induction ys arbitrary: x) (auto split: if_splits)

lemma newest_attached:
  assumes "\<And>row. row \<in> set (lg_artifacts L) \<Longrightarrow> ar_ticket_id row = tk_id ticket \<Longrightarrow> ar_kind row = kind \<Longrightarrow>
      ar_created_at row < now"
  shows "newest_of_kind (attach_artifact i now L ticket kind title content) (tk_id ticket) kind =
    Some \<lparr>ar_id = i, ar_ticket_id = tk_id ticket, ar_kind = kind, ar_title = title, ar_content = Doc content,
      ar_created_at = now\<rparr>"
proof -
  let ?row = "\<lparr>ar_id = i, ar_ticket_id = tk_id ticket, ar_kind = kind, ar_title = title,
    ar_content = Doc content, ar_created_at = now\<rparr>"
  define rows where "rows = filter (\<lambda>r. ar_ticket_id r = tk_id ticket \<and> ar_kind r = kind) (lg_artifacts L)"
  have older: "\<forall>r \<in> set rows. ar_created_at r < now" using assms by (auto simp: rows_def)
  have "filter (\<lambda>r. ar_ticket_id r = tk_id ticket \<and> ar_kind r = kind)
      (lg_artifacts (attach_artifact i now L ticket kind title content)) = rows @ [?row]"
    by (simp add: attach_artifact_def add_marker_def rows_def)
  then show ?thesis
    using max_by_last [of _ _ ar_created_at ?row] older
    by (cases rows) (simp_all add: newest_of_kind_def)
qed

section \<open>Properties\<close>

text \<open>Recording is what lifts the hold. When the tool accepts an agent's answers (its own fix
  coverage, or its UX answers) and no row of that kind is as new, the stored record reads back
  as the very answers that were accepted, whatever white space they were typed with, and a
  passing run of that ticket is no longer held for them.\<close>

theorem recording_lifts_hold:
  assumes "record_ux_answers i now L ticket arguments = Inr L'"
    and "record_fix_coverage j now' has_workspace M ticket arguments' = Inr M'"
    and "\<And>row. row \<in> set (lg_artifacts L) \<Longrightarrow> ar_created_at row < now"
    and "\<And>row. row \<in> set (lg_artifacts M) \<Longrightarrow> ar_created_at row < now'"
  shows "missing_ux_answers excuse L' ticket agent = []
    \<and> missing_fix_coverage excuse M' ticket agent = []
    \<and> latest_ux_answers excuse L' ticket
        = Inr (validate_ux (JObj (map (\<lambda>name. (name, argument arguments name)) UX_FIELDS)))
    \<and> latest_fix_coverage excuse M' ticket
        = Inr (validate_fix (JObj (map (\<lambda>name. (name, argument arguments' name)) FIX_FIELDS)))"
proof -
  from assms(1) obtain a where
    a: "validate_ux (JObj (map (\<lambda>name. (name, argument arguments name)) UX_FIELDS)) = Some a"
    and L': "L' = attach_artifact i now L ticket UX_ANSWERS ''UX answers'' (dump_ux a)"
    by (auto simp: record_ux_answers_def split: option.splits)
  from assms(2) obtain c where
    c: "validate_fix (JObj (map (\<lambda>name. (name, argument arguments' name)) FIX_FIELDS)) = Some c"
    and M': "M' = attach_artifact j now' M ticket FIX_COVERAGE ''Fix coverage'' (dump_fix c)"
    by (auto simp: record_fix_coverage_def split: option.splits if_splits)
  have "latest_ux_answers excuse L' ticket = Inr (Some a)"
    by (simp add: latest_ux_answers_def L' newest_attached [OF assms(3)] loads_or_object_def validated_ux [OF a])
  moreover have "latest_fix_coverage excuse M' ticket = Inr (Some c)"
    by (simp add: latest_fix_coverage_def M' newest_attached [OF assms(4)] loads_or_object_def validated_fix [OF c])
  ultimately show ?thesis
    using a c by (simp add: missing_ux_answers_def missing_fix_coverage_def Let_def)
qed

definition sample_ux_arguments :: "(string, json) dict" where
  "sample_ux_arguments = [(''question'', JStr '' what is blocked right now''), (''action'', JStr ''open the ticket''),
     (''real_data'', JStr ''41 rows on the board '')]"

definition sample_fix_arguments :: "(string, json) dict" where
  "sample_fix_arguments = [(''existing'', JStr ''a query found 3 rows''), (''reentry'', JStr ''caught by `every_block`''),
     (''prevention'', JStr ''tests/test_x.py::test_no_entry''), (''learning'', JStr ''guard the write path'')]"

theorem recording_lifts_hold_witness:
  "missing_ux_answers (\<lambda>_. []) (attach_artifact ''u'' 1 empty_ledger sample_budget_ticket UX_ANSWERS ''UX answers''
       (JObj [(''question'', JStr ''what is blocked right now''), (''action'', JStr ''open the ticket''),
          (''real_data'', JStr ''41 rows on the board''), (''no_change_reason'', JStr [])]))
     sample_budget_ticket UI_DESIGN_AGENT_ID = []"
proof -
  let ?L = "attach_artifact ''u'' 1 empty_ledger sample_budget_ticket UX_ANSWERS ''UX answers''
       (JObj [(''question'', JStr ''what is blocked right now''), (''action'', JStr ''open the ticket''),
          (''real_data'', JStr ''41 rows on the board''), (''no_change_reason'', JStr [])])"
  have u: "record_ux_answers ''u'' 1 empty_ledger sample_budget_ticket sample_ux_arguments = Inr ?L" by code_simp
  have f: "is_ok (record_fix_coverage ''f'' 1 True empty_ledger sample_budget_ticket sample_fix_arguments)" by code_simp
  then obtain M' where "record_fix_coverage ''f'' 1 True empty_ledger sample_budget_ticket sample_fix_arguments = Inr M'"
    by (rule is_okE)
  from recording_lifts_hold [OF u this, of "\<lambda>_. []" UI_DESIGN_AGENT_ID] show ?thesis
    by (simp add: empty_ledger_def)
qed

end
