(* ===== verification/StageVerdict.thy ===== *)
theory StageVerdict
  imports StageReport PassHolds StudioRouting
begin

text \<open>
  \<open>services/stage_verdict.py\<close>: one verdict from everything that can judge a stage, the most
  pessimistic one winning. What \<open>collect_signals\<close> reads besides the report (the handoff
  document, the workspace's pair catalog, the checkout's head, the evidence recorded for it)
  is the record \<open>Judging\<close>; the two records a pass can be held for come from the artifact rows.
\<close>

section \<open>Data\<close>

datatype StageReportStatus = PASS | FAIL | NEEDS_REWORK | BLOCKED

fun report_status_value :: "StageReportStatus \<Rightarrow> string" where
  "report_status_value PASS = ''pass''"
| "report_status_value FAIL = ''fail''"
| "report_status_value NEEDS_REWORK = ''needs_rework''"
| "report_status_value StageReportStatus.BLOCKED = ''blocked''"

definition report_status_of :: "string \<Rightarrow> StageReportStatus option" where
  "report_status_of value =
     find (\<lambda>s. report_status_value s = value) [PASS, FAIL, NEEDS_REWORK, StageReportStatus.BLOCKED]"

definition RANK :: "StageReportStatus list" where
  "RANK = [PASS, NEEDS_REWORK, FAIL, StageReportStatus.BLOCKED]"

definition rank :: "StageReportStatus \<Rightarrow> nat" where
  "rank s = (case index_of RANK s of Some i \<Rightarrow> i | None \<Rightarrow> length RANK)"

record VerdictSignal =
  vs_source :: string
  vs_item_key :: string
  vs_outcome :: "StageReportStatus option"
  vs_producer_agent_id :: string
  vs_producer_stage_key :: string
  vs_detail :: string
  vs_is_claim :: bool

record UnresolvedItem =
  ui_name :: string
  ui_producer_agent_id :: string
  ui_producer_stage_key :: string
  ui_detail :: string
  ui_is_claim :: bool

record StageVerdict =
  sv_status :: StageReportStatus
  sv_unresolved :: "UnresolvedItem list"

definition as_told_to_the_agent :: "UnresolvedItem \<Rightarrow> string" where
  "as_told_to_the_agent item =
     (if ui_is_claim item then []
      else if strip (ui_detail item) \<noteq> [] then strip (ui_detail item) else ui_name item)"

definition claim_from_tool_outcome :: "string \<Rightarrow> StageReportStatus" where
  "claim_from_tool_outcome outcome = (if outcome = ''pass'' then PASS else NEEDS_REWORK)"

definition routing_outcome :: "StageVerdict \<Rightarrow> string" where
  "routing_outcome verdict = (if sv_status verdict = PASS then ''pass'' else ''reject'')"

definition handoff_expected_for :: "WorkflowStageDef \<Rightarrow> bool" where
  "handoff_expected_for stage_def \<longleftrightarrow>
     sd_stage_type stage_def \<noteq> PARALLEL_STAGE_TYPE \<and> \<not> is_agentless_stage stage_def"

section \<open>Deriving\<close>

definition is_judgeable :: "VerdictSignal \<Rightarrow> bool" where
  "is_judgeable s \<longleftrightarrow> vs_outcome s \<noteq> None"

definition signal_rank :: "VerdictSignal \<Rightarrow> nat" where
  "signal_rank s = (case vs_outcome s of Some outcome \<Rightarrow> rank outcome | None \<Rightarrow> length RANK)"

definition derived_status :: "VerdictSignal list \<Rightarrow> StageReportStatus" where
  "derived_status collected =
     (case filter is_judgeable collected of
        [] \<Rightarrow> NEEDS_REWORK
      | s # judgeable \<Rightarrow>
          (case vs_outcome (max_by signal_rank s judgeable) of
             None \<Rightarrow> NEEDS_REWORK
           | Some status \<Rightarrow>
               if status = PASS \<and> filter (\<lambda>s. \<not> is_judgeable s) collected \<noteq> [] then NEEDS_REWORK
               else status))"

definition producers :: "VerdictSignal list \<Rightarrow> (string, VerdictSignal) dict" where
  "producers collected =
     fold (\<lambda>signal d. if vs_item_key signal \<noteq> [] \<and> vs_outcome signal \<noteq> Some PASS
                      then dict_setdefault (vs_item_key signal) signal d else d) collected []"

definition item_of :: "string \<times> VerdictSignal \<Rightarrow> UnresolvedItem" where
  "item_of p =
     (case p of (name, signal) \<Rightarrow>
        \<lparr>ui_name = name, ui_producer_agent_id = vs_producer_agent_id signal,
         ui_producer_stage_key = vs_producer_stage_key signal, ui_detail = vs_detail signal,
         ui_is_claim = vs_is_claim signal\<rparr>)"

definition derive_verdict :: "VerdictSignal list \<Rightarrow> StageVerdict" where
  "derive_verdict collected =
     (let status = derived_status collected; found = producers collected; names = sort (dict_keys found) in
      \<lparr>sv_status = status,
       sv_unresolved =
         (if status = PASS then []
          else concat (map (\<lambda>name. case map_of found name of
                  Some signal \<Rightarrow> [item_of (name, signal)] | None \<Rightarrow> []) names))\<rparr>)"

section \<open>Collecting\<close>

record HandoffItem =
  hi_item_key :: string
  hi_status :: string
  hi_required :: bool

record HandoffEnvelope =
  he_from_agent :: string
  he_to_agent :: string
  he_checklist :: "HandoffItem list"

record CatalogItem =
  ci_item_key :: string
  ci_required :: bool

text \<open>
  The reads. \<open>jg_handoff\<close> is the latest handoff document, \<open>None\<close> when there is none or it does
  not validate; \<open>jg_catalogs\<close> is the workspace gate's table, \<open>None\<close> when there is no workspace
  or the module does not load, with \<open>None\<close> for an entry that does not validate.
\<close>

record Judging =
  jg_handoff :: "HandoffEnvelope option"
  jg_catalogs :: "(string \<times> string, CatalogItem option list) dict option"
  jg_stages :: "WorkflowStageDef list"
  jg_studio :: "string list"
  jg_head :: string
  jg_evidence :: "string \<Rightarrow> string \<Rightarrow> bool"
  jg_pending_operations :: "string list"
  jg_ledger :: Ledger
  jg_excuse :: "Artifact \<Rightarrow> string"

definition report_status :: "StageReport \<Rightarrow> StageReportStatus" where
  "report_status report =
     (case report_status_of (sr_status report) of Some s \<Rightarrow> s | None \<Rightarrow> NEEDS_REWORK)"

definition claimed_signals ::
    "StageReport option \<Rightarrow> StageReportStatus option \<Rightarrow> string \<Rightarrow> string \<Rightarrow> VerdictSignal list" where
  "claimed_signals report tool_outcome agent_id stage_key =
     (case report of
        None \<Rightarrow> []
      | Some report \<Rightarrow>
          (let status = report_status report in
           [\<lparr>vs_source = ''claimed'', vs_item_key = ''report:'' @ report_status_value status,
             vs_outcome = Some status, vs_producer_agent_id = agent_id, vs_producer_stage_key = stage_key,
             vs_detail = [], vs_is_claim = True\<rparr>]))
     @ (case tool_outcome of
          None \<Rightarrow> []
        | Some PASS \<Rightarrow>
            [\<lparr>vs_source = ''tool'', vs_item_key = ''tool:pass'', vs_outcome = Some PASS,
              vs_producer_agent_id = agent_id, vs_producer_stage_key = stage_key, vs_detail = [],
              vs_is_claim = False\<rparr>]
        | Some _ \<Rightarrow>
            [\<lparr>vs_source = ''tool'', vs_item_key = ''tool:reject'', vs_outcome = Some NEEDS_REWORK,
              vs_producer_agent_id = agent_id, vs_producer_stage_key = stage_key, vs_detail = [],
              vs_is_claim = True\<rparr>])"

definition claimed_pass_only :: "StageReport option \<Rightarrow> StageReportStatus option \<Rightarrow> bool" where
  "claimed_pass_only report tool_outcome \<longleftrightarrow>
     (let has_pass = (case report of None \<Rightarrow> False | Some r \<Rightarrow> sr_status r = ''pass'') \<or> tool_outcome = Some PASS in
      if \<not> has_pass then False
      else if (case report of None \<Rightarrow> False | Some r \<Rightarrow> report_status r \<noteq> PASS) then False
      else if tool_outcome \<noteq> None \<and> tool_outcome \<noteq> Some PASS then False
      else True)"

definition required_catalog_keys :: "Judging \<Rightarrow> string \<Rightarrow> string \<Rightarrow> string list option" where
  "required_catalog_keys jg from_agent to_agent =
     (if from_agent = [] \<or> to_agent = [] then None
      else (case jg_catalogs jg of
              None \<Rightarrow> None
            | Some catalogs \<Rightarrow>
                (case map_of catalogs (from_agent, to_agent) of
                   None \<Rightarrow> None
                 | Some entries \<Rightarrow>
                     Some (concat (map (\<lambda>entry. case entry of
                         None \<Rightarrow> []
                       | Some item \<Rightarrow> if ci_item_key item \<noteq> [] \<and> ci_required item then [ci_item_key item] else [])
                       entries)))))"

definition handoff_signal :: "string \<Rightarrow> string \<Rightarrow> VerdictSignal" where
  "handoff_signal from_agent item_key =
     \<lparr>vs_source = ''handoff'', vs_item_key = item_key, vs_outcome = Some NEEDS_REWORK,
      vs_producer_agent_id = from_agent, vs_producer_stage_key = [], vs_detail = [], vs_is_claim = False\<rparr>"

definition handoff_signals :: "Judging \<Rightarrow> VerdictSignal list" where
  "handoff_signals jg =
     (case jg_handoff jg of
        None \<Rightarrow> []
      | Some envelope \<Rightarrow>
          (let items = filter (\<lambda>item. hi_item_key item \<noteq> []) (he_checklist envelope);
               present = map hi_item_key items;
               signals = map (\<lambda>item. handoff_signal (he_from_agent envelope)
                   (''handoff:'' @ hi_item_key item @ '' incomplete''))
                 (filter (\<lambda>item. hi_required item \<and> hi_status item \<noteq> ''complete'') items)
           in case required_catalog_keys jg (he_from_agent envelope) (he_to_agent envelope) of
                None \<Rightarrow> signals
              | Some keys \<Rightarrow> signals @ map (\<lambda>key. handoff_signal (he_from_agent envelope)
                    (''handoff:'' @ key @ '' missing'')) (filter (\<lambda>key. key \<notin> set present) keys)))"

definition evidence_signals :: "Judging \<Rightarrow> Ticket \<Rightarrow> WorkflowStageDef \<Rightarrow> string \<Rightarrow> VerdictSignal list" where
  "evidence_signals jg ticket stage_def agent_id =
     (let required = filter (\<lambda>kind. kind \<noteq> []) (sd_required_evidence stage_def);
          signal = (\<lambda>item_key outcome. \<lparr>vs_source = ''evidence'', vs_item_key = item_key, vs_outcome = outcome,
            vs_producer_agent_id = agent_id, vs_producer_stage_key = sd_key stage_def, vs_detail = [],
            vs_is_claim = False\<rparr>)
      in if required = [] then []
         else if jg_stages jg \<noteq> [] \<and> took_light_route (jg_studio jg) ticket (jg_stages jg) then []
         else if jg_head jg = [] then [signal ''evidence:unjudgeable'' None]
         else map (\<lambda>kind. signal (''evidence:'' @ kind @ '' missing'') (Some NEEDS_REWORK))
                (filter (\<lambda>kind. \<not> jg_evidence jg (jg_head jg) kind) required))"

definition folded_pass_held_signals :: "Judging \<Rightarrow> Ticket \<Rightarrow> string \<Rightarrow> string \<Rightarrow> VerdictSignal list" where
  "folded_pass_held_signals jg ticket agent_id stage_key =
     (let signal = (\<lambda>source item_key outcome detail. \<lparr>vs_source = source, vs_item_key = item_key,
            vs_outcome = Some outcome, vs_producer_agent_id = agent_id, vs_producer_stage_key = stage_key,
            vs_detail = detail, vs_is_claim = False\<rparr>);
          ux_missing = missing_ux_answers (jg_excuse jg) (jg_ledger jg) ticket agent_id;
          coverage_missing = missing_fix_coverage (jg_excuse jg) (jg_ledger jg) ticket agent_id
      in (if ux_missing \<noteq> [] then [signal ''ux_answers'' ''ux_answers missing'' NEEDS_REWORK ux_missing] else [])
       @ (if coverage_missing \<noteq> []
          then [signal ''fix_coverage'' ''fix_coverage missing'' NEEDS_REWORK coverage_missing] else [])
       @ (if agent_id = SPEC_AGENT_ID \<and> jg_pending_operations jg \<noteq> []
          then [signal ''operation_criteria'' ''operation_criteria pending'' StageReportStatus.BLOCKED []] else []))"

definition collect_signals ::
    "Judging \<Rightarrow> Ticket \<Rightarrow> StageReport option \<Rightarrow> StageReportStatus option \<Rightarrow> WorkflowStageDef \<Rightarrow> string
       \<Rightarrow> VerdictSignal list" where
  "collect_signals jg ticket report tool_outcome stage_def agent_id =
     claimed_signals report tool_outcome agent_id (sd_key stage_def)
     @ handoff_signals jg
     @ evidence_signals jg ticket stage_def agent_id
     @ (if claimed_pass_only report tool_outcome
        then folded_pass_held_signals jg ticket agent_id (sd_key stage_def) else [])"

definition report_with_verdict :: "StageReport \<Rightarrow> StageVerdict \<Rightarrow> string \<Rightarrow> StageReport" where
  "report_with_verdict report verdict current_stage =
     (let nl = [char_of (10::nat)];
          told = join nl (filter (\<lambda>line. line \<noteq> []) (map as_told_to_the_agent (sv_unresolved verdict)));
          existing = strip (sr_reroute_context report);
          context = (if told \<noteq> [] \<and> existing \<noteq> [] then existing @ nl @ nl @ told
                     else if told \<noteq> [] then told else existing);
          reroute_to = (if sr_status report = ''pass'' \<and> sv_status verdict \<noteq> PASS then Some current_stage
                        else sr_reroute_to_stage report)
      in report\<lparr>sr_status := report_status_value (sv_status verdict), sr_reroute_to_stage := reroute_to,
                sr_reroute_context := context\<rparr>)"

definition unresolved_section_lines :: "StageVerdict \<Rightarrow> string list" where
  "unresolved_section_lines verdict =
     (if sv_unresolved verdict = [] then []
      else [] # ''## Unresolved items'' # map (\<lambda>item. ''- `'' @ ui_name item @ ''`'') (sv_unresolved verdict))"

section \<open>The verdict is the most pessimistic signal\<close>

lemma rank_simps [simp]:
  "rank PASS = 0" "rank NEEDS_REWORK = 1" "rank FAIL = 2" "rank StageReportStatus.BLOCKED = 3"
  by (simp_all add: rank_def RANK_def)

lemma rank_inj [simp]: "rank a = rank b \<longleftrightarrow> a = b"
  by (cases a; cases b) simp_all

lemma rank_0 [simp]: "rank a = 0 \<longleftrightarrow> a = PASS"
  by (cases a) simp_all

text \<open>How bad an outcome is, said apart from the code's table: the order of the specification.\<close>

fun severity :: "StageReportStatus \<Rightarrow> nat" where
  "severity PASS = 0"
| "severity NEEDS_REWORK = 1"
| "severity FAIL = 2"
| "severity StageReportStatus.BLOCKED = 3"

instantiation StageReportStatus :: linorder
begin

definition "(a :: StageReportStatus) \<le> b \<longleftrightarrow> severity a \<le> severity b"

definition "(a :: StageReportStatus) < b \<longleftrightarrow> severity a < severity b"

instance
proof
  fix a b :: StageReportStatus
  show "a \<le> b \<Longrightarrow> b \<le> a \<Longrightarrow> a = b"
    by (cases a; cases b) (simp_all add: less_eq_StageReportStatus_def)
qed (auto simp: less_eq_StageReportStatus_def less_StageReportStatus_def)

end

lemma rank_le_iff: "rank a \<le> rank b \<longleftrightarrow> a \<le> b"
  by (cases a; cases b) (simp_all add: less_eq_StageReportStatus_def)

text \<open>A judgeable signal of the greatest rank.\<close>

lemma worst_signal:
  assumes "filter is_judgeable S = s # judgeable"
  obtains t outcome where "t \<in> set S" "vs_outcome t = Some outcome"
    "max_by signal_rank s judgeable = t"
    "\<And>u o'. u \<in> set S \<Longrightarrow> vs_outcome u = Some o' \<Longrightarrow> rank o' \<le> rank outcome"
proof -
  let ?t = "max_by signal_rank s judgeable"
  have members: "insert s (set judgeable) = {u \<in> set S. is_judgeable u}"
    using arg_cong [OF assms, of set] by auto
  then have t: "?t \<in> set S" "is_judgeable ?t" using max_by_in [of signal_rank s judgeable] by auto
  then obtain outcome where out: "vs_outcome ?t = Some outcome" by (auto simp: is_judgeable_def)
  have "rank o' \<le> rank outcome" if "u \<in> set S" "vs_outcome u = Some o'" for u o'
  proof -
    have "u \<in> insert s (set judgeable)" using that members by (auto simp: is_judgeable_def)
    then have "signal_rank u \<le> signal_rank ?t" by (rule bspec [OF max_by_ge])
    then show ?thesis by (simp add: signal_rank_def that(2) out)
  qed
  then show ?thesis by (rule that [OF t(1) out refl])
qed

lemma derived_status_rank:
  assumes "u \<in> set S" and "vs_outcome u = Some o'"
  shows "rank o' \<le> rank (derived_status S)"
proof (cases "filter is_judgeable S")
  case Nil
  with assms show ?thesis by (auto simp: filter_empty_conv is_judgeable_def)
next
  case (Cons s judgeable)
  then obtain t outcome where t: "vs_outcome t = Some outcome" "max_by signal_rank s judgeable = t"
      "rank o' \<le> rank outcome"
    using assms by (rule_tac worst_signal [OF Cons]) blast
  then show ?thesis by (cases "outcome = PASS") (simp_all add: derived_status_def Cons)
qed

lemma derived_status_from:
  "derived_status S = NEEDS_REWORK \<or> (\<exists>t \<in> set S. vs_outcome t = Some (derived_status S))"
proof (cases "filter is_judgeable S")
  case Nil
  then show ?thesis by (simp add: derived_status_def)
next
  case (Cons s judgeable)
  then obtain t outcome where "t \<in> set S" "vs_outcome t = Some outcome" "max_by signal_rank s judgeable = t"
    by (rule worst_signal)
  then show ?thesis by (auto simp: derived_status_def Cons)
qed

lemma derived_status_PASS:
  "derived_status S = PASS \<longleftrightarrow> S \<noteq> [] \<and> (\<forall>s \<in> set S. vs_outcome s = Some PASS)"
proof
  assume p: "derived_status S = PASS"
  have judged: "vs_outcome s \<noteq> None" if "s \<in> set S" for s
    using p that
    by (auto simp: derived_status_def is_judgeable_def filter_empty_conv split: list.splits option.splits if_splits)
  have "vs_outcome s = Some PASS" if "s \<in> set S" for s
    using derived_status_rank [OF that] judged [OF that] p by auto
  moreover have "S \<noteq> []" using p by (auto simp: derived_status_def)
  ultimately show "S \<noteq> [] \<and> (\<forall>s \<in> set S. vs_outcome s = Some PASS)" by blast
next
  assume all: "S \<noteq> [] \<and> (\<forall>s \<in> set S. vs_outcome s = Some PASS)"
  then have "filter is_judgeable S = S" by (auto simp: filter_id_conv is_judgeable_def)
  moreover have none: "filter (\<lambda>s. \<not> is_judgeable s) S = []"
    using all by (auto simp: filter_empty_conv is_judgeable_def)
  moreover obtain s judgeable where S: "S = s # judgeable" using all by (cases S) auto
  ultimately obtain t outcome where "t \<in> set S" "vs_outcome t = Some outcome" "max_by signal_rank s judgeable = t"
    by (metis worst_signal)
  then show "derived_status S = PASS"
    using all \<open>filter is_judgeable S = S\<close> none by (auto simp: derived_status_def S split: list.split)
qed

section \<open>The unresolved names\<close>

definition is_unresolved :: "VerdictSignal \<Rightarrow> bool" where
  "is_unresolved s \<longleftrightarrow> vs_item_key s \<noteq> [] \<and> vs_outcome s \<noteq> Some PASS"

lemma map_of_setdefault:
  "map_of (dict_setdefault k v d) x = (if map_of d k = None \<and> x = k then Some v else map_of d x)"
  by (simp add: dict_setdefault_def dict_has_def map_of_dict_set split: option.split)

lemma distinct_setdefault: "distinct (map fst d) \<Longrightarrow> distinct (map fst (dict_setdefault k v d))"
  by (simp add: dict_setdefault_def)

lemma map_of_producers_from:
  "map_of (fold (\<lambda>signal d. if vs_item_key signal \<noteq> [] \<and> vs_outcome signal \<noteq> Some PASS
      then dict_setdefault (vs_item_key signal) signal d else d) S d) x
   = (case map_of d x of Some v \<Rightarrow> Some v | None \<Rightarrow> find (\<lambda>s. is_unresolved s \<and> vs_item_key s = x) S)"
  by (induction S arbitrary: d)
    (auto simp: map_of_setdefault is_unresolved_def split: option.splits)

lemma map_of_producers:
  "map_of (producers S) x = find (\<lambda>s. is_unresolved s \<and> vs_item_key s = x) S"
  by (simp add: producers_def map_of_producers_from)

lemma distinct_producers: "distinct (dict_keys (producers S))"
proof -
  have "distinct (map fst d) \<Longrightarrow> distinct (map fst (fold (\<lambda>signal d. if vs_item_key signal \<noteq> []
      \<and> vs_outcome signal \<noteq> Some PASS then dict_setdefault (vs_item_key signal) signal d else d) S d))" for d
    by (induction S arbitrary: d) (simp_all add: distinct_setdefault)
  then show ?thesis by (simp add: dict_keys_def producers_def)
qed

lemma keys_producers: "set (dict_keys (producers S)) = vs_item_key ` {s \<in> set S. is_unresolved s}"
proof -
  have "x \<in> set (dict_keys (producers S)) \<longleftrightarrow> map_of (producers S) x \<noteq> None" for x
    by (simp add: dict_keys_def map_of_eq_None_iff)
  then show ?thesis by (auto simp: map_of_producers find_None_iff' image_iff)
qed

lemma unresolved_names:
  assumes "sv_status (derive_verdict S) \<noteq> PASS"
  shows "map ui_name (sv_unresolved (derive_verdict S)) = sort (dict_keys (producers S))"
proof -
  have "map ui_name (concat (map (\<lambda>name. case map_of d name of Some signal \<Rightarrow> [item_of (name, signal)] | None \<Rightarrow> []) ns)) = ns"
    if "set ns \<subseteq> fst ` set d" for d ns
    using that by (induction ns) (auto simp: item_of_def map_of_eq_None_iff split: option.splits)
  moreover have "set (sort (dict_keys (producers S))) \<subseteq> fst ` set (producers S)"
    by (auto simp: dict_keys_def)
  ultimately show ?thesis using assms by (simp add: derive_verdict_def Let_def)
qed

section \<open>Properties\<close>

lemma set_listed:
  "x \<in> set (concat (map (\<lambda>name. case map_of d name of Some s \<Rightarrow> [f (name, s)] | None \<Rightarrow> []) ns))
   \<longleftrightarrow> (\<exists>name s. name \<in> set ns \<and> map_of d name = Some s \<and> x = f (name, s))"
proof (induction ns)
  case (Cons a ns)
  then show ?case by (cases "map_of d a") auto
qed simp

lemma producers_iff:
  "name \<in> set (sort (dict_keys (producers S))) \<and> map_of (producers S) name = Some s
   \<longleftrightarrow> name = vs_item_key s \<and> find (\<lambda>r. is_unresolved r \<and> vs_item_key r = vs_item_key s) S = Some s"
proof -
  have "name \<in> set (sort (dict_keys (producers S)))" if "map_of (producers S) name = Some s"
    using map_of_SomeD [OF that] by (force simp: dict_keys_def)
  moreover have "vs_item_key s = name" if "map_of (producers S) name = Some s"
    using that unfolding map_of_producers by (blast dest: find_Some_iff')
  ultimately show ?thesis by (auto simp: map_of_producers)
qed

text \<open>One pessimistic verdict. The verdict on a list of signals is a pass exactly when there is a
  signal and every one of them is a pass (a signal that cannot be judged is not); otherwise no
  judgeable signal ranks above it, it is the outcome of one of the signals or else
  needs-rework, and it lists, sorted and once each, exactly the names of the signals that did
  not pass, each with what its first signal said. A pass lists nothing.\<close>

theorem verdict_spec:
  "let v = derive_verdict S in
    (sv_status v = PASS \<longleftrightarrow> S \<noteq> [] \<and> list_all (\<lambda>s. vs_outcome s = Some PASS) S)
    \<and> list_all (\<lambda>s. case vs_outcome s of None \<Rightarrow> True | Some x \<Rightarrow> x \<le> sv_status v) S
    \<and> sv_status v \<in> insert NEEDS_REWORK {x. Some x \<in> vs_outcome ` set S}
    \<and> sorted (map ui_name (sv_unresolved v)) \<and> distinct (map ui_name (sv_unresolved v))
    \<and> set (sv_unresolved v) = (if sv_status v = PASS then {} else
        {item_of (vs_item_key s, s) | s. find (\<lambda>r. is_unresolved r \<and> vs_item_key r = vs_item_key s) S = Some s})"
proof -
  define v where "v = derive_verdict S"
  have status: "sv_status v = derived_status S" by (simp add: v_def derive_verdict_def Let_def)
  have "list_all (\<lambda>s. case vs_outcome s of None \<Rightarrow> True | Some x \<Rightarrow> x \<le> sv_status v) S"
    using derived_status_rank by (auto simp: list_all_iff status rank_le_iff split: option.split)
  moreover have "sv_status v \<in> insert NEEDS_REWORK {x. Some x \<in> vs_outcome ` set S}"
    using derived_status_from [of S] unfolding status insert_iff mem_Collect_eq image_iff by metis
  moreover have "sorted (map ui_name (sv_unresolved v)) \<and> distinct (map ui_name (sv_unresolved v))"
  proof (cases "sv_status v = PASS")
    case True
    then have "sv_unresolved v = []" by (simp add: v_def derive_verdict_def Let_def)
    then show ?thesis by simp
  next
    case False
    then show ?thesis
      unfolding v_def by (simp add: unresolved_names distinct_producers)
  qed
  moreover have "set (sv_unresolved v) = (if sv_status v = PASS then {} else
        {item_of (vs_item_key s, s) | s. find (\<lambda>r. is_unresolved r \<and> vs_item_key r = vs_item_key s) S = Some s})"
  proof (rule set_eqI)
    fix x
    have "x \<in> set (concat (map (\<lambda>name. case map_of (producers S) name of
          Some signal \<Rightarrow> [item_of (name, signal)] | None \<Rightarrow> []) (sort (dict_keys (producers S)))))
      \<longleftrightarrow> (\<exists>name s. (name \<in> set (sort (dict_keys (producers S))) \<and> map_of (producers S) name = Some s)
            \<and> x = item_of (name, s))"
      unfolding set_listed by blast
    also have "\<dots> \<longleftrightarrow> x \<in> {item_of (vs_item_key s, s) | s.
        find (\<lambda>r. is_unresolved r \<and> vs_item_key r = vs_item_key s) S = Some s}"
      unfolding producers_iff by blast
    finally show "x \<in> set (sv_unresolved v) \<longleftrightarrow> x \<in> (if sv_status v = PASS then {} else
        {item_of (vs_item_key s, s) | s. find (\<lambda>r. is_unresolved r \<and> vs_item_key r = vs_item_key s) S = Some s})"
      by (simp add: v_def derive_verdict_def Let_def)
  qed
  ultimately show ?thesis
    unfolding Let_def v_def [symmetric] by (simp add: status derived_status_PASS list_all_iff)
qed

lemma derived_status_set:
  assumes "set S = set T"
  shows "derived_status S = derived_status T"
proof -
  have le: "rank (derived_status A) \<le> rank (derived_status B)" if "set A = set B" for A B
  proof (cases "derived_status B = PASS")
    case True
    then have "derived_status A = PASS" using that derived_status_PASS by (metis set_empty)
    then show ?thesis by simp
  next
    case False
    then have "1 \<le> rank (derived_status B)" by (cases "derived_status B") simp_all
    then show ?thesis
      using derived_status_from [of A] derived_status_rank [of _ B] that by auto
  qed
  then show ?thesis using assms by (metis le_antisym rank_inj)
qed

text \<open>The last writer does not win: reordering or repeating the signals changes neither the
  status of the verdict nor the names it lists.\<close>

theorem verdict_order_free:
  assumes "set S = set T"
  shows "sv_status (derive_verdict S) = sv_status (derive_verdict T)
    \<and> map ui_name (sv_unresolved (derive_verdict S)) = map ui_name (sv_unresolved (derive_verdict T))"
proof -
  have status: "sv_status (derive_verdict S) = sv_status (derive_verdict T)"
    using derived_status_set [OF assms] by (simp add: derive_verdict_def Let_def)
  have keys: "set (dict_keys (producers S)) = set (dict_keys (producers T))"
    by (simp add: keys_producers assms)
  have "map ui_name (sv_unresolved (derive_verdict S)) = map ui_name (sv_unresolved (derive_verdict T))"
  proof (cases "sv_status (derive_verdict S) = PASS")
    case True
    with status show ?thesis by (simp add: derive_verdict_def Let_def)
  next
    case False
    then show ?thesis
      using keys distinct_producers status
      by (simp add: unresolved_names) (rule sorted_distinct_set_unique, simp_all)
  qed
  with status show ?thesis by blast
qed

definition sample_signal :: "string \<Rightarrow> StageReportStatus option \<Rightarrow> VerdictSignal" where
  "sample_signal name outcome = \<lparr>vs_source = ''handoff'', vs_item_key = name, vs_outcome = outcome,
     vs_producer_agent_id = ''dev'', vs_producer_stage_key = [], vs_detail = [], vs_is_claim = False\<rparr>"

theorem verdict_order_free_witness:
  "sv_status (derive_verdict [sample_signal ''a'' (Some FAIL), sample_signal ''b'' (Some PASS)])
   = sv_status (derive_verdict [sample_signal ''b'' (Some PASS), sample_signal ''a'' (Some FAIL)])"
  by (rule verdict_order_free [THEN conjunct1]) auto

section \<open>A pass is earned\<close>

definition handoff_settled :: "Judging \<Rightarrow> bool" where
  "handoff_settled jg \<longleftrightarrow>
     (case jg_handoff jg of
        None \<Rightarrow> True
      | Some e \<Rightarrow>
          list_all (\<lambda>i. hi_item_key i = [] \<or> \<not> hi_required i \<or> hi_status i = ''complete'') (he_checklist e)
          \<and> (case required_catalog_keys jg (he_from_agent e) (he_to_agent e) of
               None \<Rightarrow> True
             | Some keys \<Rightarrow> set keys \<subseteq> hi_item_key ` set (he_checklist e)))"

definition evidence_settled :: "Judging \<Rightarrow> Ticket \<Rightarrow> WorkflowStageDef \<Rightarrow> bool" where
  "evidence_settled jg ticket stage_def \<longleftrightarrow>
     (set (sd_required_evidence stage_def) \<subseteq> {[]}
      \<or> (jg_stages jg \<noteq> [] \<and> took_light_route (jg_studio jg) ticket (jg_stages jg))
      \<or> (jg_head jg \<noteq> []
         \<and> list_all (\<lambda>kind. kind = [] \<or> jg_evidence jg (jg_head jg) kind) (sd_required_evidence stage_def)))"

definition holds_settled :: "Judging \<Rightarrow> Ticket \<Rightarrow> string \<Rightarrow> bool" where
  "holds_settled jg ticket agent_id \<longleftrightarrow>
     missing_ux_answers (jg_excuse jg) (jg_ledger jg) ticket agent_id = []
     \<and> missing_fix_coverage (jg_excuse jg) (jg_ledger jg) ticket agent_id = []
     \<and> (agent_id \<noteq> SPEC_AGENT_ID \<or> jg_pending_operations jg = [])"

definition all_pass :: "VerdictSignal list \<Rightarrow> bool" where
  "all_pass S \<longleftrightarrow> (\<forall>s \<in> set S. vs_outcome s = Some PASS)"

lemma all_pass_append [simp]: "all_pass (S @ T) \<longleftrightarrow> all_pass S \<and> all_pass T"
  by (auto simp: all_pass_def)

lemma all_pass_Nil [simp]: "all_pass []"
  by (simp add: all_pass_def)

lemma all_pass_guard: "all_pass (if c then [s] else []) \<longleftrightarrow> \<not> c \<or> vs_outcome s = Some PASS"
  by (simp add: all_pass_def)

lemma required_catalog_keys_nonempty:
  "required_catalog_keys jg a b = Some keys \<Longrightarrow> [] \<notin> set keys"
  by (auto simp: required_catalog_keys_def split: if_splits option.splits)

lemma all_pass_handoff: "all_pass (handoff_signals jg) \<longleftrightarrow> handoff_settled jg"
proof (cases "jg_handoff jg")
  case None
  then show ?thesis by (simp add: handoff_signals_def handoff_settled_def)
next
  case (Some e)
  let ?items = "filter (\<lambda>item. hi_item_key item \<noteq> []) (he_checklist e)"
  have none: "all_pass (map (\<lambda>x. handoff_signal (he_from_agent e) (f x)) xs) \<longleftrightarrow> xs = []" for f and xs :: "'x list"
    by (cases xs) (auto simp: all_pass_def handoff_signal_def)
  have key: "k \<in> hi_item_key ` set ?items \<longleftrightarrow> k \<in> hi_item_key ` set (he_checklist e)" if "k \<noteq> []" for k
    using that by auto
  show ?thesis
  proof (cases "required_catalog_keys jg (he_from_agent e) (he_to_agent e)")
    case None
    then show ?thesis
      by (auto simp: handoff_signals_def handoff_settled_def Some Let_def none filter_empty_conv list_all_iff)
  next
    case keys: (Some keys)
    then have "set keys \<subseteq> hi_item_key ` set ?items \<longleftrightarrow> set keys \<subseteq> hi_item_key ` set (he_checklist e)"
      using required_catalog_keys_nonempty [OF keys] key by (metis (no_types, lifting) subset_iff)
    moreover have "filter (\<lambda>k. k \<notin> set (map hi_item_key ?items)) keys = [] \<longleftrightarrow> set keys \<subseteq> hi_item_key ` set ?items"
      by (auto simp: filter_empty_conv)
    ultimately show ?thesis
      by (simp add: handoff_signals_def handoff_settled_def Some keys Let_def none)
        (auto simp: filter_empty_conv list_all_iff)
  qed
qed

lemma handoff_never_passes: "s \<in> set (handoff_signals jg) \<Longrightarrow> vs_outcome s \<noteq> Some PASS"
  by (auto simp: handoff_signals_def handoff_signal_def Let_def split: option.splits)

lemma evidence_never_passes:
  "s \<in> set (evidence_signals jg ticket stage_def agent) \<Longrightarrow> vs_outcome s \<noteq> Some PASS"
  by (auto simp: evidence_signals_def Let_def split: if_splits)

lemma all_pass_evidence: "all_pass (evidence_signals jg ticket stage_def agent) \<longleftrightarrow> evidence_settled jg ticket stage_def"
  by (auto simp: evidence_signals_def evidence_settled_def Let_def all_pass_def list_all_iff filter_empty_conv)

lemma all_pass_folded: "all_pass (folded_pass_held_signals jg ticket agent k) \<longleftrightarrow> holds_settled jg ticket agent"
  by (simp add: folded_pass_held_signals_def holds_settled_def Let_def all_pass_guard)

lemma report_status_PASS: "report_status r = PASS \<longleftrightarrow> sr_status r = ''pass''"
  by (auto simp: report_status_def report_status_of_def)

lemma all_pass_claims:
  "claimed_signals report tool agent k \<noteq> [] \<and> all_pass (claimed_signals report tool agent k)
   \<longleftrightarrow> claimed_pass_only report tool"
  by (cases report; cases tool)
    (auto simp: claimed_signals_def claimed_pass_only_def Let_def all_pass_def report_status_PASS
      split: StageReportStatus.splits)

text \<open>C5: A pass is earned. The verdict on what \<open>collect_signals\<close> assembles is a pass exactly when the
  run claims nothing but a pass, every required item of the stored handoff is complete and every
  required item of the pair's catalog is there, the required evidence is recorded for the
  checkout's own head (or none is required, or the ticket took the light route), and nothing the
  agent owes is missing: its UX answers, its fix coverage, an answer on the operations among its
  criteria. Everything else is routed as a rejection.\<close>

theorem pass_is_earned:
  "routing_outcome (derive_verdict (collect_signals jg ticket report tool stage_def agent)) =
     (if claimed_pass_only report tool \<and> handoff_settled jg \<and> evidence_settled jg ticket stage_def
         \<and> holds_settled jg ticket agent
      then ''pass'' else ''reject'')"
proof -
  let ?S = "collect_signals jg ticket report tool stage_def agent"
  let ?C = "claimed_signals report tool agent (sd_key stage_def)"
  have "derived_status ?S = PASS \<longleftrightarrow> ?S \<noteq> [] \<and> all_pass ?S"
    by (simp add: derived_status_PASS all_pass_def)
  also have "\<dots> \<longleftrightarrow> claimed_pass_only report tool \<and> handoff_settled jg \<and> evidence_settled jg ticket stage_def
      \<and> holds_settled jg ticket agent"
  proof (cases "?C = []")
    case True
    then have "report = None" "tool = None"
      by (auto simp: claimed_signals_def Let_def split: option.splits StageReportStatus.splits)
    then have no: "\<not> claimed_pass_only report tool" by (simp add: claimed_pass_only_def)
    have "?S = handoff_signals jg @ evidence_signals jg ticket stage_def agent"
      using True no by (simp add: collect_signals_def)
    then have "vs_outcome s \<noteq> Some PASS" if "s \<in> set ?S" for s
      using that handoff_never_passes evidence_never_passes by auto
    then have "\<not> (?S \<noteq> [] \<and> all_pass ?S)"
      unfolding all_pass_def by (metis hd_in_set)
    with no show ?thesis by blast
  next
    case False
    then show ?thesis
      using all_pass_claims [of report tool agent "sd_key stage_def"]
      by (auto simp: collect_signals_def all_pass_handoff all_pass_evidence all_pass_folded)
  qed
  finally show ?thesis by (simp add: routing_outcome_def derive_verdict_def Let_def)
qed

lemma contains_appendL: "contains s x \<Longrightarrow> contains (s @ r) x"
  unfolding contains_iff by (metis append.assoc)

lemma contains_appendR: "contains s x \<Longrightarrow> contains (l @ s) x"
  unfolding contains_iff by (metis append.assoc)

lemma contains_self [simp]: "contains s s" "contains s []"
  unfolding contains_iff by (metis append_Nil append_Nil2)+

lemma contains_join: "x \<in> set xs \<Longrightarrow> contains (join sep xs) x"
  by (induction sep xs rule: join.induct) (auto intro: contains_appendL contains_appendR)

text \<open>A held pass goes back to the agent with what to do. When a report claims a pass and the
  verdict is not one, the persisted report no longer says pass, it reroutes to the stage itself,
  it keeps what the agent had written there, and it tells the agent every unresolved item in the
  item's own words, except its own claim.\<close>

theorem held_pass_is_told:
  assumes "sr_status report = ''pass''" and "sv_status verdict \<noteq> PASS"
  shows "let persisted = report_with_verdict report verdict current_stage in
    sr_status persisted \<noteq> ''pass'' \<and> sr_reroute_to_stage persisted = Some current_stage
    \<and> contains (sr_reroute_context persisted) (strip (sr_reroute_context report))
    \<and> list_all (\<lambda>item. contains (sr_reroute_context persisted) (as_told_to_the_agent item)) (sv_unresolved verdict)"
proof -
  define persisted where "persisted = report_with_verdict report verdict current_stage"
  let ?nl = "[char_of (10::nat)]"
  define told where "told = join ?nl (filter (\<lambda>line. line \<noteq> []) (map as_told_to_the_agent (sv_unresolved verdict)))"
  define old where "old = strip (sr_reroute_context report)"
  have ctx: "sr_reroute_context persisted = (if told \<noteq> [] \<and> old \<noteq> [] then old @ ?nl @ ?nl @ told
      else if told \<noteq> [] then told else old)"
    by (simp add: persisted_def report_with_verdict_def Let_def told_def old_def)
  have "contains (sr_reroute_context persisted) old"
    by (simp add: ctx contains_appendL)
  moreover have part: "contains (sr_reroute_context persisted) x" if "contains told x" for x
  proof (cases "told = []")
    case True
    with that show ?thesis by simp
  next
    case False
    with that show ?thesis by (auto simp: ctx simp del: append_Cons intro: contains_appendR)
  qed
  moreover have "contains told (as_told_to_the_agent item)" if "item \<in> set (sv_unresolved verdict)" for item
  proof (cases "as_told_to_the_agent item = []")
    case True
    then show ?thesis by simp
  next
    case False
    then show ?thesis unfolding told_def by (intro contains_join) (use that in auto)
  qed
  moreover have "sr_status persisted \<noteq> ''pass''"
    using assms(2) by (cases "sv_status verdict") (simp_all add: persisted_def report_with_verdict_def Let_def)
  moreover have "sr_reroute_to_stage persisted = Some current_stage"
    using assms(1,2) by (simp add: persisted_def report_with_verdict_def Let_def)
  ultimately show ?thesis unfolding old_def list_all_iff Let_def persisted_def [symmetric] by blast
qed

definition sample_pass :: StageReport where
  "sample_pass = \<lparr>sr_status = ''pass'', sr_confidence = 1, sr_reroute_to_stage = None, sr_reroute_context = [],
     sr_reroute_to_agent = None, sr_unmet_criteria = [], sr_blocked_kind = None, sr_options = [],
     sr_kind_as_written = [], sr_waiting_on = [], sr_waivers = []\<rparr>"

theorem held_pass_is_told_witness:
  "sr_reroute_to_stage (report_with_verdict sample_pass (derive_verdict [sample_signal ''a'' None]) ''dev'')
     = Some ''dev''"
proof -
  have "sv_status (derive_verdict [sample_signal ''a'' None]) \<noteq> PASS" by code_simp
  from held_pass_is_told [of sample_pass _ "''dev''", OF _ this] show ?thesis by (simp add: Let_def sample_pass_def)
qed

end
