(* ===== verification/UnresolvedLedger.thy ===== *)
theory UnresolvedLedger
  imports StageVerdict
begin

text \<open>
  \<open>services/unresolved_ledger.py\<close>: the named items a stage left unresolved, kept as snapshots
  (\<open>OPEN\<close> rows) that only an audited \<open>CLEAR\<close> or \<open>WAIVER\<close> may shrink, and the part of
  \<open>run_completion._pass_held\<close> that settles a claimed pass against them. The rows are in the
  order they were added; the \<open>n\<close>-th row is stamped \<open>clock n\<close>. A row whose JSON does not
  validate has no document.
\<close>

section \<open>Rows\<close>

record LedgerActor =
  la_agent_id :: string
  la_stage_key :: string

record UnresolvedOpenItem =
  oi_name :: string
  oi_producer_agent_id :: string
  oi_producer_stage_key :: string
  oi_first_seen_run_id :: string
  oi_stage_key :: string
  oi_durable :: bool

record UnresolvedWaiverPayload =
  wp_name :: string
  wp_reason :: string
  wp_actor :: LedgerActor
  wp_run_id :: string

record UnresolvedClearPayload =
  cp_name :: string
  cp_actor :: LedgerActor
  cp_run_id :: string

datatype LedgerDoc =
    OPEN "UnresolvedOpenItem list option"
  | WAIVER "UnresolvedWaiverPayload option"
  | CLEAR "UnresolvedClearPayload option"

record UnresolvedRow =
  ur_ticket_id :: string
  ur_created_at :: int
  ur_doc :: LedgerDoc

type_synonym Rows = "UnresolvedRow list"

definition HUMAN_AGENT_ID :: string where "HUMAN_AGENT_ID = ''human''"

fun is_open :: "LedgerDoc \<Rightarrow> bool" where
  "is_open (OPEN _) = True"
| "is_open _ = False"

fun is_waiver :: "LedgerDoc \<Rightarrow> bool" where
  "is_waiver (WAIVER _) = True"
| "is_waiver _ = False"

fun parse_open :: "LedgerDoc \<Rightarrow> UnresolvedOpenItem list" where
  "parse_open (OPEN (Some items)) = items"
| "parse_open _ = []"

fun audit_name :: "LedgerDoc \<Rightarrow> string" where
  "audit_name (WAIVER (Some w)) = wp_name w"
| "audit_name (CLEAR (Some c)) = cp_name c"
| "audit_name _ = []"

definition add_row :: "(nat \<Rightarrow> int) \<Rightarrow> Rows \<Rightarrow> string \<Rightarrow> LedgerDoc \<Rightarrow> Rows" where
  "add_row clock rows t doc =
     rows @ [\<lparr>ur_ticket_id = t, ur_created_at = clock (length rows), ur_doc = doc\<rparr>]"

definition open_rows :: "Rows \<Rightarrow> string \<Rightarrow> Rows" where
  "open_rows rows t = filter (\<lambda>row. ur_ticket_id row = t \<and> is_open (ur_doc row)) rows"

definition newest_open_row :: "Rows \<Rightarrow> string \<Rightarrow> UnresolvedRow option" where
  "newest_open_row rows t =
     (case open_rows rows t of [] \<Rightarrow> None | row # rows \<Rightarrow> Some (max_by ur_created_at row rows))"

definition current_open_items :: "Rows \<Rightarrow> string \<Rightarrow> UnresolvedOpenItem list" where
  "current_open_items rows t =
     (case newest_open_row rows t of None \<Rightarrow> [] | Some row \<Rightarrow> parse_open (ur_doc row))"

definition open_item :: "Rows \<Rightarrow> string \<Rightarrow> string \<Rightarrow> UnresolvedOpenItem option" where
  "open_item rows t name = find (\<lambda>item. oi_name item = name) (current_open_items rows t)"

definition has_audit :: "Rows \<Rightarrow> string \<Rightarrow> string \<Rightarrow> int option \<Rightarrow> bool" where
  "has_audit rows t name after =
     list_ex (\<lambda>row. ur_ticket_id row = t \<and> \<not> is_open (ur_doc row)
       \<and> \<not> (case after of None \<Rightarrow> False | Some a \<Rightarrow> ur_created_at row < a)
       \<and> audit_name (ur_doc row) = name) rows"

definition waived_names :: "Rows \<Rightarrow> string \<Rightarrow> string list" where
  "waived_names rows t =
     filter (\<lambda>name. name \<noteq> []) (map (\<lambda>row. audit_name (ur_doc row))
       (filter (\<lambda>row. ur_ticket_id row = t \<and> is_waiver (ur_doc row)) rows))"

definition write_open :: "(nat \<Rightarrow> int) \<Rightarrow> Rows \<Rightarrow> string \<Rightarrow> UnresolvedOpenItem list \<Rightarrow> Rows result" where
  "write_open clock rows t items =
     (let dropped = filter (\<lambda>name. name \<notin> oi_name ` set items) (map oi_name (current_open_items rows t));
          after = map_option ur_created_at (newest_open_row rows t);
          unaudited = filter (\<lambda>name. \<not> has_audit rows t name after) dropped
      in if unaudited \<noteq> [] then Inl (ValueError ''OPEN snapshot shrinks without CLEAR/WAIVER'')
         else Inr (add_row clock rows t (OPEN (Some items))))"

section \<open>Operations\<close>

definition is_durable :: "string \<Rightarrow> bool" where
  "is_durable name \<longleftrightarrow> starts_with name ''handoff:'' \<or> starts_with name ''evidence:''"

definition open_item_from_live :: "UnresolvedItem \<Rightarrow> LedgerActor \<Rightarrow> string \<Rightarrow> UnresolvedOpenItem" where
  "open_item_from_live item actor run_id =
     \<lparr>oi_name = ui_name item, oi_producer_agent_id = ui_producer_agent_id item,
      oi_producer_stage_key = ui_producer_stage_key item, oi_first_seen_run_id = run_id,
      oi_stage_key = (if ui_producer_stage_key item \<noteq> [] then ui_producer_stage_key item
                      else la_stage_key actor),
      oi_durable = is_durable (ui_name item)\<rparr>"

definition item_visible :: "string \<Rightarrow> string \<Rightarrow> string \<Rightarrow> string \<Rightarrow> LedgerActor option \<Rightarrow> bool \<Rightarrow> bool" where
  "item_visible name producer_agent_id stage_key current_stage_key actor durable =
     (if durable \<or> is_durable name then True
      else if stage_key \<noteq> current_stage_key then False
      else (case actor of None \<Rightarrow> True | Some a \<Rightarrow> producer_agent_id = la_agent_id a))"

definition producer_matches :: "UnresolvedOpenItem \<Rightarrow> LedgerActor \<Rightarrow> bool" where
  "producer_matches item actor =
     (if oi_producer_stage_key item = [] then la_agent_id actor = oi_producer_agent_id item
      else la_agent_id actor = oi_producer_agent_id item \<and> la_stage_key actor = oi_producer_stage_key item)"

definition persist_unresolved ::
    "(nat \<Rightarrow> int) \<Rightarrow> Rows \<Rightarrow> string \<Rightarrow> UnresolvedItem list \<Rightarrow> LedgerActor \<Rightarrow> string \<Rightarrow> Rows result" where
  "persist_unresolved clock rows t live actor run_id =
     (let current = current_open_items rows t;
          waived = waived_names rows t;
          (by_name, added) = fold (\<lambda>item (by_name, added).
              if ui_name item = [] \<or> dict_has by_name (ui_name item) \<or> ui_name item \<in> set waived
              then (by_name, added)
              else (dict_set (ui_name item) (open_item_from_live item actor run_id) by_name, True))
            live (dict_of (map (\<lambda>item. (oi_name item, item)) current), False)
      in if \<not> added \<and> current \<noteq> [] then Inr rows
         else if by_name = [] then Inr rows
         else write_open clock rows t (dict_values by_name))"

definition as_shown :: "UnresolvedItem list \<Rightarrow> UnresolvedOpenItem \<Rightarrow> UnresolvedItem" where
  "as_shown live item =
     (let fresh = map_of (dict_of (map (\<lambda>item. (ui_name item, item)) live)) (oi_name item) in
      \<lparr>ui_name = oi_name item, ui_producer_agent_id = oi_producer_agent_id item,
       ui_producer_stage_key = oi_producer_stage_key item,
       ui_detail = (case fresh of Some f \<Rightarrow> ui_detail f | None \<Rightarrow> []),
       ui_is_claim = (case fresh of Some f \<Rightarrow> ui_is_claim f | None \<Rightarrow> False)\<rparr>)"

definition open_visible :: "string \<Rightarrow> LedgerActor option \<Rightarrow> UnresolvedOpenItem \<Rightarrow> bool" where
  "open_visible current_stage_key actor item =
     item_visible (oi_name item) (oi_producer_agent_id item)
       (if oi_stage_key item \<noteq> [] then oi_stage_key item else oi_producer_stage_key item)
       current_stage_key actor (oi_durable item \<or> is_durable (oi_name item))"

definition live_visible :: "string \<Rightarrow> LedgerActor option \<Rightarrow> UnresolvedItem \<Rightarrow> bool" where
  "live_visible current_stage_key actor item =
     item_visible (ui_name item) (ui_producer_agent_id item) (ui_producer_stage_key item)
       current_stage_key actor (is_durable (ui_name item))"

definition visible_unresolved ::
    "Rows \<Rightarrow> string \<Rightarrow> UnresolvedItem list \<Rightarrow> string \<Rightarrow> LedgerActor option \<Rightarrow> UnresolvedItem list" where
  "visible_unresolved rows t live current_stage_key actor =
     (let waived = waived_names rows t;
          by_name = fold (\<lambda>item d.
              if open_visible current_stage_key actor item then dict_set (oi_name item) (as_shown live item) d
              else d) (current_open_items rows t) [];
          by_name = fold (\<lambda>item d.
              if ui_name item = [] \<or> dict_has d (ui_name item) \<or> ui_name item \<in> set waived then d
              else if live_visible current_stage_key actor item then dict_set (ui_name item) item d
              else d) live by_name
      in concat (map (\<lambda>name. case map_of by_name name of Some item \<Rightarrow> [item] | None \<Rightarrow> [])
           (sort (dict_keys by_name))))"

definition clear :: "(nat \<Rightarrow> int) \<Rightarrow> Rows \<Rightarrow> string \<Rightarrow> string \<Rightarrow> LedgerActor \<Rightarrow> UnresolvedItem list
    \<Rightarrow> (Rows \<times> bool) result" where
  "clear clock rows t name actor live =
     (if la_agent_id actor = HUMAN_AGENT_ID then Inr (rows, False)
      else (case open_item rows t name of
              None \<Rightarrow> Inr (rows, False)
            | Some item \<Rightarrow>
                if \<not> producer_matches item actor then Inr (rows, False)
                else if name \<in> ui_name ` set live then Inr (rows, False)
                else
                  (let remaining = filter (\<lambda>entry. oi_name entry \<noteq> name) (current_open_items rows t);
                       rows = add_row clock rows t
                         (CLEAR (Some \<lparr>cp_name = name, cp_actor = actor, cp_run_id = []\<rparr>))
                   in bind_result (write_open clock rows t remaining) (\<lambda>rows. Inr (rows, True)))))"

definition waive :: "(nat \<Rightarrow> int) \<Rightarrow> Rows \<Rightarrow> string \<Rightarrow> string \<Rightarrow> string \<Rightarrow> LedgerActor \<Rightarrow> string
    \<Rightarrow> (Rows \<times> bool) result" where
  "waive clock rows t name reason actor run_id =
     (if strip reason = [] then Inr (rows, False)
      else (case open_item rows t name of
              None \<Rightarrow> Inr (rows, False)
            | Some item \<Rightarrow>
                if la_agent_id actor \<noteq> HUMAN_AGENT_ID \<and> \<not> producer_matches item actor then Inr (rows, False)
                else
                  (let remaining = filter (\<lambda>entry. oi_name entry \<noteq> name) (current_open_items rows t);
                       rows = add_row clock rows t
                         (WAIVER (Some \<lparr>wp_name = name, wp_reason = strip reason, wp_actor = actor,
                            wp_run_id = run_id\<rparr>))
                   in bind_result (write_open clock rows t remaining) (\<lambda>rows. Inr (rows, True)))))"

text \<open>A loop whose body may raise.\<close>

fun each :: "('a \<Rightarrow> Rows \<Rightarrow> Rows result) \<Rightarrow> 'a list \<Rightarrow> Rows \<Rightarrow> Rows result" where
  "each f [] rows = Inr rows"
| "each f (x # xs) rows = bind_result (f x rows) (each f xs)"

definition settle_unresolved ::
    "(nat \<Rightarrow> int) \<Rightarrow> Rows \<Rightarrow> string \<Rightarrow> UnresolvedItem list \<Rightarrow> LedgerActor \<Rightarrow> WaiverItem list \<Rightarrow> string \<Rightarrow> string
       \<Rightarrow> (Rows \<times> UnresolvedItem list) result" where
  "settle_unresolved clock rows t live actor waivers current_stage_key run_id =
     bind_result (persist_unresolved clock rows t live actor run_id) (\<lambda>rows.
     bind_result (each (\<lambda>w rows. bind_result (waive clock rows t (wv_name w) (wv_reason w) actor run_id)
         (\<lambda>(rows, _). Inr rows)) waivers rows) (\<lambda>rows.
     bind_result (each (\<lambda>item rows.
           if oi_name item \<in> ui_name ` set live then Inr rows
           else bind_result (clear clock rows t (oi_name item) actor live) (\<lambda>(rows, _). Inr rows))
         (current_open_items rows t) rows) (\<lambda>rows.
     Inr (rows, visible_unresolved rows t live current_stage_key (Some actor)))))"

definition persisted_open_names :: "Rows \<Rightarrow> string \<Rightarrow> string list" where
  "persisted_open_names rows t = map oi_name (current_open_items rows t)"

section \<open>The detector and its repair\<close>

record OpenShrinkFinding =
  os_ticket_id :: string
  os_entered_at :: int
  os_names :: "string list"

text \<open>A ticket's snapshots, oldest first.\<close>

definition open_history :: "Rows \<Rightarrow> string \<Rightarrow> Rows" where
  "open_history rows t = sort_key ur_created_at (open_rows rows t)"

text \<open>The names that left an earlier snapshot with no audit, given the latest snapshot's names.\<close>

definition unaudited_missing :: "Rows \<Rightarrow> string \<Rightarrow> (string, UnresolvedOpenItem) dict" where
  "unaudited_missing rows t =
     (let history = open_history rows t; latest_names = map oi_name (parse_open (ur_doc (last history))) in
      fold (\<lambda>older d. fold (\<lambda>item d.
          if oi_name item \<in> set latest_names \<or> dict_has d (oi_name item)
             \<or> has_audit rows t (oi_name item) (Some (ur_created_at older))
          then d else dict_set (oi_name item) item d) (parse_open (ur_doc older)) d)
        (butlast history) [])"

definition detect_unaudited_open_shrink :: "Rows \<Rightarrow> OpenShrinkFinding list" where
  "detect_unaudited_open_shrink rows =
     concat (map (\<lambda>t.
       let history = open_history rows t; missing = unaudited_missing rows t in
       if length history < 2 \<or> missing = [] then []
       else [\<lparr>os_ticket_id = t, os_entered_at = ur_created_at (last history),
              os_names = sort (dict_keys missing)\<rparr>])
     (dedup (map ur_ticket_id (sort_key ur_created_at (filter (\<lambda>row. is_open (ur_doc row)) rows)))))"

text \<open>The repair of one ticket; \<open>exists\<close> says that the ticket is still there.\<close>

definition repair_one :: "(nat \<Rightarrow> int) \<Rightarrow> Rows \<Rightarrow> bool \<Rightarrow> string \<Rightarrow> (Rows \<times> bool) result" where
  "repair_one clock rows exists t =
     (if \<not> exists then Inr (rows, False)
      else
        (let history = open_history rows t in
         if length history < 2 then Inr (rows, False)
         else
           (let by_name = fold (\<lambda>older d. fold (\<lambda>item d.
                    if dict_has d (oi_name item) \<or> has_audit rows t (oi_name item) (Some (ur_created_at older))
                    then d else dict_set (oi_name item) item d) (parse_open (ur_doc older)) d)
                  (butlast history)
                  (dict_of (map (\<lambda>item. (oi_name item, item)) (parse_open (ur_doc (last history)))))
            in if set (dict_keys by_name) = oi_name ` set (parse_open (ur_doc (last history))) then Inr (rows, False)
               else bind_result (write_open clock rows t (dict_values by_name)) (\<lambda>rows. Inr (rows, True)))))"

fun repair_unaudited_open_shrink ::
    "(nat \<Rightarrow> int) \<Rightarrow> Rows \<Rightarrow> (string \<Rightarrow> bool) \<Rightarrow> string list \<Rightarrow> (Rows \<times> nat) result" where
  "repair_unaudited_open_shrink clock rows exists [] = Inr (rows, 0)"
| "repair_unaudited_open_shrink clock rows exists (t # ts) =
     bind_result (repair_one clock rows (exists t) t) (\<lambda>(rows, repaired).
     bind_result (repair_unaudited_open_shrink clock rows exists ts) (\<lambda>(rows, n).
       Inr (rows, n + (if repaired then 1 else 0))))"

section \<open>Settling a claimed pass\<close>

text \<open>
  \<open>run_completion._pass_held\<close> up to the settlement it chooses: the rows it writes, and \<open>None\<close>
  when the pass stands or the verdict it is held for.
\<close>

definition pass_held ::
    "(nat \<Rightarrow> int) \<Rightarrow> Judging \<Rightarrow> Rows \<Rightarrow> Ticket \<Rightarrow> StageReport option \<Rightarrow> WorkflowStageDef list \<Rightarrow> string \<Rightarrow> string
       \<Rightarrow> string \<Rightarrow> (Rows \<times> StageVerdict option) result" where
  "pass_held clock jg rows ticket report stages agent_id run_stage_key run_id =
     (case report of
        None \<Rightarrow> Inr (rows, None)
      | Some report \<Rightarrow>
          if sr_status report \<noteq> ''pass'' then Inr (rows, None)
          else (case find (\<lambda>stage. sd_key stage = run_stage_key) stages of
                  None \<Rightarrow> Inr (rows, None)
                | Some stage_def \<Rightarrow>
                    (let verdict = derive_verdict (collect_signals jg ticket (Some report) None stage_def agent_id) in
                     bind_result (settle_unresolved clock rows (tk_id ticket) (sv_unresolved verdict)
                         \<lparr>la_agent_id = agent_id, la_stage_key = run_stage_key\<rparr> (sr_waivers report)
                         run_stage_key run_id) (\<lambda>(rows, remaining).
                       let verdict =
                         (if remaining \<noteq> []
                          then \<lparr>sv_status = (if sv_status verdict = PASS then NEEDS_REWORK else sv_status verdict),
                                sv_unresolved = remaining\<rparr>
                          else verdict)
                       in if sv_status verdict = PASS then Inr (rows, None) else Inr (rows, Some verdict)))))"

section \<open>Stamped rows\<close>

definition stamped :: "(nat \<Rightarrow> int) \<Rightarrow> Rows \<Rightarrow> bool" where
  "stamped clock rows \<longleftrightarrow> map ur_created_at rows = map clock [0..<length rows]"

lemma stamped_Nil [simp]: "stamped clock []"
  by (simp add: stamped_def)

lemma stamped_add [simp]: "stamped clock (add_row clock rows t doc) \<longleftrightarrow> stamped clock rows"
  by (simp add: stamped_def add_row_def)

lemma max_by_increasing:
  "sorted_wrt (<) (map f (x # xs)) \<Longrightarrow> max_by f x xs = last (x # xs)"
  by (induction xs arbitrary: x) auto

lemma stamped_sorted:
  assumes "stamped clock rows" and "strict_mono clock"
  shows "sorted_wrt (<) (map ur_created_at rows)"
  unfolding assms(1) [unfolded stamped_def]
  by (simp add: sorted_wrt_map sorted_wrt_iff_nth_less strict_monoD [OF assms(2)])

lemma stamped_open_rows:
  assumes "stamped clock rows" and "strict_mono clock"
  shows "sorted_wrt (<) (map ur_created_at (open_rows rows t))"
  using sorted_wrt_filter [of _ rows] stamped_sorted [OF assms]
  by (simp add: open_rows_def sorted_wrt_map)

lemma newest_open_row_last:
  assumes "stamped clock rows" and "strict_mono clock"
  shows "newest_open_row rows t = (if open_rows rows t = [] then None else Some (last (open_rows rows t)))"
proof (cases "open_rows rows t")
  case (Cons row rest)
  then show ?thesis
    using max_by_increasing [of ur_created_at row rest] stamped_open_rows [OF assms, of t]
    by (simp add: newest_open_row_def)
qed (simp add: newest_open_row_def)

lemma open_history_rows:
  assumes "stamped clock rows" and "strict_mono clock"
  shows "open_history rows t = open_rows rows t"
  using strict_sorted_imp_sorted [OF stamped_open_rows [OF assms]]
  by (simp add: open_history_def sort_key_id_if_sorted)

lemma in_butlast: "x \<in> set xs \<Longrightarrow> x \<noteq> last xs \<Longrightarrow> x \<in> set (butlast xs)"
  by (induction xs) auto

lemma increasing_last: "sorted_wrt (<) (map f xs) \<Longrightarrow> x \<in> set xs \<Longrightarrow> (f x :: int) \<le> f (last xs)"
  by (induction xs) (auto simp: less_imp_le)

lemma open_rows_add [simp]:
  "open_rows (add_row clock rows t doc) t' =
     open_rows rows t' @ (if t = t' \<and> is_open doc
        then [\<lparr>ur_ticket_id = t, ur_created_at = clock (length rows), ur_doc = doc\<rparr>] else [])"
  by (simp add: open_rows_def add_row_def)

lemma newest_open_row_audit [simp]:
  "\<not> is_open doc \<Longrightarrow> newest_open_row (add_row clock rows t doc) t' = newest_open_row rows t'"
  by (simp add: newest_open_row_def)

lemma current_open_audit [simp]:
  "\<not> is_open doc \<Longrightarrow> current_open_items (add_row clock rows t doc) t' = current_open_items rows t'"
  by (simp add: current_open_items_def)

lemma current_open_write [simp]:
  assumes "stamped clock rows" and "strict_mono clock"
  shows "current_open_items (add_row clock rows t (OPEN (Some items))) t' =
    (if t = t' then items else current_open_items rows t')"
proof (cases "t = t'")
  case True
  then show ?thesis
    using newest_open_row_last [of clock "add_row clock rows t (OPEN (Some items))", OF _ assms(2)] assms(1)
    by (simp add: current_open_items_def)
next
  case False
  then show ?thesis by (simp add: current_open_items_def newest_open_row_def)
qed

lemma created_le_clock:
  assumes "stamped clock rows" and "strict_mono clock" and "row \<in> set rows"
  shows "ur_created_at row < clock (length rows)"
proof -
  have "ur_created_at row \<in> set (map clock [0..<length rows])"
    using assms(1,3) unfolding stamped_def by (metis image_eqI list.set_map)
  then show ?thesis using assms(2) by (auto simp: strict_mono_def)
qed

lemma open_rows_in: "row \<in> set (open_rows rows t) \<Longrightarrow> row \<in> set rows"
  by (simp add: open_rows_def)

lemma has_audit_mono: "has_audit rows t name after \<Longrightarrow> has_audit (add_row clock rows t' doc) t name after"
  by (simp add: has_audit_def add_row_def)

lemma has_audit_earlier: "has_audit rows t name (Some b) \<Longrightarrow> a \<le> b \<Longrightarrow> has_audit rows t name (Some a)"
  by (auto simp: has_audit_def list_ex_iff)

lemma write_open_Inr:
  "write_open clock rows t items = Inr rows' \<longleftrightarrow> rows' = add_row clock rows t (OPEN (Some items))
     \<and> (\<forall>name \<in> oi_name ` set (current_open_items rows t). name \<in> oi_name ` set items
          \<or> has_audit rows t name (map_option ur_created_at (newest_open_row rows t)))"
  by (auto simp: write_open_def Let_def filter_empty_conv)

section \<open>Every operation is made of audit rows and guarded snapshots\<close>

inductive ledger_write :: "(nat \<Rightarrow> int) \<Rightarrow> Rows \<Rightarrow> Rows \<Rightarrow> bool" for clock where
  audit: "\<not> is_open doc \<Longrightarrow> ledger_write clock rows (add_row clock rows t doc)"
| snapshot: "write_open clock rows t items = Inr rows' \<Longrightarrow> ledger_write clock rows rows'"

inductive_cases ledger_writeE: "ledger_write clock rows rows'"

definition names_of :: "UnresolvedRow \<Rightarrow> string set" where
  "names_of row = oi_name ` set (parse_open (ur_doc row))"

definition shrinks_audited :: "Rows \<Rightarrow> bool" where
  "shrinks_audited rows \<longleftrightarrow> (\<forall>t older name. older \<in> set (butlast (open_rows rows t)) \<longrightarrow> name \<in> names_of older \<longrightarrow>
     name \<in> names_of (last (open_rows rows t)) \<or> has_audit rows t name (Some (ur_created_at older)))"

lemma shrinks_auditedD:
  "shrinks_audited rows \<Longrightarrow> older \<in> set (butlast (open_rows rows t)) \<Longrightarrow> name \<in> names_of older \<Longrightarrow>
   name \<in> names_of (last (open_rows rows t)) \<or> has_audit rows t name (Some (ur_created_at older))"
  unfolding shrinks_audited_def by blast

lemma shrinks_audited_audit:
  assumes "\<not> is_open doc" and "shrinks_audited rows"
  shows "shrinks_audited (add_row clock rows t doc)"
  unfolding shrinks_audited_def
proof (intro allI impI)
  fix t' older name
  assume "older \<in> set (butlast (open_rows (add_row clock rows t doc) t'))" and n: "name \<in> names_of older"
  then have "older \<in> set (butlast (open_rows rows t'))" using assms(1) by simp
  from shrinks_auditedD [OF assms(2) this n] assms(1)
  show "name \<in> names_of (last (open_rows (add_row clock rows t doc) t'))
      \<or> has_audit (add_row clock rows t doc) t' name (Some (ur_created_at older))"
    using has_audit_mono by simp blast
qed

lemma shrinks_audited_snapshot:
  assumes "write_open clock rows t items = Inr rows'" and "shrinks_audited rows"
    and "stamped clock rows" "strict_mono clock"
  shows "shrinks_audited rows'"
  unfolding shrinks_audited_def
proof (intro allI impI)
  fix t' older name
  assume older: "older \<in> set (butlast (open_rows rows' t'))" and name: "name \<in> names_of older"
  let ?R = "open_rows rows t"
  from assms(1) have rows': "rows' = add_row clock rows t (OPEN (Some items))"
    and kept: "\<And>n. n \<in> oi_name ` set (current_open_items rows t) \<Longrightarrow> n \<in> oi_name ` set items
          \<or> has_audit rows t n (map_option ur_created_at (newest_open_row rows t))"
    by (auto simp: write_open_Inr)
  show "name \<in> names_of (last (open_rows rows' t')) \<or> has_audit rows' t' name (Some (ur_created_at older))"
  proof (cases "t = t'")
    case False
    then have "older \<in> set (butlast (open_rows rows t'))" using older by (simp add: rows')
    from shrinks_auditedD [OF assms(2) this name] False show ?thesis
      using has_audit_mono by (simp add: rows') blast
  next
    case True
    then have o: "older \<in> set ?R" using older by (simp add: rows')
    then have last: "newest_open_row rows t = Some (last ?R)"
      using newest_open_row_last [OF assms(3,4)] by auto
    have le: "ur_created_at older \<le> ur_created_at (last ?R)"
      by (rule increasing_last [OF stamped_open_rows [OF assms(3,4)] o])
    have "name \<in> names_of (last ?R) \<or> has_audit rows t name (Some (ur_created_at older))"
      using name shrinks_auditedD [OF assms(2) in_butlast [OF o] name] by (cases "older = last ?R") simp_all
    moreover have "name \<in> oi_name ` set items \<or> has_audit rows t name (Some (ur_created_at older))"
      if "name \<in> names_of (last ?R)"
      using kept [of name] that has_audit_earlier [OF _ le]
      by (auto simp: current_open_items_def last names_of_def)
    ultimately show ?thesis
      using True has_audit_mono by (simp add: rows' names_of_def) blast
  qed
qed

lemma has_audit_new:
  "\<not> is_open doc \<Longrightarrow> (case after of None \<Rightarrow> True | Some a \<Rightarrow> a \<le> clock (length rows)) \<Longrightarrow>
   has_audit (add_row clock rows t doc) t (audit_name doc) after"
  by (auto simp: has_audit_def add_row_def split: option.splits)

definition open_names :: "Rows \<Rightarrow> string \<Rightarrow> string set" where
  "open_names rows t = oi_name ` set (current_open_items rows t)"

text \<open>Dropping one name behind its audit row is never refused.\<close>

lemma drop_after_audit:
  assumes "\<not> is_open doc" and "audit_name doc = name" and "stamped clock rows" "strict_mono clock"
  shows "write_open clock (add_row clock rows t doc) t (filter (\<lambda>e. oi_name e \<noteq> name) (current_open_items rows t)) =
    Inr (add_row clock (add_row clock rows t doc) t
      (OPEN (Some (filter (\<lambda>e. oi_name e \<noteq> name) (current_open_items rows t)))))"
proof -
  let ?after = "map_option ur_created_at (newest_open_row rows t)"
  have "case ?after of None \<Rightarrow> True | Some a \<Rightarrow> a \<le> clock (length rows)"
    using created_le_clock [OF assms(3,4)] newest_open_row_last [OF assms(3,4), of t]
    by (auto simp: less_imp_le dest!: open_rows_in last_in_set)
  then have "has_audit (add_row clock rows t doc) t name ?after"
    using has_audit_new [OF assms(1)] assms(2) by blast
  then show ?thesis using assms(1) by (auto simp: write_open_Inr)
qed

lemma clear_cases:
  assumes "stamped clock rows" "strict_mono clock"
  obtains (kept) "clear clock rows t name actor live = Inr (rows, False)"
  | (dropped) item where "open_item rows t name = Some item" "producer_matches item actor"
      "la_agent_id actor \<noteq> HUMAN_AGENT_ID" "name \<notin> ui_name ` set live"
      "clear clock rows t name actor live = Inr (add_row clock (add_row clock rows t
         (CLEAR (Some \<lparr>cp_name = name, cp_actor = actor, cp_run_id = []\<rparr>))) t
         (OPEN (Some (filter (\<lambda>e. oi_name e \<noteq> name) (current_open_items rows t)))), True)"
proof (cases "clear clock rows t name actor live = Inr (rows, False)")
  case True
  then show ?thesis by (rule kept)
next
  case False
  then obtain item where i: "open_item rows t name = Some item" "producer_matches item actor"
      "la_agent_id actor \<noteq> HUMAN_AGENT_ID" "name \<notin> ui_name ` set live"
    by (auto simp: clear_def split: if_splits option.splits)
  have "clear clock rows t name actor live = Inr (add_row clock (add_row clock rows t
         (CLEAR (Some \<lparr>cp_name = name, cp_actor = actor, cp_run_id = []\<rparr>))) t
         (OPEN (Some (filter (\<lambda>e. oi_name e \<noteq> name) (current_open_items rows t)))), True)"
    using i by (simp add: clear_def Let_def drop_after_audit [OF _ _ assms])
  with i show ?thesis by (rule dropped)
qed

lemma waive_cases:
  assumes "stamped clock rows" "strict_mono clock"
  obtains (kept) "waive clock rows t name reason actor run = Inr (rows, False)"
  | (dropped) item where "open_item rows t name = Some item"
      "la_agent_id actor = HUMAN_AGENT_ID \<or> producer_matches item actor" "strip reason \<noteq> []"
      "waive clock rows t name reason actor run = Inr (add_row clock (add_row clock rows t
         (WAIVER (Some \<lparr>wp_name = name, wp_reason = strip reason, wp_actor = actor, wp_run_id = run\<rparr>))) t
         (OPEN (Some (filter (\<lambda>e. oi_name e \<noteq> name) (current_open_items rows t)))), True)"
proof (cases "waive clock rows t name reason actor run = Inr (rows, False)")
  case True
  then show ?thesis by (rule kept)
next
  case False
  then obtain item where i: "open_item rows t name = Some item"
      "la_agent_id actor = HUMAN_AGENT_ID \<or> producer_matches item actor" "strip reason \<noteq> []"
    by (auto simp: waive_def split: if_splits option.splits)
  have "waive clock rows t name reason actor run = Inr (add_row clock (add_row clock rows t
         (WAIVER (Some \<lparr>wp_name = name, wp_reason = strip reason, wp_actor = actor, wp_run_id = run\<rparr>))) t
         (OPEN (Some (filter (\<lambda>e. oi_name e \<noteq> name) (current_open_items rows t)))), True)"
    using i by (auto simp: waive_def Let_def drop_after_audit [OF _ _ assms])
  with i show ?thesis by (rule dropped)
qed

section \<open>Persisting\<close>

definition persist_item ::
    "LedgerActor \<Rightarrow> string \<Rightarrow> string list \<Rightarrow> UnresolvedItem \<Rightarrow> (string, UnresolvedOpenItem) dict \<times> bool
       \<Rightarrow> (string, UnresolvedOpenItem) dict \<times> bool" where
  "persist_item actor run waived item state =
     (case state of (by_name, added) \<Rightarrow>
        if ui_name item = [] \<or> dict_has by_name (ui_name item) \<or> ui_name item \<in> set waived
        then (by_name, added)
        else (dict_set (ui_name item) (open_item_from_live item actor run) by_name, True))"

lemma dict_has_keys: "dict_has d k \<longleftrightarrow> k \<in> set (dict_keys d)"
  by (simp add: dict_has_iff dict_keys_def)

lemma persist_fold:
  assumes "fold (persist_item actor run waived) live (d, a) = (d', a')"
  shows "(dict_keys d' = dict_keys d \<or> a') \<and> (a \<longrightarrow> a')
    \<and> set (dict_keys d') = set (dict_keys d) \<union> {n \<in> ui_name ` set live. n \<noteq> [] \<and> n \<notin> set waived}
    \<and> ((\<forall>p \<in> set d. oi_name (snd p) = fst p) \<longrightarrow> (\<forall>p \<in> set d'. oi_name (snd p) = fst p))"
  using assms
proof (induction live arbitrary: d a)
  case (Cons item live)
  obtain d1 a1 where step: "persist_item actor run waived item (d, a) = (d1, a1)" by fastforce
  with Cons.prems have "fold (persist_item actor run waived) live (d1, a1) = (d', a')" by simp
  note IH = Cons.IH [OF this]
  have same: "d1 = d \<and> a1 = a \<or> a1" using step by (auto simp: persist_item_def split: if_splits)
  have keys: "set (dict_keys d1) = set (dict_keys d) \<union> {n. n = ui_name item \<and> n \<noteq> [] \<and> n \<notin> set waived}"
    using step by (auto simp: persist_item_def dict_keys_set dict_has_keys split: if_splits)
  have named: "\<forall>p \<in> set d1. oi_name (snd p) = fst p" if "\<forall>p \<in> set d. oi_name (snd p) = fst p"
  proof
    fix p assume "p \<in> set d1"
    then have "p \<in> insert (ui_name item, open_item_from_live item actor run) (set d)"
      using step set_dict_set by (fastforce simp: persist_item_def split: if_splits)
    then show "oi_name (snd p) = fst p" using that by (auto simp: open_item_from_live_def)
  qed
  have "set (dict_keys d') = set (dict_keys d) \<union> {n \<in> ui_name ` set (item # live). n \<noteq> [] \<and> n \<notin> set waived}"
  proof -
    have "set (dict_keys d') = set (dict_keys d1) \<union> {n \<in> ui_name ` set live. n \<noteq> [] \<and> n \<notin> set waived}"
      using IH by blast
    then show ?thesis unfolding keys by auto
  qed
  with IH same named show ?case by blast
qed simp

lemma set_dict_of: "set (dict_of kvs) \<subseteq> set kvs"
proof -
  have "set (fold (\<lambda>(k, v). dict_set k v) kvs d) \<subseteq> set d \<union> set kvs" for d
    by (induction kvs arbitrary: d) (use set_dict_set in fastforce)+
  from this [of "[]"] show ?thesis by (simp add: dict_of_def)
qed

lemma dict_values_names: "\<forall>p \<in> set d. oi_name (snd p) = fst p \<Longrightarrow> oi_name ` set (dict_values d) = set (dict_keys d)"
  by (force simp: dict_values_def dict_keys_def image_iff)

text \<open>Persisting adds the new live names that are not waived, and only adds.\<close>

lemma persist_cases:
  assumes "stamped clock rows" "strict_mono clock"
  obtains rows' where "persist_unresolved clock rows t live actor run = Inr rows'"
    and "rows' = rows \<or> (\<exists>items. rows' = add_row clock rows t (OPEN (Some items))
      \<and> write_open clock rows t items = Inr rows')"
    and "open_names rows' t = open_names rows t
      \<union> {n \<in> ui_name ` set live. n \<noteq> [] \<and> n \<notin> set (waived_names rows t)}"
proof -
  define current where "current = current_open_items rows t"
  define d where "d = dict_of (map (\<lambda>item. (oi_name item, item)) current)"
  define new where "new = {n \<in> ui_name ` set live. n \<noteq> [] \<and> n \<notin> set (waived_names rows t)}"
  obtain d' a' where f: "fold (persist_item actor run (waived_names rows t)) live (d, False) = (d', a')"
    by fastforce
  have p: "persist_unresolved clock rows t live actor run =
      (if \<not> a' \<and> current \<noteq> [] then Inr rows else if d' = [] then Inr rows
       else write_open clock rows t (dict_values d'))"
    using f by (simp add: persist_unresolved_def persist_item_def [abs_def] Let_def current_def d_def)
  have keys: "set (dict_keys d) = open_names rows t"
    by (simp add: d_def dict_of_def dict_keys_def keys_fold_dict_set open_names_def current_def image_image split_beta)
  have d_ok: "\<forall>p \<in> set d. oi_name (snd p) = fst p"
    using set_dict_of unfolding d_def by fastforce
  note facts = persist_fold [OF f]
  have names: "oi_name ` set (dict_values d') = open_names rows t \<union> new"
    using dict_values_names [of d'] facts d_ok keys by (simp add: new_def)
  have here: "open_names rows t \<union> new = open_names rows t" if "\<not> a'"
    using facts that keys by (auto simp: new_def)
  show ?thesis
  proof (cases "\<not> a' \<and> current \<noteq> [] \<or> d' = []")
    case True
    moreover have "open_names rows t \<union> new = open_names rows t" if "d' = []"
      using that names by (auto simp: dict_values_def)
    ultimately show ?thesis
      using p here that [of rows] unfolding new_def by (cases "\<not> a' \<and> current \<noteq> []") simp_all
  next
    case False
    let ?rows' = "add_row clock rows t (OPEN (Some (dict_values d')))"
    have w: "write_open clock rows t (dict_values d') = Inr ?rows'"
      using names by (auto simp: write_open_Inr open_names_def)
    have "persist_unresolved clock rows t live actor run = Inr ?rows'"
      using p False w by auto
    moreover have "open_names ?rows' t = open_names rows t \<union> new"
      by (simp add: open_names_def current_open_write [OF assms] names [unfolded open_names_def])
    ultimately show ?thesis using that [of ?rows'] w unfolding new_def by blast
  qed
qed

section \<open>Histories\<close>

abbreviation ledger_writes :: "(nat \<Rightarrow> int) \<Rightarrow> Rows \<Rightarrow> Rows \<Rightarrow> bool" where
  "ledger_writes clock \<equiv> (ledger_write clock)\<^sup>*\<^sup>*"

lemma ledger_write_stamped: "ledger_write clock rows rows' \<Longrightarrow> stamped clock rows \<Longrightarrow> stamped clock rows'"
  by (auto elim!: ledger_writeE simp: write_open_Inr)

lemma ledger_writes_sound:
  assumes "ledger_writes clock rows rows'" and "stamped clock rows" and "strict_mono clock"
  shows "stamped clock rows' \<and> (shrinks_audited rows \<longrightarrow> shrinks_audited rows')"
  using assms(1)
proof (induction rule: rtranclp_induct)
  case (step b c)
  then have "stamped clock c" using ledger_write_stamped by blast
  moreover have "shrinks_audited c" if "shrinks_audited b"
    using step.hyps(2)
  proof cases
    case (audit doc t)
    then show ?thesis using shrinks_audited_audit that by simp
  next
    case (snapshot t items)
    then show ?thesis using shrinks_audited_snapshot that step.IH assms(3) by blast
  qed
  ultimately show ?case using step.IH by blast
qed (simp add: assms)

text \<open>What became of the names of ticket \<open>t\<close>: dropped between two states, and by whom.\<close>

definition dropped_in :: "Rows \<Rightarrow> string \<Rightarrow> LedgerActor \<Rightarrow> UnresolvedItem list \<Rightarrow> string \<Rightarrow> bool" where
  "dropped_in rows t actor live name \<longleftrightarrow>
     list_ex (\<lambda>row. ur_ticket_id row = t \<and>
       (case ur_doc row of
          CLEAR (Some c) \<Rightarrow> cp_name c = name \<and> cp_actor c = actor \<and> la_agent_id actor \<noteq> HUMAN_AGENT_ID
            \<and> name \<notin> ui_name ` set live
        | WAIVER (Some w) \<Rightarrow> wp_name w = name \<and> wp_actor w = actor \<and> wp_reason w \<noteq> []
        | _ \<Rightarrow> False)) rows"

lemma dropped_in_append [simp]:
  "dropped_in (xs @ ys) t actor live name \<longleftrightarrow> dropped_in xs t actor live name \<or> dropped_in ys t actor live name"
  by (simp add: dropped_in_def)

definition moved :: "(nat \<Rightarrow> int) \<Rightarrow> string \<Rightarrow> LedgerActor \<Rightarrow> UnresolvedItem list \<Rightarrow> Rows \<Rightarrow> Rows \<Rightarrow> bool" where
  "moved clock t actor live rows rows' \<longleftrightarrow> ledger_writes clock rows rows' \<and> stamped clock rows'
     \<and> (\<exists>extra. rows' = rows @ extra
          \<and> (\<forall>name \<in> open_names rows t. name \<in> open_names rows' t \<or> dropped_in extra t actor live name))"

lemma moved_refl: "stamped clock rows \<Longrightarrow> moved clock t actor live rows rows"
  by (auto simp: moved_def)

lemma moved_trans:
  assumes "moved clock t actor live r1 r2" and "moved clock t actor live r2 r3"
  shows "moved clock t actor live r1 r3"
proof -
  from assms obtain e1 e2 where "r2 = r1 @ e1" "r3 = r2 @ e2"
    "\<And>n. n \<in> open_names r1 t \<Longrightarrow> n \<in> open_names r2 t \<or> dropped_in e1 t actor live n"
    "\<And>n. n \<in> open_names r2 t \<Longrightarrow> n \<in> open_names r3 t \<or> dropped_in e2 t actor live n"
    unfolding moved_def by blast
  then have "r3 = r1 @ (e1 @ e2) \<and>
      (\<forall>n \<in> open_names r1 t. n \<in> open_names r3 t \<or> dropped_in (e1 @ e2) t actor live n)" by auto
  moreover have "ledger_writes clock r1 r3" "stamped clock r3" using assms by (auto simp: moved_def)
  ultimately show ?thesis unfolding moved_def by blast
qed

text \<open>The two rows of a drop.\<close>

lemma moved_drop:
  assumes "stamped clock rows" "strict_mono clock" and "\<not> is_open doc" "audit_name doc = name"
    and "dropped_in [\<lparr>ur_ticket_id = t, ur_created_at = clock (length rows), ur_doc = doc\<rparr>] t actor live name"
  shows "moved clock t actor live rows (add_row clock (add_row clock rows t doc) t
    (OPEN (Some (filter (\<lambda>e. oi_name e \<noteq> name) (current_open_items rows t)))))" (is "moved _ _ _ _ _ ?rows'")
proof -
  have "ledger_write clock (add_row clock rows t doc) ?rows'"
    by (rule ledger_write.snapshot) (rule drop_after_audit [OF assms(3,4,1,2)])
  then have "ledger_writes clock rows ?rows'"
    using ledger_write.audit [OF assms(3), of clock rows t] by (meson converse_rtranclp_into_rtranclp r_into_rtranclp)
  moreover have "stamped clock ?rows'" using assms(1) by simp
  moreover have "open_names ?rows' t = open_names rows t - {name}"
    using assms(1,2,3) by (auto simp: open_names_def current_open_write)
  moreover obtain extra where e: "?rows' = rows @ (\<lparr>ur_ticket_id = t, ur_created_at = clock (length rows), ur_doc = doc\<rparr> # extra)"
    by (auto simp: add_row_def)
  moreover have "dropped_in (\<lparr>ur_ticket_id = t, ur_created_at = clock (length rows), ur_doc = doc\<rparr> # extra) t actor live name"
    using assms(5) by (simp add: dropped_in_def)
  ultimately show ?thesis unfolding moved_def by blast
qed

lemma moved_clear:
  assumes "stamped clock rows" "strict_mono clock"
  obtains rows' b where "clear clock rows t name actor live = Inr (rows', b)" "moved clock t actor live rows rows'"
proof (cases rule: clear_cases [OF assms, of t name actor live, case_names kept dropped])
  case kept
  then show ?thesis using that moved_refl [OF assms(1)] by blast
next
  case (dropped item)
  show ?thesis
    by (rule that [OF dropped(5)], rule moved_drop [OF assms])
      (simp_all add: dropped_in_def dropped(3,4))
qed

lemma moved_waive:
  assumes "stamped clock rows" "strict_mono clock"
  obtains rows' b where "waive clock rows t name reason actor run = Inr (rows', b)"
    "moved clock t actor live rows rows'"
proof (cases rule: waive_cases [OF assms, of t name reason actor run, case_names kept dropped])
  case kept
  then show ?thesis using that moved_refl [OF assms(1)] by blast
next
  case (dropped item)
  show ?thesis
    by (rule that [OF dropped(4)], rule moved_drop [OF assms])
      (simp_all add: dropped_in_def dropped(3))
qed

lemma moved_persist:
  assumes "stamped clock rows" "strict_mono clock"
  obtains rows' where "persist_unresolved clock rows t live actor run = Inr rows'"
    "moved clock t actor live rows rows'"
    "open_names rows' t = open_names rows t
      \<union> {n \<in> ui_name ` set live. n \<noteq> [] \<and> n \<notin> set (waived_names rows t)}"
proof (rule persist_cases [OF assms, of t live actor run])
  fix rows'
  assume p: "persist_unresolved clock rows t live actor run = Inr rows'"
    and w: "rows' = rows \<or> (\<exists>items. rows' = add_row clock rows t (OPEN (Some items))
      \<and> write_open clock rows t items = Inr rows')"
    and n: "open_names rows' t = open_names rows t
      \<union> {n \<in> ui_name ` set live. n \<noteq> [] \<and> n \<notin> set (waived_names rows t)}"
  have "\<exists>extra. rows' = rows @ extra" using w by (auto simp: add_row_def)
  moreover have "ledger_writes clock rows rows'" using w by (auto intro: ledger_write.snapshot)
  moreover have "stamped clock rows'" using w assms(1) by auto
  ultimately have "moved clock t actor live rows rows'" unfolding moved_def using n by blast
  with p n show ?thesis using that by blast
qed

text \<open>
  The interface of the two loops of a settlement: an operation that never raises and only moves
  the ledger along. A loop over such an operation is one.
\<close>

locale ledger_loop =
  fixes clock :: "nat \<Rightarrow> int" and t :: string and actor :: LedgerActor and live :: "UnresolvedItem list"
    and f :: "'a \<Rightarrow> Rows \<Rightarrow> Rows result"
  assumes moves: "strict_mono clock \<Longrightarrow> stamped clock r \<Longrightarrow> \<exists>r'. f x r = Inr r' \<and> moved clock t actor live r r'"
begin

lemma loop_moves:
  assumes "strict_mono clock" and "stamped clock rows"
  shows "\<exists>rows'. each f xs rows = Inr rows' \<and> moved clock t actor live rows rows'"
  using assms(2)
proof (induction xs arbitrary: rows)
  case Nil
  then show ?case by (simp add: moved_refl)
next
  case (Cons x xs)
  then obtain r where r: "f x rows = Inr r" "moved clock t actor live rows r"
    using moves [OF assms(1)] by blast
  then have "stamped clock r" by (simp add: moved_def)
  then obtain rows' where "each f xs r = Inr rows'" "moved clock t actor live r rows'"
    using Cons.IH by blast
  with r show ?case using moved_trans by auto
qed

end

interpretation waiving: ledger_loop clock t actor live
  "\<lambda>w rows. bind_result (waive clock rows t (wv_name w) (wv_reason w) actor run) (\<lambda>(rows, _). Inr rows)"
  for clock t actor live run
proof
  fix r w assume "strict_mono clock" and "stamped clock r"
  then obtain r' b where "waive clock r t (wv_name w) (wv_reason w) actor run = Inr (r', b)"
      "moved clock t actor live r r'"
    using moved_waive by blast
  then show "\<exists>r'. bind_result (waive clock r t (wv_name w) (wv_reason w) actor run) (\<lambda>(rows, _). Inr rows) = Inr r'
      \<and> moved clock t actor live r r'" by simp
qed

interpretation clearing: ledger_loop clock t actor live
  "\<lambda>item rows. if oi_name item \<in> ui_name ` set live then Inr rows
     else bind_result (clear clock rows t (oi_name item) actor live) (\<lambda>(rows, _). Inr rows)"
  for clock t actor live
proof
  fix r item assume c: "strict_mono clock" and s: "stamped clock r"
  then obtain r' b where "clear clock r t (oi_name item) actor live = Inr (r', b)" "moved clock t actor live r r'"
    using moved_clear by blast
  with moved_refl [OF s]
  show "\<exists>r'. (if oi_name item \<in> ui_name ` set live then Inr r
         else bind_result (clear clock r t (oi_name item) actor live) (\<lambda>(rows, _). Inr rows)) = Inr r'
      \<and> moved clock t actor live r r'" by simp
qed

lemma moved_settle:
  assumes "stamped clock rows" "strict_mono clock"
  obtains rows1 rows' where
    "settle_unresolved clock rows t live actor waivers k run =
       Inr (rows', visible_unresolved rows' t live k (Some actor))"
    "persist_unresolved clock rows t live actor run = Inr rows1"
    "open_names rows1 t = open_names rows t
      \<union> {n \<in> ui_name ` set live. n \<noteq> [] \<and> n \<notin> set (waived_names rows t)}"
    "moved clock t actor live rows rows1" "moved clock t actor live rows1 rows'"
proof -
  obtain rows1 where p: "persist_unresolved clock rows t live actor run = Inr rows1"
    and m1: "moved clock t actor live rows rows1"
    and n: "open_names rows1 t = open_names rows t
      \<union> {n \<in> ui_name ` set live. n \<noteq> [] \<and> n \<notin> set (waived_names rows t)}"
    by (rule moved_persist [OF assms, of t live actor run])
  have s1: "stamped clock rows1" using m1 by (simp add: moved_def)
  obtain r2 where w: "each (\<lambda>w rows. bind_result (waive clock rows t (wv_name w) (wv_reason w) actor run)
         (\<lambda>(rows, _). Inr rows)) waivers rows1 = Inr r2" and m2: "moved clock t actor live rows1 r2"
    using waiving.loop_moves [OF assms(2) s1] by blast
  have s2: "stamped clock r2" using m2 by (simp add: moved_def)
  obtain r3 where c: "each (\<lambda>item rows. if oi_name item \<in> ui_name ` set live then Inr rows
           else bind_result (clear clock rows t (oi_name item) actor live) (\<lambda>(rows, _). Inr rows))
         (current_open_items r2 t) r2 = Inr r3" and m3: "moved clock t actor live r2 r3"
    using clearing.loop_moves [OF assms(2) s2] by blast
  show ?thesis
    by (rule that [OF _ p n m1 moved_trans [OF m2 m3]]) (simp add: settle_unresolved_def p w c)
qed

section \<open>Repair\<close>

text \<open>Dictionaries that only grow, keyed by the names of their items.\<close>

definition keyed :: "('v \<Rightarrow> string) \<Rightarrow> string set \<Rightarrow> (string, 'v) dict \<Rightarrow> bool" where
  "keyed nm K d \<longleftrightarrow> (\<forall>p \<in> set d. nm (snd p) = fst p) \<and> K \<subseteq> set (dict_keys d)"

lemma keyed_set: "keyed nm K d \<Longrightarrow> keyed nm K (dict_set (nm v) v d)"
  using set_dict_set [of "nm v" v d] unfolding keyed_def by (auto simp: dict_keys_set)

lemma keyed_fold:
  assumes "keyed nm K d" and "\<And>x d. keyed nm K d \<Longrightarrow> keyed nm K (f x d)"
  shows "keyed nm K (fold f xs d)"
  using assms(1) by (induction xs arbitrary: d) (simp_all add: assms(2))

lemma keyed_dict_of: "keyed nm (nm ` set xs) (dict_of (map (\<lambda>x. (nm x, x)) xs))"
  using set_dict_of [of "map (\<lambda>x. (nm x, x)) xs"]
  by (auto simp: keyed_def dict_of_def dict_keys_def keys_fold_dict_set image_image)

lemma keyed_values: "keyed nm K d \<Longrightarrow> K \<subseteq> nm ` set (dict_values d)"
  by (force simp: keyed_def dict_values_def dict_keys_def)

lemma repair_one_moves:
  assumes "stamped clock rows" "strict_mono clock"
  shows "\<exists>rows' b. repair_one clock rows exists t = Inr (rows', b) \<and> ledger_writes clock rows rows'"
proof -
  let ?H = "open_history rows t"
  define latest where "latest = parse_open (ur_doc (last ?H))"
  define d where "d = fold (\<lambda>older d. fold (\<lambda>item d.
      if dict_has d (oi_name item) \<or> has_audit rows t (oi_name item) (Some (ur_created_at older))
      then d else dict_set (oi_name item) item d) (parse_open (ur_doc older)) d)
      (butlast ?H) (dict_of (map (\<lambda>item. (oi_name item, item)) latest))"
  have "keyed oi_name (oi_name ` set latest) d"
    unfolding d_def
    by (rule keyed_fold, rule keyed_dict_of, rule keyed_fold) (simp_all add: keyed_set)
  from keyed_values [OF this] have names: "oi_name ` set latest \<subseteq> oi_name ` set (dict_values d)" .
  have "current_open_items rows t = latest" if "?H \<noteq> []"
    using that newest_open_row_last [OF assms, of t] open_history_rows [OF assms, of t]
    by (simp add: current_open_items_def latest_def)
  then have w: "write_open clock rows t (dict_values d) = Inr (add_row clock rows t (OPEN (Some (dict_values d))))"
    if "?H \<noteq> []" using that names by (auto simp: write_open_Inr)
  have r: "repair_one clock rows exists t =
      (if \<not> exists \<or> length ?H < 2 \<or> set (dict_keys d) = oi_name ` set latest then Inr (rows, False)
       else bind_result (write_open clock rows t (dict_values d)) (\<lambda>rows. Inr (rows, True)))"
    by (simp add: repair_one_def Let_def d_def latest_def)
  show ?thesis
  proof (cases "\<not> exists \<or> length ?H < 2 \<or> set (dict_keys d) = oi_name ` set latest")
    case True
    then show ?thesis using r by auto
  next
    case False
    then have "?H \<noteq> []" by auto
    then show ?thesis using r False w ledger_write.snapshot [OF w] by auto
  qed
qed

lemma repair_moves:
  assumes "stamped clock rows" "strict_mono clock"
  shows "\<exists>rows' n. repair_unaudited_open_shrink clock rows exists ts = Inr (rows', n) \<and> ledger_writes clock rows rows'"
  using assms(1)
proof (induction ts arbitrary: rows)
  case (Cons t ts)
  obtain r b where r: "repair_one clock rows (exists t) t = Inr (r, b)" "ledger_writes clock rows r"
    using repair_one_moves [OF Cons.prems assms(2)] by blast
  then have "stamped clock r" using ledger_writes_sound [OF _ Cons.prems assms(2)] by blast
  then obtain r' n where "repair_unaudited_open_shrink clock r exists ts = Inr (r', n)" "ledger_writes clock r r'"
    using Cons.IH by blast
  with r show ?case by auto
qed auto

section \<open>Histories of operations\<close>

inductive ledger_step :: "(nat \<Rightarrow> int) \<Rightarrow> Rows \<Rightarrow> Rows \<Rightarrow> bool" for clock where
  persisted: "persist_unresolved clock rows t live actor run = Inr rows' \<Longrightarrow> ledger_step clock rows rows'"
| cleared: "clear clock rows t name actor live = Inr (rows', b) \<Longrightarrow> ledger_step clock rows rows'"
| waived: "waive clock rows t name reason actor run = Inr (rows', b) \<Longrightarrow> ledger_step clock rows rows'"
| settled: "settle_unresolved clock rows t live actor waivers k run = Inr (rows', visible) \<Longrightarrow>
    ledger_step clock rows rows'"
| repaired: "repair_unaudited_open_shrink clock rows exists ts = Inr (rows', n) \<Longrightarrow> ledger_step clock rows rows'"

inductive_cases ledger_stepE: "ledger_step clock rows rows'"

lemma ledger_step_writes:
  assumes "ledger_step clock rows rows'" and "stamped clock rows" "strict_mono clock"
  shows "ledger_writes clock rows rows'"
  using assms(1)
proof cases
  case (persisted t live actor run)
  then show ?thesis using moved_persist [OF assms(2,3), of t live actor run] by (auto simp: moved_def)
next
  case (cleared t name actor live b)
  then show ?thesis using moved_clear [OF assms(2,3), of t name actor live] by (auto simp: moved_def)
next
  case (waived t name reason actor run b)
  then show ?thesis using moved_waive [OF assms(2,3), of t name reason actor run] by (auto simp: moved_def)
next
  case (settled t live actor waivers k run visible)
  obtain rows1 r where s: "settle_unresolved clock rows t live actor waivers k run =
       Inr (r, visible_unresolved r t live k (Some actor))"
    and m: "moved clock t actor live rows rows1" "moved clock t actor live rows1 r"
    by (rule moved_settle [OF assms(2,3), of t live actor waivers k run])
  from s settled have "r = rows'" by simp
  with moved_trans [OF m] show ?thesis by (simp add: moved_def)
next
  case (repaired exists ts n)
  then show ?thesis using repair_moves [OF assms(2,3), of exists ts] by auto
qed

lemma reachable_ledger:
  assumes "(ledger_step clock)\<^sup>*\<^sup>* [] rows" and "strict_mono clock"
  shows "stamped clock rows \<and> shrinks_audited rows"
  using assms(1)
proof (induction rule: rtranclp_induct)
  case base
  show ?case by (simp add: shrinks_audited_def open_rows_def)
next
  case (step b c)
  then show ?case using ledger_writes_sound [OF ledger_step_writes [OF step.hyps(2)]] assms(2) by blast
qed

lemma fold_unchanged: "(\<And>x. x \<in> set xs \<Longrightarrow> f x s = s) \<Longrightarrow> fold f xs s = s"
  by (induction xs) simp_all

lemma nothing_missing:
  assumes "stamped clock rows" "strict_mono clock" "shrinks_audited rows"
  shows "unaudited_missing rows t = []"
  unfolding unaudited_missing_def Let_def open_history_rows [OF assms(1,2)]
proof (rule fold_unchanged, rule fold_unchanged)
  fix older item
  assume "older \<in> set (butlast (open_rows rows t))" and "item \<in> set (parse_open (ur_doc older))"
  then show "(if oi_name item \<in> set (map oi_name (parse_open (ur_doc (last (open_rows rows t)))))
        \<or> dict_has [] (oi_name item) \<or> has_audit rows t (oi_name item) (Some (ur_created_at older))
      then [] else dict_set (oi_name item) item []) = []"
    using shrinks_auditedD [OF assms(3), of older t "oi_name item"] by (auto simp: names_of_def)
qed

section \<open>What stays visible\<close>

lemma visible_durable:
  assumes "item \<in> set (current_open_items rows t)" and "is_durable (oi_name item)"
  shows "oi_name item \<in> ui_name ` set (visible_unresolved rows t live k actor)"
proof -
  have shown_name: "ui_name (as_shown live i) = oi_name i" for i by (simp add: as_shown_def Let_def)
  define step where "step = (\<lambda>item d. if open_visible k actor item
      then dict_set (oi_name item) (as_shown live item) d else d)"
  define d1 where "d1 = fold step (current_open_items rows t) []"
  define d2 where "d2 = fold (\<lambda>item d.
      if ui_name item = [] \<or> dict_has d (ui_name item) \<or> ui_name item \<in> set (waived_names rows t) then d
      else if live_visible k actor item then dict_set (ui_name item) item d else d) live d1"
  have v: "visible_unresolved rows t live k actor =
      concat (map (\<lambda>name. case map_of d2 name of Some item \<Rightarrow> [item] | None \<Rightarrow> []) (sort (dict_keys d2)))"
    unfolding visible_unresolved_def Let_def d2_def d1_def step_def ..
  have keeps: "keyed ui_name n (step x d)" if "keyed ui_name n d" for n x d
    using that keyed_set [of ui_name n d "as_shown live x"] by (simp add: step_def shown_name)
  have grow: "keyed ui_name n (fold step xs d)" if "keyed ui_name n d" for n xs d
    using that keeps by (rule keyed_fold)
  have enters: "keyed ui_name {oi_name item} (fold step xs d)"
    if "item \<in> set xs" "keyed ui_name {} d" for xs d
    using that
  proof (induction xs arbitrary: d)
    case (Cons x xs)
    show ?case
    proof (cases "x = item")
      case True
      have "open_visible k actor item" using assms(2) by (simp add: open_visible_def item_visible_def)
      then have "keyed ui_name {oi_name item} (step x d)"
        using keeps [OF Cons.prems(2), of x] True by (auto simp: keyed_def step_def dict_keys_set dict_has_keys)
      from grow [OF this, of xs] show ?thesis by simp
    next
      case False
      then show ?thesis using Cons.IH [OF _ keeps [OF Cons.prems(2)]] Cons.prems(1) by simp
    qed
  qed simp
  have "keyed ui_name {oi_name item} d1"
    unfolding d1_def by (rule enters [OF assms(1)]) (simp add: keyed_def)
  then have k2: "keyed ui_name {oi_name item} d2"
    unfolding d2_def by (rule keyed_fold) (simp add: keyed_set)
  then have k: "oi_name item \<in> set (dict_keys d2)" by (simp add: keyed_def)
  then obtain i where i: "map_of d2 (oi_name item) = Some i"
    by (metis dict_keys_def list.set_map map_of_eq_None_iff not_None_eq)
  then have "ui_name i = oi_name item" using k2 map_of_SomeD [OF i] by (auto simp: keyed_def)
  moreover have "i \<in> set (visible_unresolved rows t live k actor)"
    unfolding v using k i by (auto intro!: bexI [of _ "oi_name item"])
  ultimately show ?thesis by force
qed

section \<open>Properties\<close>

definition sample_item :: "string \<Rightarrow> UnresolvedItem" where
  "sample_item name = \<lparr>ui_name = name, ui_producer_agent_id = ''dev'', ui_producer_stage_key = [],
     ui_detail = [], ui_is_claim = False\<rparr>"

definition sample_actor :: LedgerActor where
  "sample_actor = \<lparr>la_agent_id = ''dev'', la_stage_key = ''implement''\<rparr>"

definition sample_rows :: Rows where
  "sample_rows = add_row int [] ''t'' (OPEN (Some [open_item_from_live (sample_item ''handoff:tests incomplete'')
     sample_actor ''r'']))"

lemma strict_mono_int: "strict_mono int"
  by (simp add: strict_mono_def)

lemma sample_rows_reached: "(ledger_step int)\<^sup>*\<^sup>* [] sample_rows"
proof (rule r_into_rtranclp, rule ledger_step.persisted)
  show "persist_unresolved int [] ''t'' [sample_item ''handoff:tests incomplete''] sample_actor ''r'' = Inr sample_rows"
    by code_simp
qed

text \<open>C4: The named set shrinks only on the record. However persisting, clearing, waiving, settling and
  repairing of any tickets follow each other, under a clock that never repeats, the detector for
  snapshots that lost a name without an audit row finds nothing.\<close>

theorem shrinks_are_audited:
  assumes "(ledger_step clock)\<^sup>*\<^sup>* [] rows" and "strict_mono clock"
  shows "detect_unaudited_open_shrink rows = []"
  using reachable_ledger [OF assms] nothing_missing [OF _ assms(2)]
  by (simp add: detect_unaudited_open_shrink_def Let_def)

theorem shrinks_are_audited_witness: "detect_unaudited_open_shrink sample_rows = []"
  by (rule shrinks_are_audited [OF sample_rows_reached strict_mono_int])

text \<open>The guard that refuses an unaudited shrink never fires on the ledger's own operations: from
  any state they reach, every one of them returns.\<close>

theorem ledger_never_refuses:
  assumes "(ledger_step clock)\<^sup>*\<^sup>* [] rows" and "strict_mono clock"
  shows "is_ok (persist_unresolved clock rows t live actor run)
    \<and> is_ok (clear clock rows t name actor live)
    \<and> is_ok (waive clock rows t name reason actor run)
    \<and> is_ok (settle_unresolved clock rows t live actor waivers k run)
    \<and> is_ok (repair_unaudited_open_shrink clock rows exists ts)"
proof -
  have s: "stamped clock rows" using reachable_ledger [OF assms] by blast
  have "is_ok (persist_unresolved clock rows t live actor run)"
    by (rule moved_persist [OF s assms(2), of t live actor run]) simp
  moreover have "is_ok (clear clock rows t name actor live)"
    by (rule moved_clear [OF s assms(2), of t name actor live]) simp
  moreover have "is_ok (waive clock rows t name reason actor run)"
    by (rule moved_waive [OF s assms(2), of t name reason actor run]) simp
  moreover have "is_ok (settle_unresolved clock rows t live actor waivers k run)"
    by (rule moved_settle [OF s assms(2), of t live actor waivers k run]) simp
  moreover have "is_ok (repair_unaudited_open_shrink clock rows exists ts)"
    using repair_moves [OF s assms(2), of exists ts] by auto
  ultimately show ?thesis by blast
qed

theorem ledger_never_refuses_witness: "is_ok (clear int sample_rows ''t'' ''handoff:tests incomplete'' sample_actor [])"
  using ledger_never_refuses [OF sample_rows_reached strict_mono_int] by blast

text \<open>C14: Nothing a stage owes disappears quietly. When a pass is settled, every durable name (a handoff
  item, a piece of evidence) that was open on the ticket before, or that the verdict names now and
  nobody has waived, is in the list the pass is held for, unless this very settlement wrote the
  row that drops it: a clear by an agent, of a name the verdict no longer gives, or a waiver with
  a written reason, signed by the one who settles.\<close>

theorem nothing_quietly_dropped:
  assumes "(ledger_step clock)\<^sup>*\<^sup>* [] rows" and "strict_mono clock"
    and "settle_unresolved clock rows t live actor waivers k run = Inr (rows', visible)"
    and "is_durable name"
    and "name \<in> open_names rows t
      \<or> (name \<in> ui_name ` set live \<and> name \<noteq> [] \<and> name \<notin> set (waived_names rows t))"
  shows "name \<in> ui_name ` set visible \<or> dropped_in (drop (length rows) rows') t actor live name"
proof -
  have s: "stamped clock rows" using reachable_ledger [OF assms(1,2)] by blast
  obtain rows1 r where "settle_unresolved clock rows t live actor waivers k run =
       Inr (r, visible_unresolved r t live k (Some actor))"
    and n: "open_names rows1 t = open_names rows t
      \<union> {n \<in> ui_name ` set live. n \<noteq> [] \<and> n \<notin> set (waived_names rows t)}"
    and m: "moved clock t actor live rows rows1" "moved clock t actor live rows1 r"
    by (rule moved_settle [OF s assms(2), of t live actor waivers k run])
  with assms(3) have r: "r = rows'" and visible: "visible = visible_unresolved rows' t live k (Some actor)"
    by auto
  have "name \<in> open_names rows1 t" using n assms(5) by blast
  with m(2) r obtain e2 where e2: "rows' = rows1 @ e2"
      "name \<in> open_names rows' t \<or> dropped_in e2 t actor live name"
    unfolding moved_def by blast
  from m(1) obtain e1 where e1: "rows1 = rows @ e1" unfolding moved_def by blast
  show ?thesis
  proof (cases "name \<in> open_names rows' t")
    case True
    then obtain item where "item \<in> set (current_open_items rows' t)" "oi_name item = name"
      by (auto simp: open_names_def)
    then show ?thesis using visible_durable [of item rows' t live k "Some actor"] assms(4) by (simp add: visible)
  next
    case False
    then show ?thesis using e1 e2 by simp
  qed
qed

theorem nothing_quietly_dropped_witness:
  "case settle_unresolved int sample_rows ''t'' [] \<lparr>la_agent_id = ''qa'', la_stage_key = ''review''\<rparr> [] ''review'' ''r2'' of
     Inl _ \<Rightarrow> False
   | Inr (rows', visible) \<Rightarrow> ''handoff:tests incomplete'' \<in> ui_name ` set visible
       \<or> dropped_in (drop (length sample_rows) rows') ''t'' \<lparr>la_agent_id = ''qa'', la_stage_key = ''review''\<rparr> []
           ''handoff:tests incomplete''"
proof -
  let ?qa = "\<lparr>la_agent_id = ''qa'', la_stage_key = ''review''\<rparr>"
  have "is_ok (settle_unresolved int sample_rows ''t'' [] ?qa [] ''review'' ''r2'')" by code_simp
  then obtain rows' visible where s: "settle_unresolved int sample_rows ''t'' [] ?qa [] ''review'' ''r2'' = Inr (rows', visible)"
    by (auto elim: is_okE)
  have "''handoff:tests incomplete'' \<in> open_names sample_rows ''t''"
    by (simp add: open_names_def) code_simp
  moreover have "is_durable ''handoff:tests incomplete''" by code_simp
  ultimately show ?thesis
    using nothing_quietly_dropped [OF sample_rows_reached strict_mono_int s] by (simp add: s)
qed

text \<open>When a claimed pass stands. Settling it always returns; it stands only when the run claims a
  pass, the handoff, the evidence and the agent's own records are in order, and no durable item is
  left open on the ticket; and the verdict it is held for is never itself a pass.\<close>

theorem standing_pass_owes_nothing:
  assumes "(ledger_step clock)\<^sup>*\<^sup>* [] rows" and "strict_mono clock"
    and "sr_status report = ''pass''" and "find (\<lambda>stage. sd_key stage = k) stages = Some stage_def"
  shows "case pass_held clock jg rows ticket (Some report) stages agent k run of
      Inl _ \<Rightarrow> False
    | Inr (rows', None) \<Rightarrow> handoff_settled jg \<and> evidence_settled jg ticket stage_def \<and> holds_settled jg ticket agent
        \<and> \<not> list_ex is_durable (persisted_open_names rows' (tk_id ticket))
    | Inr (rows', Some verdict) \<Rightarrow> sv_status verdict \<noteq> PASS"
proof -
  define verdict where "verdict = derive_verdict (collect_signals jg ticket (Some report) None stage_def agent)"
  define actor where "actor = \<lparr>la_agent_id = agent, la_stage_key = k\<rparr>"
  have s: "stamped clock rows" using reachable_ledger [OF assms(1,2)] by blast
  obtain rows1 r where st: "settle_unresolved clock rows (tk_id ticket) (sv_unresolved verdict) actor
      (sr_waivers report) k run = Inr (r, visible_unresolved r (tk_id ticket) (sv_unresolved verdict) k (Some actor))"
    by (rule moved_settle [OF s assms(2), of "tk_id ticket" "sv_unresolved verdict" actor "sr_waivers report" k run])
  define visible where "visible = visible_unresolved r (tk_id ticket) (sv_unresolved verdict) k (Some actor)"
  have held: "pass_held clock jg rows ticket (Some report) stages agent k run =
      (let v = (if visible \<noteq> [] then \<lparr>sv_status = (if sv_status verdict = PASS then NEEDS_REWORK else sv_status verdict),
                  sv_unresolved = visible\<rparr> else verdict)
       in if sv_status v = PASS then Inr (r, None) else Inr (r, Some v))"
    by (simp add: pass_held_def assms(3,4) Let_def verdict_def [symmetric] actor_def [symmetric] st visible_def [symmetric])
  show ?thesis
  proof (cases "visible = [] \<and> sv_status verdict = PASS")
    case True
    then have "routing_outcome verdict = ''pass''" by (simp add: routing_outcome_def)
    then have "handoff_settled jg \<and> evidence_settled jg ticket stage_def \<and> holds_settled jg ticket agent"
      unfolding verdict_def pass_is_earned by (simp split: if_splits)
    moreover have "\<not> list_ex is_durable (persisted_open_names r (tk_id ticket))"
      using True visible_durable [of _ r "tk_id ticket" "sv_unresolved verdict" k "Some actor"]
      by (auto simp: list_ex_iff persisted_open_names_def visible_def)
    ultimately show ?thesis using True held by simp
  next
    case False
    then show ?thesis using held by (auto simp: Let_def)
  qed
qed

definition sample_judging :: Judging where
  "sample_judging = \<lparr>jg_handoff = Some \<lparr>he_from_agent = ''dev'', he_to_agent = ''qa'',
       he_checklist = [\<lparr>hi_item_key = ''tests'', hi_status = ''open'', hi_required = True\<rparr>]\<rparr>,
     jg_catalogs = None, jg_stages = [], jg_studio = [], jg_head = [], jg_evidence = \<lambda>_ _. False,
     jg_pending_operations = [], jg_ledger = empty_ledger, jg_excuse = \<lambda>_. []\<rparr>"

definition waiving_pass :: StageReport where
  "waiving_pass = sample_pass\<lparr>sr_waivers :=
     [\<lparr>wv_name = ''handoff:tests incomplete'', wv_reason = ''tests land in the next ticket''\<rparr>]\<rparr>"

theorem standing_pass_owes_nothing_witness:
  "case pass_held int sample_judging sample_rows sample_budget_ticket (Some sample_pass) [plain_stage ''implement'' 0]
      ''dev'' ''implement'' ''r2'' of
      Inl _ \<Rightarrow> False
    | Inr (rows', None) \<Rightarrow> handoff_settled sample_judging \<and> evidence_settled sample_judging sample_budget_ticket
          (plain_stage ''implement'' 0) \<and> holds_settled sample_judging sample_budget_ticket ''dev''
        \<and> \<not> list_ex is_durable (persisted_open_names rows' (tk_id sample_budget_ticket))
    | Inr (rows', Some verdict) \<Rightarrow> sv_status verdict \<noteq> PASS"
proof (rule standing_pass_owes_nothing [OF sample_rows_reached strict_mono_int])
  show "sr_status sample_pass = ''pass''" by (simp add: sample_pass_def)
  show "find (\<lambda>stage. sd_key stage = ''implement'') [plain_stage ''implement'' 0] = Some (plain_stage ''implement'' 0)"
    by (simp add: plain_stage_def)
qed


end
