(* ===== verification/QueueTables.thy ===== *)
theory QueueTables
  imports Rollup RetryBudget
begin

text \<open>
  The tables the execution queue reads and writes (\<open>models/domain/queue_tables.py\<close> and the
  orchestration runs of \<open>models/domain/tables.py\<close>) and the state \<open>Queue\<close> that holds them
  beside the ticket board and the dispatch ledger. A table is a list in row order; a query
  without an order returns rows in that order, and \<open>first()\<close> is \<open>find\<close>. A row is rewritten
  through its primary key. Times are microseconds, the identifiers \<open>uuid4\<close> draws are the
  numerals of a counter, so a drawn identifier is never one drawn before.
\<close>

section \<open>Enumerations\<close>

datatype QueuePosition =
    QUEUED | SCHEDULED | PROMOTED | STARTED | ACTIVE | PAUSED | CANCELLED | FAILED | SKIPPED | REPAIRING

datatype QueueEntryKind = ORCHESTRATION | STAGE

datatype RepairRoute = INTERRUPTION | SCOPE_REROUTE | STAGE_RETRY | MERGE_TURN

datatype OrchestrationRunStatus = QUEUED | RUNNING | SUCCEEDED | FAILED | BLOCKED | CANCELLED

fun orchestration_status_value :: "OrchestrationRunStatus \<Rightarrow> string" where
  "orchestration_status_value OrchestrationRunStatus.QUEUED = ''queued''"
| "orchestration_status_value OrchestrationRunStatus.RUNNING = ''running''"
| "orchestration_status_value OrchestrationRunStatus.SUCCEEDED = ''succeeded''"
| "orchestration_status_value OrchestrationRunStatus.FAILED = ''failed''"
| "orchestration_status_value OrchestrationRunStatus.BLOCKED = ''blocked''"
| "orchestration_status_value OrchestrationRunStatus.CANCELLED = ''cancelled''"

datatype OrchestrationDriver = BUILTIN_AUTOPILOT | EXTERNAL_MCP | MANUAL_STAGE

fun driver_value :: "OrchestrationDriver \<Rightarrow> string" where
  "driver_value BUILTIN_AUTOPILOT = ''builtin_autopilot''"
| "driver_value EXTERNAL_MCP = ''external_mcp''"
| "driver_value MANUAL_STAGE = ''manual_stage''"

definition driver_of :: "string \<Rightarrow> OrchestrationDriver option" where
  "driver_of v = find (\<lambda>d. driver_value d = v) [BUILTIN_AUTOPILOT, EXTERNAL_MCP, MANUAL_STAGE]"

datatype ApprovalStatus = PENDING | APPROVED | REJECTED | IGNORED

section \<open>Rows\<close>

record AgentSlot =
  sl_id :: string
  sl_slot_number :: int
  sl_is_available :: bool
  sl_current_run_id :: "string option"
  sl_current_orchestration_run_id :: "string option"
  sl_assigned_at :: "int option"
  sl_released_at :: "int option"

record QueuedRun =
  qr_id :: string
  qr_workspace_id :: "string option"
  qr_ticket_id :: string
  qr_run_id :: "string option"
  qr_orchestration_run_id :: "string option"
  qr_slot_number :: int
  qr_position :: int
  qr_auto_approve :: bool
  qr_stop_at_stage_key :: string
  qr_approve_design_plans :: bool
  qr_auto_repair :: bool
  qr_entry_kind :: QueueEntryKind
  qr_stage_key :: string
  qr_driver :: string
  qr_max_stages :: "int option"
  qr_timeout_seconds :: "int option"
  qr_force :: bool
  qr_status :: QueuePosition
  qr_retry_count :: int
  qr_max_retries :: int
  qr_repair_route :: "RepairRoute option"
  qr_repair_attempts :: int
  qr_repairing_since :: "int option"
  qr_estimated_start_at :: "int option"
  qr_promoted_at :: "int option"
  qr_started_at :: "int option"
  qr_failure_reason :: string
  qr_last_failed_at :: "int option"
  qr_created_at :: int

text \<open>A row as the constructor makes it: the column defaults around what it is given.\<close>

definition new_entry :: "string \<Rightarrow> string option \<Rightarrow> string \<Rightarrow> int \<Rightarrow> QueuedRun" where
  "new_entry i workspace_id ticket_id created_at = \<lparr>qr_id = i, qr_workspace_id = workspace_id,
     qr_ticket_id = ticket_id, qr_run_id = None, qr_orchestration_run_id = None, qr_slot_number = 1,
     qr_position = 0, qr_auto_approve = False, qr_stop_at_stage_key = [], qr_approve_design_plans = True,
     qr_auto_repair = True, qr_entry_kind = ORCHESTRATION, qr_stage_key = [], qr_driver = [],
     qr_max_stages = None, qr_timeout_seconds = None, qr_force = False, qr_status = QueuePosition.QUEUED,
     qr_retry_count = 0, qr_max_retries = 3, qr_repair_route = None, qr_repair_attempts = 0, qr_repairing_since = None,
     qr_estimated_start_at = None, qr_promoted_at = None,
     qr_started_at = None, qr_failure_reason = [], qr_last_failed_at = None, qr_created_at = created_at\<rparr>"

record OrchestrationRun =
  or_id :: string
  or_run_code :: string
  or_ticket_id :: string
  or_workspace_id :: "string option"
  or_driver :: OrchestrationDriver
  or_profile_slug :: string
  or_status :: OrchestrationRunStatus
  or_current_stage_key :: string
  or_error_message :: "nat list"
  or_auto_approve :: bool
  or_stop_at_stage_key :: string
  or_approve_design_plans :: bool
  or_auto_repair :: bool
  or_timeout_override_seconds :: "int option"
  or_last_seen_at :: "int option"
  or_started_at :: "int option"
  or_finished_at :: "int option"
  or_created_at :: int

record Approval =
  ap_ticket_id :: string
  ap_status :: ApprovalStatus

text \<open>
  What \<open>record_orchestrator_decision\<close> publishes about a lane held by nothing: an event of
  the log that may name no ticket.
\<close>

record LaneDecision =
  ld_ticket_id :: "string option"
  ld_slot_number :: int
  ld_last_entry_id :: "string option"
  ld_last_orchestration_run_id :: "string option"
  ld_assigned_at :: "int option"

record Queue =
  qu_board :: Board
  qu_ledger :: Ledger
  qu_instances :: "(string \<times> WorkflowInstance) list"
  qu_approvals :: "Approval list"
  qu_slots :: "AgentSlot list"
  qu_entries :: "QueuedRun list"
  qu_orchs :: "OrchestrationRun list"
  qu_decisions :: "LaneDecision list"
  qu_lane_count :: "int option"
  qu_next_id :: nat

section \<open>Reading and writing rows\<close>

text \<open>A table with a key: the row of a key is found, and found alone.\<close>

lemma find_key:
  "distinct (map k xs) \<Longrightarrow> x \<in> set xs \<Longrightarrow> find (\<lambda>y. k y = k x) xs = Some x"
  by (induction xs) (auto simp: image_iff)

lemma filter_key:
  "distinct (map k xs) \<Longrightarrow> x \<in> set xs \<Longrightarrow> filter (\<lambda>y. k y = k x) xs = [x]"
  by (induction xs) (auto simp: image_iff filter_empty_conv)

lemma find_in: "find P xs = Some x \<Longrightarrow> x \<in> set xs \<and> P x"
  by (auto simp: find_Some_iff)

lemma find_key_iff:
  "distinct (map k xs) \<Longrightarrow> find (\<lambda>y. k y = i) xs = Some x \<longleftrightarrow> x \<in> set xs \<and> k x = i"
  using find_key [of k xs x] find_in [of "\<lambda>y. k y = i" xs x] by auto


definition uuid4 :: "Queue \<Rightarrow> string \<times> Queue" where
  "uuid4 q = (digits_of (qu_next_id q), q\<lparr>qu_next_id := Suc (qu_next_id q)\<rparr>)"

definition alter_slot :: "string \<Rightarrow> (AgentSlot \<Rightarrow> AgentSlot) \<Rightarrow> Queue \<Rightarrow> Queue" where
  "alter_slot i f q = q\<lparr>qu_slots := map (\<lambda>s. if sl_id s = i then f s else s) (qu_slots q)\<rparr>"

definition alter_entry :: "string \<Rightarrow> (QueuedRun \<Rightarrow> QueuedRun) \<Rightarrow> Queue \<Rightarrow> Queue" where
  "alter_entry i f q = q\<lparr>qu_entries := map (\<lambda>e. if qr_id e = i then f e else e) (qu_entries q)\<rparr>"

definition delete_entry :: "string \<Rightarrow> Queue \<Rightarrow> Queue" where
  "delete_entry i q = q\<lparr>qu_entries := filter (\<lambda>e. qr_id e \<noteq> i) (qu_entries q)\<rparr>"

definition add_entry :: "QueuedRun \<Rightarrow> Queue \<Rightarrow> Queue" where
  "add_entry e q = q\<lparr>qu_entries := qu_entries q @ [e]\<rparr>"

definition get_entry :: "Queue \<Rightarrow> string \<Rightarrow> QueuedRun option" where
  "get_entry q i = find (\<lambda>e. qr_id e = i) (qu_entries q)"

definition get_slot :: "Queue \<Rightarrow> string \<Rightarrow> AgentSlot option" where
  "get_slot q i = find (\<lambda>s. sl_id s = i) (qu_slots q)"

definition get_orch :: "Queue \<Rightarrow> string \<Rightarrow> OrchestrationRun option" where
  "get_orch q i = find (\<lambda>r. or_id r = i) (qu_orchs q)"

definition get_run :: "Queue \<Rightarrow> string \<Rightarrow> AgentRun option" where
  "get_run q i = find (\<lambda>r. rn_id r = i) (lg_runs (qu_ledger q))"

definition get_instance :: "Queue \<Rightarrow> string \<Rightarrow> WorkflowInstance option" where
  "get_instance q ticket_id = map_of (qu_instances q) ticket_id"

text \<open>A nullable identifier read as a truth value: \<open>None\<close> and the empty string are false.\<close>

definition named :: "string option \<Rightarrow> string option" where
  "named i = (case i of None \<Rightarrow> None | Some s \<Rightarrow> if s = [] then None else Some s)"

text \<open>
  What the queue asks of its surroundings: the clock, whether the process drains, the lane
  count the service was built with, the stages a ticket's template and workspace resolve to,
  the retry budget of its profile, and why git would refuse a merge turn.
\<close>

record LaneEnv =
  le_now :: int
  le_draining :: bool
  le_max_concurrent :: int
  le_stages :: "Ticket \<Rightarrow> WorkflowStageDef list"
  le_profile :: "RetryBudgetConfig result option"
  le_merge_refusal :: "Ticket \<Rightarrow> string"

lemma named_iff [simp]: "named i = Some s \<longleftrightarrow> i = Some s \<and> s \<noteq> []"
  by (auto simp: named_def split: option.splits if_splits)

lemma named_None_iff: "named i = None \<longleftrightarrow> i = None \<or> i = Some []"
  by (auto simp: named_def split: option.splits)

lemma named_simps [simp]: "named None = None" "named (Some []) = None"
  by (simp_all add: named_def)

lemma alter_slot_fields [simp, row_simps]:
  "qu_entries (alter_slot i f q) = qu_entries q"
  "qu_orchs (alter_slot i f q) = qu_orchs q"
  "qu_board (alter_slot i f q) = qu_board q"
  "qu_ledger (alter_slot i f q) = qu_ledger q"
  "qu_next_id (alter_slot i f q) = qu_next_id q"
  "qu_instances (alter_slot i f q) = qu_instances q"
  "qu_approvals (alter_slot i f q) = qu_approvals q"
  by (simp_all add: alter_slot_def)

lemma alter_entry_fields [simp, row_simps]:
  "qu_slots (alter_entry i f q) = qu_slots q"
  "qu_orchs (alter_entry i f q) = qu_orchs q"
  "qu_board (alter_entry i f q) = qu_board q"
  "qu_ledger (alter_entry i f q) = qu_ledger q"
  "qu_next_id (alter_entry i f q) = qu_next_id q"
  "qu_instances (alter_entry i f q) = qu_instances q"
  "qu_approvals (alter_entry i f q) = qu_approvals q"
  by (simp_all add: alter_entry_def)

lemma delete_entry_fields [simp, row_simps]:
  "qu_slots (delete_entry i q) = qu_slots q"
  "qu_orchs (delete_entry i q) = qu_orchs q"
  "qu_board (delete_entry i q) = qu_board q"
  "qu_ledger (delete_entry i q) = qu_ledger q"
  by (simp_all add: delete_entry_def)

lemma add_entry_fields [simp, row_simps]:
  "qu_slots (add_entry e q) = qu_slots q"
  "qu_orchs (add_entry e q) = qu_orchs q"
  "qu_board (add_entry e q) = qu_board q"
  "qu_ledger (add_entry e q) = qu_ledger q"
  by (simp_all add: add_entry_def)

section \<open>What an operation leaves behind\<close>

text \<open>
  A row write is committed where it is made, so an exception does not undo it: an outcome is
  the state an operation leaves and the value it returns or the exception it raises.
\<close>

type_synonym 'a outcome = "Queue \<times> 'a result"

definition and_then :: "'a outcome \<Rightarrow> (Queue \<Rightarrow> 'a \<Rightarrow> 'b outcome) \<Rightarrow> 'b outcome" where
  "and_then m f = (case m of (q, Inl e) \<Rightarrow> (q, Inl e) | (q, Inr x) \<Rightarrow> f q x)"

text \<open>An operation that raises before it writes.\<close>

definition outcome_of :: "Queue \<Rightarrow> (Queue \<times> 'a) result \<Rightarrow> 'a outcome" where
  "outcome_of q m = (case m of Inl e \<Rightarrow> (q, Inl e) | Inr (r, x) \<Rightarrow> (r, Inr x))"

lemma and_then_simps [simp]:
  "and_then (q, Inl e) f = (q, Inl e)" "and_then (q, Inr x) f = f q x"
  by (simp_all add: and_then_def)

lemma and_then_eq:
  "and_then m f = (r, y) \<longleftrightarrow> (\<exists>e. m = (r, Inl e) \<and> y = Inl e) \<or> (\<exists>q x. m = (q, Inr x) \<and> f q x = (r, y))"
  by (auto simp: and_then_def split: prod.splits sum.splits)

lemma outcome_of_simps [simp]:
  "outcome_of q (Inl e) = (q, Inl e)" "outcome_of q (Inr (r, x)) = (r, Inr x)"
  by (simp_all add: outcome_of_def)

end
