(* ===== verification/SlotPool.thy ===== *)
theory SlotPool
  imports QueueTables Hierarchy
begin

text \<open>
  The machine's lanes as a pool of slots: sizing the pool (\<open>services/slot_pool.py\<close>,
  \<open>services/lane_count.py\<close>), the predicates on a claim (\<open>services/queue_slot_claims.py\<close>),
  claiming, releasing and sweeping slots (the first half of \<open>services/parallel_queue.py\<close>), and
  the lease of the orchestration that holds one (\<open>services/run_concurrency.py\<close>). One process
  runs here, so an update counts its own row; what several claimants do to each other is the
  theory \<open>SlotRace\<close>.
\<close>

section \<open>The size of the pool\<close>

definition DEFAULT_LANE_COUNT :: int where "DEFAULT_LANE_COUNT = 3"
definition MIN_LANE_COUNT :: int where "MIN_LANE_COUNT = 1"
definition MAX_LANE_COUNT :: int where "MAX_LANE_COUNT = 12"

definition lane_count :: "Queue \<Rightarrow> int" where
  "lane_count q = (case qu_lane_count q of Some n \<Rightarrow> n | None \<Rightarrow> DEFAULT_LANE_COUNT)"

definition store_lane_count :: "int \<Rightarrow> Queue \<Rightarrow> Queue result" where
  "store_lane_count n q =
     (if \<not> (MIN_LANE_COUNT \<le> n \<and> n \<le> MAX_LANE_COUNT)
      then Inl (ValueError (''Lane count must be between '' @ str_int MIN_LANE_COUNT @ '' and ''
             @ str_int MAX_LANE_COUNT))
      else Inr (q\<lparr>qu_lane_count := Some n\<rparr>))"

definition retire_surplus_slots :: "int \<Rightarrow> Queue \<Rightarrow> Queue" where
  "retire_surplus_slots width q =
     q\<lparr>qu_slots := filter (\<lambda>s. \<not> (sl_slot_number s > width \<and> sl_is_available s)) (qu_slots q)\<rparr>"

definition new_slot :: "string \<Rightarrow> int \<Rightarrow> AgentSlot" where
  "new_slot i n = \<lparr>sl_id = i, sl_slot_number = n, sl_is_available = True, sl_current_run_id = None,
     sl_current_orchestration_run_id = None, sl_assigned_at = None, sl_released_at = None\<rparr>"

fun add_slots :: "int list \<Rightarrow> Queue \<Rightarrow> Queue" where
  "add_slots [] q = q"
| "add_slots (n # ns) q =
     (case uuid4 q of (i, q) \<Rightarrow> add_slots ns (q\<lparr>qu_slots := qu_slots q @ [new_slot i n]\<rparr>))"

definition fit_slot_pool :: "int \<Rightarrow> Queue \<Rightarrow> Queue" where
  "fit_slot_pool width q =
     (let q = retire_surplus_slots width q;
          taken = map sl_slot_number (qu_slots q);
          missing = filter (\<lambda>n. n \<notin> set taken) [1..width]
      in if missing = [] then q else add_slots missing q)"

section \<open>Claims\<close>

definition RESERVATION_GRACE :: int where "RESERVATION_GRACE = microseconds 60"

definition slot_is_busy_with_nothing :: "AgentSlot \<Rightarrow> bool" where
  "slot_is_busy_with_nothing slot =
     (if sl_is_available slot then False
      else named (sl_current_orchestration_run_id slot) = None \<and> named (sl_current_run_id slot) = None)"

definition claim_is_fresh :: "AgentSlot \<Rightarrow> int option \<Rightarrow> int option \<Rightarrow> bool" where
  "claim_is_fresh slot now not_claimed_after =
     (case sl_assigned_at slot of
        None \<Rightarrow> True
      | Some claimed \<Rightarrow>
          if (case now of None \<Rightarrow> False | Some n \<Rightarrow> n - claimed < RESERVATION_GRACE) then True
          else (case not_claimed_after of None \<Rightarrow> False | Some t \<Rightarrow> claimed > t))"

text \<open>The columns of the conditional \<open>UPDATE\<close>, and what a release writes.\<close>

definition taken :: "int \<Rightarrow> AgentSlot \<Rightarrow> AgentSlot" where
  "taken now s = s\<lparr>sl_is_available := False, sl_assigned_at := Some now, sl_current_run_id := None,
     sl_current_orchestration_run_id := None\<rparr>"

definition vacated :: "int \<Rightarrow> AgentSlot \<Rightarrow> AgentSlot" where
  "vacated now s = s\<lparr>sl_is_available := True, sl_current_run_id := None,
     sl_current_orchestration_run_id := None, sl_released_at := Some now\<rparr>"

definition claim_slot_row :: "LaneEnv \<Rightarrow> string \<Rightarrow> Queue \<Rightarrow> Queue \<times> AgentSlot option" where
  "claim_slot_row env slot_id q =
     (let rowcount = length (filter (\<lambda>s. sl_id s = slot_id \<and> sl_is_available s) (qu_slots q)) in
      if rowcount \<noteq> 1 then (q, None)
      else (let q = alter_slot slot_id (taken (le_now env)) q in (q, get_slot q slot_id)))"

definition slot_numbered :: "Queue \<Rightarrow> int \<Rightarrow> AgentSlot option" where
  "slot_numbered q n = find (\<lambda>s. sl_slot_number s = n) (qu_slots q)"

definition claim_lane_slot :: "LaneEnv \<Rightarrow> int \<Rightarrow> Queue \<Rightarrow> Queue \<times> AgentSlot option" where
  "claim_lane_slot env n q =
     (case slot_numbered q n of None \<Rightarrow> (q, None) | Some row \<Rightarrow> claim_slot_row env (sl_id row) q)"

text \<open>The candidates of one look at the pool: free slots, the preferred first, then by number.\<close>

definition candidates :: "Queue \<Rightarrow> int option \<Rightarrow> AgentSlot list" where
  "candidates q preferred =
     (let available = sort_key sl_slot_number (filter sl_is_available (qu_slots q));
          preferable = (\<lambda>row. Some (sl_slot_number row) = preferred)
      in filter preferable available @ filter (\<lambda>row. \<not> preferable row) available)"

fun claim_first :: "LaneEnv \<Rightarrow> string list \<Rightarrow> Queue \<Rightarrow> Queue \<times> AgentSlot option" where
  "claim_first env [] q = (q, None)"
| "claim_first env (i # is) q =
     (case claim_slot_row env i q of
        (q, None) \<Rightarrow> claim_first env is q
      | (q, Some claimed) \<Rightarrow> (q, Some claimed))"

definition CLAIM_ATTEMPTS :: nat where "CLAIM_ATTEMPTS = 4"

fun claim_attempts :: "nat \<Rightarrow> LaneEnv \<Rightarrow> int option \<Rightarrow> Queue \<Rightarrow> Queue \<times> AgentSlot option" where
  "claim_attempts 0 env preferred q = (q, None)"
| "claim_attempts (Suc k) env preferred q =
     (if filter sl_is_available (qu_slots q) = [] then (q, None)
      else (case claim_first env (map sl_id (candidates q preferred)) q of
              (q', Some claimed) \<Rightarrow> (q', Some claimed)
            | (_, None) \<Rightarrow> claim_attempts k env preferred q))"

definition claim_free_slot :: "LaneEnv \<Rightarrow> int option \<Rightarrow> Queue \<Rightarrow> Queue \<times> AgentSlot option" where
  "claim_free_slot env preferred q = claim_attempts CLAIM_ATTEMPTS env preferred q"

definition release_slot :: "LaneEnv \<Rightarrow> string \<Rightarrow> Queue \<Rightarrow> Queue" where
  "release_slot env slot_id q = alter_slot slot_id (vacated (le_now env)) q"

section \<open>Who holds a lane\<close>

text \<open>The tickets behind the two columns a claim is recorded in.\<close>

definition run_ticket :: "Queue \<Rightarrow> AgentSlot \<Rightarrow> string option" where
  "run_ticket q slot =
     (case named (sl_current_run_id slot) of
        None \<Rightarrow> None
      | Some i \<Rightarrow> (case get_run q i of None \<Rightarrow> None | Some run \<Rightarrow> named (rn_ticket_id run)))"

definition orch_ticket :: "Queue \<Rightarrow> AgentSlot \<Rightarrow> string option" where
  "orch_ticket q slot =
     (case named (sl_current_orchestration_run_id slot) of
        None \<Rightarrow> None
      | Some i \<Rightarrow> (case get_orch q i of None \<Rightarrow> None | Some run \<Rightarrow> named (Some (or_ticket_id run))))"

definition slot_holds :: "Queue \<Rightarrow> AgentSlot \<Rightarrow> string \<Rightarrow> bool" where
  "slot_holds q slot ticket_id \<longleftrightarrow> Some ticket_id \<in> {run_ticket q slot, orch_ticket q slot}"

text \<open>The dictionary of the code as a function: a ticket it does not list has no numbers.\<close>

definition tickets_holding_lanes :: "Queue \<Rightarrow> int option \<Rightarrow> string \<Rightarrow> int list" where
  "tickets_holding_lanes q exclude_slot ticket_id =
     (let slots = filter (\<lambda>slot. Some (sl_slot_number slot) \<noteq> exclude_slot) (qu_slots q)
      in sort (remdups (map sl_slot_number (filter (\<lambda>slot. slot_holds q slot ticket_id) slots))))"

definition last_lane_entry :: "Queue \<Rightarrow> int \<Rightarrow> QueuedRun option" where
  "last_lane_entry q n =
     (case filter (\<lambda>e. qr_slot_number e = n \<and> qr_promoted_at e \<noteq> None) (qu_entries q) of
        [] \<Rightarrow> None
      | e # es \<Rightarrow> Some (hd (sort_key (\<lambda>e. - the (qr_promoted_at e)) (e # es))))"

definition record_ghost_reclaim :: "AgentSlot \<Rightarrow> Queue \<Rightarrow> Queue" where
  "record_ghost_reclaim slot q =
     (let last = last_lane_entry q (sl_slot_number slot);
          ticket = (case last of None \<Rightarrow> None | Some e \<Rightarrow> get_ticket (qu_board q) (qr_ticket_id e))
      in q\<lparr>qu_decisions := qu_decisions q @ [\<lparr>ld_ticket_id = map_option tk_id ticket,
           ld_slot_number = sl_slot_number slot, ld_last_entry_id = map_option qr_id last,
           ld_last_orchestration_run_id = Option.bind last qr_orchestration_run_id,
           ld_assigned_at = sl_assigned_at slot\<rparr>]\<rparr>)"

section \<open>The lease of an orchestration\<close>

definition ORCHESTRATION_LEASE :: int where "ORCHESTRATION_LEASE = microseconds (30 * 60)"

definition LIVE_ORCHESTRATION_STATUSES :: "OrchestrationRunStatus list" where
  "LIVE_ORCHESTRATION_STATUSES = [OrchestrationRunStatus.QUEUED, OrchestrationRunStatus.RUNNING]"

definition LIVE_RUN_STATUSES :: "RunStatus list" where
  "LIVE_RUN_STATUSES = [RunStatus.QUEUED, RunStatus.RUNNING, AWAITING_PERMISSION]"

definition IN_FLIGHT_STATUSES :: "RunStatus list" where
  "IN_FLIGHT_STATUSES = [RunStatus.RUNNING, AWAITING_PERMISSION]"

definition find_active_orchestration_run :: "Queue \<Rightarrow> string \<Rightarrow> OrchestrationRun option" where
  "find_active_orchestration_run q ticket_id =
     (case filter (\<lambda>r. or_ticket_id r = ticket_id \<and> or_status r \<in> set LIVE_ORCHESTRATION_STATUSES) (qu_orchs q) of
        [] \<Rightarrow> None
      | r # rs \<Rightarrow> Some (hd (sort_key (\<lambda>r. - or_created_at r) (r # rs))))"

definition subtree_orchestration_ids :: "Queue \<Rightarrow> OrchestrationRun \<Rightarrow> string list" where
  "subtree_orchestration_ids q run =
     (let descendants = dict_get (descendants_by_root (qu_board q) [or_ticket_id run]) (or_ticket_id run) []
      in if descendants = [] then []
         else map or_id (filter (\<lambda>r. or_ticket_id r \<in> tk_id ` set descendants \<and> or_id r \<noteq> or_id run)
                (qu_orchs q)))"

definition under :: "string list \<Rightarrow> AgentRun \<Rightarrow> bool" where
  "under ids r \<longleftrightarrow> (case rn_orchestration_run_id r of None \<Rightarrow> False | Some i \<Rightarrow> i \<in> set ids)"

text \<open>The most recent of the stamps that are there; \<open>run.last_seen_at or run.started_at or run.created_at\<close>.\<close>

definition latest_activity :: "Queue \<Rightarrow> OrchestrationRun \<Rightarrow> string list \<Rightarrow> int option" where
  "latest_activity q run ids =
     (let finishes = concat (map (\<lambda>r. if under ids r then (case rn_finished_at r of None \<Rightarrow> [] | Some t \<Rightarrow> [t]) else [])
            (lg_runs (qu_ledger q)));
          own = (case or_last_seen_at run of
                   Some t \<Rightarrow> t
                 | None \<Rightarrow> (case or_started_at run of Some t \<Rightarrow> t | None \<Rightarrow> or_created_at run))
      in Some (fold max finishes own))"

definition orchestration_lease_expired :: "LaneEnv \<Rightarrow> Queue \<Rightarrow> OrchestrationRun \<Rightarrow> bool" where
  "orchestration_lease_expired env q run =
     (let ids = or_id run # subtree_orchestration_ids q run in
      if list_ex (\<lambda>r. under ids r \<and> rn_status r \<in> set (IN_FLIGHT_STATUSES @ [RunStatus.QUEUED])) (lg_runs (qu_ledger q))
      then False
      else (case latest_activity q run ids of
              None \<Rightarrow> False
            | Some stamp \<Rightarrow> le_now env - stamp > ORCHESTRATION_LEASE))"

section \<open>The sweep\<close>

definition repair_hold :: "Queue \<Rightarrow> AgentSlot \<Rightarrow> QueuedRun option" where
  "repair_hold q slot =
     (let orch = named (sl_current_orchestration_run_id slot); run = named (sl_current_run_id slot) in
      if orch = None \<and> run = None then None
      else find (\<lambda>e. qr_status e = REPAIRING
             \<and> (orch \<noteq> None \<and> qr_orchestration_run_id e = orch \<or> run \<noteq> None \<and> qr_run_id e = run)) (qu_entries q))"

definition held_for_repair :: "Queue \<Rightarrow> AgentSlot \<Rightarrow> bool" where
  "held_for_repair q slot \<longleftrightarrow> repair_hold q slot \<noteq> None"

definition occupant_is_live :: "LaneEnv \<Rightarrow> Queue \<Rightarrow> AgentSlot \<Rightarrow> bool" where
  "occupant_is_live env q slot =
     (if held_for_repair q slot then True
      else (case named (sl_current_orchestration_run_id slot) of
              Some i \<Rightarrow>
                (case get_orch q i of
                   None \<Rightarrow> False
                 | Some run \<Rightarrow>
                     if or_status run \<notin> set LIVE_ORCHESTRATION_STATUSES then False
                     else \<not> orchestration_lease_expired env q run)
            | None \<Rightarrow>
                (case named (sl_current_run_id slot) of
                   Some i \<Rightarrow>
                     (case get_run q i of None \<Rightarrow> False | Some run \<Rightarrow> rn_status run \<in> set LIVE_RUN_STATUSES)
                 | None \<Rightarrow> claim_is_fresh slot (Some (le_now env)) None)))"

definition reconcile_slots :: "LaneEnv \<Rightarrow> Queue \<Rightarrow> Queue \<times> int list" where
  "reconcile_slots env q =
     (let dead = filter (\<lambda>s. \<not> sl_is_available s \<and> \<not> occupant_is_live env q s) (qu_slots q);
          ghosts = filter (\<lambda>s. named (sl_current_orchestration_run_id s) = None
                             \<and> named (sl_current_run_id s) = None) dead;
          q = fold (\<lambda>s. alter_slot (sl_id s) (vacated (le_now env))) dead q
      in (fold record_ghost_reclaim ghosts q, map sl_slot_number dead))"

section \<open>Rows\<close>

text \<open>What a slot's number and identifier are is fixed when its row is made.\<close>

definition pool_sound :: "Queue \<Rightarrow> bool" where
  "pool_sound q \<longleftrightarrow> distinct (map sl_id (qu_slots q)) \<and> distinct (map sl_slot_number (qu_slots q))"

lemma taken_simps [simp, row_simps]:
  "sl_id (taken now s) = sl_id s" "sl_slot_number (taken now s) = sl_slot_number s"
  "\<not> sl_is_available (taken now s)" "sl_current_run_id (taken now s) = None"
  "sl_current_orchestration_run_id (taken now s) = None" "sl_assigned_at (taken now s) = Some now"
  by (simp_all add: taken_def)

lemma vacated_simps [simp, row_simps]:
  "sl_id (vacated now s) = sl_id s" "sl_slot_number (vacated now s) = sl_slot_number s"
  "sl_is_available (vacated now s)" "sl_current_run_id (vacated now s) = None"
  "sl_current_orchestration_run_id (vacated now s) = None" "vacated now (vacated now s) = vacated now s"
  by (simp_all add: vacated_def)

lemma slots_alter:
  "qu_slots (alter_slot i f q) = map (\<lambda>s. if sl_id s = i then f s else s) (qu_slots q)"
  by (simp add: alter_slot_def)

lemma alter_slot_keys:
  assumes "\<And>s. sl_id (f s) = sl_id s" and "\<And>s. sl_slot_number (f s) = sl_slot_number s"
  shows "map sl_id (qu_slots (alter_slot i f q)) = map sl_id (qu_slots q)"
    and "map sl_slot_number (qu_slots (alter_slot i f q)) = map sl_slot_number (qu_slots q)"
  using assms by (simp_all add: slots_alter o_def if_distrib cong: if_cong)

lemma pool_sound_alter:
  assumes "pool_sound q" and "\<And>s. sl_id (f s) = sl_id s" and "\<And>s. sl_slot_number (f s) = sl_slot_number s"
  shows "pool_sound (alter_slot i f q)"
  using assms by (simp add: pool_sound_def alter_slot_keys)

lemma pool_sound_eq:
  assumes "pool_sound q" and "s \<in> set (qu_slots q)" and "t \<in> set (qu_slots q)" and "sl_id s = sl_id t"
  shows "s = t"
  using assms by (auto simp: pool_sound_def distinct_map dest: inj_onD)

lemma pool_sound_number_eq:
  assumes "pool_sound q" and "s \<in> set (qu_slots q)" and "t \<in> set (qu_slots q)"
    and "sl_slot_number s = sl_slot_number t"
  shows "s = t"
  using assms by (auto simp: pool_sound_def distinct_map dest: inj_onD)

lemma slot_numbered_in: "slot_numbered q n = Some s \<Longrightarrow> s \<in> set (qu_slots q) \<and> sl_slot_number s = n"
  unfolding slot_numbered_def by (rule find_in)

lemma slot_numbered_iff:
  "pool_sound q \<Longrightarrow> slot_numbered q n = Some s \<longleftrightarrow> s \<in> set (qu_slots q) \<and> sl_slot_number s = n"
  by (simp add: slot_numbered_def pool_sound_def find_key_iff)

lemma get_slot_iff:
  "pool_sound q \<Longrightarrow> get_slot q i = Some s \<longleftrightarrow> s \<in> set (qu_slots q) \<and> sl_id s = i"
  by (simp add: get_slot_def pool_sound_def find_key_iff)

lemma in_slots_alter:
  assumes "pool_sound q" and "s \<in> set (qu_slots q)" and "\<And>s. sl_id (f s) = sl_id s"
  shows "t \<in> set (qu_slots (alter_slot (sl_id s) f q)) \<longleftrightarrow>
    t = f s \<or> (t \<in> set (qu_slots q) \<and> t \<noteq> s)"
proof -
  have "sl_id u = sl_id s \<longleftrightarrow> u = s" if "u \<in> set (qu_slots q)" for u
    using pool_sound_eq [OF assms(1) that assms(2)] by blast
  with assms(2) show ?thesis unfolding slots_alter by (auto simp: image_iff)
qed

section \<open>Claiming\<close>

lemma claim_slot_row_Some:
  assumes "pool_sound q" and "s \<in> set (qu_slots q)" and "sl_is_available s"
  shows "claim_slot_row env (sl_id s) q
    = (alter_slot (sl_id s) (taken (le_now env)) q, Some (taken (le_now env) s))"
proof -
  have "filter (\<lambda>t. sl_id t = sl_id s \<and> sl_is_available t) (qu_slots q)
      = filter sl_is_available (filter (\<lambda>t. sl_id t = sl_id s) (qu_slots q))"
    by (simp add: conj_commute)
  also have "\<dots> = [s]" using assms by (simp add: filter_key pool_sound_def)
  finally have "length (filter (\<lambda>t. sl_id t = sl_id s \<and> sl_is_available t) (qu_slots q)) = 1" by simp
  moreover have "get_slot (alter_slot (sl_id s) (taken (le_now env)) q) (sl_id s) = Some (taken (le_now env) s)"
    using assms by (simp add: get_slot_iff pool_sound_alter in_slots_alter)
  ultimately show ?thesis by (simp add: claim_slot_row_def Let_def)
qed

lemma claim_slot_row_None:
  assumes "\<And>s. s \<in> set (qu_slots q) \<Longrightarrow> sl_id s = i \<Longrightarrow> \<not> sl_is_available s"
  shows "claim_slot_row env i q = (q, None)"
proof -
  have "filter (\<lambda>s. sl_id s = i \<and> sl_is_available s) (qu_slots q) = []"
    using assms by (auto simp: filter_empty_conv)
  then show ?thesis by (simp add: claim_slot_row_def)
qed

lemma candidates_set: "set (candidates q preferred) = {s \<in> set (qu_slots q). sl_is_available s}"
  by (auto simp: candidates_def Let_def)

lemma hd_sort_key_le:
  assumes "s \<in> set xs"
  shows "f (hd (sort_key f xs)) \<le> f s"
proof -
  have "sorted (map f (sort_key f xs))" by simp
  moreover have "s \<in> set (sort_key f xs)" using assms by simp
  ultimately show ?thesis by (cases "sort_key f xs") auto
qed

text \<open>The first candidate is the preferred lane when it is free, and the lowest free one otherwise.\<close>

lemma hd_candidates:
  assumes "candidates q preferred \<noteq> []"
  defines "s \<equiv> hd (candidates q preferred)"
  shows "s \<in> set (qu_slots q) \<and> sl_is_available s"
    and "Some (sl_slot_number s) = preferred
      \<or> (\<forall>t \<in> set (qu_slots q). sl_is_available t
           \<longrightarrow> Some (sl_slot_number t) \<noteq> preferred \<and> sl_slot_number s \<le> sl_slot_number t)"
proof -
  have "s \<in> set (candidates q preferred)" using assms by simp
  then show "s \<in> set (qu_slots q) \<and> sl_is_available s" by (simp add: candidates_set)
  define free where "free = sort_key sl_slot_number (filter sl_is_available (qu_slots q))"
  let ?P = "\<lambda>row. Some (sl_slot_number row) = preferred"
  have cand: "candidates q preferred = filter ?P free @ filter (\<lambda>row. \<not> ?P row) free"
    by (simp add: candidates_def free_def Let_def)
  show "?P s \<or> (\<forall>t \<in> set (qu_slots q). sl_is_available t
           \<longrightarrow> \<not> ?P t \<and> sl_slot_number s \<le> sl_slot_number t)"
  proof (cases "filter ?P free")
    case Nil
    then have none: "\<not> ?P t" if "t \<in> set free" for t using that by (simp add: filter_empty_conv)
    then have "filter (\<lambda>row. \<not> ?P row) free = free" by (simp add: filter_id_conv)
    with Nil cand have s: "s = hd free" by (simp add: s_def)
    show ?thesis
    proof (intro disjI2 ballI impI conjI)
      fix t assume t: "t \<in> set (qu_slots q)" "sl_is_available t"
      then have "t \<in> set free" by (simp add: free_def)
      then show "\<not> ?P t" by (rule none)
      from t show "sl_slot_number s \<le> sl_slot_number t"
        unfolding s free_def by (intro hd_sort_key_le) simp
    qed
  next
    case (Cons u us)
    then have "u \<in> set (filter ?P free)" by simp
    then have "?P u" by (simp only: set_filter mem_Collect_eq)
    with Cons cand show ?thesis by (simp add: s_def)
  qed
qed

lemma claim_free_slot_cases:
  assumes "pool_sound q"
  obtains (full) "claim_free_slot env preferred q = (q, None)"
      and "\<forall>s \<in> set (qu_slots q). \<not> sl_is_available s"
  | (got) s where "s \<in> set (qu_slots q)" and "sl_is_available s"
      and "claim_free_slot env preferred q
         = (alter_slot (sl_id s) (taken (le_now env)) q, Some (taken (le_now env) s))"
      and "s = hd (candidates q preferred)" and "candidates q preferred \<noteq> []"
proof (cases "candidates q preferred")
  case Nil
  then have "\<forall>s \<in> set (qu_slots q). \<not> sl_is_available s" using candidates_set [of q preferred] by auto
  moreover from this have "filter sl_is_available (qu_slots q) = []" by (simp add: filter_empty_conv)
  then have "claim_free_slot env preferred q = (q, None)"
    by (simp add: claim_free_slot_def CLAIM_ATTEMPTS_def numeral_eq_Suc)
  ultimately show ?thesis by (rule full [rotated])
next
  case (Cons s ss)
  then have "s \<in> set (candidates q preferred)" by simp
  then have s: "s \<in> set (qu_slots q)" "sl_is_available s" by (simp_all add: candidates_set)
  then have "filter sl_is_available (qu_slots q) \<noteq> []" by (auto simp: filter_empty_conv)
  with claim_slot_row_Some [OF assms s, of env] Cons
  have "claim_free_slot env preferred q
      = (alter_slot (sl_id s) (taken (le_now env)) q, Some (taken (le_now env) s))"
    by (simp add: claim_free_slot_def CLAIM_ATTEMPTS_def numeral_eq_Suc)
  with s Cons show ?thesis by (intro got) simp_all
qed

section \<open>Fitting the pool\<close>

text \<open>No row carries an identifier still to be drawn.\<close>

definition ids_fresh :: "Queue \<Rightarrow> bool" where
  "ids_fresh q \<longleftrightarrow> (\<forall>k \<ge> qu_next_id q. digits_of k \<notin> sl_id ` set (qu_slots q) \<union> qr_id ` set (qu_entries q))"

lemma slots_add_slots:
  "qu_slots (add_slots ns q)
     = qu_slots q @ map2 new_slot (map digits_of [qu_next_id q..<qu_next_id q + length ns]) ns"
proof (induction ns arbitrary: q)
  case (Cons n ns)
  have "[qu_next_id q..<qu_next_id q + length (n # ns)]
      = qu_next_id q # [Suc (qu_next_id q)..<Suc (qu_next_id q) + length ns]"
    by (simp add: upt_rec)
  then show ?case by (simp add: uuid4_def Cons.IH)
qed simp

lemma add_slots_fields [simp, row_simps]:
  "qu_entries (add_slots ns q) = qu_entries q" "qu_orchs (add_slots ns q) = qu_orchs q"
  "qu_board (add_slots ns q) = qu_board q" "qu_ledger (add_slots ns q) = qu_ledger q"
  "qu_next_id (add_slots ns q) = qu_next_id q + length ns"
  by (induction ns arbitrary: q) (simp_all add: uuid4_def)

lemma map_sl_new_slots:
  "length is = length ns \<Longrightarrow> map sl_id (map2 new_slot is ns) = is"
  "length is = length ns \<Longrightarrow> map sl_slot_number (map2 new_slot is ns) = ns"
  by (simp_all add: new_slot_def o_def case_prod_unfold map_snd_zip map_fst_zip [unfolded map_eq_conv])

lemma fit_fields [simp, row_simps]:
  "qu_entries (fit_slot_pool n q) = qu_entries q" "qu_orchs (fit_slot_pool n q) = qu_orchs q"
  "qu_board (fit_slot_pool n q) = qu_board q" "qu_ledger (fit_slot_pool n q) = qu_ledger q"
  by (simp_all add: fit_slot_pool_def Let_def retire_surplus_slots_def)


text \<open>The rows a fit keeps, the numbers it adds and the identifiers it draws for them.\<close>

definition kept_slots :: "int \<Rightarrow> Queue \<Rightarrow> AgentSlot list" where
  "kept_slots n q = filter (\<lambda>s. \<not> (sl_slot_number s > n \<and> sl_is_available s)) (qu_slots q)"

definition missing_lanes :: "int \<Rightarrow> Queue \<Rightarrow> int list" where
  "missing_lanes n q = filter (\<lambda>m. m \<notin> sl_slot_number ` set (kept_slots n q)) [1..n]"

definition drawn_ids :: "int \<Rightarrow> Queue \<Rightarrow> string list" where
  "drawn_ids n q = map digits_of [qu_next_id q..<qu_next_id q + length (missing_lanes n q)]"

lemma length_drawn: "length (drawn_ids n q) = length (missing_lanes n q)"
  by (simp add: drawn_ids_def)

lemma slots_fit:
  "qu_slots (fit_slot_pool n q) = kept_slots n q @ map2 new_slot (drawn_ids n q) (missing_lanes n q)"
  by (simp add: fit_slot_pool_def retire_surplus_slots_def slots_add_slots Let_def kept_slots_def
        missing_lanes_def drawn_ids_def)

lemma keys_fit:
  "map sl_id (qu_slots (fit_slot_pool n q)) = map sl_id (kept_slots n q) @ drawn_ids n q"
  "map sl_slot_number (qu_slots (fit_slot_pool n q)) = map sl_slot_number (kept_slots n q) @ missing_lanes n q"
  by (simp_all only: slots_fit map_append map_sl_new_slots [OF length_drawn])

lemma next_id_fit: "qu_next_id (fit_slot_pool n q) = qu_next_id q + length (missing_lanes n q)"
  by (simp add: fit_slot_pool_def retire_surplus_slots_def Let_def missing_lanes_def kept_slots_def)

lemma in_new_slots: "s \<in> set (map2 new_slot is ns) \<Longrightarrow> \<exists>i m. s = new_slot i m \<and> m \<in> set ns"
  by (auto elim!: in_set_zipE)

lemma slot_fit_cases:
  assumes "s \<in> set (qu_slots (fit_slot_pool n q))"
  obtains (kept) "s \<in> set (qu_slots q)" and "sl_slot_number s \<le> n \<or> \<not> sl_is_available s"
    | (added) i m where "s = new_slot i m" and "1 \<le> m" and "m \<le> n"
        and "m \<notin> sl_slot_number ` set (qu_slots q)"
proof -
  from assms have "s \<in> set (kept_slots n q) \<or> s \<in> set (map2 new_slot (drawn_ids n q) (missing_lanes n q))"
    by (simp only: slots_fit set_append Un_iff)
  then show ?thesis
  proof
    assume "s \<in> set (kept_slots n q)"
    then show ?thesis by (intro kept) (auto simp: kept_slots_def)
  next
    assume "s \<in> set (map2 new_slot (drawn_ids n q) (missing_lanes n q))"
    then obtain i m where s: "s = new_slot i m" and m: "m \<in> set (missing_lanes n q)"
      using in_new_slots by blast
    from m have bounds: "1 \<le> m" "m \<le> n" by (simp_all add: missing_lanes_def)
    have "m \<notin> sl_slot_number ` set (qu_slots q)"
      using m bounds by (auto simp: missing_lanes_def kept_slots_def)
    then show ?thesis by (rule added [OF s bounds])
  qed
qed

lemma pool_sound_fit:
  assumes "pool_sound q" and "ids_fresh q"
  shows "pool_sound (fit_slot_pool n q)" and "ids_fresh (fit_slot_pool n q)"
proof -
  have kept: "set (kept_slots n q) \<subseteq> set (qu_slots q)" "distinct (map sl_id (kept_slots n q))"
      "distinct (map sl_slot_number (kept_slots n q))"
    using assms(1) by (auto simp: kept_slots_def pool_sound_def distinct_map_filter)
  have undrawn: "digits_of k \<notin> sl_id ` set (kept_slots n q)" if "k \<ge> qu_next_id q" for k
    using that assms(2) kept(1) unfolding ids_fresh_def by blast
  have "i \<notin> sl_id ` set (kept_slots n q)" if i: "i \<in> set (drawn_ids n q)" for i
  proof -
    from i obtain k where "i = digits_of k" "k \<ge> qu_next_id q" by (auto simp: drawn_ids_def)
    with undrawn show ?thesis by simp
  qed
  then have "sl_id ` set (kept_slots n q) \<inter> set (drawn_ids n q) = {}" by blast
  moreover have "distinct (drawn_ids n q)" by (auto simp: drawn_ids_def distinct_map inj_on_def digits_of_inj)
  moreover have "sl_slot_number ` set (kept_slots n q) \<inter> set (missing_lanes n q) = {}"
    by (auto simp: missing_lanes_def)
  moreover have "distinct (missing_lanes n q)" by (simp add: missing_lanes_def)
  ultimately show "pool_sound (fit_slot_pool n q)"
    using kept by (simp add: pool_sound_def keys_fit)
  have ids: "sl_id ` set (qu_slots (fit_slot_pool n q)) = sl_id ` set (kept_slots n q) \<union> set (drawn_ids n q)"
    by (simp only: set_map [symmetric] keys_fit set_append)
  show "ids_fresh (fit_slot_pool n q)"
    unfolding ids_fresh_def ids
  proof (intro allI impI)
    fix k assume k: "k \<ge> qu_next_id (fit_slot_pool n q)"
    then have "digits_of k \<notin> set (drawn_ids n q)" by (auto simp: drawn_ids_def next_id_fit digits_of_inj)
    moreover from k have k': "k \<ge> qu_next_id q" by (simp add: next_id_fit)
    moreover from k' have "digits_of k \<notin> qr_id ` set (qu_entries (fit_slot_pool n q))"
      using assms(2) by (simp add: ids_fresh_def)
    ultimately show "digits_of k \<notin> sl_id ` set (kept_slots n q) \<union> set (drawn_ids n q)
        \<union> qr_id ` set (qu_entries (fit_slot_pool n q))"
      using undrawn by simp
  qed
qed

lemma numbers_fit: "{1..n} \<subseteq> sl_slot_number ` set (qu_slots (fit_slot_pool n q))"
proof -
  have "sl_slot_number ` set (qu_slots (fit_slot_pool n q))
      = sl_slot_number ` set (kept_slots n q) \<union> set (missing_lanes n q)"
    by (simp only: set_map [symmetric] keys_fit set_append)
  then show ?thesis by (auto simp: missing_lanes_def)
qed

lemma fit_keeps_busy:
  "s \<in> set (qu_slots q) \<Longrightarrow> \<not> sl_is_available s \<Longrightarrow> s \<in> set (qu_slots (fit_slot_pool n q))"
  by (simp add: slots_fit kept_slots_def)

lemma fit_twice: "fit_slot_pool n (fit_slot_pool n q) = fit_slot_pool n q"
proof -
  let ?r = "fit_slot_pool n q"
  have "\<not> (sl_slot_number s > n \<and> sl_is_available s)" if "s \<in> set (qu_slots ?r)" for s
    using that by (cases rule: slot_fit_cases) (auto simp: new_slot_def)
  then have "filter (\<lambda>s. \<not> (sl_slot_number s > n \<and> sl_is_available s)) (qu_slots ?r) = qu_slots ?r"
    by (simp add: filter_id_conv)
  then have retire: "retire_surplus_slots n ?r = ?r"
    by (simp add: retire_surplus_slots_def)
  have "filter (\<lambda>m. m \<notin> sl_slot_number ` set (qu_slots ?r)) [1..n] = []"
    using numbers_fit [of n q] by (auto simp: filter_empty_conv)
  then show ?thesis
    by (simp add: fit_slot_pool_def [of n ?r] retire Let_def)
qed

section \<open>The sweep takes the dead lanes and no others\<close>

text \<open>Liveness reads the rows the slots name, never the slots.\<close>

definition same_work :: "Queue \<Rightarrow> Queue \<Rightarrow> bool" where
  "same_work q r \<longleftrightarrow> qu_entries q = qu_entries r \<and> qu_orchs q = qu_orchs r \<and> qu_ledger q = qu_ledger r
     \<and> qu_board q = qu_board r"

lemma same_work_reads:
  assumes "same_work q r"
  shows "repair_hold q = repair_hold r" and "get_orch q = get_orch r" and "get_run q = get_run r"
    and "get_entry q = get_entry r" and "orchestration_lease_expired env q = orchestration_lease_expired env r"
  using assms
  by (simp_all add: same_work_def repair_hold_def [abs_def] get_orch_def [abs_def] get_run_def [abs_def]
        get_entry_def [abs_def] orchestration_lease_expired_def [abs_def] subtree_orchestration_ids_def
        latest_activity_def Let_def cong: if_cong)

lemma same_work_live: "same_work q r \<Longrightarrow> occupant_is_live env q s = occupant_is_live env r s"
  by (simp only: occupant_is_live_def held_for_repair_def same_work_reads)

lemma fold_alter_slot:
  assumes "\<And>s. sl_id (g s) = sl_id s" and "\<And>s. g (g s) = g s"
  shows "fold (\<lambda>s. alter_slot (sl_id s) g) ds q
    = q\<lparr>qu_slots := map (\<lambda>s. if sl_id s \<in> sl_id ` set ds then g s else s) (qu_slots q)\<rparr>"
proof (induction ds arbitrary: q)
  case (Cons d ds)
  show ?case
    unfolding fold_Cons o_apply Cons.IH by (auto simp: alter_slot_def assms)
qed simp

lemma fold_record_ghost:
  "qu_slots (fold record_ghost_reclaim gs q) = qu_slots q"
  "same_work (fold record_ghost_reclaim gs q) q"
  by (induction gs arbitrary: q) (simp_all add: record_ghost_reclaim_def Let_def same_work_def)

definition dead :: "LaneEnv \<Rightarrow> Queue \<Rightarrow> AgentSlot \<Rightarrow> bool" where
  "dead env q s \<longleftrightarrow> \<not> sl_is_available s \<and> \<not> occupant_is_live env q s"

lemma reconcile_slots_rows:
  assumes "pool_sound q"
  shows "qu_slots (fst (reconcile_slots env q))
       = map (\<lambda>s. if dead env q s then vacated (le_now env) s else s) (qu_slots q)"
    and "same_work (fst (reconcile_slots env q)) q"
    and "snd (reconcile_slots env q) = map sl_slot_number (filter (dead env q) (qu_slots q))"
proof -
  have "sl_id s \<in> sl_id ` set (filter (dead env q) (qu_slots q)) \<longleftrightarrow> dead env q s" if "s \<in> set (qu_slots q)" for s
    using that pool_sound_eq [OF assms, of s] by (auto simp: image_iff)
  then show "qu_slots (fst (reconcile_slots env q))
       = map (\<lambda>s. if dead env q s then vacated (le_now env) s else s) (qu_slots q)"
    by (simp add: reconcile_slots_def Let_def fold_record_ghost fold_alter_slot dead_def [symmetric] cong: map_cong)
  have "same_work (fold (\<lambda>s. alter_slot (sl_id s) (vacated (le_now env))) ds q) q" for ds
    by (simp add: fold_alter_slot same_work_def)
  with fold_record_ghost(2) show "same_work (fst (reconcile_slots env q)) q"
    unfolding reconcile_slots_def Let_def fst_conv same_work_def by metis
  show "snd (reconcile_slots env q) = map sl_slot_number (filter (dead env q) (qu_slots q))"
    by (simp add: reconcile_slots_def Let_def dead_def [abs_def])
qed

lemma reconcile_slots_settles:
  assumes "pool_sound q" and "s \<in> set (qu_slots (fst (reconcile_slots env q)))"
  shows "\<not> dead env (fst (reconcile_slots env q)) s"
proof -
  from assms(2) obtain t where t: "s = (if dead env q t then vacated (le_now env) t else t)"
    unfolding reconcile_slots_rows(1) [OF assms(1)] set_map by (rule imageE)
  have "dead env (fst (reconcile_slots env q)) u = dead env q u" for u
    using same_work_live [OF reconcile_slots_rows(2) [OF assms(1)]] by (simp add: dead_def)
  with t show ?thesis by (cases "dead env q t") (simp_all add: dead_def)
qed

section \<open>The pool's properties\<close>

definition empty_queue :: Queue where
  "empty_queue = \<lparr>qu_board = empty_board, qu_ledger = empty_ledger, qu_instances = [], qu_approvals = [],
     qu_slots = [], qu_entries = [], qu_orchs = [], qu_decisions = [], qu_lane_count = None, qu_next_id = 0\<rparr>"

definition sample_env :: LaneEnv where
  "sample_env = \<lparr>le_now = 1000000000, le_draining = False, le_max_concurrent = 2, le_stages = (\<lambda>_. []),
     le_profile = None, le_merge_refusal = (\<lambda>_. [])\<rparr>"

lemma empty_queue_sound: "pool_sound empty_queue \<and> ids_fresh empty_queue"
  by (simp add: pool_sound_def ids_fresh_def empty_queue_def)

text \<open>Claiming a slot for a request hands out the lane it prefers when that lane is free and
  otherwise the lowest free one, writes that one row and nothing else, and refuses exactly
  when no lane is free.\<close>

theorem claim_free_slot_spec:
  assumes "pool_sound q"
  shows "case claim_free_slot env preferred q of
      (r, None) \<Rightarrow> r = q \<and> (\<forall>s \<in> set (qu_slots q). \<not> sl_is_available s)
    | (r, Some c) \<Rightarrow> (\<exists>s \<in> set (qu_slots q). sl_is_available s \<and> c = taken (le_now env) s
        \<and> r = alter_slot (sl_id s) (taken (le_now env)) q
        \<and> (Some (sl_slot_number s) = preferred
           \<or> (\<forall>t \<in> set (qu_slots q). sl_is_available t
                \<longrightarrow> Some (sl_slot_number t) \<noteq> preferred \<and> sl_slot_number s \<le> sl_slot_number t)))"
proof (cases rule: claim_free_slot_cases [OF assms, of env preferred, case_names full got])
  case full
  then show ?thesis by simp
next
  case (got s)
  with hd_candidates(2) [OF got(5)] show ?thesis by auto
qed

theorem claim_free_slot_spec_witness:
  "snd (claim_free_slot sample_env (Some 2) (fit_slot_pool 2 empty_queue)) \<noteq> None
   \<and> (case claim_free_slot sample_env (Some 2) (fit_slot_pool 2 empty_queue) of
      (r, None) \<Rightarrow> r = fit_slot_pool 2 empty_queue
        \<and> (\<forall>s \<in> set (qu_slots (fit_slot_pool 2 empty_queue)). \<not> sl_is_available s)
    | (r, Some c) \<Rightarrow> (\<exists>s \<in> set (qu_slots (fit_slot_pool 2 empty_queue)). sl_is_available s
        \<and> c = taken (le_now sample_env) s
        \<and> r = alter_slot (sl_id s) (taken (le_now sample_env)) (fit_slot_pool 2 empty_queue)
        \<and> (Some (sl_slot_number s) = Some 2
           \<or> (\<forall>t \<in> set (qu_slots (fit_slot_pool 2 empty_queue)). sl_is_available t
                \<longrightarrow> Some (sl_slot_number t) \<noteq> Some 2 \<and> sl_slot_number s \<le> sl_slot_number t))))"
proof -
  have sound: "pool_sound (fit_slot_pool 2 empty_queue)"
    using pool_sound_fit empty_queue_sound by blast
  have "snd (claim_free_slot sample_env (Some 2) (fit_slot_pool 2 empty_queue)) \<noteq> None"
    by code_simp
  with claim_free_slot_spec [OF sound, of sample_env "Some 2"] show ?thesis by blast
qed

text \<open>C26: Fitting the pool to a lane count leaves one slot for every lane from one to that
  count, no two slots with one number or one identifier, only slots still at work beyond the
  count, and every slot that was at work as it was; fitting again changes nothing.\<close>

theorem fitted_pool:
  assumes "pool_sound q" and "ids_fresh q"
  shows "pool_sound (fit_slot_pool n q)
    \<and> {1..n} \<subseteq> sl_slot_number ` set (qu_slots (fit_slot_pool n q))
    \<and> (\<forall>s \<in> set (qu_slots (fit_slot_pool n q)). sl_slot_number s > n
           \<longrightarrow> \<not> sl_is_available s \<and> s \<in> set (qu_slots q))
    \<and> (\<forall>s \<in> set (qu_slots q). \<not> sl_is_available s \<longrightarrow> s \<in> set (qu_slots (fit_slot_pool n q)))
    \<and> fit_slot_pool n (fit_slot_pool n q) = fit_slot_pool n q"
proof (intro conjI ballI impI)
  fix s assume "s \<in> set (qu_slots (fit_slot_pool n q))" and "sl_slot_number s > n"
  then have "\<not> sl_is_available s \<and> s \<in> set (qu_slots q)"
    by (cases rule: slot_fit_cases) (auto simp: new_slot_def)
  then show "\<not> sl_is_available s" and "s \<in> set (qu_slots q)" by simp_all
qed (use assms pool_sound_fit numbers_fit fit_twice fit_keeps_busy in auto)

theorem fitted_pool_witness:
  "pool_sound (fit_slot_pool 3 empty_queue) \<and> length (qu_slots (fit_slot_pool 3 empty_queue)) = 3"
proof -
  have "pool_sound (fit_slot_pool 3 empty_queue)"
    using fitted_pool [of empty_queue 3] empty_queue_sound by simp
  moreover have "length (qu_slots (fit_slot_pool 3 empty_queue)) = 3" by code_simp
  ultimately show ?thesis by simp
qed


definition spent_pool :: Queue where
  "spent_pool = empty_queue\<lparr>qu_slots := [(new_slot ''s1'' 1)\<lparr>sl_is_available := False,
     sl_current_orchestration_run_id := Some ''gone'', sl_assigned_at := Some 0\<rparr>,
     (new_slot ''s2'' 2)\<lparr>sl_is_available := False, sl_assigned_at := Some 999999999\<rparr>]\<rparr>"


end
