(* ===== verification/SlotRace.thy ===== *)
theory SlotRace
  imports SlotPool
begin

text \<open>
  \<open>claim_free_slot\<close> of \<open>services/parallel_queue.py\<close> run by several sessions at once. A claimant
  reads the free slots, then tries one conditional update after the other on the list it read;
  when every candidate is gone it rolls back and reads again, four times at most. Only the read
  and each update are atomic, so any step of another claimant may fall between them: the
  relation \<open>claim_step\<close> interleaves them, and \<open>race_step\<close> adds the release of a held slot.
\<close>

datatype Claim = Looking nat | Trying "string list" nat | Holding string | Refused | Released

inductive claim_step ::
    "LaneEnv \<Rightarrow> (nat \<Rightarrow> int option) \<Rightarrow> Queue \<times> Claim list \<Rightarrow> Queue \<times> Claim list \<Rightarrow> bool"
  for env pref where
  look: "c < length cs \<Longrightarrow> cs ! c = Looking (Suc k) \<Longrightarrow> candidates q (pref c) \<noteq> []
    \<Longrightarrow> claim_step env pref (q, cs) (q, cs[c := Trying (map sl_id (candidates q (pref c))) k])"
| full: "c < length cs \<Longrightarrow> cs ! c = Looking (Suc k) \<Longrightarrow> candidates q (pref c) = []
    \<Longrightarrow> claim_step env pref (q, cs) (q, cs[c := Refused])"
| spent: "c < length cs \<Longrightarrow> cs ! c = Looking 0 \<Longrightarrow> claim_step env pref (q, cs) (q, cs[c := Refused])"
| win: "c < length cs \<Longrightarrow> cs ! c = Trying (i # is) k \<Longrightarrow> claim_slot_row env i q = (q', Some s)
    \<Longrightarrow> claim_step env pref (q, cs) (q', cs[c := Holding i])"
| lose: "c < length cs \<Longrightarrow> cs ! c = Trying (i # is) k \<Longrightarrow> claim_slot_row env i q = (q', None)
    \<Longrightarrow> claim_step env pref (q, cs) (q', cs[c := Trying is k])"
| again: "c < length cs \<Longrightarrow> cs ! c = Trying [] k \<Longrightarrow> claim_step env pref (q, cs) (q, cs[c := Looking k])"

inductive race_step ::
    "LaneEnv \<Rightarrow> (nat \<Rightarrow> int option) \<Rightarrow> Queue \<times> Claim list \<Rightarrow> Queue \<times> Claim list \<Rightarrow> bool"
  for env pref where
  claim: "claim_step env pref x y \<Longrightarrow> race_step env pref x y"
| release: "c < length cs \<Longrightarrow> cs ! c = Holding i
    \<Longrightarrow> race_step env pref (q, cs) (release_slot env i q, cs[c := Released])"

inductive_cases claim_stepE: "claim_step env pref (q, cs) y"
inductive_cases race_stepE: "race_step env pref (q, cs) y"

definition free_ids :: "Queue \<Rightarrow> string set" where
  "free_ids q = sl_id ` {s \<in> set (qu_slots q). sl_is_available s}"

definition holds :: "Claim list \<Rightarrow> nat \<Rightarrow> string \<Rightarrow> bool" where
  "holds cs c i \<longleftrightarrow> c < length cs \<and> cs ! c = Holding i"

definition holders :: "Claim list \<Rightarrow> nat set" where
  "holders cs = {c. \<exists>i. holds cs c i}"

lemma holds_update:
  "c < length cs \<Longrightarrow> holds (cs[c := a]) d i \<longleftrightarrow> (if d = c then a = Holding i else holds cs d i)"
  by (auto simp: holds_def nth_list_update)

lemma holds_at: "c < length cs \<Longrightarrow> cs ! c = a \<Longrightarrow> holds cs c i \<longleftrightarrow> a = Holding i"
  by (simp add: holds_def)

section \<open>One update\<close>

lemma free_ids_iff:
  "pool_sound q \<Longrightarrow> s \<in> set (qu_slots q) \<Longrightarrow> sl_id s \<in> free_ids q \<longleftrightarrow> sl_is_available s"
  by (auto simp: free_ids_def dest: pool_sound_eq)

lemma candidates_free: "sl_id ` set (candidates q p) = free_ids q"
  by (simp add: candidates_set free_ids_def)

lemma claim_row_cases:
  assumes "pool_sound q"
  obtains (won) s where "claim_slot_row env i q = (alter_slot i (taken (le_now env)) q, Some (taken (le_now env) s))"
      and "s \<in> set (qu_slots q)" and "sl_id s = i" and "i \<in> free_ids q"
  | (lost) "claim_slot_row env i q = (q, None)" and "i \<notin> free_ids q"
proof (cases "i \<in> free_ids q")
  case True
  then obtain s where s: "s \<in> set (qu_slots q)" "sl_is_available s" "sl_id s = i"
    by (auto simp: free_ids_def)
  with claim_slot_row_Some [OF assms s(1,2), of env] True show ?thesis by (intro won) simp_all
next
  case False
  then have "\<not> sl_is_available s" if "s \<in> set (qu_slots q)" "sl_id s = i" for s
    using that by (auto simp: free_ids_def)
  then have "claim_slot_row env i q = (q, None)" by (rule claim_slot_row_None)
  then show ?thesis using False by (rule lost)
qed

lemma free_ids_alter:
  assumes "pool_sound q" and "s \<in> set (qu_slots q)"
  shows "free_ids (alter_slot (sl_id s) (taken now) q) = free_ids q - {sl_id s}"
    and "free_ids (alter_slot (sl_id s) (vacated now) q) = insert (sl_id s) (free_ids q)"
proof -
  have eq: "sl_id t = sl_id s \<longleftrightarrow> t = s" if "t \<in> set (qu_slots q)" for t
    using pool_sound_eq [OF assms(1) that assms(2)] by blast
  have free: "i \<in> free_ids r \<longleftrightarrow> (\<exists>t. t \<in> set (qu_slots r) \<and> sl_is_available t \<and> i = sl_id t)" for i r
    by (auto simp: free_ids_def)
  show "free_ids (alter_slot (sl_id s) (taken now) q) = free_ids q - {sl_id s}"
  proof (rule set_eqI)
    fix i
    show "i \<in> free_ids (alter_slot (sl_id s) (taken now) q) \<longleftrightarrow> i \<in> free_ids q - {sl_id s}"
      unfolding Diff_iff free by (simp add: in_slots_alter assms) (metis eq taken_simps(3))
  qed
  show "free_ids (alter_slot (sl_id s) (vacated now) q) = insert (sl_id s) (free_ids q)"
  proof (rule set_eqI)
    fix i
    show "i \<in> free_ids (alter_slot (sl_id s) (vacated now) q) \<longleftrightarrow> i \<in> insert (sl_id s) (free_ids q)"
      unfolding insert_iff free by (simp add: in_slots_alter assms) (metis eq vacated_simps(1,3))
  qed
qed

lemma row_lost: "pool_sound q \<Longrightarrow> claim_slot_row env i q = (r, None) \<Longrightarrow> r = q \<and> i \<notin> free_ids q"
  by (cases rule: claim_row_cases [of q env i]) auto

lemma row_won:
  assumes "pool_sound q" and "claim_slot_row env i q = (r, Some s)"
  shows "pool_sound r" and "free_ids r = free_ids q - {i}" and "i \<in> free_ids q"
    and "sl_id ` set (qu_slots r) = sl_id ` set (qu_slots q)" and "i \<in> sl_id ` set (qu_slots q)"
proof -
  obtain u where r: "r = alter_slot i (taken (le_now env)) q" and u: "u \<in> set (qu_slots q)" "sl_id u = i"
    and i: "i \<in> free_ids q"
    by (rule claim_row_cases [OF assms(1), of env i]) (use assms(2) in simp_all)
  show "pool_sound r" by (simp add: r pool_sound_alter assms)
  show "free_ids r = free_ids q - {i}" using free_ids_alter(1) [OF assms(1) u(1)] u(2) by (simp add: r)
  show "i \<in> free_ids q" by (rule i)
  show "sl_id ` set (qu_slots r) = sl_id ` set (qu_slots q)"
    unfolding r set_map [symmetric] by (simp add: alter_slot_keys)
  show "i \<in> sl_id ` set (qu_slots q)" using u by auto
qed

section \<open>Two claimants never share a slot\<close>

text \<open>Every slot held is a row of the pool that reads taken, and held once.\<close>

definition race_inv :: "Queue \<times> Claim list \<Rightarrow> bool" where
  "race_inv x \<longleftrightarrow> (case x of (q, cs) \<Rightarrow>
     pool_sound q
     \<and> (\<forall>c i. holds cs c i \<longrightarrow> i \<notin> free_ids q \<and> i \<in> sl_id ` set (qu_slots q))
     \<and> (\<forall>c d i. holds cs c i \<longrightarrow> holds cs d i \<longrightarrow> c = d))"

lemma race_inv_look:
  assumes "race_inv (q, cs)" and "c < length cs" and "\<forall>i. a \<noteq> Holding i"
  shows "race_inv (q, cs[c := a])"
  using assms by (auto simp: race_inv_def holds_update split: if_splits)

lemma race_inv_claim:
  assumes "claim_step env pref x y" and "race_inv x"
  shows "race_inv y"
  using assms
proof (induction rule: claim_step.induct)
  case (win c cs i "is" k q q' s)
  then have "pool_sound q" by (simp add: race_inv_def)
  note row = row_won [OF this win(3)]
  have "\<not> holds cs d i" for d using win(4) row(3) by (auto simp: race_inv_def)
  then show ?case
    using win(4) row(1,5) by (auto simp: race_inv_def holds_update [OF win(1)] row(2,4) split: if_splits)
next
  case (lose c cs i "is" k q q')
  then have "pool_sound q" by (simp add: race_inv_def)
  then have "q' = q" using row_lost lose(3) by blast
  with lose show ?case by (simp add: race_inv_look)
qed (simp_all add: race_inv_look)

lemma race_inv_step:
  assumes "race_step env pref x y" and "race_inv x"
  shows "race_inv y"
  using assms
proof (induction rule: race_step.induct)
  case (claim x y)
  then show ?case by (rule race_inv_claim)
next
  case (release c cs i q)
  then have "holds cs c i" by (simp add: holds_def)
  with release(3) have sound: "pool_sound q" and "i \<in> sl_id ` set (qu_slots q)" by (auto simp: race_inv_def)
  then obtain u where u: "u \<in> set (qu_slots q)" "sl_id u = i" by auto
  have free: "free_ids (release_slot env i q) = insert i (free_ids q)"
    using free_ids_alter(2) [OF sound u(1)] u(2) by (simp add: release_slot_def)
  have ids: "sl_id ` set (qu_slots (release_slot env i q)) = sl_id ` set (qu_slots q)"
    unfolding release_slot_def set_map [symmetric] by (simp add: alter_slot_keys)
  have "pool_sound (release_slot env i q)" by (simp add: release_slot_def pool_sound_alter sound)
  moreover have "holds cs c i" using release by (simp add: holds_def)
  ultimately show ?case
    using release(3) by (auto simp: race_inv_def holds_update [OF release(1)] free ids split: if_splits)
qed

lemma race_inv_reachable:
  assumes "(race_step env pref)\<^sup>*\<^sup>* x y" and "race_inv x"
  shows "race_inv y"
  using assms by (induction rule: rtranclp_induct) (auto intro: race_inv_step)

lemma race_inv_start: "pool_sound q \<Longrightarrow> race_inv (q, replicate n (Looking k))"
  by (auto simp: race_inv_def holds_def)

section \<open>Nobody is turned away from a pool with room\<close>

text \<open>
  A claimant that has lost a whole list has lost each of its slots to another claimant, so
  with \<open>k\<close> looks left at least \<open>4 - k\<close> slots are held; while it walks a list, either one of
  the list's slots has gone since, or all that is free is still on it.
\<close>

fun patient :: "string set \<Rightarrow> nat \<Rightarrow> Claim \<Rightarrow> bool" where
  "patient free held (Looking k) \<longleftrightarrow> CLAIM_ATTEMPTS \<le> k + held"
| "patient free held (Trying is k) \<longleftrightarrow> CLAIM_ATTEMPTS \<le> Suc k + held
     \<and> (CLAIM_ATTEMPTS \<le> k + held \<or> free \<subseteq> set is \<and> is \<noteq> [])"
| "patient free held (Holding i) \<longleftrightarrow> True"
| "patient free held _ \<longleftrightarrow> False"

definition roomy :: "nat \<Rightarrow> Queue \<times> Claim list \<Rightarrow> bool" where
  "roomy room x \<longleftrightarrow> (case x of (q, cs) \<Rightarrow>
     pool_sound q \<and> length cs \<le> room \<and> length cs \<le> CLAIM_ATTEMPTS
     \<and> card (free_ids q) + card (holders cs) = room
     \<and> (\<forall>c < length cs. patient (free_ids q) (card (holders cs)) (cs ! c)))"

lemma finite_holders [simp]: "finite (holders cs)"
  by (rule finite_subset [of _ "{..<length cs}"]) (auto simp: holders_def holds_def)

lemma finite_free_ids [simp]: "finite (free_ids q)"
  by (simp add: free_ids_def)

lemma holders_waiting:
  assumes "c < length cs" and "\<forall>i. cs ! c \<noteq> Holding i"
  shows "card (holders cs) < length cs"
proof -
  have "holders cs \<subseteq> {..<length cs} - {c}" using assms by (auto simp: holders_def holds_def)
  then have "card (holders cs) \<le> card ({..<length cs} - {c})" by (simp add: card_mono)
  with assms(1) show ?thesis by simp
qed

lemma holders_update:
  assumes "c < length cs" and "\<forall>i. cs ! c \<noteq> Holding i"
  shows "\<forall>i. a \<noteq> Holding i \<Longrightarrow> holders (cs[c := a]) = holders cs"
    and "holders (cs[c := Holding i]) = insert c (holders cs)"
    and "c \<notin> holders cs"
  using assms by (auto simp: holders_def holds_update holds_at split: if_splits)

lemma roomy_waits:
  assumes "roomy room (q, cs)" and "c < length cs" and "\<forall>i. cs ! c \<noteq> Holding i"
  shows "card (holders cs) < CLAIM_ATTEMPTS" and "free_ids q \<noteq> {}"
proof -
  from holders_waiting [OF assms(2,3)] have less: "card (holders cs) < length cs" .
  with assms(1) show "card (holders cs) < CLAIM_ATTEMPTS" by (simp add: roomy_def)
  from less assms(1) have "card (free_ids q) > 0" by (simp add: roomy_def)
  then show "free_ids q \<noteq> {}" by auto
qed

lemma roomy_move:
  assumes "roomy room (q, cs)" and "c < length cs" and "\<forall>i. cs ! c \<noteq> Holding i" and "\<forall>i. a \<noteq> Holding i"
    and "patient (free_ids q) (card (holders cs)) a"
  shows "roomy room (q, cs[c := a])"
  using assms by (auto simp: roomy_def holders_update(1) nth_list_update)

lemma patient_win:
  "patient free held a \<Longrightarrow> patient (free - {i}) (Suc held) a"
  by (cases a) auto

lemma roomy_step:
  assumes "claim_step env pref x y" and "roomy room x"
  shows "roomy room y"
  using assms
proof (induction rule: claim_step.induct)
  case (look c cs k q)
  then have p: "CLAIM_ATTEMPTS \<le> Suc k + card (holders cs)" by (auto simp: roomy_def)
  have "set (map sl_id (candidates q (pref c))) = free_ids q" using candidates_free by simp
  with look p show ?case by (intro roomy_move) auto
next
  case (full c cs k q)
  then have "free_ids q \<noteq> {}" using roomy_waits(2) [of room q cs c] by simp
  with full(3) candidates_free [of q "pref c"] show ?case by simp
next
  case (spent c cs q)
  then have "CLAIM_ATTEMPTS \<le> card (holders cs)" by (auto simp: roomy_def)
  with spent roomy_waits(1) [of room q cs c] show ?case by simp
next
  case (win c cs i "is" k q q' s)
  then have "pool_sound q" by (simp add: roomy_def)
  note row = row_won [OF this win(3)]
  have out: "\<forall>j. cs ! c \<noteq> Holding j" using win(2) by simp
  have card: "card (free_ids q) = Suc (card (free_ids q'))" 
    using row(2,3) card_Suc_Diff1 [of "free_ids q" i] by simp
  have held: "card (holders (cs[c := Holding i])) = Suc (card (holders cs))"
    using holders_update(2,3) [OF win(1) out] by simp
  have "patient (free_ids q') (Suc (card (holders cs))) (cs[c := Holding i] ! d)" if "d < length cs" for d
    using win(1,4) that row(2) by (auto simp: roomy_def nth_list_update intro: patient_win)
  with win(4) row(1) card held show ?case by (simp add: roomy_def)
next
  case (lose c cs i "is" k q q')
  then have "pool_sound q" by (simp add: roomy_def)
  with lose(3) have q': "q' = q" and i: "i \<notin> free_ids q" using row_lost by blast+
  have ne: "free_ids q \<noteq> {}" using lose roomy_waits(2) [of room q cs c] by simp
  have "patient (free_ids q) (card (holders cs)) (cs ! c)" using lose(1,4) by (simp add: roomy_def)
  then have "patient (free_ids q) (card (holders cs)) (Trying (i # is) k)" by (simp only: lose(2))
  with i ne have "patient (free_ids q) (card (holders cs)) (Trying is k)" by auto
  then show ?case unfolding q' using lose by (intro roomy_move) auto
next
  case (again c cs k q)
  then have "CLAIM_ATTEMPTS \<le> k + card (holders cs)" by (auto simp: roomy_def)
  with again show ?case by (intro roomy_move) auto
qed

lemma roomy_start:
  assumes "pool_sound q" and "n \<le> card (free_ids q)" and "n \<le> CLAIM_ATTEMPTS"
  shows "roomy (card (free_ids q)) (q, replicate n (Looking CLAIM_ATTEMPTS))"
proof -
  have "holders (replicate n (Looking CLAIM_ATTEMPTS)) = {}" by (auto simp: holders_def holds_def)
  with assms show ?thesis by (simp add: roomy_def)
qed

section \<open>The race ends\<close>

text \<open>What a claimant may still do, given that no list is longer than the pool.\<close>

fun effort :: "nat \<Rightarrow> Claim \<Rightarrow> nat" where
  "effort pool (Looking k) = 2 * k * (pool + 2) + 1"
| "effort pool (Trying is k) = 2 * k * (pool + 2) + 2 + length is"
| "effort pool _ = 0"

definition race_effort :: "Queue \<times> Claim list \<Rightarrow> nat" where
  "race_effort x = (case x of (q, cs) \<Rightarrow> sum_list (map (effort (length (qu_slots q))) cs))"

lemma sum_list_update_less:
  fixes f :: "'a \<Rightarrow> nat"
  shows "c < length cs \<Longrightarrow> f a < f (cs ! c) \<Longrightarrow> sum_list (map f (cs[c := a])) < sum_list (map f cs)"
  by (induction cs arbitrary: c) (auto split: nat.splits)

lemma length_candidates: "length (candidates q p) \<le> length (qu_slots q)"
proof -
  have "length (candidates q p) = length (filter sl_is_available (qu_slots q))"
    unfolding candidates_def Let_def by (simp add: sum_length_filter_compl)
  then show ?thesis by (simp add: length_filter_le)
qed

lemma claim_row_length: "length (qu_slots (fst (claim_slot_row env i q))) = length (qu_slots q)"
  by (simp add: claim_slot_row_def slots_alter Let_def)

lemma claim_step_effort: "claim_step env pref x y \<Longrightarrow> race_effort y < race_effort x"
proof (induction rule: claim_step.induct)
  case (look c cs k q)
  have "effort (length (qu_slots q)) (Trying (map sl_id (candidates q (pref c))) k)
      < effort (length (qu_slots q)) (cs ! c)"
    using look(2) length_candidates [of q "pref c"] by (simp add: algebra_simps)
  with look(1) show ?case by (simp add: race_effort_def sum_list_update_less)
next
  case (win c cs i "is" k q q' s)
  then have "length (qu_slots q') = length (qu_slots q)" using claim_row_length [of env i q] by simp
  with win show ?case by (simp add: race_effort_def sum_list_update_less)
next
  case (lose c cs i "is" k q q')
  then have "length (qu_slots q') = length (qu_slots q)" using claim_row_length [of env i q] by simp
  with lose show ?case by (simp add: race_effort_def sum_list_update_less)
qed (simp_all add: race_effort_def sum_list_update_less)

section \<open>The race's properties\<close>

lemma steps_effort: "(claim_step env pref ^^ m) x y \<Longrightarrow> m + race_effort y \<le> race_effort x"
proof (induction m arbitrary: y)
  case (Suc m)
  then obtain z where z: "(claim_step env pref ^^ m) x z" "claim_step env pref z y" by auto
  with Suc.IH [OF z(1)] claim_step_effort [OF z(2)] show ?case by simp
qed simp

lemma roomy_steps: "(claim_step env pref ^^ m) x y \<Longrightarrow> roomy room x \<Longrightarrow> roomy room y"
  by (induction m arbitrary: y) (auto intro: roomy_step)

lemma claim_unfinished:
  assumes "c < length cs" and "cs ! c = Looking k \<or> cs ! c = Trying is k"
  shows "\<exists>y. claim_step env pref (q, cs) y"
  using assms(2)
proof
  assume "cs ! c = Looking k"
  with assms(1) show ?thesis by (cases k; cases "candidates q (pref c) = []") (blast intro: claim_step.intros)+
next
  assume "cs ! c = Trying is k"
  with assms(1) show ?thesis
    by (cases "is"; cases "claim_slot_row env (hd is) q"; cases "snd (claim_slot_row env (hd is) q)")
       (auto intro: claim_step.intros)
qed

text \<open>C20: However the reads, the updates and the releases of any number of claimants fall
  between each other, no slot is ever held by two of them, and a slot that is held is a row of
  the pool that reads taken.\<close>

theorem race_exclusive:
  assumes "pool_sound q" and "(race_step env pref)\<^sup>*\<^sup>* (q, replicate n (Looking CLAIM_ATTEMPTS)) (r, cs)"
    and "holds cs c i"
  shows "(\<forall>d. holds cs d i \<longrightarrow> d = c) \<and> (\<exists>s \<in> set (qu_slots r). sl_id s = i \<and> \<not> sl_is_available s)"
proof -
  have "race_inv (r, cs)" using race_inv_reachable [OF assms(2)] race_inv_start [OF assms(1)] by blast
  with assms(3) have "\<forall>d. holds cs d i \<longrightarrow> d = c" and "i \<notin> free_ids r" and "i \<in> sl_id ` set (qu_slots r)"
    by (auto simp: race_inv_def)
  then show ?thesis unfolding free_ids_def by blast
qed

text \<open>Two claimants at a pool of one lane: the first reads, then the second, then the first updates.\<close>

definition one_lane :: Queue where "one_lane = fit_slot_pool 1 empty_queue"

definition taken_lane :: Queue where "taken_lane = alter_slot ''0'' (taken (le_now sample_env)) one_lane"

lemma one_lane_race:
  shows "(claim_step sample_env (\<lambda>_. None) ^^ 3) (one_lane, replicate 2 (Looking CLAIM_ATTEMPTS))
    (taken_lane, [Holding ''0'', Trying [''0''] 3])"
proof -
  let ?step = "claim_step sample_env (\<lambda>_. None)"
  have cand: "map sl_id (candidates one_lane None) = [''0'']" by code_simp
  then have ne: "candidates one_lane None \<noteq> []" by auto
  have row: "claim_slot_row sample_env ''0'' one_lane
      = (taken_lane, Some (taken (le_now sample_env) (new_slot ''0'' 1)))"
    unfolding taken_lane_def by code_simp
  have start: "replicate 2 (Looking CLAIM_ATTEMPTS) = [Looking 4, Looking 4]"
    by (simp add: CLAIM_ATTEMPTS_def numeral_2_eq_2)
  have "?step (one_lane, [Looking 4, Looking 4]) (one_lane, [Trying [''0''] 3, Looking 4])"
    using claim_step.look [of 0 "[Looking 4, Looking 4]" 3 one_lane "\<lambda>_. None" sample_env] ne cand by simp
  moreover have "?step (one_lane, [Trying [''0''] 3, Looking 4]) (one_lane, [Trying [''0''] 3, Trying [''0''] 3])"
    using claim_step.look [of 1 "[Trying [''0''] 3, Looking 4]" 3 one_lane "\<lambda>_. None" sample_env] ne cand by simp
  moreover have "?step (one_lane, [Trying [''0''] 3, Trying [''0''] 3]) (taken_lane, [Holding ''0'', Trying [''0''] 3])"
    using claim_step.win [of 0 "[Trying [''0''] 3, Trying [''0''] 3]" "''0''" "[]" 3 sample_env one_lane, OF _ _ row]
    by simp
  ultimately show ?thesis unfolding start by (auto simp: numeral_3_eq_3)
qed

lemma one_lane_sound: "pool_sound one_lane"
  using pool_sound_fit [of empty_queue 1] empty_queue_sound by (simp add: one_lane_def)

theorem race_exclusive_witness:
  "\<not> holds [Holding ''0'', Trying [''0''] 3] 1 ''0''
   \<and> (\<exists>s \<in> set (qu_slots taken_lane). sl_id s = ''0'' \<and> \<not> sl_is_available s)"
proof -
  let ?step = "claim_step sample_env (\<lambda>_. None)"
  have "?step\<^sup>*\<^sup>* (one_lane, replicate 2 (Looking CLAIM_ATTEMPTS)) (taken_lane, [Holding ''0'', Trying [''0''] 3])"
    using one_lane_race by (rule relpowp_imp_rtranclp)
  then have reach: "(race_step sample_env (\<lambda>_. None))\<^sup>*\<^sup>*
      (one_lane, replicate 2 (Looking CLAIM_ATTEMPTS)) (taken_lane, [Holding ''0'', Trying [''0''] 3])"
    by (rule rtranclp_mono [THEN predicate2D, rotated]) (blast intro: race_step.claim)
  have "holds [Holding ''0'', Trying [''0''] 3] 0 ''0''" by (simp add: holds_def)
  note both = race_exclusive [OF one_lane_sound reach this]
  have "\<not> holds [Holding ''0'', Trying [''0''] 3] 1 ''0''"
    using both [THEN conjunct1, THEN spec, of 1] by simp
  then show ?thesis using both [THEN conjunct2] by (rule conjI)
qed

text \<open>C21: When no more than four claimants arrive at a pool with a free slot for each, none of
  them is turned away: their race ends after boundedly many steps, whatever the interleaving,
  and when it has ended every one of them holds a slot.\<close>

theorem race_admits_all:
  assumes "pool_sound q" and "n \<le> card (free_ids q)" and "n \<le> CLAIM_ATTEMPTS"
    and "(claim_step env pref ^^ m) (q, replicate n (Looking CLAIM_ATTEMPTS)) (r, cs)"
  shows "m \<le> race_effort (q, replicate n (Looking CLAIM_ATTEMPTS)) \<and> Refused \<notin> set cs
    \<and> ((\<nexists>y. claim_step env pref (r, cs) y) \<longrightarrow> (\<forall>c < length cs. \<exists>i. holds cs c i))"
proof -
  have roomy: "roomy (card (free_ids q)) (r, cs)"
    using roomy_steps [OF assms(4)] roomy_start [OF assms(1-3)] by blast
  then have patient: "patient (free_ids r) (card (holders cs)) (cs ! c)" if "c < length cs" for c
    using that by (simp add: roomy_def)
  have "Refused \<notin> set cs"
  proof
    assume "Refused \<in> set cs"
    then obtain c where "c < length cs" "cs ! c = Refused" by (auto simp: in_set_conv_nth)
    with patient [of c] show False by simp
  qed
  moreover have "\<exists>i. holds cs c i" if "\<nexists>y. claim_step env pref (r, cs) y" "c < length cs" for c
    using patient [OF that(2)] claim_unfinished [OF that(2), of _ _ env pref r] that
    by (cases "cs ! c") (auto simp: holds_def)
  moreover from steps_effort [OF assms(4)] have "m \<le> race_effort (q, replicate n (Looking CLAIM_ATTEMPTS))"
    by simp
  ultimately show ?thesis by blast
qed


theorem race_admits_all_witness:
  "(\<nexists>y. claim_step sample_env (\<lambda>_. None) (taken_lane, [Holding ''0'']) y)
     \<and> (\<exists>i. holds [Holding ''0''] 0 i)"
proof -
  let ?step = "claim_step sample_env (\<lambda>_. None)"
  have cand: "map sl_id (candidates one_lane None) = [''0'']" by code_simp
  then have ne: "candidates one_lane None \<noteq> []" by auto
  have row: "claim_slot_row sample_env ''0'' one_lane
      = (taken_lane, Some (taken (le_now sample_env) (new_slot ''0'' 1)))"
    unfolding taken_lane_def by code_simp
  have start: "replicate 1 (Looking CLAIM_ATTEMPTS) = [Looking 4]" by (simp add: CLAIM_ATTEMPTS_def)
  have "?step (one_lane, [Looking 4]) (one_lane, [Trying [''0''] 3])"
    using claim_step.look [of 0 "[Looking 4]" 3 one_lane "\<lambda>_. None" sample_env] ne cand by simp
  moreover have "?step (one_lane, [Trying [''0''] 3]) (taken_lane, [Holding ''0''])"
    using claim_step.win [of 0 "[Trying [''0''] 3]" "''0''" "[]" 3 sample_env one_lane, OF _ _ row] by simp
  ultimately have run: "(?step ^^ 2) (one_lane, replicate 1 (Looking CLAIM_ATTEMPTS)) (taken_lane, [Holding ''0''])"
    unfolding start by (auto simp: numeral_2_eq_2)
  have "free_ids one_lane = {''0''}" using candidates_free [of one_lane None] cand
    by (metis empty_set list.simps(15) set_map)
  then have "card (free_ids one_lane) = 1" by simp
  then have all: "\<exists>i. holds [Holding ''0''] c i" if "\<nexists>y. ?step (taken_lane, [Holding ''0'']) y" "c < length [Holding ''0'']" for c
    using race_admits_all [OF one_lane_sound _ _ run] that by (simp add: CLAIM_ATTEMPTS_def)
  have stop: "\<nexists>y. ?step (taken_lane, [Holding ''0'']) y"
    by (auto elim!: claim_stepE)
  with all [of 0] show ?thesis by simp
qed

end
