(* ===== verification/QueueRepair.thy ===== *)
theory QueueRepair
  imports SlotPool WorkflowState
begin

text \<open>
  \<open>services/queue_repair.py\<close>: whether a block is final, how long a lane may be held while it is
  not, and how the blocked stage is re-armed for the next dispatch. The hold is written on the
  queue entry; the stage goes back through \<open>set_stage_status\<close> and the rollup, on the ticket's
  own row and workflow instance.
\<close>

section \<open>Blocks left by an interruption\<close>

definition INTERRUPTED_RUN_MESSAGE :: string where
  "INTERRUPTED_RUN_MESSAGE = ''Agent run interrupted before completion (server reload or worker stopped). ''
     @ ''Re-run the stage to continue.''"

definition STRANDED_STAGE_MESSAGE :: string where
  "STRANDED_STAGE_MESSAGE = ''Stage was left running with no agent run behind it (the run ended before its ''
     @ ''stage was settled). Re-run the stage to continue.''"

definition INTERRUPTION_MESSAGES :: "string list" where
  "INTERRUPTION_MESSAGES = [INTERRUPTED_RUN_MESSAGE, STRANDED_STAGE_MESSAGE]"

definition blocked_by_interruption :: "Ticket \<Rightarrow> bool" where
  "blocked_by_interruption ticket \<longleftrightarrow>
     tk_state ticket \<notin> {TicketState.DONE, TicketState.WONT_DO}
     \<and> tk_blocking_issues ticket \<in> set INTERRUPTION_MESSAGES"

section \<open>The route of a repair\<close>

definition REPAIR_ATTEMPT_CAP :: int where "REPAIR_ATTEMPT_CAP = 3"
definition REPAIR_WALL_CLOCK :: int where "REPAIR_WALL_CLOCK = microseconds (15 * 60)"

definition awaiting_a_person :: "Queue \<Rightarrow> Ticket \<Rightarrow> bool" where
  "awaiting_a_person q ticket \<longleftrightarrow>
     list_ex (\<lambda>a. ap_ticket_id a = tk_id ticket \<and> ap_status a = ApprovalStatus.PENDING) (qu_approvals q)"

definition settled_by_a_person :: "Queue \<Rightarrow> Ticket \<Rightarrow> bool" where
  "settled_by_a_person q ticket \<longleftrightarrow>
     (if tk_state ticket \<in> {TicketState.DONE, TicketState.WONT_DO, TicketState.PARKED} then True
      else tk_state_locked ticket \<or> awaiting_a_person q ticket)"

text \<open>The newest of a stage's runs; a run with no creation time sorts last.\<close>

definition newest_run :: "AgentRun list \<Rightarrow> AgentRun option" where
  "newest_run runs =
     (let dated = filter (\<lambda>r. rn_created_at r \<noteq> None) runs;
          undated = filter (\<lambda>r. rn_created_at r = None) runs in
      case sort_key (\<lambda>r. - the (rn_created_at r)) dated @ undated of
        [] \<Rightarrow> None
      | r # rs \<Rightarrow> Some r)"

definition stage_run_failed :: "Queue \<Rightarrow> Ticket \<Rightarrow> string \<Rightarrow> bool" where
  "stage_run_failed q ticket stage_key \<longleftrightarrow>
     (case newest_run (filter (\<lambda>r. rn_ticket_id r = Some (tk_id ticket) \<and> rn_stage_key r = stage_key)
             (lg_runs (qu_ledger q))) of
        None \<Rightarrow> False
      | Some run \<Rightarrow> rn_status run = RunStatus.FAILED)"

definition resolve_repair_route :: "LaneEnv \<Rightarrow> Queue \<Rightarrow> Ticket \<Rightarrow> RepairRoute option" where
  "resolve_repair_route env q ticket =
     (if settled_by_a_person q ticket then None
      else if tk_block_kind ticket = Some CONFLICT
      then (if le_merge_refusal env ticket \<noteq> [] then None else Some MERGE_TURN)
      else if blocked_by_interruption ticket then Some INTERRUPTION
      else if tk_scope_reroute_agent ticket \<noteq> [] then Some SCOPE_REROUTE
      else
        (let stage_key = tk_workflow_stage_key ticket in
         if stage_key = [] \<or> tk_workflow_stage_status ticket \<noteq> StageStatus.BLOCKED then None
         else if blocked_on_stage_retry_budget (qu_ledger q) ticket stage_key then None
         else if \<not> stage_run_failed q ticket stage_key then None
         else if bs_at_budget (stage_retry_budget_state (qu_ledger q) ticket stage_key
                    (resolve_stage_retry_budget (le_profile env))) then None
         else Some STAGE_RETRY))"

section \<open>The bounds of a hold\<close>

definition held_for :: "QueuedRun \<Rightarrow> int \<Rightarrow> int option" where
  "held_for entry now = (case qr_repairing_since entry of None \<Rightarrow> None | Some since \<Rightarrow> Some (now - since))"

definition repair_exhausted :: "QueuedRun \<Rightarrow> int \<Rightarrow> string" where
  "repair_exhausted entry now =
     (if qr_repair_attempts entry \<ge> REPAIR_ATTEMPT_CAP
      then ''Repair gave up after '' @ str_int (qr_repair_attempts entry) @ '' attempts (cap ''
           @ str_int REPAIR_ATTEMPT_CAP @ ''); the block stands.''
      else (case held_for entry now of
              None \<Rightarrow> []
            | Some held \<Rightarrow>
                if held > REPAIR_WALL_CLOCK
                then ''Repair gave up after holding the lane for '' @ str_int (held div 1000000)
                     @ ''s (cap '' @ str_int (REPAIR_WALL_CLOCK div 1000000) @ ''s); the block stands.''
                else []))"

definition begin_repair :: "RepairRoute \<Rightarrow> int \<Rightarrow> QueuedRun \<Rightarrow> QueuedRun" where
  "begin_repair route now entry = entry\<lparr>qr_status := REPAIRING, qr_repair_route := Some route,
     qr_repairing_since := Some now\<rparr>"

definition end_repair :: "QueuedRun \<Rightarrow> QueuedRun" where
  "end_repair entry = entry\<lparr>qr_repairing_since := None\<rparr>"

section \<open>Re-arming the blocked stage\<close>

definition no_workflow :: "Ticket \<Rightarrow> string" where
  "no_workflow ticket = tk_external_id ticket @ '' has no workflow to re-run '' @ [char_of (39::nat)]
     @ tk_workflow_stage_key ticket @ [char_of (39::nat)] @ '' in''"

text \<open>The ticket's row, its workflow instance and the event log as one workflow operation sees them.\<close>

definition workflow_of :: "Queue \<Rightarrow> Ticket \<Rightarrow> WorkflowInstance \<Rightarrow> Workflow" where
  "workflow_of q ticket instance = \<lparr>wf_ticket = ticket, wf_instance = instance,
     wf_events = bd_events (qu_board q), wf_attached = True\<rparr>"

definition save_workflow :: "Workflow \<Rightarrow> Queue \<Rightarrow> Queue" where
  "save_workflow w q = q\<lparr>qu_board := (put_ticket (wf_ticket w) (qu_board q))\<lparr>bd_events := wf_events w\<rparr>,
     qu_instances := map (\<lambda>(i, instance). if i = tk_id (wf_ticket w) then (i, wf_instance w) else (i, instance))
       (qu_instances q)\<rparr>"

definition unblock_for_rerun :: "LaneEnv \<Rightarrow> Queue \<Rightarrow> Ticket \<Rightarrow> Queue result" where
  "unblock_for_rerun env q ticket =
     (let stages = le_stages env ticket in
      case get_instance q (tk_id ticket) of
        None \<Rightarrow> Inl (ValueError (no_workflow ticket))
      | Some instance \<Rightarrow>
          if stages = [] then Inl (ValueError (no_workflow ticket))
          else bind_result (set_stage_status (le_now env) (workflow_of q ticket instance) stages
                   (tk_workflow_stage_key ticket) StageStatus.PENDING None) (\<lambda>(w, _).
                 let q = save_workflow w q in
                 Inr (q\<lparr>qu_board := fst (reconcile_ancestors (le_now env) (qu_board q) (wf_ticket w))\<rparr>)))"

definition rerun_refusal :: "LaneEnv \<Rightarrow> Queue \<Rightarrow> Ticket \<Rightarrow> string" where
  "rerun_refusal env q ticket =
     (if blocked_by_interruption ticket \<or> get_instance q (tk_id ticket) = None then []
      else if le_stages env ticket \<noteq> [] then []
      else ''the block cannot be re-run: '' @ no_workflow ticket)"

text \<open>
  What \<open>except ValueError\<close> catches, and the text of it: the class and its subclasses, among them
  the decoder's error, whose text is the decoder's own. Any other exception passes through.
\<close>

definition value_error_text :: "py_error \<Rightarrow> string option" where
  "value_error_text e =
     (case e of
        ValueError s \<Rightarrow> Some s
      | JSONDecodeError \<Rightarrow> Some []
      | InvalidTicketTransition a b \<Rightarrow> Some (''Invalid ticket transition '' @ a @ '' -> '' @ b)
      | DependencyCycleError d t \<Rightarrow> Some (d @ '' already depends on '' @ t @ ''; edge would cycle'')
      | TicketNotFound ref \<Rightarrow> Some (''Ticket not found: '' @ repr_str ref)
      | AmbiguousTicketReference ref names why \<Rightarrow>
          Some (''Ambiguous ticket reference '' @ repr_str ref @ '': '' @ why @ ''. It matches '' @ join '', '' names
            @ ''. Name one by its external id, or pass its workspace.'')
      | StageRetryBudgetExceeded s \<Rightarrow> Some s
      | _ \<Rightarrow> None)"

definition prepare_rerun :: "LaneEnv \<Rightarrow> Queue \<Rightarrow> Ticket \<Rightarrow> (Queue \<times> string) result" where
  "prepare_rerun env q ticket =
     (if tk_state ticket \<noteq> TicketState.BLOCKED \<or> blocked_by_interruption ticket then Inr (q, [])
      else (case unblock_for_rerun env q ticket of
              Inr q \<Rightarrow> Inr (q, [])
            | Inl e \<Rightarrow> (case value_error_text e of
                          Some text \<Rightarrow> Inr (q, ''the block cannot be re-run: '' @ text)
                        | None \<Rightarrow> Inl e)))"

definition hold_for_repair ::
    "LaneEnv \<Rightarrow> Queue \<Rightarrow> string \<Rightarrow> Ticket \<Rightarrow> RepairRoute \<Rightarrow> (Queue \<times> string) result" where
  "hold_for_repair env q entry_id ticket route =
     bind_result (prepare_rerun env q ticket) (\<lambda>(q, refused).
       if refused \<noteq> [] then Inr (q, refused)
       else Inr (alter_entry entry_id (begin_repair route (le_now env)) q, []))"

definition held_but_blocked :: "Queue \<Rightarrow> (QueuedRun \<times> Ticket) list" where
  "held_but_blocked q =
     concat (map (\<lambda>e. case get_ticket (qu_board q) (qr_ticket_id e) of
         None \<Rightarrow> []
       | Some t \<Rightarrow>
           if qr_status e = REPAIRING \<and> qr_repair_route e \<noteq> None \<and> qr_repair_route e \<noteq> Some INTERRUPTION
              \<and> tk_state t = TicketState.BLOCKED \<and> \<not> blocked_by_interruption t
           then [(e, t)] else []) (qu_entries q))"

text \<open>A ticket of the list is the row itself, so an earlier re-arm's rollup shows on it.\<close>

fun rearm_held :: "LaneEnv \<Rightarrow> Queue \<Rightarrow> Ticket list \<Rightarrow> (Queue \<times> nat) result" where
  "rearm_held env q [] = Inr (q, 0)"
| "rearm_held env q (listed # tickets) =
     (let ticket = (case get_ticket (qu_board q) (tk_id listed) of Some t \<Rightarrow> t | None \<Rightarrow> listed) in
      if tk_state ticket \<noteq> TicketState.BLOCKED then rearm_held env q tickets
      else bind_result (prepare_rerun env q ticket) (\<lambda>(q, refused).
             bind_result (rearm_held env q tickets) (\<lambda>(q, n).
               Inr (q, if refused = [] then Suc n else n))))"

section \<open>Facts\<close>

lemma save_workflow_fields [simp, row_simps]:
  "qu_slots (save_workflow w q) = qu_slots q" "qu_entries (save_workflow w q) = qu_entries q"
  "qu_orchs (save_workflow w q) = qu_orchs q" "qu_ledger (save_workflow w q) = qu_ledger q"
  "qu_approvals (save_workflow w q) = qu_approvals q" "qu_next_id (save_workflow w q) = qu_next_id q"
  by (simp_all add: save_workflow_def)

text \<open>Re-arming writes the ticket, its instance and its ancestors: the queue's own tables stay.\<close>

definition same_queue :: "Queue \<Rightarrow> Queue \<Rightarrow> bool" where
  "same_queue q r \<longleftrightarrow> qu_slots q = qu_slots r \<and> qu_entries q = qu_entries r \<and> qu_orchs q = qu_orchs r
     \<and> qu_ledger q = qu_ledger r \<and> qu_next_id q = qu_next_id r"

lemma same_queue_refl [simp]: "same_queue q q"
  by (simp add: same_queue_def)

lemma unblock_keeps_queue: "unblock_for_rerun env q t = Inr r \<Longrightarrow> same_queue r q"
  by (auto simp: unblock_for_rerun_def Let_def bind_result_Inr_iff same_queue_def
        split: option.splits if_splits)

lemma prepare_keeps_queue: "prepare_rerun env q t = Inr (r, s) \<Longrightarrow> same_queue r q"
  by (auto simp: prepare_rerun_def dest: unblock_keeps_queue split: if_splits sum.splits option.splits)

lemma hold_for_repair_cases:
  assumes "hold_for_repair env q i t route = Inr (r, s)"
  obtains (refused) "s \<noteq> []" and "same_queue r q"
  | (held) m where "s = []" and "same_queue m q" and "r = alter_entry i (begin_repair route (le_now env)) m"
  using assms unfolding hold_for_repair_def bind_result_Inr_iff
  by (auto split: if_splits prod.splits dest!: prepare_keeps_queue)

text \<open>A hold ends by its attempts or by its clock, whichever comes first.\<close>

lemma repair_exhausted_iff:
  "repair_exhausted entry now \<noteq> [] \<longleftrightarrow>
     qr_repair_attempts entry \<ge> REPAIR_ATTEMPT_CAP
     \<or> (\<exists>since. qr_repairing_since entry = Some since \<and> now - since > REPAIR_WALL_CLOCK)"
  by (auto simp: repair_exhausted_def held_for_def split: option.splits)

lemma begin_repair_simps [simp, row_simps]:
  "qr_id (begin_repair route now e) = qr_id e" "qr_slot_number (begin_repair route now e) = qr_slot_number e"
  "qr_status (begin_repair route now e) = REPAIRING" "qr_position (begin_repair route now e) = qr_position e"
  "qr_ticket_id (begin_repair route now e) = qr_ticket_id e"
  "qr_run_id (begin_repair route now e) = qr_run_id e"
  "qr_orchestration_run_id (begin_repair route now e) = qr_orchestration_run_id e"
  "qr_repair_attempts (begin_repair route now e) = qr_repair_attempts e"
  by (simp_all add: begin_repair_def)

lemma end_repair_simps [simp, row_simps]:
  "qr_id (end_repair e) = qr_id e" "qr_slot_number (end_repair e) = qr_slot_number e"
  "qr_status (end_repair e) = qr_status e" "qr_position (end_repair e) = qr_position e"
  "qr_ticket_id (end_repair e) = qr_ticket_id e" "qr_run_id (end_repair e) = qr_run_id e"
  "qr_orchestration_run_id (end_repair e) = qr_orchestration_run_id e"
  "qr_repair_attempts (end_repair e) = qr_repair_attempts e" "qr_repairing_since (end_repair e) = None"
  by (simp_all add: end_repair_def)

end
