(* ===== verification/HoldLine.thy ===== *)
theory HoldLine
  imports Board
begin

text \<open>
  \<open>services/hold_line.py\<close>: the line a parent shows for the children its prerequisites hold, and
  the cut that bounds every stored orchestration message. Lengths matter here and the line has
  characters beyond Latin-1, so a message is the list of its code points.
\<close>

section \<open>Messages\<close>

type_synonym message = "nat list"

definition points :: "string \<Rightarrow> message" where
  "points s = map of_char s"

definition ERROR_MESSAGE_LIMIT :: nat where "ERROR_MESSAGE_LIMIT = 2000"

definition CUT_MARKER :: message where "CUT_MARKER = [32, 8230] @ points ''[cut]''"

definition EM_DASH :: message where "EM_DASH = [8212]"

definition CHILD_SEPARATOR :: message where "CHILD_SEPARATOR = points ''; ''"

definition PREREQUISITE_SEPARATOR :: message where "PREREQUISITE_SEPARATOR = points '', ''"

text \<open>\<open>str.isspace\<close> of one code point, and \<open>str.rstrip\<close> of the points of a kind.\<close>

definition point_is_space :: "nat \<Rightarrow> bool" where
  "point_is_space c \<longleftrightarrow> c \<in> {9..13} \<union> {28..32} \<union> {133, 160, 5760} \<union> {8192..8202} \<union> {8232, 8233, 8239, 8287, 12288}"

definition rstrip_of :: "(nat \<Rightarrow> bool) \<Rightarrow> message \<Rightarrow> message" where
  "rstrip_of P m = rev (dropWhile P (rev m))"

definition ends_clause :: "nat \<Rightarrow> bool" where "ends_clause c \<longleftrightarrow> c = 59 \<or> c = 44"

section \<open>The cut\<close>

fun scan_separators :: "message \<Rightarrow> nat \<Rightarrow> nat \<Rightarrow> nat \<Rightarrow> nat option \<Rightarrow> nat option" where
  "scan_separators [] index opened shut found = found"
| "scan_separators (c # cs) index opened shut found =
     scan_separators cs (Suc index)
       (if c = 91 then Suc opened else opened) (if c = 93 then Suc shut else shut)
       (if opened = shut \<and> (ends_clause c \<or> point_is_space c) then Some index else found)"

definition last_separator_outside_brackets :: "message \<Rightarrow> nat \<Rightarrow> nat option" where
  "last_separator_outside_brackets m keep = scan_separators (take keep m) 0 0 0 None"

definition truncate_for_storage :: "message \<Rightarrow> message" where
  "truncate_for_storage m =
     (if length m \<le> ERROR_MESSAGE_LIMIT then m
      else (let keep = ERROR_MESSAGE_LIMIT - length CUT_MARKER;
                head = (case last_separator_outside_brackets m keep of
                          None \<Rightarrow> take keep m | Some index \<Rightarrow> take index m)
            in rstrip_of point_is_space (rstrip_of ends_clause (rstrip_of point_is_space head)) @ CUT_MARKER))"

section \<open>What is held, and why\<close>

datatype UnmetReason = NOT_DONE | NOT_LANDED

record UnmetPrerequisite =
  up_ticket :: Ticket
  up_reason :: UnmetReason
  up_target :: string

record HeldChild =
  hc_ticket :: Ticket
  hc_unmet :: "UnmetPrerequisite list"

definition WAITING_NAMES :: nat where "WAITING_NAMES = 5"

definition workspace_slugs :: "Board \<Rightarrow> HeldChild list \<Rightarrow> (string, string) dict" where
  "workspace_slugs b held =
     (let workspace_ids = concat (map (\<lambda>child. map (\<lambda>e. tk_workspace_id (up_ticket e)) (hc_unmet child)) held)
      in map (\<lambda>w. (ws_id w, ws_slug w)) (filter (\<lambda>w. Some (ws_id w) \<in> set workspace_ids) (bd_workspaces b)))"

definition unmet_name :: "(string, string) dict \<Rightarrow> UnmetPrerequisite \<Rightarrow> message" where
  "unmet_name slugs e =
     points ((case tk_workspace_id (up_ticket e) of None \<Rightarrow> ''?'' | Some i \<Rightarrow> dict_get slugs i ''?'')
       @ '':'' @ tk_external_id (up_ticket e))"

definition why :: "UnmetPrerequisite \<Rightarrow> message" where
  "why e = points (if up_reason e = NOT_LANDED
     then ticket_state_value (tk_state (up_ticket e)) @ '', not landed on '' @ up_target e
       @ ''; land it: loregarden_land_ticket '' @ tk_external_id (up_ticket e)
     else ticket_state_value (tk_state (up_ticket e)))"

definition unmet_key :: "(string, string) dict \<Rightarrow> UnmetPrerequisite \<Rightarrow> int \<times> message" where
  "unmet_key slugs e = (if up_reason e = NOT_LANDED then 0 else 1, unmet_name slugs e)"

definition prerequisite_clause :: "(string, string) dict \<Rightarrow> UnmetPrerequisite \<Rightarrow> message" where
  "prerequisite_clause slugs e = unmet_name slugs e @ points '' ['' @ why e @ points '']''"

section \<open>One child's clause\<close>

record Clause =
  cl_head :: message
  cl_external_id :: string
  cl_prerequisites :: "message list"
  cl_named :: nat

definition clause_remaining :: "Clause \<Rightarrow> nat" where
  "clause_remaining c = length (cl_prerequisites c) - cl_named c"

definition clause_elision :: "Clause \<Rightarrow> nat \<Rightarrow> message" where
  "clause_elision c remaining =
     (if remaining = 0 then []
      else PREREQUISITE_SEPARATOR @ points ''+'' @ points (digits_of remaining) @ points '' more prerequisites ''
        @ EM_DASH @ points '' loregarden_get_ticket '' @ points (cl_external_id c))"

definition minimum_cost :: "Clause \<Rightarrow> int" where
  "minimum_cost c = int (length (cl_head c)) + int (length (cl_prerequisites c ! 0)) + 1
     + int (length (clause_elision c (length (cl_prerequisites c) - 1)))"

definition growth_cost :: "Clause \<Rightarrow> int option" where
  "growth_cost c =
     (let remaining = clause_remaining c in
      if remaining = 0 then None
      else Some (int (length PREREQUISITE_SEPARATOR) + int (length (cl_prerequisites c ! cl_named c))
             + int (length (clause_elision c (remaining - 1))) - int (length (clause_elision c remaining))))"

definition clause_grow :: "Clause \<Rightarrow> Clause" where
  "clause_grow c = c\<lparr>cl_named := Suc (cl_named c)\<rparr>"

fun join_messages :: "message \<Rightarrow> message list \<Rightarrow> message" where
  "join_messages sep [] = []"
| "join_messages sep [m] = m"
| "join_messages sep (m # n # ms) = m @ sep @ join_messages sep (n # ms)"

definition clause_render :: "Clause \<Rightarrow> message" where
  "clause_render c = cl_head c
     @ join_messages PREREQUISITE_SEPARATOR (take (cl_named c) (cl_prerequisites c))
     @ clause_elision c (clause_remaining c) @ points '')''"

definition clause_for :: "(string, string) dict \<Rightarrow> HeldChild \<Rightarrow> Clause option" where
  "clause_for slugs child =
     (if hc_unmet child = [] then None
      else Some \<lparr>cl_head = points (tk_title (hc_ticket child) @ '' ['' @ tk_external_id (hc_ticket child)
                    @ ''] (waits for ''),
             cl_external_id = tk_external_id (hc_ticket child),
             cl_prerequisites = map (prerequisite_clause slugs) (sort_key (unmet_key slugs) (hc_unmet child)),
             cl_named = 1\<rparr>)"

section \<open>Composing within the budget\<close>

text \<open>Admission stops at the first child with nothing to name or too little room.\<close>

fun admit :: "(string, string) dict \<Rightarrow> HeldChild list \<Rightarrow> int \<Rightarrow> Clause list \<Rightarrow> Clause list \<times> int" where
  "admit slugs [] budget admitted = (admitted, budget)"
| "admit slugs (child # children) budget admitted =
     (case clause_for slugs child of
        None \<Rightarrow> (admitted, budget)
      | Some clause \<Rightarrow>
          (let cost = minimum_cost clause + (if admitted = [] then 0 else int (length CHILD_SEPARATOR)) in
           if cost > budget then (admitted, budget)
           else admit slugs children (budget - cost) (admitted @ [clause])))"

text \<open>One round of growth: each child names one more prerequisite if it fits.\<close>

fun grow_round :: "Clause list \<Rightarrow> int \<Rightarrow> Clause list \<times> int \<times> nat" where
  "grow_round [] budget = ([], budget, 0)"
| "grow_round (c # cs) budget =
     (case growth_cost c of
        None \<Rightarrow> (let (cs, budget, spent) = grow_round cs budget in (c # cs, budget, spent))
      | Some cost \<Rightarrow>
          if cost \<le> budget
          then (let (cs, budget, spent) = grow_round cs (budget - cost) in (clause_grow c # cs, budget, Suc spent))
          else (let (cs, budget, spent) = grow_round cs budget in (c # cs, budget, spent)))"

definition left_to_name :: "Clause list \<Rightarrow> nat" where
  "left_to_name cs = sum_list (map clause_remaining cs)"

lemma growth_cost_remaining: "growth_cost c = Some cost \<Longrightarrow> clause_remaining c > 0"
  by (auto simp: growth_cost_def Let_def split: if_splits)

lemma grow_remaining: "clause_remaining (clause_grow c) = clause_remaining c - 1"
  by (simp add: clause_grow_def clause_remaining_def)

text \<open>What a round spends is what there is less to name.\<close>

lemma grow_round_left:
  "grow_round cs budget = (cs', budget', spent) \<Longrightarrow> left_to_name cs' + spent = left_to_name cs"
proof (induction cs arbitrary: budget cs' budget' spent)
  case (Cons c cs)
  then show ?case
    using growth_cost_remaining [of c]
    by (fastforce simp: left_to_name_def grow_remaining split: option.splits if_splits prod.splits)
qed simp

lemma grow_round_less:
  "(cs', budget', spent) = grow_round cs budget \<Longrightarrow> 0 < spent \<Longrightarrow> left_to_name cs' < left_to_name cs"
  using grow_round_left [of cs budget cs' budget' spent] by (simp add: eq_commute)

function grow :: "Clause list \<Rightarrow> int \<Rightarrow> Clause list \<times> int" where
  "grow cs budget =
     (case grow_round cs budget of
        (cs', budget', spent) \<Rightarrow> if spent = 0 then (cs', budget') else grow cs' budget')"
  by pat_completeness auto
termination
  by (relation "measure (\<lambda>(cs, budget). left_to_name cs)") (auto dest: grow_round_less)

declare grow.simps [simp del]

definition hold_prefix :: "nat \<Rightarrow> message" where
  "hold_prefix n = points (''Child ticket waiting on a prerequisite ('' @ digits_of n @ ''): '')"

definition more_children :: "nat \<Rightarrow> message" where
  "more_children n = points (''+'' @ digits_of n @ '' more'')"

definition render_hold_line :: "Board \<Rightarrow> HeldChild list \<Rightarrow> message" where
  "render_hold_line b held =
     (if held = [] then []
      else (let total = length held;
                prefix = hold_prefix total;
                slugs = workspace_slugs b (take WAITING_NAMES held);
                budget = int ERROR_MESSAGE_LIMIT - int (length prefix);
                budget = (if total > 1
                          then budget - int (length (CHILD_SEPARATOR @ more_children (total - 1))) else budget);
                (admitted, budget) = admit slugs (take WAITING_NAMES held) budget [];
                (admitted, _) = grow admitted budget;
                parts = map clause_render admitted;
                elided = total - length admitted;
                parts = (if elided > 0 then parts @ [more_children elided] else parts)
            in prefix @ join_messages CHILD_SEPARATOR parts))"

section \<open>Where the cut falls\<close>

definition cuttable :: "message \<Rightarrow> nat \<Rightarrow> bool" where
  "cuttable m i \<longleftrightarrow> i < length m \<and> (ends_clause (m ! i) \<or> point_is_space (m ! i))
     \<and> count_list (take i m) 91 = count_list (take i m) 93"

lemma scan_snoc:
  "scan_separators (cs @ [c]) k opened shut found =
     (if opened + count_list cs 91 = shut + count_list cs 93 \<and> (ends_clause c \<or> point_is_space c)
      then Some (k + length cs) else scan_separators cs k opened shut found)"
  by (induction cs arbitrary: k opened shut found) (auto split: if_splits)

lemma cuttable_snoc:
  "cuttable (cs @ [c]) i \<longleftrightarrow> (if i = length cs then (ends_clause c \<or> point_is_space c) \<and> count_list cs 91 = count_list cs 93
     else cuttable cs i)"
  by (auto simp: cuttable_def nth_append)

lemma scan_last:
  "scan_separators cs 0 0 0 None = (if \<exists>i. cuttable cs i then Some (Max {i. cuttable cs i}) else None)"
proof (induction cs rule: rev_induct)
  case (snoc c cs)
  have finite: "finite {i. cuttable cs i}"
    by (rule finite_subset [of _ "{..<length cs}"]) (auto simp: cuttable_def)
  let ?here = "(ends_clause c \<or> point_is_space c) \<and> count_list cs 91 = count_list cs 93"
  have below: "cuttable cs i \<Longrightarrow> i < length cs" for i by (simp add: cuttable_def)
  show ?case
  proof (cases ?here)
    case True
    then have "{i. cuttable (cs @ [c]) i} = insert (length cs) {i. cuttable cs i}"
      using below by (auto simp: cuttable_snoc)
    moreover have "Max (insert (length cs) {i. cuttable cs i}) = length cs"
      using finite below by (intro Max_eqI) (auto intro: less_imp_le)
    ultimately show ?thesis using True by (auto simp: scan_snoc cuttable_snoc)
  next
    case False
    then have "cuttable (cs @ [c]) i \<longleftrightarrow> cuttable cs i" for i
      using below by (auto simp: cuttable_snoc)
    with False snoc show ?thesis by (auto simp: scan_snoc)
  qed
qed (simp add: cuttable_def)

lemma rstrip_prefix: "\<exists>k. rstrip_of P m = take k m"
  by (metis append_eq_conv_conj rev_append rev_rev_ident rstrip_of_def takeWhile_dropWhile_id)

lemma rstrip_count:
  assumes "\<not> P c"
  shows "count_list (rstrip_of P m) c = count_list m c"
proof -
  have "count_list (dropWhile P xs) c = count_list xs c" for xs using assms by (induction xs) auto
  then show ?thesis by (simp add: rstrip_of_def)
qed

lemma cuttable_balanced: "cuttable m i \<Longrightarrow> count_list (take i m) 91 = count_list (take i m) 93"
  by (simp add: cuttable_def)

section \<open>The line fits\<close>

lemma points_length [simp]: "length (points s) = length s"
  by (simp add: points_def)

lemma join_length:
  "int (length (join_messages sep (ms @ [m]))) = int (length m)
     + (if ms = [] then 0 else int (length (join_messages sep ms)) + int (length sep))"
proof (induction ms rule: induct_list012)
  case (3 x y zs)
  then show ?case by (cases zs) simp_all
qed simp_all

lemma grow_length:
  assumes "growth_cost c = Some cost" and "cl_named c > 0"
  shows "int (length (clause_render (clause_grow c))) = int (length (clause_render c)) + cost"
proof -
  have less: "cl_named c < length (cl_prerequisites c)"
    using growth_cost_remaining [OF assms(1)] by (simp add: clause_remaining_def)
  have elision: "clause_elision (clause_grow c) k = clause_elision c k" for k
    by (simp add: clause_elision_def clause_grow_def)
  have "take (Suc (cl_named c)) (cl_prerequisites c)
      = take (cl_named c) (cl_prerequisites c) @ [cl_prerequisites c ! cl_named c]"
    using less by (rule take_Suc_conv_app_nth)
  moreover have "take (cl_named c) (cl_prerequisites c) \<noteq> []" using assms(2) less by auto
  moreover have "cost = int (length PREREQUISITE_SEPARATOR) + int (length (cl_prerequisites c ! cl_named c))
      + int (length (clause_elision c (clause_remaining c - 1))) - int (length (clause_elision c (clause_remaining c)))"
    using assms(1) by (auto simp: growth_cost_def Let_def split: if_splits)
  ultimately show ?thesis
    by (simp add: clause_render_def grow_remaining elision) (simp add: clause_grow_def join_length)
qed

text \<open>The width of some clauses and their separators, and what growth and admission do to it.\<close>

definition width :: "Clause list \<Rightarrow> int" where
  "width cs = int (length (join_messages CHILD_SEPARATOR (map clause_render cs)))"

lemma width_simps [simp]:
  "width [] = 0" "width [c] = int (length (clause_render c))"
  "width (c # d # cs) = int (length (clause_render c)) + int (length CHILD_SEPARATOR) + width (d # cs)"
  by (simp_all add: width_def)

lemma width_Cons:
  "width (c # cs) = int (length (clause_render c)) + (if cs = [] then 0 else int (length CHILD_SEPARATOR) + width cs)"
  by (cases cs) simp_all

lemma width_snoc:
  "width (cs @ [c]) = int (length (clause_render c)) + (if cs = [] then 0 else width cs + int (length CHILD_SEPARATOR))"
  by (simp add: width_def join_length)

lemma grow_round_width:
  assumes "grow_round cs budget = (cs', budget', spent)" and "\<forall>c \<in> set cs. cl_named c > 0" and "0 \<le> budget"
  shows "width cs' + budget' = width cs + budget \<and> length cs' = length cs
    \<and> (\<forall>c \<in> set cs'. cl_named c > 0) \<and> 0 \<le> budget'"
  using assms
proof (induction cs arbitrary: budget cs' budget' spent)
  case (Cons c cs)
  show ?case
  proof (cases "\<exists>cost. growth_cost c = Some cost \<and> cost \<le> budget")
    case True
    then obtain cost where cost: "growth_cost c = Some cost" "cost \<le> budget" by blast
    obtain ds b n where rest: "grow_round cs (budget - cost) = (ds, b, n)" by (metis prod_cases3)
    with Cons.IH [OF rest] Cons.prems cost
    have ds: "width ds + b = width cs + (budget - cost)" "length ds = length cs" "\<forall>c \<in> set ds. cl_named c > 0" "0 \<le> b"
      by simp_all
    moreover have "cs' = clause_grow c # ds" "budget' = b" using Cons.prems(1) cost rest by simp_all
    moreover have "ds = [] \<longleftrightarrow> cs = []" using ds(2) by (metis length_0_conv)
    ultimately show ?thesis
      using grow_length [OF cost(1)] Cons.prems(2) by (cases "cs = []") (simp_all add: width_Cons clause_grow_def)
  next
    case False
    obtain ds b n where rest: "grow_round cs budget = (ds, b, n)" by (metis prod_cases3)
    with Cons.IH [OF rest] Cons.prems
    have ds: "width ds + b = width cs + budget" "length ds = length cs" "\<forall>c \<in> set ds. cl_named c > 0" "0 \<le> b"
      by simp_all
    moreover have "cs' = c # ds" "budget' = b" using Cons.prems(1) False rest by (auto split: option.splits if_splits)
    moreover have "ds = [] \<longleftrightarrow> cs = []" using ds(2) by (metis length_0_conv)
    ultimately show ?thesis using Cons.prems(2) by (cases "cs = []") (simp_all add: width_Cons)
  qed
qed simp

lemma grow_width:
  assumes "grow cs budget = (cs', budget')" and "\<forall>c \<in> set cs. cl_named c > 0" and "0 \<le> budget"
  shows "width cs' + budget' = width cs + budget \<and> length cs' = length cs \<and> 0 \<le> budget'"
  using assms
proof (induction cs budget rule: grow.induct)
  case (1 cs budget)
  obtain ds b n where round: "grow_round cs budget = (ds, b, n)" by (metis prod_cases3)
  note kept = grow_round_width [OF round 1(3,4)]
  show ?case
  proof (cases "n = 0")
    case True
    with 1(2) round kept show ?thesis by (simp add: grow.simps [of cs budget])
  next
    case False
    with 1(2) round have "grow ds b = (cs', budget')" by (simp add: grow.simps [of cs budget])
    with 1(1) [OF round [symmetric] refl False] kept show ?thesis by simp
  qed
qed

lemma clause_for_length:
  assumes "clause_for slugs child = Some c"
  shows "int (length (clause_render c)) = minimum_cost c \<and> cl_named c = 1"
proof -
  let ?ps = "map (prerequisite_clause slugs) (sort_key (unmet_key slugs) (hc_unmet child))"
  have "?ps \<noteq> []" and c: "cl_named c = 1" "cl_prerequisites c = ?ps"
    using assms by (auto simp: clause_for_def split: if_splits) (metis length_0_conv length_sort)
  then obtain p ps where "?ps = p # ps" by (cases ?ps) auto
  with c show ?thesis by (simp add: clause_render_def minimum_cost_def clause_remaining_def)
qed

lemma admit_width:
  assumes "admit slugs children budget cs = (cs', budget')" and "\<forall>c \<in> set cs. cl_named c > 0"
    and "cs \<noteq> [] \<longrightarrow> 0 \<le> budget"
  shows "width cs' + budget' = width cs + budget \<and> length cs' \<le> length cs + length children
    \<and> (\<forall>c \<in> set cs'. cl_named c > 0) \<and> (cs' \<noteq> [] \<longrightarrow> 0 \<le> budget')"
  using assms
proof (induction slugs children budget cs rule: admit.induct)
  case (2 slugs child children budget cs)
  show ?case
  proof (cases "clause_for slugs child")
    case None
    with 2 show ?thesis by auto
  next
    case (Some c)
    let ?cost = "minimum_cost c + (if cs = [] then 0 else int (length CHILD_SEPARATOR))"
    note c = clause_for_length [OF Some]
    show ?thesis
    proof (cases "?cost > budget")
      case True
      with 2 Some show ?thesis by auto
    next
      case False
      with "2.prems"(1) Some have "admit slugs children (budget - ?cost) (cs @ [c]) = (cs', budget')" by (simp add: Let_def)
      with "2.IH" [OF Some refl False] "2.prems"(2) c False
      show ?thesis by (auto simp: width_snoc)
    qed
  qed
qed auto

lemma digits_length: "n < 10 ^ k \<Longrightarrow> 0 < k \<Longrightarrow> length (digits_of n) \<le> k"
proof (induction n arbitrary: k rule: digits_of.induct)
  case (1 n)
  show ?case
  proof (cases "n < 10")
    case True
    with "1.prems"(2) show ?thesis by (simp add: digits_of.simps [of n])
  next
    case False
    then obtain j where k: "k = Suc j" "0 < j" using "1.prems" by (cases k; cases "k - 1") auto
    with "1.prems"(1) have "n div 10 < 10 ^ j" by (simp add: less_mult_imp_div_less mult.commute)
    from "1.IH" [OF False this k(2)] False k show ?thesis by (simp add: digits_of.simps [of n])
  qed
qed

lemma digits_length_mono: "m \<le> n \<Longrightarrow> length (digits_of m) \<le> length (digits_of n)"
proof (induction n arbitrary: m rule: digits_of.induct)
  case (1 n)
  show ?case
  proof (cases "n < 10")
    case True
    with "1.prems" show ?thesis by (simp add: digits_of.simps [of n] digits_of.simps [of m])
  next
    case False
    with "1.IH" [OF False, of "m div 10"] "1.prems"
    show ?thesis by (simp add: digits_of.simps [of n] digits_of.simps [of m] div_le_mono)
  qed
qed

section \<open>Properties\<close>

text \<open>Every stored orchestration message fits its column: the cut never leaves more than
  \<open>ERROR_MESSAGE_LIMIT\<close> characters, a message that is cut keeps its beginning and says at its end
  that it was cut, and it is cut outside every bracket if there is a place to.
\<close>

theorem stored_message_fits:
  "length (truncate_for_storage m) \<le> ERROR_MESSAGE_LIMIT
   \<and> (if length m \<le> ERROR_MESSAGE_LIMIT then truncate_for_storage m = m
      else \<exists>k. truncate_for_storage m = take k m @ CUT_MARKER
             \<and> ((\<exists>i. cuttable (take (ERROR_MESSAGE_LIMIT - length CUT_MARKER) m) i)
                 \<longrightarrow> count_list (take k m) 91 = count_list (take k m) 93))"
proof (cases "length m \<le> ERROR_MESSAGE_LIMIT")
  case False
  let ?keep = "ERROR_MESSAGE_LIMIT - length CUT_MARKER"
  let ?cut = "case last_separator_outside_brackets m ?keep of None \<Rightarrow> ?keep | Some i \<Rightarrow> i"
  let ?able = "{i. cuttable (take ?keep m) i}"
  have below: "cuttable (take ?keep m) i \<Longrightarrow> i < ?keep" for i by (simp add: cuttable_def)
  have finite: "finite ?able"
    by (rule finite_subset [of _ "{..<?keep}"]) (auto simp: cuttable_def)
  have cut: "?cut \<le> ?keep"
    using below finite unfolding last_separator_outside_brackets_def scan_last
    by (auto intro!: Max.boundedI less_imp_le)
  have balanced: "count_list (take ?cut m) 91 = count_list (take ?cut m) 93" if "cuttable (take ?keep m) i" for i
  proof -
    have "Max ?able \<in> ?able" using that finite by (intro Max_in) auto
    then have able: "cuttable (take ?keep m) (Max ?able)" by simp
    have "?cut = Max ?able"
      using that unfolding last_separator_outside_brackets_def scan_last by auto
    with cuttable_balanced [OF able] below [OF able] show ?thesis by (simp add: min_def)
  qed
  let ?h = "rstrip_of point_is_space (rstrip_of ends_clause (rstrip_of point_is_space (take ?cut m)))"
  have t: "truncate_for_storage m = ?h @ CUT_MARKER"
    using False by (simp add: truncate_for_storage_def Let_def split: option.split)
  obtain a b c where "?h = take c (take b (take a (take ?cut m)))" by (metis rstrip_prefix)
  then have h: "?h = take (min c (min b (min a ?cut))) m" by (simp add: min.assoc)
  have "length (take (min c (min b (min a ?cut))) m) \<le> ?keep"
    using cut unfolding length_take by (meson min.cobounded2 order_trans)
  then have "length (?h @ CUT_MARKER) \<le> ERROR_MESSAGE_LIMIT"
    unfolding h by (simp add: ERROR_MESSAGE_LIMIT_def CUT_MARKER_def)
  moreover have "count_list ?h x = count_list (take ?cut m) x" if "x = 91 \<or> x = 93" for x
    using that by (subst rstrip_count rstrip_count rstrip_count, (auto simp: point_is_space_def ends_clause_def)[1])+ simp
  ultimately show ?thesis using False t h balanced by (metis (no_types, lifting))
qed (simp add: truncate_for_storage_def)

definition long_message :: message where "long_message = 32 # replicate 2000 97"

theorem stored_message_fits_witness:
  "length (truncate_for_storage long_message) \<le> ERROR_MESSAGE_LIMIT
    \<and> (\<exists>k. truncate_for_storage long_message = take k long_message @ CUT_MARKER
         \<and> count_list (take k long_message) 91 = count_list (take k long_message) 93)"
proof -
  have "ERROR_MESSAGE_LIMIT - length CUT_MARKER > 0" by (simp add: ERROR_MESSAGE_LIMIT_def CUT_MARKER_def)
  then have "cuttable (take (ERROR_MESSAGE_LIMIT - length CUT_MARKER) long_message) 0"
    unfolding long_message_def cuttable_def
    by (cases "ERROR_MESSAGE_LIMIT - length CUT_MARKER") (simp_all add: point_is_space_def)
  moreover have "\<not> length long_message \<le> ERROR_MESSAGE_LIMIT"
    unfolding long_message_def ERROR_MESSAGE_LIMIT_def by (simp)
  ultimately show ?thesis using stored_message_fits [of long_message] by auto
qed

text \<open>C12: The hold line is composed within its column, so the cut never touches it: for fewer than
  10 to the 100 held children, what is stored is the line itself.
\<close>

theorem hold_line_is_never_cut:
  assumes "length held < 10 ^ 100"
  shows "truncate_for_storage (render_hold_line b held) = render_hold_line b held"
proof (cases "held = []")
  case False
  let ?n = "length held" and ?slugs = "workspace_slugs b (take WAITING_NAMES held)"
  let ?room = "int ERROR_MESSAGE_LIMIT - int (length (hold_prefix ?n))"
  let ?budget = "if ?n > 1 then ?room - int (length (CHILD_SEPARATOR @ more_children (?n - 1))) else ?room"
  obtain cs b1 where a: "admit ?slugs (take WAITING_NAMES held) ?budget [] = (cs, b1)" by fastforce
  obtain ds b2 where g: "grow cs b1 = (ds, b2)" by fastforce
  have cs: "width cs + b1 = ?budget" "length cs \<le> ?n" "\<forall>c \<in> set cs. cl_named c > 0" "cs \<noteq> [] \<longrightarrow> 0 \<le> b1"
    using admit_width [OF a] by auto
  let ?elided = "?n - length ds"
  let ?parts = "map clause_render ds @ (if ?elided > 0 then [more_children ?elided] else [])"
  have line: "render_hold_line b held = hold_prefix ?n @ join_messages CHILD_SEPARATOR ?parts"
    using False a g by (simp add: render_hold_line_def Let_def)
  have digits: "length (digits_of ?n) \<le> 100" by (rule digits_length [OF assms]) simp
  have "int (length (join_messages CHILD_SEPARATOR ?parts)) \<le> ?room"
  proof (cases "cs = []")
    case True
    with g have "ds = []" by (simp add: grow.simps [of "[]"])
    with digits False show ?thesis
      by (simp add: more_children_def hold_prefix_def ERROR_MESSAGE_LIMIT_def)
  next
    case some: False
    with cs(4) have "0 \<le> b1" by simp
    from grow_width [OF g cs(3) this] cs(1) have ds: "width ds \<le> ?budget" "length ds = length cs" by linarith+
    show ?thesis
    proof (cases "?elided > 0")
      case elided: True
      have "length (digits_of ?elided) \<le> length (digits_of (?n - 1))"
        using some ds(2) by (intro digits_length_mono) (cases cs, auto)
      moreover have "?n > 1" using some ds(2) elided by (cases cs) auto
      moreover have "int (length (join_messages CHILD_SEPARATOR ?parts))
          = int (length (more_children ?elided)) + (width ds + int (length CHILD_SEPARATOR))"
        using elided some ds(2) by (auto simp: join_length width_def)
      ultimately show ?thesis using ds(1) by (simp add: more_children_def)
    next
      case False
      with ds(1) show ?thesis by (simp add: width_def split: if_splits)
    qed
  qed
  then show ?thesis by (simp add: truncate_for_storage_def line)
qed (simp add: render_hold_line_def truncate_for_storage_def)

definition sample_held :: HeldChild where
  "sample_held = \<lparr>hc_ticket = new_ticket ''A'',
     hc_unmet = [\<lparr>up_ticket = new_ticket ''B'', up_reason = NOT_DONE, up_target = []\<rparr>]\<rparr>"

theorem hold_line_is_never_cut_witness:
  "render_hold_line empty_board (replicate 7 sample_held) \<noteq> []
   \<and> truncate_for_storage (render_hold_line empty_board (replicate 7 sample_held))
       = render_hold_line empty_board (replicate 7 sample_held)"
proof
  show "render_hold_line empty_board (replicate 7 sample_held) \<noteq> []"
    by (simp add: render_hold_line_def hold_prefix_def points_def Let_def split: prod.split)
  have "length (replicate 7 sample_held) < 10 ^ 100" by simp
  then show "truncate_for_storage (render_hold_line empty_board (replicate 7 sample_held))
       = render_hold_line empty_board (replicate 7 sample_held)"
    by (rule hold_line_is_never_cut)
qed

end
