(* ===== verification/DependencyHold.thy ===== *)
theory DependencyHold
  imports HoldLine Dependencies
begin

text \<open>
  May a ticket start? \<open>services/dependency_readiness.py\<close> judges its prerequisites by whether their
  work is reachable, \<open>services/dependency_hold.py\<close> lets a person start it past them. What git
  answers is a parameter: the branch of a ticket, the branch a dependent builds on, the commit of a
  reference (empty when there is none), and whether a reference holds what a branch adds. The
  overrides of a ticket are its events of that decision, latest first; the times of its edges are
  the creation times of its rows.
\<close>

section \<open>Surroundings\<close>

record PrerequisiteOverride =
  po_prerequisites :: "string list"
  po_created_at :: int

record Readiness =
  rd_branch :: "Ticket \<Rightarrow> string"
  rd_target :: "Ticket \<Rightarrow> Workspace \<Rightarrow> string"
  rd_base :: "Workspace \<Rightarrow> string"
  rd_rev :: "Workspace \<Rightarrow> string \<Rightarrow> string"
  rd_holds :: "Workspace \<Rightarrow> string \<Rightarrow> string \<Rightarrow> bool"
  rd_overrides :: "string \<Rightarrow> PrerequisiteOverride list"
  rd_edges :: "string \<Rightarrow> (string, int) dict"

section \<open>Readiness\<close>

definition work_is_reachable :: "Readiness \<Rightarrow> Workspace \<Rightarrow> Ticket \<Rightarrow> string \<Rightarrow> bool option" where
  "work_is_reachable rd ws prerequisite target =
     (let branch_tip = rd_rev rd ws (''refs/heads/'' @ rd_branch rd prerequisite) in
      if branch_tip = [] then None
      else Some (list_ex (\<lambda>ref. rd_holds rd ws branch_tip (rd_rev rd ws (''refs/heads/'' @ ref)))
                   [target, rd_base rd ws]))"

definition unmet_at_start :: "Readiness \<Rightarrow> Workspace \<Rightarrow> Ticket \<Rightarrow> string \<Rightarrow> Ticket \<Rightarrow> UnmetPrerequisite list" where
  "unmet_at_start rd ws ticket target prerequisite =
     (if tk_state prerequisite \<notin> set SATISFIED_STATES
      then [\<lparr>up_ticket = prerequisite, up_reason = NOT_DONE, up_target = []\<rparr>]
      else if tk_state prerequisite = TicketState.WONT_DO then []
      else if tk_workspace_id prerequisite \<noteq> tk_workspace_id ticket then []
      else if work_is_reachable rd ws prerequisite target = Some False
      then [\<lparr>up_ticket = prerequisite, up_reason = NOT_LANDED, up_target = target\<rparr>]
      else [])"

definition unmet_prerequisites_for_start ::
    "Readiness \<Rightarrow> Board \<Rightarrow> Ticket \<Rightarrow> Workspace \<Rightarrow> UnmetPrerequisite list" where
  "unmet_prerequisites_for_start rd b ticket ws =
     (let prerequisite_ids = prerequisites b (tk_id ticket) in
      if prerequisite_ids = [] then []
      else (let rows = filter (\<lambda>row. tk_id row \<in> set prerequisite_ids) (bd_tickets b)
            in concat (map (unmet_at_start rd ws ticket (rd_target rd ticket ws)) rows)))"

definition unmet_for :: "Readiness \<Rightarrow> Board \<Rightarrow> Ticket \<Rightarrow> Workspace option \<Rightarrow> UnmetPrerequisite list" where
  "unmet_for rd b child workspace =
     (case workspace of
        Some ws \<Rightarrow> unmet_prerequisites_for_start rd b child ws
      | None \<Rightarrow> map (\<lambda>prereq. \<lparr>up_ticket = prereq, up_reason = NOT_DONE, up_target = []\<rparr>)
                  (unmet_prerequisites b (tk_id child)))"

section \<open>The hold\<close>

definition unmet_prerequisites_of :: "Readiness \<Rightarrow> Board \<Rightarrow> Ticket \<Rightarrow> UnmetPrerequisite list" where
  "unmet_prerequisites_of rd b ticket =
     (case (case tk_workspace_id ticket of None \<Rightarrow> None | Some i \<Rightarrow> get_workspace b i) of
        Some ws \<Rightarrow> unmet_prerequisites_for_start rd b ticket ws
      | None \<Rightarrow> map (\<lambda>prereq. \<lparr>up_ticket = prereq, up_reason = NOT_DONE, up_target = []\<rparr>)
                  (unmet_prerequisites b (tk_id ticket)))"

text \<open>Every override counts; an empty identifier names nothing.\<close>

definition overridden_ids :: "Readiness \<Rightarrow> string \<Rightarrow> string list" where
  "overridden_ids rd ticket_id = filter (\<lambda>i. i \<noteq> []) (concat (map po_prerequisites (rd_overrides rd ticket_id)))"

definition holding_prerequisites :: "Readiness \<Rightarrow> Board \<Rightarrow> Ticket \<Rightarrow> UnmetPrerequisite list" where
  "holding_prerequisites rd b ticket =
     (let unmet = unmet_prerequisites_of rd b ticket in
      if unmet = [] then []
      else (case rd_overrides rd (tk_id ticket) of
              [] \<Rightarrow> unmet
            | latest # _ \<Rightarrow>
                (let overridden = overridden_ids rd (tk_id ticket);
                     latest_override = po_created_at latest;
                     edges = rd_edges rd (tk_id ticket)
                 in filter (\<lambda>entry. tk_id (up_ticket entry) \<notin> set overridden
                      \<or> dict_get edges (tk_id (up_ticket entry)) latest_override > latest_override) unmet)))"

definition NAMED_PREREQUISITES :: nat where "NAMED_PREREQUISITES = 3"

definition spaced :: "string \<Rightarrow> string" where
  "spaced s = map (\<lambda>c. if c = char_of (95::nat) then char_of (32::nat) else c) s"

definition describe_unmet :: "UnmetPrerequisite \<Rightarrow> string" where
  "describe_unmet entry =
     (if up_reason entry = NOT_LANDED
      then tk_external_id (up_ticket entry) @ '' (done, not landed''
           @ (if up_target entry \<noteq> [] then '' on '' @ up_target entry else []) @ '')''
      else tk_external_id (up_ticket entry) @ '' ('' @ spaced (ticket_state_value (tk_state (up_ticket entry))) @ '')'')"

definition hold_reason :: "Ticket \<Rightarrow> UnmetPrerequisite list \<Rightarrow> string" where
  "hold_reason ticket unmet =
     (let shown = join '', '' (map describe_unmet (take NAMED_PREREQUISITES unmet));
          more = (if length unmet > NAMED_PREREQUISITES
                  then '' and '' @ digits_of (length unmet - NAMED_PREREQUISITES) @ '' more'' else [])
      in ''Held '' @ tk_external_id ticket @ '': it waits on '' @ shown @ more
         @ ''. It starts when they are done and landed.'')"

text \<open>An override is recorded when something holds the ticket, and names what did.\<close>

definition override_prerequisites ::
    "int \<Rightarrow> Readiness \<Rightarrow> Board \<Rightarrow> Ticket \<Rightarrow> Readiness \<times> UnmetPrerequisite list" where
  "override_prerequisites now rd b ticket =
     (let unmet = holding_prerequisites rd b ticket in
      if unmet = [] then (rd, [])
      else (rd\<lparr>rd_overrides := (rd_overrides rd)(tk_id ticket :=
              \<lparr>po_prerequisites = map (\<lambda>e. tk_id (up_ticket e)) unmet, po_created_at = now\<rparr>
              # rd_overrides rd (tk_id ticket))\<rparr>, unmet))"

text \<open>A start asked for by name: what it raises, and the overrides it leaves.\<close>

definition admit_named_start :: "int \<Rightarrow> Readiness \<Rightarrow> Board \<Rightarrow> Ticket \<Rightarrow> bool \<Rightarrow> Readiness \<times> unit result" where
  "admit_named_start now rd b ticket ignore_prerequisites =
     (if ignore_prerequisites then (fst (override_prerequisites now rd b ticket), Inr ())
      else (let unmet = holding_prerequisites rd b ticket in
            if unmet = [] then (rd, Inr ()) else (rd, Inl (ValueError (hold_reason ticket unmet)))))"

section \<open>Properties\<close>

lemma holding_unmet: "set (holding_prerequisites rd b t) \<subseteq> set (unmet_prerequisites_of rd b t)"
  by (auto simp: holding_prerequisites_def Let_def split: list.splits if_splits)

lemma unmet_of_overridden [simp]:
  "unmet_prerequisites_of (rd\<lparr>rd_overrides := f\<rparr>) b t = unmet_prerequisites_of rd b t"
proof -
  have "unmet_at_start (rd\<lparr>rd_overrides := f\<rparr>) = unmet_at_start rd"
    by (simp add: fun_eq_iff unmet_at_start_def work_is_reachable_def Let_def)
  then show ?thesis
    by (simp add: unmet_prerequisites_of_def unmet_prerequisites_for_start_def Let_def cong: if_cong option.case_cong)
qed

text \<open>C27: An override lifts the hold and nothing more: after it, what still holds the ticket are exactly
  the unmet prerequisites whose edge is younger than the override.
\<close>

theorem override_lifts_hold:
  assumes "override_prerequisites now rd b t = (rd', unmet)"
    and "\<forall>e \<in> set (unmet_prerequisites_of rd b t). tk_id (up_ticket e) \<noteq> []"
  shows "unmet = holding_prerequisites rd b t
    \<and> (unmet = [] \<or> holding_prerequisites rd' b t =
         filter (\<lambda>e. dict_get (rd_edges rd (tk_id t)) (tk_id (up_ticket e)) now > now) (unmet_prerequisites_of rd b t))"
proof -
  let ?unmet = "unmet_prerequisites_of rd b t" and ?edges = "rd_edges rd (tk_id t)"
  have held: "unmet = holding_prerequisites rd b t"
    using assms(1) by (auto simp: override_prerequisites_def Let_def split: if_splits)
  show ?thesis
  proof (cases "unmet = []")
    case False
    then have rd': "rd' = rd\<lparr>rd_overrides := (rd_overrides rd)(tk_id t :=
        \<lparr>po_prerequisites = map (\<lambda>e. tk_id (up_ticket e)) unmet, po_created_at = now\<rparr> # rd_overrides rd (tk_id t))\<rparr>"
      using assms(1) held by (auto simp: override_prerequisites_def Let_def)
    have some: "?unmet \<noteq> []" using False held by (auto simp: holding_prerequisites_def)
    let ?ids = "overridden_ids rd' (tk_id t)"
    have ids: "set ?ids = (\<lambda>e. tk_id (up_ticket e)) ` set unmet \<union> set (overridden_ids rd (tk_id t)) - {[]}"
      by (auto simp: overridden_ids_def rd')
    have "(tk_id (up_ticket e) \<notin> set ?ids \<or> dict_get ?edges (tk_id (up_ticket e)) now > now)
        \<longleftrightarrow> dict_get ?edges (tk_id (up_ticket e)) now > now" if e: "e \<in> set ?unmet" for e
    proof -
      have "tk_id (up_ticket e) \<in> set ?ids \<or> dict_get ?edges (tk_id (up_ticket e)) now > now"
      proof (cases "e \<in> set unmet")
        case True
        then show ?thesis using ids assms(2) e by auto
      next
        case False
        with e held obtain latest rest where o': "rd_overrides rd (tk_id t) = latest # rest"
          by (auto simp: holding_prerequisites_def Let_def split: if_splits list.splits)
        with False e held have "tk_id (up_ticket e) \<in> set (overridden_ids rd (tk_id t))"
          by (auto simp: holding_prerequisites_def Let_def split: if_splits)
        then show ?thesis using ids assms(2) e by auto
      qed
      then show ?thesis by blast
    qed
    then have "holding_prerequisites rd' b t = filter (\<lambda>e. dict_get ?edges (tk_id (up_ticket e)) now > now) ?unmet"
      using some by (simp add: holding_prerequisites_def Let_def rd' cong: filter_cong)
    with held show ?thesis by blast
  qed (use held in simp)
qed

text \<open>A ticket that waits on two others, and a person who starts it past both.\<close>

definition waiting_board :: Board where
  "waiting_board = empty_board\<lparr>bd_tickets := [new_ticket ''A'', new_ticket ''B'', new_ticket ''C''],
     bd_dependencies := [\<lparr>td_id = ''d1'', td_ticket_id = ''A'', td_depends_on_ticket_id = ''B'', td_created_by = []\<rparr>,
       \<lparr>td_id = ''d2'', td_ticket_id = ''A'', td_depends_on_ticket_id = ''C'', td_created_by = []\<rparr>]\<rparr>"

definition no_git :: Readiness where
  "no_git = \<lparr>rd_branch = (\<lambda>_. []), rd_target = (\<lambda>_ _. []), rd_base = (\<lambda>_. []), rd_rev = (\<lambda>_ _. []),
     rd_holds = (\<lambda>_ _ _. False), rd_overrides = (\<lambda>_. []), rd_edges = (\<lambda>_. [(''B'', 1), (''C'', 9)])\<rparr>"

theorem override_lifts_hold_witness:
  "map (\<lambda>e. tk_id (up_ticket e)) (snd (override_prerequisites 5 no_git waiting_board (new_ticket ''A''))) = [''B'', ''C'']
   \<and> map (\<lambda>e. tk_id (up_ticket e))
       (holding_prerequisites (fst (override_prerequisites 5 no_git waiting_board (new_ticket ''A''))) waiting_board (new_ticket ''A''))
     = [''C'']"
proof -
  obtain rd' unmet where o': "override_prerequisites 5 no_git waiting_board (new_ticket ''A'') = (rd', unmet)" by fastforce
  have unmet: "map (\<lambda>e. tk_id (up_ticket e)) (snd (override_prerequisites 5 no_git waiting_board (new_ticket ''A'')))
      = [''B'', ''C'']"
    by code_simp
  have named: "\<forall>e \<in> set (unmet_prerequisites_of no_git waiting_board (new_ticket ''A'')). tk_id (up_ticket e) \<noteq> []"
    by code_simp
  have left: "map (\<lambda>e. tk_id (up_ticket e)) (filter (\<lambda>e. dict_get (rd_edges no_git (tk_id (new_ticket ''A'')))
      (tk_id (up_ticket e)) 5 > 5) (unmet_prerequisites_of no_git waiting_board (new_ticket ''A''))) = [''C'']"
    by code_simp
  from override_lifts_hold [OF o' named] unmet left o' show ?thesis by auto
qed

end
