(* ===== verification/StartRun.thy ===== *)
theory StartRun
  imports QueueRepair StudioRouting DependencyHold
begin

text \<open>
  \<open>OrchestrationService.start_run\<close> of \<open>services/orchestration.py\<close>, the one place an agent run is
  opened, with what it settles first: the target stage, the guards of \<open>services/dispatch_guard.py\<close>
  and \<open>services/dependency_hold.py\<close>, the retry budget (\<open>RetryBudget\<close>) and the agent
  (\<open>services/stage_dispatch_prep.py\<close>). The state is the whole \<open>Queue\<close>, since the run joins the
  ledger and the ticket's row, its instance and the event log are rewritten on the way.
\<close>

section \<open>Surroundings\<close>

text \<open>
  Beyond what the lanes ask: the machine's processes; the template and stages a workspace's
  files and a ticket's pinned version resolve to; what \<open>DependencyHold\<close> asks of git and of the
  recorded overrides; the agents the studio defines, each with its version;
  the ISO text of the clock; the profile of a ticket's workspace; the random code of a new
  orchestration; and what handing one to its thread raises.
\<close>

record StartEnv = LaneEnv +
  se_machine :: Machine
  se_template :: "Workspace \<Rightarrow> WorkflowInstance option \<Rightarrow> (string \<times> int) option \<times> WorkflowStageDef list"
  se_readiness :: Readiness
  se_studio :: "(string \<times> int) list"
  se_isoformat :: string
  se_profile :: "Ticket \<Rightarrow> (OrchestrationDriver \<times> string) result"
  se_orch_code :: string
  se_schedule_refusal :: "Ticket \<Rightarrow> string option"

text \<open>The row of a ticket as it is now.\<close>

definition row_of :: "Queue \<Rightarrow> Ticket \<Rightarrow> Ticket" where
  "row_of q ticket = (case get_ticket (qu_board q) (tk_id ticket) of Some t \<Rightarrow> t | None \<Rightarrow> ticket)"

definition save_ticket :: "Ticket \<Rightarrow> Queue \<Rightarrow> Queue" where
  "save_ticket ticket q = q\<lparr>qu_board := put_ticket ticket (qu_board q)\<rparr>"

definition publish :: "EventType \<Rightarrow> Ticket \<Rightarrow> (string \<times> string) list \<Rightarrow> Queue \<Rightarrow> Queue" where
  "publish event ticket payload q = q\<lparr>qu_board := (qu_board q)\<lparr>bd_events :=
     event_add (bd_events (qu_board q)) event (tk_workspace_id ticket) (tk_id ticket) payload\<rparr>\<rparr>"

definition workspace_for_ticket :: "Queue \<Rightarrow> Ticket \<Rightarrow> Workspace option" where
  "workspace_for_ticket q ticket =
     (case tk_workspace_id ticket of None \<Rightarrow> None | Some i \<Rightarrow> get_workspace (qu_board q) i)"

definition resolve_ticket_stages ::
    "StartEnv \<Rightarrow> Queue \<Rightarrow> Ticket \<Rightarrow> (string \<times> int) option \<times> WorkflowStageDef list" where
  "resolve_ticket_stages env q ticket =
     (if tk_workflow_disabled ticket then (None, [])
      else (case workspace_for_ticket q ticket of
              None \<Rightarrow> (None, [])
            | Some ws \<Rightarrow> se_template env ws (get_instance q (tk_id ticket))))"

section \<open>The workflow instance\<close>

definition WORKFLOW_WORK_ITEM_TYPES :: "WorkItemType list" where
  "WORKFLOW_WORK_ITEM_TYPES = [MILESTONE, FEATURE, CAPABILITY, TASK, BUG]"

definition owns_state :: "Queue \<Rightarrow> Ticket \<Rightarrow> bool" where
  "owns_state q ticket \<longleftrightarrow> children_of (qu_board q) (tk_id ticket) = []"

definition put_instance :: "string \<Rightarrow> WorkflowInstance \<Rightarrow> Queue \<Rightarrow> Queue" where
  "put_instance ticket_id instance q = q\<lparr>qu_instances := dict_set ticket_id instance (qu_instances q)\<rparr>"

text \<open>\<open>min(stages, key=order)\<close>: the first of the least order.\<close>

definition first_stage :: "WorkflowStageDef list \<Rightarrow> string" where
  "first_stage stages = sd_key (hd (sort_key sd_order stages))"

definition reconcile_workflow ::
    "StartEnv \<Rightarrow> Queue \<Rightarrow> Ticket \<Rightarrow> WorkflowInstance \<Rightarrow> WorkflowStageDef list \<Rightarrow> unit outcome" where
  "reconcile_workflow env q ticket instance stages =
     (case reconcile_workflow_state (le_now env) (workflow_of q ticket instance) stages (owns_state q ticket) of
        Inl e \<Rightarrow> (q, Inl e)
      | Inr (w, _) \<Rightarrow> (save_workflow w (put_instance (tk_id ticket) instance q), Inr ()))"

text \<open>The template to attach, asked of the ticket and then of its workspace.\<close>

definition template_to_attach ::
    "StartEnv \<Rightarrow> Queue \<Rightarrow> Ticket \<Rightarrow> ((string \<times> int) \<times> WorkflowStageDef list) option" where
  "template_to_attach env q ticket =
     (case workspace_for_ticket q ticket of
        None \<Rightarrow> None
      | Some ws \<Rightarrow>
          (let usable = (\<lambda>(template, stages). case template of
                 None \<Rightarrow> None | Some t \<Rightarrow> if stages = [] then None else Some (t, stages))
           in case usable (resolve_ticket_stages env q ticket) of
                Some found \<Rightarrow> Some found
              | None \<Rightarrow> usable (se_template env ws None)))"

definition ensure_workflow_instance :: "StartEnv \<Rightarrow> Queue \<Rightarrow> Ticket \<Rightarrow> unit outcome" where
  "ensure_workflow_instance env q ticket =
     (if tk_work_item_type ticket \<notin> set WORKFLOW_WORK_ITEM_TYPES \<or> tk_workflow_disabled ticket
      then (q, Inr ())
      else (case template_to_attach env q ticket of
              None \<Rightarrow> (q, Inr ())
            | Some ((template_id, version), stages) \<Rightarrow>
                (case get_instance q (tk_id ticket) of
                   None \<Rightarrow>
                     (let ticket = (if tk_workflow_stage_key ticket \<noteq> [] then ticket
                            else ticket\<lparr>tk_workflow_stage_key := first_stage stages,
                                        tk_workflow_stage_status := StageStatus.PENDING\<rparr>);
                          instance = \<lparr>wi_template_id = template_id, wi_template_version = Some version,
                            wi_current_stage_key = tk_workflow_stage_key ticket,
                            wi_stages_json = initial_stages_json stages, wi_updated_at = le_now env\<rparr>
                      in reconcile_workflow env (save_ticket ticket q) ticket instance stages)
                 | Some instance \<Rightarrow>
                     if wi_template_id instance \<noteq> template_id
                     then reconcile_workflow env q ticket (instance\<lparr>wi_template_id := template_id,
                            wi_template_version := Some version\<rparr>) stages
                     else (q, Inr ()))))"

section \<open>The target\<close>

record RunTarget =
  rt_target_key :: string
  rt_stages :: "WorkflowStageDef list"
  rt_stage_def :: WorkflowStageDef
  rt_stage_map :: "(string, StageStatus) dict"

definition reject_if_ticket_busy :: "Ticket \<Rightarrow> string \<Rightarrow> unit result" where
  "reject_if_ticket_busy ticket target_key =
     (if tk_workflow_stage_status ticket \<in> {StageStatus.RUNNING, StageStatus.AWAITING}
        \<and> \<not> (tk_workflow_stage_status ticket = StageStatus.RUNNING \<and> target_key = tk_workflow_stage_key ticket)
      then Inl (ValueError ''Current stage must complete before advancing'')
      else Inr ())"

definition pick_target ::
    "WorkflowInstance \<Rightarrow> WorkflowStageDef list \<Rightarrow> Ticket \<Rightarrow> string option \<Rightarrow> RunTarget result" where
  "pick_target instance stages ticket stage_key =
     (let asked = (case named stage_key of Some k \<Rightarrow> k | None \<Rightarrow> tk_workflow_stage_key ticket);
          target_key = (if asked \<noteq> [] then asked
                        else (case next_stage_key stages [] of Some k \<Rightarrow> k | None \<Rightarrow> []))
      in if target_key = [] then Inl (ValueError ''Workflow has no stages'')
         else bind_result (reject_if_ticket_busy ticket target_key) (\<lambda>_.
           case find (\<lambda>s. sd_key s = target_key) stages of
             None \<Rightarrow> Inl (ValueError (''Unknown stage key: '' @ target_key))
           | Some stage_def \<Rightarrow>
               bind_result (parse_stage_map instance stages) (\<lambda>stage_map.
                 if map_of stage_map target_key = Some StageStatus.WONT_DO
                 then Inl (ValueError (''Stage '' @ [char_of (39::nat)] @ target_key @ [char_of (39::nat)]
                        @ '' is marked won'' @ [char_of (39::nat)] @ ''t do''))
                 else Inr \<lparr>rt_target_key = target_key, rt_stages = stages, rt_stage_def = stage_def,
                        rt_stage_map = stage_map\<rparr>)))"

definition resolve_run_target :: "StartEnv \<Rightarrow> Queue \<Rightarrow> Ticket \<Rightarrow> string option \<Rightarrow> RunTarget outcome" where
  "resolve_run_target env q ticket stage_key =
     and_then (ensure_workflow_instance env q ticket) (\<lambda>q _.
       let ticket = row_of q ticket; stages = snd (resolve_ticket_stages env q ticket) in
       case get_instance q (tk_id ticket) of
         None \<Rightarrow> (q, Inl (ValueError ''Ticket has no workflow instance''))
       | Some instance \<Rightarrow>
           if stages = [] then (q, Inl (ValueError ''Ticket has no workflow instance''))
           else (q, pick_target instance stages ticket stage_key))"

section \<open>The guards\<close>

definition DISPATCH_REFUSED_TERMINAL_PARENT_PREFIX :: string where
  "DISPATCH_REFUSED_TERMINAL_PARENT_PREFIX = ''Cannot start run: orchestration''"

text \<open>A decision on the ticket's history: its sentence; the rows that justify it are not kept here.\<close>

definition record_decision :: "Ticket \<Rightarrow> string \<Rightarrow> string \<Rightarrow> string \<Rightarrow> Queue \<Rightarrow> Queue" where
  "record_decision ticket decision stage_key reason q =
     publish EventType.ORCHESTRATOR_DECISION ticket
       [(''decision'', decision), (''stage_key'', stage_key), (''reason'', reason)] q"

definition or_text :: "string option \<Rightarrow> string" where
  "or_text s = (case s of None \<Rightarrow> [] | Some x \<Rightarrow> x)"

text \<open>A missing stage key prints as \<open>None\<close>.\<close>

definition refuse_dispatch_under_terminal_parent ::
    "Queue \<Rightarrow> Ticket \<Rightarrow> string option \<Rightarrow> string option \<Rightarrow> OrchestrationRun option outcome" where
  "refuse_dispatch_under_terminal_parent q ticket stage_key orchestration_run_id =
     (case named orchestration_run_id of
        None \<Rightarrow> (q, Inr None)
      | Some i \<Rightarrow>
          (case get_orch q i of
             None \<Rightarrow> (q, Inr None)
           | Some parent \<Rightarrow>
               if or_status parent \<in> set LIVE_ORCHESTRATION_STATUSES then (q, Inr (Some parent))
               else (record_decision ticket ''refused_dispatch_terminal_parent'' (or_text stage_key)
                       (''Did not dispatch '' @ [char_of (39::nat)] @ (case stage_key of None \<Rightarrow> ''None'' | Some s \<Rightarrow> s)
                        @ [char_of (39::nat)] @ '': its orchestration '' @ or_run_code parent @ '' is already ''
                        @ orchestration_status_value (or_status parent) @ ''.'') q,
                     Inl (ValueError (DISPATCH_REFUSED_TERMINAL_PARENT_PREFIX @ '' '' @ or_run_code parent
                        @ '' is '' @ orchestration_status_value (or_status parent))))))"

definition refuse_held_dispatch :: "StartEnv \<Rightarrow> Queue \<Rightarrow> Ticket \<Rightarrow> string \<Rightarrow> unit outcome" where
  "refuse_held_dispatch env q ticket stage_key =
     (let unmet = holding_prerequisites (se_readiness env) (qu_board q) ticket in
      if unmet = [] then (q, Inr ())
      else (record_decision ticket ''held_on_prerequisites'' stage_key (hold_reason ticket unmet) q,
            Inl (ValueError (hold_reason ticket unmet))))"

section \<open>The agent\<close>

definition quoted :: "string \<Rightarrow> string" where
  "quoted s = [char_of (39::nat)] @ s @ [char_of (39::nat)]"

definition resolve_run_agent ::
    "string list \<Rightarrow> Ticket \<Rightarrow> WorkflowStageDef \<Rightarrow> string option \<Rightarrow> string option \<Rightarrow> (string \<times> string) result" where
  "resolve_run_agent studio ticket stage_def agent_id skill_name =
     (let (resolved_agent_id, resolved_skill) = resolve_stage_execution studio ticket stage_def;
          chosen_agent = (case named agent_id of Some a \<Rightarrow> a | None \<Rightarrow> resolved_agent_id);
          chosen_skill = (case named skill_name of
                            Some s \<Rightarrow> s
                          | None \<Rightarrow> if resolved_skill \<noteq> [] then resolved_skill else sd_skill_name stage_def);
          unrouteable = unrouteable_classify_detail studio ticket stage_def
      in if is_agentless_stage stage_def \<and> chosen_agent = []
         then Inl (ValueError (''Stage '' @ quoted (sd_key stage_def)
                @ '' is a human approval gate '' @ map char_of [226::nat, 128, 148]
                @ '' it does not run an agent CLI.''))
         else if chosen_agent \<noteq> [] then Inr (chosen_agent, chosen_skill)
         else if unrouteable \<noteq> []
         then Inl (ValueError (''Stage '' @ quoted (sd_key stage_def)
                @ '' has no route for this ticket: '' @ unrouteable @ ''.''))
         else Inl (ValueError (''Stage '' @ quoted (sd_key stage_def) @ '' resolved no agent to run it. A ''
                @ quoted (sd_stage_type stage_def)
                @ '' stage must either name an agent or be started per member with an explicit agent_id.'')))"

definition consume_scope_reroute_pin :: "string \<Rightarrow> Ticket \<Rightarrow> Ticket" where
  "consume_scope_reroute_pin chosen_agent ticket =
     (if tk_scope_reroute_agent ticket \<noteq> [] \<and> tk_scope_reroute_agent ticket = chosen_agent
      then ticket\<lparr>tk_scope_reroute_agent := []\<rparr> else ticket)"

definition consume_next_agent_pin :: "string \<Rightarrow> Ticket \<Rightarrow> Ticket" where
  "consume_next_agent_pin chosen_agent ticket =
     (if tk_next_agent ticket \<noteq> [] \<and> tk_next_agent ticket = chosen_agent
      then ticket\<lparr>tk_next_agent := []\<rparr> else ticket)"

definition consume_dispatch_waiver :: "string \<Rightarrow> Ticket \<Rightarrow> Ticket \<times> string" where
  "consume_dispatch_waiver stage_key ticket =
     (if tk_dispatch_waiver_stage_key ticket = [] \<or> tk_dispatch_waiver_stage_key ticket \<noteq> stage_key
      then (ticket, [])
      else (ticket\<lparr>tk_dispatch_waiver_stage_key := [], tk_dispatch_waiver_approval_id := []\<rparr>,
            tk_dispatch_waiver_approval_id ticket))"

section \<open>Opening the run\<close>

record RunAsk =
  ra_stage_key :: "string option"
  ra_orchestration_run_id :: "string option"
  ra_agent_id :: "string option"
  ra_skill_name :: "string option"
  ra_auto_approve :: bool
  ra_timeout_override_seconds :: "int option"
  ra_force :: bool
  ra_dispatch_surface :: DispatchSurface

text \<open>
  The budget, the preparation of the ticket and the agent, through \<open>start_charged\<close>: a run under
  the builtin autopilot was charged by its loop. What the preparation wrote is on the row when
  no agent resolves.
\<close>

definition agent_of :: "StartEnv \<Rightarrow> RunTarget \<Rightarrow> RunAsk \<Rightarrow> Ticket \<Rightarrow> (string \<times> string) result" where
  "agent_of env target ask ticket =
     resolve_run_agent (map fst (se_studio env)) ticket (rt_stage_def target) (ra_agent_id ask) (ra_skill_name ask)"

definition charge_start ::
    "StartEnv \<Rightarrow> Queue \<Rightarrow> Ticket \<Rightarrow> RunTarget \<Rightarrow> OrchestrationRun option \<Rightarrow> RunAsk \<Rightarrow> (string \<times> string) outcome" where
  "charge_start env q ticket target parent ask =
     (let (new_id, q) = uuid4 q;
          (override_id, q) = uuid4 q;
          charged_by_loop = (case parent of None \<Rightarrow> False | Some p \<Rightarrow> or_driver p = BUILTIN_AUTOPILOT);
          ((L, ticket), verdict) = start_charged (se_machine env) (le_profile env)
            (\<lambda>ticket. map_sum id fst (agent_of env target ask ticket)) new_id override_id (se_isoformat env)
            (qu_ledger q) ticket (rt_target_key target) (rt_stage_map target) charged_by_loop (ra_force ask)
            (ra_dispatch_surface ask);
          q = save_ticket ticket (q\<lparr>qu_ledger := L\<rparr>)
      in case verdict of
           Inl e \<Rightarrow> (q, Inl e)
         | Inr _ \<Rightarrow> (q, agent_of env target ask ticket))"

definition start_ticket :: "StartEnv \<Rightarrow> Queue \<Rightarrow> Ticket \<Rightarrow> Queue result" where
  "start_ticket env q ticket =
     bind_result (choose_state (le_now env) (Some (bd_events (qu_board q))) ticket TicketState.IN_PROGRESS
         ''orchestrator'' True) (\<lambda>(events, ticket, _).
       let q = save_ticket (ticket\<lparr>tk_updated_at := le_now env\<rparr>) q in
       Inr (case events of None \<Rightarrow> q | Some evs \<Rightarrow> q\<lparr>qu_board := (qu_board q)\<lparr>bd_events := evs\<rparr>\<rparr>))"

text \<open>The cursor goes to the target, and its stage to running unless it runs already.\<close>

definition point_at ::
    "StartEnv \<Rightarrow> Queue \<Rightarrow> Ticket \<Rightarrow> RunTarget \<Rightarrow> Queue result" where
  "point_at env q ticket target =
     (let ticket = ticket\<lparr>tk_workflow_stage_key := rt_target_key target\<rparr> in
      if map_of (rt_stage_map target) (rt_target_key target) = Some StageStatus.RUNNING then Inr (save_ticket ticket q)
      else (case get_instance q (tk_id ticket) of
              None \<Rightarrow> Inl AttributeError
            | Some instance \<Rightarrow>
                bind_result (set_stage_status (le_now env) (workflow_of q ticket instance) (rt_stages target)
                    (rt_target_key target) StageStatus.RUNNING None)
                  (\<lambda>(w, _). Inr (save_workflow w q))))"

definition new_run ::
    "StartEnv \<Rightarrow> string \<Rightarrow> Ticket \<Rightarrow> RunTarget \<Rightarrow> string \<Rightarrow> string \<Rightarrow> string \<Rightarrow> RunAsk \<Rightarrow> AgentRun" where
  "new_run env i ticket target agent skill waiver ask = \<lparr>rn_id = i, rn_ticket_id = Some (tk_id ticket),
     rn_stage_key = rt_target_key target, rn_status = RunStatus.RUNNING, rn_external_harness = None,
     rn_handoff_pid = None, rn_agent_pid = None, rn_last_seen_at = None, rn_started_at = Some (le_now env),
     rn_created_at = Some (le_now env), rn_orchestration_run_id = ra_orchestration_run_id ask, rn_finished_at = None,
     rn_stderr = [], rn_workspace_id = tk_workspace_id ticket, rn_agent_id = agent,
     rn_agent_version = map_of (se_studio env) agent, rn_skill_name = skill, rn_auto_approve = ra_auto_approve ask,
     rn_timeout_override_seconds = ra_timeout_override_seconds ask, rn_dispatch_waiver_approval_id = waiver\<rparr>"

text \<open>The table refuses a row whose primary key it has.\<close>

definition add_run :: "AgentRun \<Rightarrow> Queue \<Rightarrow> unit outcome" where
  "add_run run q =
     (if get_run q (rn_id run) \<noteq> None then (q, Inl IntegrityError)
      else (q\<lparr>qu_ledger := (qu_ledger q)\<lparr>lg_runs := lg_runs (qu_ledger q) @ [run]\<rparr>\<rparr>, Inr ()))"

definition open_run ::
    "StartEnv \<Rightarrow> Queue \<Rightarrow> Ticket \<Rightarrow> RunTarget \<Rightarrow> string \<Rightarrow> string \<Rightarrow> RunAsk \<Rightarrow> AgentRun outcome" where
  "open_run env q ticket target agent skill ask =
     and_then (if tk_state ticket = TicketState.BACKLOG
               then (case start_ticket env q ticket of Inl e \<Rightarrow> (q, Inl e) | Inr q \<Rightarrow> (q, Inr ()))
               else (q, Inr ())) (\<lambda>q _.
       let ticket = consume_next_agent_pin agent (consume_scope_reroute_pin agent (row_of q ticket));
           (ticket, waiver) = consume_dispatch_waiver (rt_target_key target) ticket
       in case point_at env q ticket target of
            Inl e \<Rightarrow> (q, Inl e)
          | Inr q \<Rightarrow>
              (let ticket = row_of q ticket;
                   (i, q) = uuid4 q;
                   run = new_run env i ticket target agent skill waiver ask
               in and_then (add_run run q) (\<lambda>q _.
                    (publish AGENT_RUN_STARTED ticket
                       [(''agent_id'', agent), (''stage_key'', rt_target_key target)] q, Inr run))))"

definition start_run :: "StartEnv \<Rightarrow> Queue \<Rightarrow> Ticket \<Rightarrow> RunAsk \<Rightarrow> AgentRun outcome" where
  "start_run env q ticket ask =
     (if fst (resolve_ticket_stages env q ticket) = None
      then (q, Inl (ValueError ''No workflow template for ticket workspace''))
      else and_then (resolve_run_target env q ticket (ra_stage_key ask)) (\<lambda>q target.
        let ticket = row_of q ticket in
        if tk_state ticket \<in> {TicketState.DONE, TicketState.WONT_DO}
        then (q, Inl (ValueError (''Cannot start run for ticket in state: '' @ ticket_state_value (tk_state ticket))))
        else and_then (refuse_dispatch_under_terminal_parent q ticket (ra_stage_key ask) (ra_orchestration_run_id ask))
          (\<lambda>q parent. and_then (refuse_held_dispatch env q ticket (rt_target_key target))
          (\<lambda>q _. and_then (charge_start env q ticket target parent ask)
          (\<lambda>q (agent, skill). open_run env q (row_of q ticket) target agent skill ask)))))"

section \<open>What a start leaves alone\<close>

text \<open>
  A start writes the ticket, its instance, the markers of its stage and the log; slots, entries,
  orchestrations and the runs that are there stay as they are.
\<close>

definition ticket_frame :: "Queue \<Rightarrow> Queue \<Rightarrow> bool" where
  "ticket_frame q r \<longleftrightarrow> qu_slots r = qu_slots q \<and> qu_entries r = qu_entries q \<and> qu_orchs r = qu_orchs q
     \<and> lg_runs (qu_ledger r) = lg_runs (qu_ledger q) \<and> ids_of (qu_board r) = ids_of (qu_board q)
     \<and> qu_next_id q \<le> qu_next_id r"

lemma ticket_frame_refl [simp]: "ticket_frame q q"
  by (simp add: ticket_frame_def)

lemma ticket_frame_trans: "ticket_frame p q \<Longrightarrow> ticket_frame q r \<Longrightarrow> ticket_frame p r"
  by (simp add: ticket_frame_def)

lemma ids_of_events [simp]: "ids_of (b\<lparr>bd_events := e\<rparr>) = ids_of b"
  by (simp add: ids_of_def)

lemma ticket_frame_writes [simp]:
  "ticket_frame q (save_ticket t r) = ticket_frame q r" "ticket_frame q (publish e t p r) = ticket_frame q r"
  "ticket_frame q (save_workflow w r) = ticket_frame q r" "ticket_frame q (put_instance i inst r) = ticket_frame q r"
  "ticket_frame q (record_decision t d k s r) = ticket_frame q r"
  "ticket_frame q (r\<lparr>qu_board := (qu_board r)\<lparr>bd_events := evs\<rparr>\<rparr>) = ticket_frame q r"
  by (simp_all add: ticket_frame_def save_ticket_def publish_def save_workflow_def put_instance_def record_decision_def)

lemma row_of_id [simp]: "tk_id (row_of q t) = tk_id t"
  using get_ticket_id by (auto simp: row_of_def split: option.split)

lemma reconcile_workflow_frame: "ticket_frame q (fst (reconcile_workflow env q t w stages))"
  by (auto simp: reconcile_workflow_def split: sum.split prod.split)

lemma ensure_workflow_frame: "ticket_frame q (fst (ensure_workflow_instance env q t))"
proof -
  have saved: "ticket_frame q (fst (reconcile_workflow env (save_ticket u q) t' w stages))" for u t' w stages
    using reconcile_workflow_frame [of "save_ticket u q"] ticket_frame_trans [of q "save_ticket u q"] by simp
  show ?thesis
    unfolding ensure_workflow_instance_def Let_def
    by (auto intro: saved reconcile_workflow_frame split: option.split prod.split)
qed

lemma resolve_target_frame: "ticket_frame q (fst (resolve_run_target env q t k))"
  using ensure_workflow_frame [of q env t]
  by (auto simp: resolve_run_target_def and_then_def Let_def split: prod.split sum.split option.split)

lemma terminal_parent_frame: "ticket_frame q (fst (refuse_dispatch_under_terminal_parent q t k o'))"
  by (simp add: refuse_dispatch_under_terminal_parent_def del: named_iff split: option.split)

lemma held_frame: "ticket_frame q (fst (refuse_held_dispatch env q t k))"
  by (simp add: refuse_held_dispatch_def Let_def)

text \<open>The markers of a stage are all a charge writes in the ledger.\<close>

lemma runs_markers [simp]:
  "lg_runs (add_marker i now L t kind title c) = lg_runs L"
  "lg_runs (fst (drop_markers L t kind title)) = lg_runs L"
  by (simp_all add: add_marker_def drop_markers_def)

lemma runs_cleared [simp]:
  "lg_runs (fst (clear_stage_dispatches L t k)) = lg_runs L"
  "lg_runs (fst (clear_transient_retries L t k)) = lg_runs L"
  "lg_runs (fst (clear_stage_retry_block L t k)) = lg_runs L"
  by (simp_all add: clear_stage_dispatches_def clear_transient_retries_def clear_stage_retry_block_def split: prod.split)
     (metis fst_conv runs_markers(2))

lemma runs_committed [simp]:
  "lg_runs (commit_standalone_stage_dispatch i j now forced L t k decision origin) = lg_runs L"
  by (simp add: commit_standalone_stage_dispatch_def Let_def record_reroute_exempt_dispatch_def
      record_stage_dispatch_override_def record_stage_dispatch_def)

lemma runs_prepared:
  assumes "prepare_stage_start now L t k stages clear = Inr (L', t')"
  shows "lg_runs L' = lg_runs L"
proof -
  have refreshed: "lg_runs M = lg_runs L" if "refresh_stage_retry_budget now L u k clear = Inr (M, u')" for M u u'
    using that by (auto simp: refresh_stage_retry_budget_def Let_def bind_result_Inr_iff split: if_splits prod.splits)
  from assms show ?thesis
    by (auto simp: prepare_stage_start_def Let_def split: if_splits dest: refreshed)
qed

lemma runs_charged:
  "start_charged m profile agent i j forced L t k stages by_loop force surface = ((L', t'), x) \<Longrightarrow> lg_runs L' = lg_runs L"
  by (auto simp: start_charged_def Let_def dest!: runs_prepared split: sum.splits option.splits)

lemma charge_frame: "ticket_frame q (fst (charge_start env q t target parent ask))"
proof -
  let ?charge = "\<lambda>by_loop. start_charged (se_machine env) (le_profile env)
      (\<lambda>ticket. map_sum id fst (agent_of env target ask ticket)) (digits_of (qu_next_id q)) (digits_of (Suc (qu_next_id q)))
      (se_isoformat env) (qu_ledger q) t (rt_target_key target) (rt_stage_map target) by_loop (ra_force ask)
      (ra_dispatch_surface ask)"
  obtain L u x where c: "?charge (case parent of None \<Rightarrow> False | Some p \<Rightarrow> or_driver p = BUILTIN_AUTOPILOT) = ((L, u), x)"
    by (metis prod.collapse)
  note runs = runs_charged [OF c]
  show ?thesis
    using c runs by (cases x) (simp_all add: charge_start_def uuid4_def Let_def ticket_frame_def save_ticket_def)
qed

lemma start_ticket_frame:
  assumes "start_ticket env q t = Inr r"
  shows "ticket_frame q r"
proof -
  obtain events u y where "choose_state (le_now env) (Some (bd_events (qu_board q))) t TicketState.IN_PROGRESS
      ''orchestrator'' True = Inr (events, u, y)"
    using assms by (auto simp: start_ticket_def bind_result_Inr_iff)
  moreover have "ticket_frame q (save_ticket v q)" "ticket_frame q ((save_ticket v q)\<lparr>qu_board :=
      (qu_board (save_ticket v q))\<lparr>bd_events := evs\<rparr>\<rparr>)" for v evs
    by simp_all
  ultimately show ?thesis using assms by (cases events) (auto simp: start_ticket_def Let_def simp del: ticket_frame_writes)
qed

lemma point_at_frame: "point_at env q t target = Inr r \<Longrightarrow> ticket_frame q r"
  by (auto simp: point_at_def Let_def bind_result_Inr_iff split: if_splits option.splits)

lemma consume_ids [simp]:
  "tk_id (consume_scope_reroute_pin a t) = tk_id t" "tk_id (consume_next_agent_pin a t) = tk_id t"
  "tk_id (fst (consume_dispatch_waiver k t)) = tk_id t"
  by (simp_all add: consume_scope_reroute_pin_def consume_next_agent_pin_def consume_dispatch_waiver_def)

section \<open>What a start opens\<close>

text \<open>No run when it is refused; otherwise one, at the end of the table, under the ticket.\<close>

definition opened :: "Ticket \<Rightarrow> RunAsk \<Rightarrow> Queue \<Rightarrow> Queue \<Rightarrow> AgentRun result \<Rightarrow> bool" where
  "opened t ask q r x \<longleftrightarrow> qu_slots r = qu_slots q \<and> qu_entries r = qu_entries q \<and> qu_orchs r = qu_orchs q
     \<and> ids_of (qu_board r) = ids_of (qu_board q) \<and> qu_next_id q \<le> qu_next_id r
     \<and> (case x of
          Inl e \<Rightarrow> lg_runs (qu_ledger r) = lg_runs (qu_ledger q)
        | Inr run \<Rightarrow> lg_runs (qu_ledger r) = lg_runs (qu_ledger q) @ [run]
            \<and> get_run q (rn_id run) = None \<and> rn_id run \<noteq> [] \<and> rn_ticket_id run = Some (tk_id t)
            \<and> rn_status run = RunStatus.RUNNING \<and> rn_orchestration_run_id run = ra_orchestration_run_id ask)"

lemma opened_refused: "ticket_frame q r \<Longrightarrow> opened t ask q r (Inl e)"
  by (simp add: opened_def ticket_frame_def)

lemma opened_after:
  assumes "ticket_frame p q" and "opened t ask q r x" and "tk_id t' = tk_id t"
  shows "opened t' ask p r x"
proof -
  have "get_run p i = get_run q i" for i using assms(1) by (simp add: get_run_def ticket_frame_def)
  with assms show ?thesis by (cases x) (simp_all add: opened_def ticket_frame_def)
qed

lemma add_run_opened:
  assumes "ticket_frame q p" and "rn_id run \<noteq> []" and "rn_ticket_id run = Some (tk_id t)"
    and "rn_status run = RunStatus.RUNNING" and "rn_orchestration_run_id run = ra_orchestration_run_id ask"
    and "and_then (add_run run p) (\<lambda>q _. (publish event t' payload q, Inr run)) = (r, x)"
  shows "opened t ask q r x"
proof -
  have runs: "get_run p i = get_run q i" for i using assms(1) by (simp add: get_run_def ticket_frame_def)
  show ?thesis
  proof (cases "get_run p (rn_id run)")
    case None
    with assms runs show ?thesis
      by (auto simp: add_run_def opened_def ticket_frame_def publish_def split: sum.splits)
  next
    case (Some row)
    with assms show ?thesis by (auto simp: add_run_def opened_refused)
  qed
qed

lemma open_run_opened:
  assumes "open_run env q t target agent skill ask = (r, x)"
  shows "opened t ask q r x"
proof -
  obtain p y where p: "(if tk_state t = TicketState.BACKLOG
      then (case start_ticket env q t of Inl e \<Rightarrow> (q, Inl e) | Inr q \<Rightarrow> (q, Inr ())) else (q, Inr ())) = (p, y :: unit result)"
    by fastforce
  then have frame: "ticket_frame q p"
    using start_ticket_frame [of env q t] by (auto split: if_splits sum.splits)
  show ?thesis
  proof (cases y)
    case (Inl e)
    with assms p frame show ?thesis by (auto simp: open_run_def opened_refused)
  next
    case (Inr u)
    let ?t = "consume_next_agent_pin agent (consume_scope_reroute_pin agent (row_of p t))"
    obtain t' waiver where t': "consume_dispatch_waiver (rt_target_key target) ?t = (t', waiver)" by fastforce
    have id: "tk_id t' = tk_id t" using consume_ids(3) [of "rt_target_key target" ?t] t' by simp
    show ?thesis
    proof (cases "point_at env p t' target")
      case (Inl e)
      with assms p Inr t' frame show ?thesis by (auto simp: open_run_def opened_refused Let_def)
    next
      case (Inr m)
      have m: "ticket_frame q m" by (rule ticket_frame_trans [OF frame point_at_frame [OF Inr]])
      let ?run = "new_run env (digits_of (qu_next_id m)) (row_of m t') target agent skill waiver ask"
      let ?m = "m\<lparr>qu_next_id := Suc (qu_next_id m)\<rparr>"
      have "and_then (add_run ?run ?m) (\<lambda>q _. (publish AGENT_RUN_STARTED (row_of m t')
          [(''agent_id'', agent), (''stage_key'', rt_target_key target)] q, Inr ?run)) = (r, x)"
        using assms p \<open>y = Inr u\<close> t' Inr by (simp add: open_run_def Let_def uuid4_def)
      moreover have "ticket_frame q ?m" using m by (simp add: ticket_frame_def)
      ultimately show ?thesis
        by (intro add_run_opened [of q ?m ?run]) (simp_all add: new_run_def id digits_of_digits)
    qed
  qed
qed

lemma start_run_opened:
  assumes "start_run env q t ask = (r, x)"
  shows "opened t ask q r x"
proof (cases "fst (resolve_ticket_stages env q t) = None")
  case True
  with assms show ?thesis by (auto simp: start_run_def opened_refused)
next
  case False
  obtain p1 y1 where p1: "resolve_run_target env q t (ra_stage_key ask) = (p1, y1)" by fastforce
  note f1 = resolve_target_frame [of q env t "ra_stage_key ask", unfolded p1 fst_conv]
  note start = assms [unfolded start_run_def p1] False
  show ?thesis
  proof (cases "(\<exists>target. y1 = Inr target) \<and> tk_state (row_of p1 t) \<notin> {TicketState.DONE, TicketState.WONT_DO}")
    case False
    with start f1 show ?thesis by (cases y1) (auto simp: opened_refused Let_def split: if_splits)
  next
    case True
    then obtain target where y1: "y1 = Inr target" by blast
    let ?t = "row_of p1 t"
    obtain p2 y2 where p2: "refuse_dispatch_under_terminal_parent p1 ?t (ra_stage_key ask) (ra_orchestration_run_id ask)
        = (p2, y2)" by fastforce
    note f2 = ticket_frame_trans [OF f1 terminal_parent_frame [of p1 ?t "ra_stage_key ask" "ra_orchestration_run_id ask",
          unfolded p2 fst_conv]]
    obtain p3 y3 where p3: "refuse_held_dispatch env p2 ?t (rt_target_key target) = (p3, y3)" by fastforce
    note f3 = ticket_frame_trans [OF f2 held_frame [of p2 env ?t "rt_target_key target", unfolded p3 fst_conv]]
    show ?thesis
    proof (cases "\<exists>parent. y2 = Inr parent \<and> y3 = Inr ()")
      case False
      with start True y1 p2 p3 f2 f3 show ?thesis
        by (cases y2; cases y3) (auto simp: opened_refused Let_def)
    next
      case held: True
      then obtain parent where y: "y2 = Inr parent" "y3 = Inr ()" by blast
      obtain p4 y4 where p4: "charge_start env p3 ?t target parent ask = (p4, y4)" by fastforce
      note f4 = ticket_frame_trans [OF f3 charge_frame [of p3 env ?t target parent ask, unfolded p4 fst_conv]]
      show ?thesis
      proof (cases y4)
        case (Inl e)
        with start True y1 p2 p3 p4 y f4 show ?thesis by (auto simp: opened_refused Let_def)
      next
        case (Inr named)
        obtain agent skill where named: "named = (agent, skill)" by fastforce
        from start True y1 p2 p3 p4 y Inr named
        have "open_run env p4 (row_of p4 ?t) target agent skill ask = (r, x)" by (simp add: Let_def)
        from opened_after [OF f4 open_run_opened [OF this]] show ?thesis by simp
      qed
    qed
  qed
qed

text \<open>Surroundings to try: no git, no template, no agent.\<close>

definition sample_start_env :: StartEnv where
  "sample_start_env = \<lparr>le_now = 1000, le_draining = False, le_max_concurrent = 1, le_stages = (\<lambda>_. []),
     le_profile = None, le_merge_refusal = (\<lambda>_. []), se_machine = sample_machine,
     se_template = (\<lambda>_ _. (None, [])),
     se_readiness = \<lparr>rd_branch = (\<lambda>_. []), rd_target = (\<lambda>_ _. []), rd_base = (\<lambda>_. []), rd_rev = (\<lambda>_ _. []),
       rd_holds = (\<lambda>_ _ _. False), rd_overrides = (\<lambda>_. []), rd_edges = (\<lambda>_. [])\<rparr>,
     se_studio = [], se_isoformat = [], se_profile = (\<lambda>_. Inr (BUILTIN_AUTOPILOT, ''default'')),
     se_orch_code = ''orch_1'', se_schedule_refusal = (\<lambda>_. None)\<rparr>"

end
