(* ===== verification/QueueLanes.thy ===== *)
theory QueueLanes
  imports QueueRepair
begin

text \<open>
  \<open>services/queue_lanes.py\<close>: one serial pipeline per slot. An entry waits in its lane in the
  order of its position; the head is dispatched when the lane frees, and a lane is claimed
  before the dispatch and given back on every path that starts nothing. What starts the work
  is the injected \<open>LaneDispatcher\<close>, here a record of two functions on the state. The sweep
  over all lanes is in \<open>SlotHealing\<close>.
\<close>

section \<open>The dispatcher\<close>

text \<open>The keyword arguments of \<open>dispatch_orchestration\<close>.\<close>

record OrchestrationAsk =
  oa_auto_approve :: bool
  oa_stop_at_stage_key :: "string option"
  oa_driver :: string
  oa_approve_design_plans :: bool
  oa_auto_repair :: bool
  oa_max_stages :: "int option"
  oa_timeout_seconds :: "int option"

record LaneDispatcher =
  dp_stage :: "Queue \<Rightarrow> Ticket \<Rightarrow> QueuedRun \<Rightarrow> AgentRun option outcome"
  dp_orchestration :: "Queue \<Rightarrow> Ticket \<Rightarrow> OrchestrationAsk \<Rightarrow> OrchestrationRun option outcome"

section \<open>The waiting line of a lane\<close>

definition WAITING_STATUSES :: "QueuePosition list" where
  "WAITING_STATUSES = [QueuePosition.QUEUED, SCHEDULED]"

definition waits_in :: "int \<Rightarrow> QueuedRun \<Rightarrow> bool" where
  "waits_in n e \<longleftrightarrow> qr_slot_number e = n \<and> qr_status e \<in> set WAITING_STATUSES"

definition waiting_in_lane :: "Queue \<Rightarrow> int \<Rightarrow> QueuedRun list" where
  "waiting_in_lane q n = sort_key qr_position (filter (waits_in n) (qu_entries q))"

definition initialize_slots :: "LaneEnv \<Rightarrow> Queue \<Rightarrow> Queue" where
  "initialize_slots env q = fit_slot_pool (le_max_concurrent env) q"

definition lane_numbers :: "LaneEnv \<Rightarrow> Queue \<Rightarrow> Queue \<times> int list" where
  "lane_numbers env q = (let q = initialize_slots env q in (q, sort (map sl_slot_number (qu_slots q))))"

definition already_queued :: "Queue \<Rightarrow> string \<Rightarrow> QueueEntryKind \<Rightarrow> string \<Rightarrow> QueuedRun option" where
  "already_queued q ticket_id entry_kind stage_key =
     find (\<lambda>e. qr_ticket_id e = ticket_id \<and> qr_status e = QueuePosition.QUEUED
             \<and> qr_entry_kind e = entry_kind \<and> qr_stage_key e = stage_key) (qu_entries q)"

fun reposition :: "int \<Rightarrow> QueuedRun list \<Rightarrow> Queue \<Rightarrow> Queue" where
  "reposition k [] q = q"
| "reposition k (e # es) q =
     reposition (k + 1) es (alter_entry (qr_id e) (\<lambda>x. x\<lparr>qr_position := k\<rparr>) q)"

definition insert_moved :: "string \<Rightarrow> int \<Rightarrow> QueuedRun list \<Rightarrow> QueuedRun list" where
  "insert_moved entry_id target waiting =
     (case find (\<lambda>e. qr_id e = entry_id) waiting of
        None \<Rightarrow> waiting
      | Some moved \<Rightarrow>
          (let waiting = filter (\<lambda>e. qr_id e \<noteq> entry_id) waiting;
               index = nat (max 0 (min (int (length waiting)) (target - 1)))
           in take index waiting @ moved # drop index waiting))"

definition renumber :: "int \<Rightarrow> (string \<times> int) option \<Rightarrow> Queue \<Rightarrow> Queue" where
  "renumber n insert_at q =
     (let waiting = waiting_in_lane q n;
          waiting = (case insert_at of None \<Rightarrow> waiting | Some (i, target) \<Rightarrow> insert_moved i target waiting)
      in reposition 1 waiting q)"

text \<open>\<open>min(range(1, max_concurrent + 1), key=...)\<close>: the fewest waiting, the lowest number on a tie.\<close>

definition shortest_lane :: "LaneEnv \<Rightarrow> Queue \<Rightarrow> int result" where
  "shortest_lane env q =
     (case [1..le_max_concurrent env] of
        [] \<Rightarrow> Inl (ValueError ''min() arg is an empty sequence'')
      | n # ns \<Rightarrow> Inr (hd (sort_key (\<lambda>m. length (waiting_in_lane q m)) (n # ns))))"

definition least_busy_lane :: "LaneEnv \<Rightarrow> Queue \<Rightarrow> (Queue \<times> int) result" where
  "least_busy_lane env q =
     (case [1..le_max_concurrent env] of
        [] \<Rightarrow> Inl (ValueError ''The queue has no agent slots'')
      | n # ns \<Rightarrow>
          (let q = initialize_slots env q;
               busy = map sl_slot_number (filter (\<lambda>s. \<not> sl_is_available s) (qu_slots q))
           in Inr (q, hd (sort_key (\<lambda>m. length (waiting_in_lane q m) + (if m \<in> set busy then 1 else 0))
                (n # ns)))))"

section \<open>Starting the head of a lane\<close>

definition DRAIN_REFUSED_REASON :: string where
  "DRAIN_REFUSED_REASON = ''Refused: the server is shutting down. This entry stays queued.''"

text \<open>A refusal written on an entry: its reason and its time, nothing else.\<close>

definition refused_with :: "string \<Rightarrow> int \<Rightarrow> QueuedRun \<Rightarrow> QueuedRun" where
  "refused_with reason now e = e\<lparr>qr_failure_reason := reason, qr_last_failed_at := Some now\<rparr>"

definition stamp_refusal :: "LaneEnv \<Rightarrow> string \<Rightarrow> Queue \<Rightarrow> Queue" where
  "stamp_refusal env entry_id q = alter_entry entry_id (refused_with DRAIN_REFUSED_REASON (le_now env)) q"

definition ask_of :: "QueuedRun \<Rightarrow> OrchestrationAsk" where
  "ask_of head = \<lparr>oa_auto_approve = qr_auto_approve head,
     oa_stop_at_stage_key = (if qr_stop_at_stage_key head = [] then None else Some (qr_stop_at_stage_key head)),
     oa_driver = qr_driver head, oa_approve_design_plans = qr_approve_design_plans head,
     oa_auto_repair = qr_auto_repair head, oa_max_stages = qr_max_stages head,
     oa_timeout_seconds = qr_timeout_seconds head\<rparr>"

definition start_entry_work ::
    "LaneDispatcher \<Rightarrow> Queue \<Rightarrow> Ticket \<Rightarrow> QueuedRun \<Rightarrow> string \<Rightarrow> bool outcome" where
  "start_entry_work d q ticket head slot_id =
     (if qr_entry_kind head = STAGE
      then and_then (dp_stage d q ticket head) (\<lambda>q started.
             case started of
               None \<Rightarrow> (q, Inr False)
             | Some run \<Rightarrow>
                 (alter_entry (qr_id head) (\<lambda>e. e\<lparr>qr_run_id := Some (rn_id run)\<rparr>)
                    (alter_slot slot_id (\<lambda>s. s\<lparr>sl_current_run_id := Some (rn_id run)\<rparr>) q), Inr True))
      else and_then (dp_orchestration d q ticket (ask_of head)) (\<lambda>q started.
             case started of
               None \<Rightarrow> (q, Inr False)
             | Some run \<Rightarrow>
                 (alter_entry (qr_id head) (\<lambda>e. e\<lparr>qr_orchestration_run_id := Some (or_id run)\<rparr>)
                    (alter_slot slot_id (\<lambda>s. s\<lparr>sl_current_orchestration_run_id := Some (or_id run)\<rparr>) q), Inr True)))"

definition int_list_text :: "int list \<Rightarrow> string" where
  "int_list_text ns = ''['' @ join '', '' (map str_int ns) @ '']''"

definition held_elsewhere :: "int list \<Rightarrow> string" where
  "held_elsewhere lanes = ''ticket already occupies lane(s) '' @ int_list_text lanes @ ''; one lane per ticket''"

text \<open>The row of a started head, and of a slot whose occupant has just started.\<close>

definition activated :: "int \<Rightarrow> QueuedRun \<Rightarrow> QueuedRun" where
  "activated now e = e\<lparr>qr_status := ACTIVE, qr_promoted_at := Some now, qr_started_at := Some now\<rparr>"

definition assigned :: "int \<Rightarrow> AgentSlot \<Rightarrow> AgentSlot" where
  "assigned now s = s\<lparr>sl_assigned_at := Some now\<rparr>"

lemma alter_entry_length [simp]: "length (qu_entries (alter_entry i f q)) = length (qu_entries q)"
  by (simp add: alter_entry_def)

lemma reposition_length [simp]: "length (qu_entries (reposition k es q)) = length (qu_entries q)"
  by (induction es arbitrary: k q) simp_all

lemma renumber_length [simp]: "length (qu_entries (renumber n i q)) = length (qu_entries q)"
  by (simp add: renumber_def Let_def)

lemma claim_lane_slot_entries: "claim_lane_slot env n q = (r, s) \<Longrightarrow> qu_entries r = qu_entries q"
  by (auto simp: claim_lane_slot_def claim_slot_row_def Let_def split: option.splits if_splits)

lemma waiting_in_entries: "waiting_in_lane q n = e # es \<Longrightarrow> e \<in> set (qu_entries q)"
  by (metis filter_is_subset list.set_intros(1) set_sort subset_code(1) waiting_in_lane_def)

lemma delete_entry_shorter:
  "e \<in> set (qu_entries q) \<Longrightarrow> length (qu_entries (delete_entry (qr_id e) q)) < length (qu_entries q)"
  unfolding delete_entry_def by (simp add: length_filter_less)

lemma gone_head_shorter:
  assumes "claim_lane_slot env n q = (r, s)" and "waiting_in_lane r n = e # es"
  shows "length (qu_entries (release_slot env i (renumber n None (delete_entry (qr_id e) r)))) < length (qu_entries q)"
  using delete_entry_shorter [OF waiting_in_entries [OF assms(2)]] claim_lane_slot_entries [OF assms(1)]
  by (simp add: release_slot_def)

function start_lane_head ::
    "LaneEnv \<Rightarrow> LaneDispatcher option \<Rightarrow> Queue \<Rightarrow> int \<Rightarrow> QueuedRun option outcome" where
  "start_lane_head env d q n =
     (if le_draining env
      then (case waiting_in_lane q n of
              [] \<Rightarrow> (q, Inr None)
            | head # rest \<Rightarrow> (stamp_refusal env (qr_id head) q, Inr None))
      else (case claim_lane_slot env n q of
              (q, None) \<Rightarrow> (q, Inr None)
            | (q, Some slot) \<Rightarrow>
                (case waiting_in_lane q n of
                   [] \<Rightarrow> (release_slot env (sl_id slot) q, Inr None)
                 | head # rest \<Rightarrow>
                     (case d of
                        None \<Rightarrow> (release_slot env (sl_id slot) q, Inr None)
                      | Some dispatcher \<Rightarrow>
                          (case get_ticket (qu_board q) (qr_ticket_id head) of
                             None \<Rightarrow> start_lane_head env d
                                 (release_slot env (sl_id slot) (renumber n None (delete_entry (qr_id head) q))) n
                           | Some ticket \<Rightarrow>
                               (let elsewhere = tickets_holding_lanes q (Some n) (tk_id ticket) in
                                if elsewhere \<noteq> []
                                then (release_slot env (sl_id slot) (alter_entry (qr_id head)
                                        (refused_with (held_elsewhere elsewhere) (le_now env)) q), Inr None)
                                else and_then (start_entry_work dispatcher q ticket head (sl_id slot)) (\<lambda>q started.
                                       if \<not> started then (release_slot env (sl_id slot) q, Inr None)
                                       else (let q = alter_slot (sl_id slot) (assigned (le_now env)) q;
                                                 q = alter_entry (qr_id head) (activated (le_now env)) q;
                                                 q = renumber n None q
                                             in (q, Inr (get_entry q (qr_id head)))))))))))"
  by pat_completeness auto
termination
  by (relation "measure (\<lambda>(env, d, q, n). length (qu_entries q))")
     (auto intro: gone_head_shorter [OF sym])

declare start_lane_head.simps [simp del]

section \<open>Feeding a lane\<close>

record LaneRequest =
  lr_ticket_id :: string
  lr_slot_number :: int
  lr_auto_approve :: bool
  lr_approve_design_plans :: bool
  lr_auto_repair :: bool
  lr_stop_at_stage_key :: "string option"
  lr_entry_kind :: QueueEntryKind
  lr_stage_key :: string
  lr_driver :: string
  lr_max_stages :: "int option"
  lr_timeout_seconds :: "int option"
  lr_force :: bool

record LaneReply =
  ly_status :: string
  ly_slot_number :: int
  ly_entry_id :: string
  ly_position :: "int option"
  ly_message :: string

text \<open>The row a request becomes: what was asked rides on it until the lane reaches it.\<close>

definition entry_of :: "string \<Rightarrow> LaneEnv \<Rightarrow> Ticket \<Rightarrow> LaneRequest \<Rightarrow> int \<Rightarrow> QueuedRun" where
  "entry_of i env ticket r position =
     (new_entry i (tk_workspace_id ticket) (tk_id ticket) (le_now env))\<lparr>
        qr_slot_number := lr_slot_number r, qr_position := position, qr_auto_approve := lr_auto_approve r,
        qr_approve_design_plans := lr_approve_design_plans r, qr_auto_repair := lr_auto_repair r,
        qr_stop_at_stage_key := (case lr_stop_at_stage_key r of None \<Rightarrow> [] | Some s \<Rightarrow> s),
        qr_entry_kind := lr_entry_kind r, qr_stage_key := lr_stage_key r, qr_driver := lr_driver r,
        qr_max_stages := lr_max_stages r, qr_timeout_seconds := lr_timeout_seconds r,
        qr_force := lr_force r\<rparr>"

text \<open>
  The reply reads the new row's position after the attempt to start the lane: a head of the
  lane whose ticket is gone may have left it.
\<close>

definition added_reply :: "int \<Rightarrow> string \<Rightarrow> QueuedRun option \<Rightarrow> int \<Rightarrow> LaneReply" where
  "added_reply n i started position =
     (case started of
        Some e \<Rightarrow> \<lparr>ly_status = ''started'', ly_slot_number = n, ly_entry_id = i, ly_position = None,
                    ly_message = ''Started in slot '' @ str_int n\<rparr>
      | None \<Rightarrow> \<lparr>ly_status = ''queued'', ly_slot_number = n, ly_entry_id = i, ly_position = Some position,
                  ly_message = ''Queued at position '' @ str_int position @ '' in slot '' @ str_int n\<rparr>)"

definition add_to_lane ::
    "LaneEnv \<Rightarrow> LaneDispatcher option \<Rightarrow> Queue \<Rightarrow> LaneRequest \<Rightarrow> LaneReply outcome" where
  "add_to_lane env d q r =
     (case get_ticket (qu_board q) (lr_ticket_id r) of
        None \<Rightarrow> (q, Inl (ValueError ''Ticket not found''))
      | Some ticket \<Rightarrow>
          (let q = initialize_slots env q; n = lr_slot_number r in
           case slot_numbered q n of
             None \<Rightarrow> (q, Inl (ValueError (''No such execution slot: '' @ str_int n)))
           | Some slot \<Rightarrow>
               if n > le_max_concurrent env
               then (q, Inl (ValueError (''Slot '' @ str_int n @ '' is being retired: the lane count is ''
                      @ str_int (le_max_concurrent env) @ ''. Pick a lane from 1 to ''
                      @ str_int (le_max_concurrent env) @ ''.'')))
               else (case already_queued q (tk_id ticket) (lr_entry_kind r) (lr_stage_key r) of
                  Some existing \<Rightarrow>
                    (q, Inr \<lparr>ly_status = ''queued'', ly_slot_number = qr_slot_number existing,
                      ly_entry_id = qr_id existing, ly_position = Some (qr_position existing),
                      ly_message = ''Already queued in slot '' @ str_int (qr_slot_number existing)
                        @ '' at position '' @ str_int (qr_position existing) @ ''.''\<rparr>)
                | None \<Rightarrow>
                    (let position = int (length (waiting_in_lane q n)) + 1;
                         (i, q) = uuid4 q;
                         q = add_entry (entry_of i env ticket r position) q
                     in and_then (if sl_is_available slot then start_lane_head env d q n else (q, Inr None))
                          (\<lambda>q started.
                             (q, Inr (added_reply n i started
                                (case get_entry q i of Some e \<Rightarrow> qr_position e | None \<Rightarrow> position))))))))"

definition place_at_lane_tail :: "LaneEnv \<Rightarrow> Queue \<Rightarrow> QueuedRun \<Rightarrow> (Queue \<times> int) result" where
  "place_at_lane_tail env q entry =
     bind_result (if qr_slot_number entry > le_max_concurrent env then shortest_lane env q
                  else Inr (qr_slot_number entry)) (\<lambda>lane.
       let position = int (length (waiting_in_lane q lane)) + 1;
           q = alter_entry (qr_id entry) (\<lambda>e. e\<lparr>qr_slot_number := lane, qr_position := position\<rparr>) q;
           q = renumber lane None q
       in Inr (q, case get_entry q (qr_id entry) of Some e \<Rightarrow> qr_position e | None \<Rightarrow> position))"

definition remove_entry :: "Queue \<Rightarrow> string \<Rightarrow> Queue \<times> bool" where
  "remove_entry q entry_id =
     (case get_entry q entry_id of
        None \<Rightarrow> (q, False)
      | Some entry \<Rightarrow>
          if qr_status entry \<notin> set WAITING_STATUSES then (q, False)
          else (renumber (qr_slot_number entry) None (delete_entry entry_id q), True))"

definition move_entry ::
    "LaneEnv \<Rightarrow> LaneDispatcher option \<Rightarrow> Queue \<Rightarrow> string \<Rightarrow> int \<Rightarrow> int \<Rightarrow> bool outcome" where
  "move_entry env d q entry_id slot_number position =
     (case get_entry q entry_id of
        None \<Rightarrow> (q, Inr False)
      | Some entry \<Rightarrow>
          if qr_status entry \<notin> set WAITING_STATUSES then (q, Inr False)
          else if slot_numbered q slot_number = None \<or> slot_number > le_max_concurrent env then (q, Inr False)
          else
            (let from_lane = qr_slot_number entry;
                 q = alter_entry entry_id (\<lambda>e. e\<lparr>qr_slot_number := slot_number,
                       qr_position := 10000 + max 0 position\<rparr>) q;
                 q = (if from_lane \<noteq> slot_number then renumber from_lane None q else q);
                 q = renumber slot_number (Some (entry_id, position)) q
             in and_then (case slot_numbered q slot_number of
                            None \<Rightarrow> (q, Inr None)
                          | Some target \<Rightarrow>
                              if sl_is_available target then start_lane_head env d q slot_number else (q, Inr None))
                  (\<lambda>q started. (q, Inr True))))"

fun rehome_each :: "LaneEnv \<Rightarrow> Queue \<Rightarrow> QueuedRun list \<Rightarrow> Queue result" where
  "rehome_each env q [] = Inr q"
| "rehome_each env q (entry # stranded) =
     bind_result (shortest_lane env q) (\<lambda>target.
       let position = int (length (waiting_in_lane q target)) + 1 in
       rehome_each env (alter_entry (qr_id entry)
         (\<lambda>e. e\<lparr>qr_slot_number := target, qr_position := position\<rparr>) q) stranded)"

definition rehome_retired_lane_entries :: "LaneEnv \<Rightarrow> Queue \<Rightarrow> (Queue \<times> nat) result" where
  "rehome_retired_lane_entries env q =
     (let stranded = sort_key qr_slot_number (sort_key qr_position (filter (\<lambda>e.
            qr_slot_number e > le_max_concurrent env \<and> qr_status e \<in> set WAITING_STATUSES) (qu_entries q)))
      in if stranded = [] then Inr (q, 0)
         else bind_result (rehome_each env (initialize_slots env q) stranded) (\<lambda>q. Inr (q, length stranded)))"

definition ensure_active_entry_for_orchestration ::
    "LaneEnv \<Rightarrow> Queue \<Rightarrow> int \<Rightarrow> string \<Rightarrow> Queue \<times> string option" where
  "ensure_active_entry_for_orchestration env q slot_number orch_id =
     (case find (\<lambda>e. qr_orchestration_run_id e = Some orch_id) (qu_entries q) of
        Some existing \<Rightarrow> (q, Some (qr_id existing))
      | None \<Rightarrow>
          (case get_orch q orch_id of
             None \<Rightarrow> (q, None)
           | Some orch \<Rightarrow>
               (let (i, q) = uuid4 q in
                (add_entry ((new_entry i (or_workspace_id orch) (or_ticket_id orch) (le_now env))\<lparr>
                    qr_orchestration_run_id := Some (or_id orch), qr_slot_number := slot_number,
                    qr_position := 1, qr_status := ACTIVE, qr_promoted_at := Some (le_now env),
                    qr_started_at := Some (case or_started_at orch of Some t \<Rightarrow> t | None \<Rightarrow> le_now env)\<rparr>) q,
                 Some i))))"

section \<open>When an orchestration ends\<close>

definition slot_left_busy_by :: "Queue \<Rightarrow> QueuedRun \<Rightarrow> AgentSlot option" where
  "slot_left_busy_by q entry =
     (case slot_numbered q (qr_slot_number entry) of
        None \<Rightarrow> None
      | Some slot \<Rightarrow>
          if sl_is_available slot then None
          else if \<not> slot_is_busy_with_nothing slot then None
          else if claim_is_fresh slot None (qr_promoted_at entry) then None
          else Some slot)"

text \<open>What stays on an entry that already gave a reason.\<close>

definition or_reason :: "string \<Rightarrow> QueuedRun \<Rightarrow> QueuedRun" where
  "or_reason reason e = e\<lparr>qr_failure_reason := (if qr_failure_reason e \<noteq> [] then qr_failure_reason e else reason)\<rparr>"

definition hold_lane_for_repair :: "LaneEnv \<Rightarrow> Queue \<Rightarrow> QueuedRun \<Rightarrow> (Queue \<times> bool) result" where
  "hold_lane_for_repair env q entry =
     (case named (qr_orchestration_run_id entry) of
        None \<Rightarrow> Inr (q, False)
      | Some orch_id \<Rightarrow>
          (case get_orch q orch_id of
             None \<Rightarrow> Inr (q, False)
           | Some orch \<Rightarrow>
               if or_status orch \<noteq> OrchestrationRunStatus.BLOCKED then Inr (q, False)
               else (case get_ticket (qu_board q) (qr_ticket_id entry) of
                       None \<Rightarrow> Inr (q, False)
                     | Some ticket \<Rightarrow>
                         (let spent = repair_exhausted entry (le_now env) in
                          if spent \<noteq> [] then Inr (alter_entry (qr_id entry) (or_reason spent) q, False)
                          else (case resolve_repair_route env q ticket of
                                  None \<Rightarrow> Inr (q, False)
                                | Some route \<Rightarrow>
                                    bind_result (hold_for_repair env q (qr_id entry) ticket route)
                                      (\<lambda>(q, refused). Inr (q, refused = [])))))))"

definition settled_entry :: "QueuedRun \<Rightarrow> QueuedRun" where
  "settled_entry e = end_repair (e\<lparr>qr_status := QueuePosition.STARTED\<rparr>)"

definition on_orchestration_complete ::
    "LaneEnv \<Rightarrow> LaneDispatcher option \<Rightarrow> Queue \<Rightarrow> string \<Rightarrow> unit outcome" where
  "on_orchestration_complete env d q orch_id =
     (let entry = find (\<lambda>e. qr_orchestration_run_id e = Some orch_id) (qu_entries q);
          held = find (\<lambda>s. sl_current_orchestration_run_id s = Some orch_id) (qu_slots q);
          slot = (case held of
                    Some s \<Rightarrow> Some s
                  | None \<Rightarrow> (case entry of None \<Rightarrow> None | Some e \<Rightarrow> slot_left_busy_by q e))
      in and_then (case entry of
             None \<Rightarrow> (q, Inr False)
           | Some e \<Rightarrow> if held = None then (q, Inr False) else outcome_of q (hold_lane_for_repair env q e))
         (\<lambda>q kept.
           if kept then (q, Inr ())
           else
             (let q = (case entry of
                         None \<Rightarrow> q
                       | Some e \<Rightarrow> if qr_status e \<noteq> QueuePosition.STARTED then alter_entry (qr_id e) settled_entry q else q)
              in case slot of
                   None \<Rightarrow> (q, Inr ())
                 | Some s \<Rightarrow>
                     and_then (start_lane_head env d (release_slot env (sl_id s) q) (sl_slot_number s))
                       (\<lambda>q started. (q, Inr ())))))"

end
