(* ===== verification/SlotHealing.thy ===== *)
theory SlotHealing
  imports QueueLanes
begin

text \<open>
  The sweep over all lanes: the rest of \<open>services/queue_lanes.py\<close> (stranded and finished entries,
  entries of settled tickets, repair holds, \<open>reconcile_lanes\<close>), \<open>services/slot_claim_healing.py\<close>
  (claims the lanes did not make) and \<open>services/lane_resize.py\<close>.
\<close>

section \<open>Entries\<close>

definition requeued :: "QueuedRun \<Rightarrow> QueuedRun" where
  "requeued e = e\<lparr>qr_status := QueuePosition.QUEUED, qr_promoted_at := None, qr_started_at := None\<rparr>"

definition requeue_stranded_entries :: "Queue \<Rightarrow> Queue" where
  "requeue_stranded_entries q =
     (let stranded = filter (\<lambda>e. qr_run_id e = None \<and> qr_orchestration_run_id e = None
            \<and> qr_status e \<in> {PROMOTED, ACTIVE}) (qu_entries q)
      in if stranded = [] then q
         else fold (\<lambda>n. renumber n None) (remdups (map qr_slot_number stranded))
                (fold (\<lambda>e. alter_entry (qr_id e) requeued) stranded q))"

definition cancel_terminal_ticket_entries :: "Queue \<Rightarrow> Queue \<times> int list" where
  "cancel_terminal_ticket_entries q =
     (let stale = filter (\<lambda>e. qr_status e \<in> set WAITING_STATUSES
            \<and> (case get_ticket (qu_board q) (qr_ticket_id e) of
                 None \<Rightarrow> False
               | Some t \<Rightarrow> tk_state t \<in> {TicketState.DONE, TicketState.WONT_DO})) (qu_entries q)
      in if stale = [] then (q, [])
         else (let lanes = remdups (map qr_slot_number stale);
                   q = fold (\<lambda>e. alter_entry (qr_id e) (\<lambda>x. x\<lparr>qr_status := QueuePosition.CANCELLED\<rparr>)) stale q
               in (fold (\<lambda>n. renumber n None) lanes q, sort lanes)))"

definition entry_work_is_over :: "Queue \<Rightarrow> QueuedRun \<Rightarrow> bool" where
  "entry_work_is_over q entry =
     (case named (qr_orchestration_run_id entry) of
        Some i \<Rightarrow> (case get_orch q i of None \<Rightarrow> True | Some orch \<Rightarrow> or_status orch \<notin> set LIVE_ORCHESTRATION_STATUSES)
      | None \<Rightarrow>
          (case named (qr_run_id entry) of
             Some i \<Rightarrow> (case get_run q i of None \<Rightarrow> True | Some run \<Rightarrow> rn_status run \<notin> set LIVE_RUN_STATUSES)
           | None \<Rightarrow> False))"

definition settle_finished_entries :: "Queue \<Rightarrow> Queue \<times> string list" where
  "settle_finished_entries q =
     (let finished = filter (\<lambda>e. qr_status e \<in> {ACTIVE, PROMOTED} \<and> entry_work_is_over q e) (qu_entries q)
      in (fold (\<lambda>e. alter_entry (qr_id e) (\<lambda>x. x\<lparr>qr_status := QueuePosition.STARTED\<rparr>)) finished q,
          map qr_id finished))"

section \<open>Repair holds\<close>

definition slot_holding :: "Queue \<Rightarrow> QueuedRun \<Rightarrow> AgentSlot option" where
  "slot_holding q entry =
     (let by_orch = (case named (qr_orchestration_run_id entry) of
                       None \<Rightarrow> None
                     | Some i \<Rightarrow> find (\<lambda>s. sl_current_orchestration_run_id s = Some i) (qu_slots q))
      in case by_orch of
           Some s \<Rightarrow> Some s
         | None \<Rightarrow> (case named (qr_run_id entry) of
                      None \<Rightarrow> None
                    | Some i \<Rightarrow> find (\<lambda>s. sl_current_run_id s = Some i) (qu_slots q)))"

definition settle_repair ::
    "LaneEnv \<Rightarrow> LaneDispatcher option \<Rightarrow> Queue \<Rightarrow> QueuedRun \<Rightarrow> string \<Rightarrow> unit outcome" where
  "settle_repair env d q entry reason =
     (let slot = slot_holding q entry;
          q = alter_entry (qr_id entry) (\<lambda>e. end_repair ((or_reason reason e)\<lparr>
                qr_status := QueuePosition.STARTED, qr_last_failed_at := Some (le_now env)\<rparr>)) q
      in case slot of
           None \<Rightarrow> (q, Inr ())
         | Some s \<Rightarrow> and_then (start_lane_head env d (release_slot env (sl_id s) q) (sl_slot_number s))
                       (\<lambda>q started. (q, Inr ())))"

text \<open>The re-dispatch of a held entry, once nothing speaks against it: counted before it is tried.\<close>

definition attempt_repair ::
    "LaneEnv \<Rightarrow> LaneDispatcher \<Rightarrow> Queue \<Rightarrow> QueuedRun \<Rightarrow> Ticket \<Rightarrow> AgentSlot \<Rightarrow> unit outcome" where
  "attempt_repair env d q entry ticket slot =
     (let entry = entry\<lparr>qr_repair_attempts := qr_repair_attempts entry + 1\<rparr>;
          q = alter_entry (qr_id entry) (\<lambda>e. e\<lparr>qr_repair_attempts := qr_repair_attempts e + 1\<rparr>) q
      in and_then (start_entry_work d q ticket entry (sl_id slot)) (\<lambda>q started.
           if started
           then (alter_entry (qr_id entry) (\<lambda>e. end_repair (activated (le_now env) e))
                   (alter_slot (sl_id slot) (assigned (le_now env)) q), Inr ())
           else (alter_entry (qr_id entry) (\<lambda>e. e\<lparr>qr_last_failed_at := Some (le_now env)\<rparr>) q, Inr ())))"

text \<open>Without a dispatcher \<open>_start_entry_work\<close> is false: the attempt is spent all the same.\<close>

definition attempt_or_spend ::
    "LaneEnv \<Rightarrow> LaneDispatcher option \<Rightarrow> Queue \<Rightarrow> QueuedRun \<Rightarrow> Ticket \<Rightarrow> AgentSlot \<Rightarrow> unit outcome" where
  "attempt_or_spend env d q entry ticket slot =
     (case d of
        Some d \<Rightarrow> attempt_repair env d q entry ticket slot
      | None \<Rightarrow> (alter_entry (qr_id entry) (\<lambda>e. e\<lparr>qr_repair_attempts := qr_repair_attempts e + 1,
                  qr_last_failed_at := Some (le_now env)\<rparr>) q, Inr ()))"

definition drive_one_repair ::
    "LaneEnv \<Rightarrow> LaneDispatcher option \<Rightarrow> Queue \<Rightarrow> QueuedRun \<Rightarrow> unit outcome" where
  "drive_one_repair env d q entry =
     (case get_ticket (qu_board q) (qr_ticket_id entry) of
        None \<Rightarrow> settle_repair env d q entry ''the ticket went away while its block was being repaired''
      | Some ticket \<Rightarrow>
          if tk_state ticket \<in> {TicketState.DONE, TicketState.WONT_DO, TicketState.PARKED}
          then settle_repair env d q entry (''the ticket is '' @ ticket_state_value (tk_state ticket)
                  @ ''; nothing left to repair'')
          else (let spent = repair_exhausted entry (le_now env) in
             if spent \<noteq> [] then settle_repair env d q entry spent
             else if tk_state ticket = TicketState.BLOCKED \<and> resolve_repair_route env q ticket = None
             then settle_repair env d q entry
                    (if tk_blocking_issues ticket \<noteq> [] then tk_blocking_issues ticket
                     else ''the block has no repair route left'')
             else (case slot_holding q entry of
                None \<Rightarrow> settle_repair env d q entry
                         ''the lane was reclaimed while the block was being repaired''
              | Some slot \<Rightarrow>
                  (let elsewhere = tickets_holding_lanes q (Some (sl_slot_number slot)) (tk_id ticket) in
                   if elsewhere \<noteq> []
                   then settle_repair env d q entry (''the ticket was restarted in lane(s) ''
                          @ int_list_text elsewhere)
                   else and_then (outcome_of q (prepare_rerun env q ticket)) (\<lambda>q refused.
                     let ticket = (case get_ticket (qu_board q) (tk_id ticket) of Some t \<Rightarrow> t | None \<Rightarrow> ticket);
                         refused = (if refused \<noteq> [] then refused else rerun_refusal env q ticket)
                     in if refused \<noteq> [] then settle_repair env d q entry refused
                        else attempt_or_spend env d q entry ticket slot)))))"

text \<open>
  Every path of \<open>_drive_one_repair\<close> returns true, so every entry driven is reported. The rows
  are the ones read before the first of them is driven; a row that is gone has nothing to drive.
\<close>

fun drive_each :: "LaneEnv \<Rightarrow> LaneDispatcher option \<Rightarrow> Queue \<Rightarrow> string list \<Rightarrow> string list outcome" where
  "drive_each env d q [] = (q, Inr [])"
| "drive_each env d q (i # is) =
     (case get_entry q i of
        None \<Rightarrow> drive_each env d q is
      | Some entry \<Rightarrow>
          and_then (drive_one_repair env d q entry) (\<lambda>q done.
          and_then (drive_each env d q is) (\<lambda>q driven. (q, Inr (i # driven)))))"

definition drive_repairing_entries :: "LaneEnv \<Rightarrow> LaneDispatcher option \<Rightarrow> Queue \<Rightarrow> string list outcome" where
  "drive_repairing_entries env d q =
     drive_each env d q (map qr_id (filter (\<lambda>e. qr_status e = REPAIRING) (qu_entries q)))"

section \<open>Claims the lanes did not make\<close>

text \<open>
  The walk to the ancestors ends because it never visits a parent twice; a parent that is not
  a row ends it at once.
\<close>

function covered_walk :: "Queue \<Rightarrow> string list \<Rightarrow> string list \<Rightarrow> Ticket option \<Rightarrow> bool" where
  "covered_walk q held seen ticket =
     (case ticket of
        None \<Rightarrow> False
      | Some t \<Rightarrow>
          (case parent_id t of
             None \<Rightarrow> False
           | Some p \<Rightarrow>
               if p \<in> set seen then False
               else if list_ex (\<lambda>r. or_ticket_id r = p \<and> or_status r \<in> set LIVE_ORCHESTRATION_STATUSES
                                 \<and> or_id r \<in> set held) (qu_orchs q) then True
               else (case get_ticket (qu_board q) p of
                       None \<Rightarrow> False
                     | Some parent \<Rightarrow> covered_walk q held (p # seen) (Some parent))))"
  by pat_completeness auto
termination
proof (relation "measure (\<lambda>(q, held, seen, ticket). unseen (qu_board q) seen)", goal_cases)
  case (2 q held seen ticket t p parent)
  then have "p \<in> set (ids_of (qu_board q))" by (metis get_ticket_None_iff option.distinct(1))
  from unseen_less [OF this 2(3), of "p # seen"] show ?case by simp
qed simp

declare covered_walk.simps [simp del]

definition ticket_covered_by_ancestor_slot :: "Queue \<Rightarrow> string \<Rightarrow> string list \<Rightarrow> bool" where
  "ticket_covered_by_ancestor_slot q ticket_id held = covered_walk q held [] (get_ticket (qu_board q) ticket_id)"

definition held_orchestrations :: "Queue \<Rightarrow> string list" where
  "held_orchestrations q = concat (map (\<lambda>s. case named (sl_current_orchestration_run_id s) of
     None \<Rightarrow> [] | Some i \<Rightarrow> [i]) (qu_slots q))"

definition nested_claim :: "Queue \<Rightarrow> string list \<Rightarrow> AgentSlot \<Rightarrow> bool" where
  "nested_claim q held slot =
     (case named (sl_current_orchestration_run_id slot) of
        None \<Rightarrow> False
      | Some orch_id \<Rightarrow>
          (case get_orch q orch_id of
             None \<Rightarrow> False
           | Some orch \<Rightarrow> ticket_covered_by_ancestor_slot q (or_ticket_id orch) (filter (\<lambda>i. i \<noteq> orch_id) held)))"

definition freed_nested :: "AgentSlot \<Rightarrow> AgentSlot" where
  "freed_nested s = s\<lparr>sl_is_available := True, sl_current_orchestration_run_id := None,
     sl_current_run_id := None, sl_assigned_at := None\<rparr>"

definition release_nested_slot_claims :: "LaneEnv \<Rightarrow> Queue \<Rightarrow> Queue \<times> int list" where
  "release_nested_slot_claims env q =
     (let q = initialize_slots env q;
          held = held_orchestrations q;
          nested = filter (nested_claim q held) (qu_slots q)
      in (fold (\<lambda>s. alter_slot (sl_id s) freed_nested) nested q, map sl_slot_number nested))"

text \<open>An orchestration with no start time sorts first, as \<open>NULL\<close> does.\<close>

definition by_started :: "OrchestrationRun list \<Rightarrow> OrchestrationRun list" where
  "by_started runs = filter (\<lambda>r. or_started_at r = None) runs
     @ sort_key (\<lambda>r. the (or_started_at r)) (filter (\<lambda>r. or_started_at r \<noteq> None) runs)"

definition orphans :: "Queue \<Rightarrow> OrchestrationRun list" where
  "orphans q =
     (let held = held_orchestrations q in
      filter (\<lambda>run. or_id run \<notin> set held \<and> \<not> ticket_covered_by_ancestor_slot q (or_ticket_id run) held
             \<and> tickets_holding_lanes q None (or_ticket_id run) = [])
        (by_started (filter (\<lambda>r. or_status r \<in> set LIVE_ORCHESTRATION_STATUSES) (qu_orchs q))))"

definition adopted :: "int \<Rightarrow> string \<Rightarrow> AgentSlot \<Rightarrow> AgentSlot" where
  "adopted now orch_id s = s\<lparr>sl_is_available := False, sl_current_orchestration_run_id := Some orch_id,
     sl_current_run_id := None, sl_assigned_at := Some now\<rparr>"

fun adopt_each :: "LaneEnv \<Rightarrow> (OrchestrationRun \<times> AgentSlot) list \<Rightarrow> Queue \<Rightarrow> Queue" where
  "adopt_each env [] q = q"
| "adopt_each env ((run, slot) # rest) q =
     (let q = alter_slot (sl_id slot) (adopted (le_now env) (or_id run)) q
      in adopt_each env rest
           (fst (ensure_active_entry_for_orchestration env q (sl_slot_number slot) (or_id run))))"

definition claim_orphaned_orchestrations :: "LaneEnv \<Rightarrow> Queue \<Rightarrow> Queue \<times> int list" where
  "claim_orphaned_orchestrations env q =
     (let q = initialize_slots env q;
          found = orphans q
      in if found = [] then (q, [])
         else (let free = sort_key sl_slot_number (filter sl_is_available (qu_slots q));
                   pairs = zip found free
               in (adopt_each env pairs q, map (sl_slot_number \<circ> snd) pairs)))"

section \<open>The reconciliation\<close>

definition idle_lanes_with_work :: "LaneEnv \<Rightarrow> Queue \<Rightarrow> Queue \<times> int list" where
  "idle_lanes_with_work env q =
     (let q = initialize_slots env q in
      (q, filter (\<lambda>n. waiting_in_lane q n \<noteq> []) (map sl_slot_number (filter sl_is_available (qu_slots q)))))"

fun start_lanes :: "LaneEnv \<Rightarrow> LaneDispatcher option \<Rightarrow> int list \<Rightarrow> Queue \<Rightarrow> unit outcome" where
  "start_lanes env d [] q = (q, Inr ())"
| "start_lanes env d (n # ns) q = and_then (start_lane_head env d q n) (\<lambda>q started. start_lanes env d ns q)"

definition reconcile_lanes :: "LaneEnv \<Rightarrow> LaneDispatcher option \<Rightarrow> Queue \<Rightarrow> int list outcome" where
  "reconcile_lanes env d q =
     (let q = requeue_stranded_entries q in
      and_then (outcome_of q (rehome_retired_lane_entries env q)) (\<lambda>q moved.
      and_then (drive_repairing_entries env d q) (\<lambda>q repaired.
        let (q, cancelled) = cancel_terminal_ticket_entries q;
            (q, settled) = settle_finished_entries q;
            (q, freed) = reconcile_slots env q;
            (q, nested) = release_nested_slot_claims env q;
            freed = freed @ nested;
            (q, idle) = idle_lanes_with_work env q
        in and_then (start_lanes env d (sort (remdups (freed @ idle))) q) (\<lambda>q done.
             (fst (claim_orphaned_orchestrations env q), Inr freed)))))"

record LaneResize =
  rz_lane_count :: int
  rz_retiring_lanes :: "int list"
  rz_moved_entries :: nat

text \<open>Which idle lane has work is asked again before each start.\<close>

fun start_waiting_lanes :: "LaneEnv \<Rightarrow> LaneDispatcher option \<Rightarrow> int list \<Rightarrow> Queue \<Rightarrow> unit outcome" where
  "start_waiting_lanes env d [] q = (q, Inr ())"
| "start_waiting_lanes env d (n # ns) q =
     and_then (if waiting_in_lane q n \<noteq> [] then start_lane_head env d q n else (q, Inr None))
       (\<lambda>q started. start_waiting_lanes env d ns q)"

definition resize_lanes :: "LaneEnv \<Rightarrow> LaneDispatcher option \<Rightarrow> Queue \<Rightarrow> int \<Rightarrow> LaneResize outcome" where
  "resize_lanes env d q n =
     (case store_lane_count n q of
        Inl e \<Rightarrow> (q, Inl e)
      | Inr q \<Rightarrow>
          (let env = env\<lparr>le_max_concurrent := n\<rparr>; q = initialize_slots env q in
           and_then (outcome_of q (rehome_retired_lane_entries env q)) (\<lambda>q moved.
           and_then (if moved = 0 then (q, Inr ())
                     else start_waiting_lanes env d (map sl_slot_number (filter sl_is_available (qu_slots q))) q)
             (\<lambda>q done.
                (q, Inr \<lparr>rz_lane_count = n,
                   rz_retiring_lanes = sort (filter (\<lambda>m. m > n) (map sl_slot_number (qu_slots q))),
                   rz_moved_entries = moved\<rparr>)))))"

end
