(* ===== verification/LaneOrder.thy ===== *)
theory LaneOrder
  imports SlotHealing
begin

text \<open>
  The lanes as queues. \<open>lane q n\<close> reads the state as the list of entries waiting in lane \<open>n\<close>;
  a lane is \<open>numbered\<close> when their positions are 1, 2, 3, and so on. Every operation of
  \<open>services/queue_lanes.py\<close> is shown to be an operation on these lists.
\<close>

definition lane :: "Queue \<Rightarrow> int \<Rightarrow> string list" where
  "lane q n = map qr_id (waiting_in_lane q n)"

definition numbered :: "Queue \<Rightarrow> int \<Rightarrow> bool" where
  "numbered q n \<longleftrightarrow> map qr_position (waiting_in_lane q n) = [1..int (length (waiting_in_lane q n))]"

definition entries_keyed :: "Queue \<Rightarrow> bool" where
  "entries_keyed q \<longleftrightarrow> distinct (map qr_id (qu_entries q))"

definition lanes_sound :: "Queue \<Rightarrow> bool" where
  "lanes_sound q \<longleftrightarrow> entries_keyed q \<and> (\<forall>n. numbered q n)"

section \<open>Sorting by a key that is already in order\<close>

lemma sort_key_ascending:
  assumes "mset ys = mset xs" and "sorted_wrt (<) (map f ys)"
  shows "sort_key f xs = ys"
proof (rule sort_key_inj_key_eq)
  from assms(2) have "sorted (map f ys) \<and> distinct (map f ys)" by (simp add: strict_sorted_iff)
  then show "sorted (map f ys)" and "inj_on f (set xs)"
    using mset_eq_setD [OF assms(1)] by (simp_all add: distinct_map)
qed (simp add: assms(1))

lemma mset_waiting: "mset (waiting_in_lane q n) = mset (filter (waits_in n) (qu_entries q))"
  by (simp add: waiting_in_lane_def)

lemma set_waiting: "set (waiting_in_lane q n) = {e \<in> set (qu_entries q). waits_in n e}"
  by (simp add: waiting_in_lane_def)

lemma distinct_waiting: "entries_keyed q \<Longrightarrow> distinct (map qr_id (waiting_in_lane q n))"
proof -
  assume "entries_keyed q"
  then have "distinct (map qr_id (filter (waits_in n) (qu_entries q)))"
    by (simp add: entries_keyed_def distinct_map_filter)
  then show ?thesis
    by (metis mset_waiting distinct_map mset_eq_imp_distinct_iff mset_eq_setD)
qed

lemma entry_eq:
  "entries_keyed q \<Longrightarrow> d \<in> set (qu_entries q) \<Longrightarrow> e \<in> set (qu_entries q) \<Longrightarrow> qr_id d = qr_id e \<Longrightarrow> d = e"
  by (auto simp: entries_keyed_def distinct_map dest: inj_onD)

lemma get_entry_iff: "entries_keyed q \<Longrightarrow> get_entry q i = Some e \<longleftrightarrow> e \<in> set (qu_entries q) \<and> qr_id e = i"
  by (simp add: get_entry_def entries_keyed_def find_key_iff)

lemma entries_alter: "qu_entries (alter_entry i f q) = map (\<lambda>e. if qr_id e = i then f e else e) (qu_entries q)"
  by (simp add: alter_entry_def)

lemma keyed_alter:
  assumes "entries_keyed q" and "\<And>e. qr_id (f e) = qr_id e"
  shows "entries_keyed (alter_entry i f q)"
proof -
  have "map qr_id (qu_entries (alter_entry i f q)) = map qr_id (qu_entries q)"
    using assms(2) by (simp add: entries_alter)
  with assms(1) show ?thesis by (simp add: entries_keyed_def)
qed

section \<open>Renumbering\<close>

text \<open>What \<open>reposition\<close> writes on a row: its place in the list, if it is there.\<close>

definition placed :: "int \<Rightarrow> string list \<Rightarrow> QueuedRun \<Rightarrow> QueuedRun" where
  "placed k is e = (case index_of is (qr_id e) of None \<Rightarrow> e | Some j \<Rightarrow> e\<lparr>qr_position := k + int j\<rparr>)"

lemma placed_simps [simp]:
  "qr_id (placed k is e) = qr_id e" "qr_slot_number (placed k is e) = qr_slot_number e"
  "qr_status (placed k is e) = qr_status e" "waits_in n (placed k is e) = waits_in n e"
  "qr_ticket_id (placed k is e) = qr_ticket_id e" "qr_run_id (placed k is e) = qr_run_id e"
  "qr_orchestration_run_id (placed k is e) = qr_orchestration_run_id e"
  "qr_repair_attempts (placed k is e) = qr_repair_attempts e" "qr_promoted_at (placed k is e) = qr_promoted_at e"
  "qr_repairing_since (placed k is e) = qr_repairing_since e" "qr_entry_kind (placed k is e) = qr_entry_kind e"
  by (simp_all add: placed_def waits_in_def split: option.split)

lemma reposition_fields [simp, row_simps]:
  "qu_slots (reposition k es q) = qu_slots q" "qu_orchs (reposition k es q) = qu_orchs q"
  "qu_board (reposition k es q) = qu_board q" "qu_ledger (reposition k es q) = qu_ledger q"
  "qu_next_id (reposition k es q) = qu_next_id q" "qu_instances (reposition k es q) = qu_instances q"
  by (induction es arbitrary: k q) simp_all

lemma renumber_fields [simp, row_simps]:
  "qu_slots (renumber n i q) = qu_slots q" "qu_orchs (renumber n i q) = qu_orchs q"
  "qu_board (renumber n i q) = qu_board q" "qu_ledger (renumber n i q) = qu_ledger q"
  "qu_next_id (renumber n i q) = qu_next_id q" "qu_instances (renumber n i q) = qu_instances q"
  by (simp_all add: renumber_def Let_def)

lemma entries_reposition:
  "distinct (map qr_id es) \<Longrightarrow> qu_entries (reposition k es q) = map (placed k (map qr_id es)) (qu_entries q)"
proof (induction es arbitrary: k q)
  case Nil
  then show ?case by (simp add: placed_def [abs_def])
next
  case (Cons e es)
  have "placed (k + 1) (map qr_id es) (if qr_id x = qr_id e then x\<lparr>qr_position := k\<rparr> else x)
      = placed k (map qr_id (e # es)) x" for x
    using Cons.prems by (auto simp: placed_def dest: index_of_in_set split: option.split)
  with Cons show ?case by (simp add: entries_alter)
qed

lemma upto_counted: "[k..k + int n - 1] = map (\<lambda>j. k + int j) [0..<n]"
proof (induction n)
  case (Suc n)
  have "[k..k + int (Suc n) - 1] = [k..k + int n - 1] @ [k + int n]"
    using upto_rec2 [of k "k + int n"] by simp
  with Suc show ?case by simp
qed simp

lemma upto_one: "[1..int n] = map (\<lambda>j. 1 + int j) [0..<n]"
  using upto_counted [of 1 n] by simp

lemma map_placed_positions:
  assumes "distinct (map qr_id ws)"
  shows "map qr_position (map (placed k (map qr_id ws)) ws) = map (\<lambda>j. k + int j) [0..<length ws]"
proof (rule nth_equalityI)
  fix j assume "j < length (map qr_position (map (placed k (map qr_id ws)) ws))"
  then have j: "j < length ws" by simp
  then have "index_of (map qr_id ws) (qr_id (ws ! j)) = Some j"
    using index_of_nth [of "map qr_id ws" j] assms by simp
  with j show "map qr_position (map (placed k (map qr_id ws)) ws) ! j = map (\<lambda>j. k + int j) [0..<length ws] ! j"
    by (simp add: placed_def)
qed simp

lemma filter_waits_placed:
  "filter (waits_in m) (map (placed k is) es) = map (placed k is) (filter (waits_in m) es)"
  by (simp add: filter_map o_def)

lemma waiting_reposition:
  assumes "entries_keyed q" and "mset ws = mset (waiting_in_lane q n)"
  shows "waiting_in_lane (reposition 1 ws q) n = map (placed 1 (map qr_id ws)) ws"
    and "m \<noteq> n \<Longrightarrow> waiting_in_lane (reposition 1 ws q) m = waiting_in_lane q m"
proof -
  have ws: "mset ws = mset (filter (waits_in n) (qu_entries q))"
    using assms(2) by (simp add: mset_waiting)
  have dist: "distinct (map qr_id ws)"
    using distinct_waiting [OF assms(1), of n] assms(2)
    by (metis mset_map mset_eq_imp_distinct_iff)
  note rows = entries_reposition [OF dist, of 1 q]
  show "waiting_in_lane (reposition 1 ws q) n = map (placed 1 (map qr_id ws)) ws"
    unfolding waiting_in_lane_def rows filter_waits_placed
  proof (rule sort_key_ascending)
    show "mset (map (placed 1 (map qr_id ws)) ws)
        = mset (map (placed 1 (map qr_id ws)) (filter (waits_in n) (qu_entries q)))"
      using ws by (metis mset_map)
    show "sorted_wrt (<) (map qr_position (map (placed 1 (map qr_id ws)) ws))"
      unfolding map_placed_positions [OF dist] by (simp add: sorted_wrt_map sorted_wrt_upt)
  qed
  assume m: "m \<noteq> n"
  have "placed 1 (map qr_id ws) e = e" if "e \<in> set (filter (waits_in m) (qu_entries q))" for e
  proof -
    from that have e: "e \<in> set (qu_entries q)" "waits_in m e" by simp_all
    have "qr_id e \<notin> qr_id ` set ws"
    proof
      assume "qr_id e \<in> qr_id ` set ws"
      then obtain d where "d \<in> set ws" "qr_id d = qr_id e" by auto
      moreover from this(1) have "d \<in> set (qu_entries q)" "waits_in n d"
        using mset_eq_setD [OF ws] by auto
      ultimately have "d = e" using e entry_eq [OF assms(1)] by blast
      with \<open>waits_in n d\<close> e(2) m show False by (simp add: waits_in_def)
    qed
    then have none: "index_of (map qr_id ws) (qr_id e) = None" by simp
    show ?thesis by (simp only: placed_def none option.case)
  qed
  then have "map (placed 1 (map qr_id ws)) (filter (waits_in m) (qu_entries q)) = filter (waits_in m) (qu_entries q)"
    by (rule map_idI)
  then show "waiting_in_lane (reposition 1 ws q) m = waiting_in_lane q m"
    by (simp add: waiting_in_lane_def rows filter_waits_placed)
qed

lemma lane_reposition:
  assumes "entries_keyed q" and "mset ws = mset (waiting_in_lane q n)"
  shows "lane (reposition 1 ws q) n = map qr_id ws" and "numbered (reposition 1 ws q) n"
    and "m \<noteq> n \<Longrightarrow> lane (reposition 1 ws q) m = lane q m"
    and "m \<noteq> n \<Longrightarrow> numbered (reposition 1 ws q) m = numbered q m"
    and "entries_keyed (reposition 1 ws q)"
proof -
  have dist: "distinct (map qr_id ws)"
    using distinct_waiting [OF assms(1), of n] assms(2) by (metis mset_map mset_eq_imp_distinct_iff)
  note waiting = waiting_reposition [OF assms]
  show "lane (reposition 1 ws q) n = map qr_id ws" by (simp add: lane_def waiting)
  show "numbered (reposition 1 ws q) n"
    unfolding numbered_def waiting(1) map_placed_positions [OF dist] by (simp add: upto_one)
  show "m \<noteq> n \<Longrightarrow> lane (reposition 1 ws q) m = lane q m" by (simp add: lane_def waiting)
  show "m \<noteq> n \<Longrightarrow> numbered (reposition 1 ws q) m = numbered q m" by (simp add: numbered_def waiting)
  show "entries_keyed (reposition 1 ws q)"
    using assms(1) by (simp add: entries_keyed_def entries_reposition [OF dist] o_def)
qed

text \<open>The list operation behind a move: out of the line, then in at the clamped place.\<close>

definition insert_at :: "string \<Rightarrow> int \<Rightarrow> string list \<Rightarrow> string list" where
  "insert_at i target line =
     (let line = filter (\<lambda>j. j \<noteq> i) line; index = nat (max 0 (min (int (length line)) (target - 1)))
      in take index line @ i # drop index line)"

lemma insert_moved_ids:
  assumes "i \<in> qr_id ` set ws"
  shows "map qr_id (insert_moved i target ws) = insert_at i target (map qr_id ws)"
proof -
  from assms obtain e where e: "find (\<lambda>e. qr_id e = i) ws = Some e"
    by (cases "find (\<lambda>e. qr_id e = i) ws") (auto simp: find_None_iff')
  then have "qr_id e = i" by (auto dest: find_in)
  with e show ?thesis
    by (simp add: insert_moved_def insert_at_def Let_def filter_map o_def take_map drop_map)
qed

lemma mset_insert_moved:
  assumes "distinct (map qr_id ws)"
  shows "mset (insert_moved i target ws) = mset ws"
proof (cases "find (\<lambda>e. qr_id e = i) ws")
  case (Some e)
  then have e: "e \<in> set ws" "qr_id e = i" by (auto dest: find_in)
  have "mset (filter (\<lambda>x. qr_id x \<noteq> i) ws) + mset (filter (\<lambda>x. qr_id x = i) ws) = mset ws"
    by (metis (no_types, lifting) add.commute mset_filter multiset_partition filter_mset_cong)
  moreover have "filter (\<lambda>x. qr_id x = i) ws = [e]"
    using filter_key [OF assms e(1)] e(2) by simp
  moreover have "mset (take k xs @ e # drop k xs) = add_mset e (mset xs)" for k and xs :: "QueuedRun list"
    by (metis append_take_drop_id mset.simps(2) mset_append union_mset_add_mset_right)
  ultimately show ?thesis using Some by (simp add: insert_moved_def Let_def)
qed (simp add: insert_moved_def)

lemma renumber_plain:
  assumes "entries_keyed q"
  shows "lane (renumber n None q) = lane q" and "numbered (renumber n None q) n"
    and "m \<noteq> n \<Longrightarrow> numbered (renumber n None q) m = numbered q m" and "entries_keyed (renumber n None q)"
proof -
  note r = lane_reposition [OF assms, of "waiting_in_lane q n" n, OF refl]
  have "lane (renumber n None q) m = lane q m" for m
    using r(1,3) by (cases "m = n") (simp_all add: renumber_def lane_def)
  then show "lane (renumber n None q) = lane q" by (simp add: fun_eq_iff)
  show "numbered (renumber n None q) n" "m \<noteq> n \<Longrightarrow> numbered (renumber n None q) m = numbered q m"
    "entries_keyed (renumber n None q)"
    using r by (simp_all add: renumber_def)
qed

lemma renumber_moved:
  assumes "entries_keyed q" and "i \<in> set (lane q n)"
  shows "lane (renumber n (Some (i, target)) q) = (lane q)(n := insert_at i target (lane q n))"
    and "numbered (renumber n (Some (i, target)) q) n"
    and "m \<noteq> n \<Longrightarrow> numbered (renumber n (Some (i, target)) q) m = numbered q m"
    and "entries_keyed (renumber n (Some (i, target)) q)"
proof -
  let ?ws = "insert_moved i target (waiting_in_lane q n)"
  have "mset ?ws = mset (waiting_in_lane q n)"
    by (rule mset_insert_moved [OF distinct_waiting [OF assms(1)]])
  note r = lane_reposition [OF assms(1) this]
  have "map qr_id ?ws = insert_at i target (lane q n)"
    unfolding lane_def by (rule insert_moved_ids) (use assms(2) in \<open>simp add: lane_def\<close>)
  then show "lane (renumber n (Some (i, target)) q) = (lane q)(n := insert_at i target (lane q n))"
    using r(1,3) by (auto simp: renumber_def fun_eq_iff)
  show "numbered (renumber n (Some (i, target)) q) n"
    "m \<noteq> n \<Longrightarrow> numbered (renumber n (Some (i, target)) q) m = numbered q m"
    "entries_keyed (renumber n (Some (i, target)) q)"
    using r by (simp_all add: renumber_def)
qed

section \<open>One row\<close>

lemma lane_same_waiting:
  "waiting_in_lane r n = waiting_in_lane q n \<Longrightarrow> lane r n = lane q n"
  "waiting_in_lane r n = waiting_in_lane q n \<Longrightarrow> numbered r n = numbered q n"
  by (simp_all add: lane_def numbered_def)

lemma same_entries_lanes:
  assumes "qu_entries r = qu_entries q"
  shows "waiting_in_lane r = waiting_in_lane q" and "lane r = lane q" and "numbered r = numbered q"
    and "entries_keyed r = entries_keyed q" and "lanes_sound r = lanes_sound q" and "get_entry r = get_entry q"
proof -
  show waiting: "waiting_in_lane r = waiting_in_lane q" by (simp add: waiting_in_lane_def fun_eq_iff assms)
  then show lane: "lane r = lane q" and num: "numbered r = numbered q"
    by (simp_all add: lane_def numbered_def fun_eq_iff)
  show keyed: "entries_keyed r = entries_keyed q" by (simp add: entries_keyed_def assms)
  show "lanes_sound r = lanes_sound q" by (simp add: lanes_sound_def keyed num)
  show "get_entry r = get_entry q" by (simp add: get_entry_def fun_eq_iff assms)
qed

lemma waiting_delete: "waiting_in_lane (delete_entry i q) n = filter (\<lambda>e. qr_id e \<noteq> i) (waiting_in_lane q n)"
  by (simp add: waiting_in_lane_def delete_entry_def filter_sort conj_commute)

lemma lane_delete: "lane (delete_entry i q) n = filter (\<lambda>j. j \<noteq> i) (lane q n)"
  by (simp add: lane_def waiting_delete filter_map o_def)

lemma keyed_delete: "entries_keyed q \<Longrightarrow> entries_keyed (delete_entry i q)"
  by (simp add: entries_keyed_def delete_entry_def distinct_map_filter)

lemma waiting_alter_out:
  assumes "\<And>e. \<not> waits_in n (f e)"
  shows "waiting_in_lane (alter_entry i f q) n = filter (\<lambda>e. qr_id e \<noteq> i) (waiting_in_lane q n)"
proof -
  have "filter (waits_in n) (map (\<lambda>e. if qr_id e = i then f e else e) es)
      = filter (waits_in n) (filter (\<lambda>e. qr_id e \<noteq> i) es)" for es
    using assms by (induction es) auto
  then show ?thesis by (simp add: waiting_in_lane_def entries_alter filter_sort conj_commute)
qed

lemma lane_alter_out:
  "(\<And>e. \<not> waits_in n (f e)) \<Longrightarrow> lane (alter_entry i f q) n = filter (\<lambda>j. j \<noteq> i) (lane q n)"
  by (simp add: lane_def waiting_alter_out filter_map o_def)

lemma insort_key_map:
  "(\<And>x. k (g x) = k x) \<Longrightarrow> insort_key k (g x) (map g ys) = map g (insort_key k x ys)"
  by (induction ys) auto

lemma sort_key_map:
  "(\<And>x. k (g x) = k x) \<Longrightarrow> sort_key k (map g xs) = map g (sort_key k xs)"
  by (induction xs) (simp_all add: insort_key_map)

lemma waiting_alter_same:
  assumes "\<And>e. qr_position (f e) = qr_position e" and "\<And>e. qr_slot_number (f e) = qr_slot_number e"
    and "\<And>e. qr_status (f e) = qr_status e"
  shows "waiting_in_lane (alter_entry i f q) n
    = map (\<lambda>e. if qr_id e = i then f e else e) (waiting_in_lane q n)"
proof -
  let ?g = "\<lambda>e. if qr_id e = i then f e else e"
  have "waits_in n (?g e) = waits_in n e" for e using assms by (simp add: waits_in_def)
  then have "filter (waits_in n) (map ?g es) = map ?g (filter (waits_in n) es)" for es
    by (simp add: filter_map o_def)
  moreover have "qr_position (?g e) = qr_position e" for e using assms by simp
  then have "sort_key qr_position (map ?g es) = map ?g (sort_key qr_position es)" for es
    by (rule sort_key_map)
  ultimately show ?thesis by (simp add: waiting_in_lane_def entries_alter)
qed

lemma lane_alter_same:
  assumes "\<And>e. qr_position (f e) = qr_position e" and "\<And>e. qr_slot_number (f e) = qr_slot_number e"
    and "\<And>e. qr_status (f e) = qr_status e" and "\<And>e. qr_id (f e) = qr_id e"
  shows "lane (alter_entry i f q) = lane q" and "numbered (alter_entry i f q) = numbered q"
    and "entries_keyed q \<Longrightarrow> entries_keyed (alter_entry i f q)"
    and "lanes_sound q \<Longrightarrow> lanes_sound (alter_entry i f q)"
proof -
  note waiting = waiting_alter_same [of f, OF assms(1-3)]
  show "lane (alter_entry i f q) = lane q"
    by (simp add: fun_eq_iff lane_def waiting o_def if_distrib assms(4) cong: if_cong)
  show num: "numbered (alter_entry i f q) = numbered q"
    by (simp add: fun_eq_iff numbered_def waiting o_def if_distrib assms(1) cong: if_cong)
  show keyed: "entries_keyed q \<Longrightarrow> entries_keyed (alter_entry i f q)" by (simp add: keyed_alter assms(4))
  show "lanes_sound q \<Longrightarrow> lanes_sound (alter_entry i f q)"
    by (simp add: lanes_sound_def num keyed)
qed

text \<open>A row added at the end of a numbered lane waits at its end.\<close>

lemma waiting_add:
  assumes "numbered q n" and "waits_in n e" and "qr_position e = int (length (waiting_in_lane q n)) + 1"
  shows "waiting_in_lane (add_entry e q) n = waiting_in_lane q n @ [e]"
proof -
  let ?ws = "waiting_in_lane q n"
  have "sort_key qr_position (filter (waits_in n) (qu_entries (add_entry e q))) = ?ws @ [e]"
  proof (rule sort_key_ascending)
    show "mset (?ws @ [e]) = mset (filter (waits_in n) (qu_entries (add_entry e q)))"
      using assms(2) by (simp add: add_entry_def mset_waiting)
    have "map qr_position (?ws @ [e]) = map (\<lambda>j. 1 + int j) [0..<Suc (length ?ws)]"
      using assms(1,3) by (simp add: numbered_def upto_one)
    then show "sorted_wrt (<) (map qr_position (?ws @ [e]))"
      by (simp only:) (simp add: sorted_wrt_map sorted_wrt_upt del: upt_Suc)
  qed
  then show ?thesis by (simp add: waiting_in_lane_def)
qed

lemma waiting_add_other: "\<not> waits_in m e \<Longrightarrow> waiting_in_lane (add_entry e q) m = waiting_in_lane q m"
  by (simp add: waiting_in_lane_def add_entry_def)

lemma lane_add:
  assumes "lanes_sound q" and "waits_in n e" and "qr_position e = int (length (waiting_in_lane q n)) + 1"
    and "qr_id e \<notin> qr_id ` set (qu_entries q)"
  shows "lane (add_entry e q) = (lane q)(n := lane q n @ [qr_id e])" and "lanes_sound (add_entry e q)"
proof -
  have num: "numbered q m" for m using assms(1) by (simp add: lanes_sound_def)
  note waiting = waiting_add [OF num assms(2,3)]
  have other: "waiting_in_lane (add_entry e q) m = waiting_in_lane q m" if "m \<noteq> n" for m
    using that assms(2) by (intro waiting_add_other) (auto simp: waits_in_def)
  show "lane (add_entry e q) = (lane q)(n := lane q n @ [qr_id e])"
  proof
    fix m show "lane (add_entry e q) m = ((lane q)(n := lane q n @ [qr_id e])) m"
      using waiting other [of m] by (cases "m = n") (simp_all add: lane_def)
  qed
  have "numbered (add_entry e q) m" for m
  proof (cases "m = n")
    case True
    with num [of n] upto_one [of "Suc (length (waiting_in_lane q n))"] show ?thesis
      by (simp add: numbered_def waiting assms(3) upto_one)
  next
    case False
    with num [of m] other show ?thesis by (simp add: numbered_def)
  qed
  moreover have "entries_keyed (add_entry e q)"
    using assms(1,4) by (simp add: lanes_sound_def entries_keyed_def add_entry_def)
  ultimately show "lanes_sound (add_entry e q)" by (simp add: lanes_sound_def)
qed

end
