(* ===== verification/LaneDispatch.thy ===== *)
theory LaneDispatch
  imports LaneOrder
begin

text \<open>
  What a lane may rely on from the dispatcher it calls, as the locale \<open>lane_dispatch\<close>, and what
  follows for \<open>start_lane_head\<close>: which entries leave the lane, what happens to its slot, and who
  holds which lane. \<open>QueueDispatch\<close> interprets the locale on \<open>services/queue_dispatch.py\<close>.
\<close>

section \<open>What a dispatch may touch\<close>

definition unrefused :: "QueuedRun \<Rightarrow> QueuedRun" where
  "unrefused e = e\<lparr>qr_failure_reason := [], qr_last_failed_at := None\<rparr>"

text \<open>
  A dispatch leaves the slots alone, writes at most a refusal on an entry, and keeps the rows of
  tickets and runs that are there, each under its ticket. The identifiers of orchestrations
  stay the primary key they are.
\<close>

definition orchs_keyed :: "Queue \<Rightarrow> bool" where
  "orchs_keyed q \<longleftrightarrow> distinct (map or_id (qu_orchs q)) \<and> [] \<notin> set (map or_id (qu_orchs q))"

definition work_kept :: "Queue \<Rightarrow> Queue \<Rightarrow> bool" where
  "work_kept q r \<longleftrightarrow>
     (\<forall>i row. get_run q i = Some row
          \<longrightarrow> (\<exists>row'. get_run r i = Some row' \<and> rn_ticket_id row' = rn_ticket_id row))
     \<and> (\<forall>i row. get_orch q i = Some row
          \<longrightarrow> (\<exists>row'. get_orch r i = Some row' \<and> or_ticket_id row' = or_ticket_id row))
     \<and> (orchs_keyed q \<longrightarrow> orchs_keyed r)"

lemma work_kept_trans: "work_kept p q \<Longrightarrow> work_kept q r \<Longrightarrow> work_kept p r"
  unfolding work_kept_def by metis

lemma work_kept_rows: "qu_ledger r = qu_ledger q \<Longrightarrow> qu_orchs r = qu_orchs q \<Longrightarrow> work_kept q r"
  by (simp add: work_kept_def get_run_def get_orch_def orchs_keyed_def)

definition row_frame :: "Queue \<Rightarrow> Queue \<Rightarrow> bool" where
  "row_frame q r \<longleftrightarrow> map unrefused (qu_entries r) = map unrefused (qu_entries q)
     \<and> ids_of (qu_board r) = ids_of (qu_board q) \<and> qu_next_id q \<le> qu_next_id r \<and> work_kept q r"

definition dispatch_frame :: "Queue \<Rightarrow> Queue \<Rightarrow> bool" where
  "dispatch_frame q r \<longleftrightarrow> qu_slots r = qu_slots q \<and> row_frame q r"

lemma row_frame_refl [simp]: "row_frame q q"
  by (simp add: row_frame_def work_kept_def)

lemma row_frame_work: "row_frame q r \<Longrightarrow> work_kept q r"
  by (simp add: row_frame_def)

lemma row_frame_trans: "row_frame p q \<Longrightarrow> row_frame q r \<Longrightarrow> row_frame p r"
  unfolding row_frame_def using work_kept_trans [of p q r] by simp

lemma row_frame_rows:
  assumes "qu_entries r = qu_entries q" and "qu_board r = qu_board q" and "qu_ledger r = qu_ledger q"
    and "qu_orchs r = qu_orchs q" and "qu_next_id r = qu_next_id q"
  shows "row_frame q r"
  using assms by (simp add: row_frame_def work_kept_rows)

lemma row_frame_slot [simp]: "row_frame (alter_slot i f q) r = row_frame q r" "row_frame q (alter_slot i f r) = row_frame q r"
  by (simp_all add: row_frame_def work_kept_def get_run_def get_orch_def orchs_keyed_def)

lemma unrefused_simps [simp]:
  "qr_id (unrefused e) = qr_id e" "qr_position (unrefused e) = qr_position e"
  "qr_slot_number (unrefused e) = qr_slot_number e" "qr_status (unrefused e) = qr_status e"
  "waits_in n (unrefused e) = waits_in n e" "qr_ticket_id (unrefused e) = qr_ticket_id e"
  by (simp_all add: unrefused_def waits_in_def)

lemma refused_with_simps [simp, row_simps]:
  "qr_id (refused_with s now e) = qr_id e" "qr_position (refused_with s now e) = qr_position e"
  "qr_slot_number (refused_with s now e) = qr_slot_number e" "qr_status (refused_with s now e) = qr_status e"
  "unrefused (refused_with s now e) = unrefused e"
  by (simp_all add: refused_with_def unrefused_def)

lemma row_frame_entries: "row_frame q r \<Longrightarrow> map unrefused (qu_entries r) = map unrefused (qu_entries q)"
  by (simp add: row_frame_def)

lemma row_frame_refused [simp]: "row_frame q (alter_entry i (refused_with s now) r) \<longleftrightarrow> row_frame q r"
  by (simp add: row_frame_def work_kept_def entries_alter get_run_def get_orch_def orchs_keyed_def o_def if_distrib cong: if_cong)

lemma unrefused_waiting:
  assumes "map unrefused (qu_entries r) = map unrefused (qu_entries q)"
  shows "map unrefused (waiting_in_lane r n) = map unrefused (waiting_in_lane q n)"
proof -
  have "map unrefused (waiting_in_lane x n)
      = sort_key qr_position (filter (waits_in n) (map unrefused (qu_entries x)))" for x
    by (simp add: waiting_in_lane_def sort_key_map filter_map o_def)
  with assms show ?thesis by simp
qed

lemma map_via_unrefused:
  "(\<And>e. f (unrefused e) = f e) \<Longrightarrow> map unrefused xs = map unrefused ys \<Longrightarrow> map f xs = map f ys"
  by (metis (no_types, lifting) map_cong map_map o_apply)

lemma frame_lanes:
  assumes "map unrefused (qu_entries r) = map unrefused (qu_entries q)"
  shows "lane r = lane q" and "numbered r = numbered q" and "entries_keyed r = entries_keyed q"
    and "lanes_sound r = lanes_sound q" and "qr_id ` set (qu_entries r) = qr_id ` set (qu_entries q)"
proof -
  note waiting = unrefused_waiting [OF assms]
  show "lane r = lane q" by (simp add: fun_eq_iff lane_def map_via_unrefused [OF _ waiting])
  have "length (waiting_in_lane r n) = length (waiting_in_lane q n)" for n
    by (metis waiting length_map)
  then show num: "numbered r = numbered q"
    by (simp add: fun_eq_iff numbered_def map_via_unrefused [OF _ waiting])
  have ids: "map qr_id (qu_entries r) = map qr_id (qu_entries q)"
    by (rule map_via_unrefused [OF _ assms]) simp
  show keyed: "entries_keyed r = entries_keyed q" by (simp add: entries_keyed_def ids)
  show "lanes_sound r = lanes_sound q" by (simp add: lanes_sound_def num keyed)
  show "qr_id ` set (qu_entries r) = qr_id ` set (qu_entries q)" by (metis ids set_map)
qed

text \<open>A slot that is taken and given back: free, naming nothing.\<close>

definition passed :: "int \<Rightarrow> AgentSlot \<Rightarrow> AgentSlot" where
  "passed now s = vacated now (taken now s)"

lemma passed_simps [simp]:
  "sl_id (passed now s) = sl_id s" "sl_slot_number (passed now s) = sl_slot_number s"
  "sl_is_available (passed now s)" "sl_current_run_id (passed now s) = None"
  "sl_current_orchestration_run_id (passed now s) = None" "passed now (passed now s) = passed now s"
  "vacated now (taken now s) = passed now s"
  by (simp_all add: passed_def vacated_def taken_def)

lemma alter_slot_twice:
  assumes "\<And>s. sl_id (f s) = sl_id s"
  shows "alter_slot i g (alter_slot i f q) = alter_slot i (\<lambda>s. g (f s)) q"
  by (auto simp: alter_slot_def assms)

lemma alter_slot_entry [simp]: "alter_slot i f (alter_entry j g q) = alter_entry j g (alter_slot i f q)"
  by (simp add: alter_slot_def alter_entry_def)

lemma alter_slot_delete [simp]: "alter_slot i f (delete_entry j q) = delete_entry j (alter_slot i f q)"
  by (simp add: alter_slot_def delete_entry_def)

lemma alter_slot_waiting [simp]: "waiting_in_lane (alter_slot i f q) = waiting_in_lane q"
  by (simp add: waiting_in_lane_def fun_eq_iff)

lemma alter_slot_reposition: "alter_slot i f (reposition k es q) = reposition k es (alter_slot i f q)"
  by (induction es arbitrary: k q) simp_all

lemma alter_slot_renumber [simp]: "alter_slot i f (renumber n p q) = renumber n p (alter_slot i f q)"
  by (simp add: renumber_def Let_def alter_slot_reposition)

lemma claim_lane_slot_cases:
  assumes "pool_sound q"
  obtains (taken_already) "claim_lane_slot env n q = (q, None)"
      and "\<forall>s \<in> set (qu_slots q). sl_slot_number s = n \<longrightarrow> \<not> sl_is_available s"
  | (claimed) s where "s \<in> set (qu_slots q)" and "sl_slot_number s = n" and "sl_is_available s"
      and "claim_lane_slot env n q = (alter_slot (sl_id s) (taken (le_now env)) q, Some (taken (le_now env) s))"
proof (cases "slot_numbered q n")
  case None
  then have "\<forall>s \<in> set (qu_slots q). sl_slot_number s \<noteq> n" by (simp add: slot_numbered_def find_None_iff')
  with None show ?thesis by (intro taken_already) (simp_all add: claim_lane_slot_def)
next
  case (Some s)
  then have s: "s \<in> set (qu_slots q)" "sl_slot_number s = n" using slot_numbered_in by blast+
  show ?thesis
  proof (cases "sl_is_available s")
    case True
    with s claim_slot_row_Some [OF assms s(1) True, of env] Some show ?thesis
      by (intro claimed) (simp_all add: claim_lane_slot_def)
  next
    case False
    then have "claim_slot_row env (sl_id s) q = (q, None)"
      using pool_sound_eq [OF assms _ s(1)] by (intro claim_slot_row_None) blast
    moreover have "\<forall>t \<in> set (qu_slots q). sl_slot_number t = n \<longrightarrow> \<not> sl_is_available t"
      using False s pool_sound_number_eq [OF assms] by blast
    ultimately show ?thesis using Some by (intro taken_already) (simp_all add: claim_lane_slot_def)
  qed
qed

section \<open>The head leaves its lane\<close>

lemma lanes_without:
  assumes "lanes_sound q" and "entries_keyed r" and "waiting_in_lane q n = head # rest"
    and "\<And>m. waiting_in_lane r m = filter (\<lambda>e. qr_id e \<noteq> qr_id head) (waiting_in_lane q m)"
  shows "lane (renumber n None r) = (lane q)(n := map qr_id rest)" and "lanes_sound (renumber n None r)"
proof -
  have keyed: "entries_keyed q" and num: "numbered q m" for m using assms(1) by (auto simp: lanes_sound_def)
  have "distinct (map qr_id (head # rest))" using distinct_waiting [OF keyed, of n] assms(3) by simp
  then have fresh: "qr_id head \<notin> qr_id ` set rest" by simp
  have "qr_id e \<noteq> qr_id head" if e: "e \<in> set rest" for e
  proof
    assume "qr_id e = qr_id head"
    with imageI [OF e, of qr_id] have "qr_id head \<in> qr_id ` set rest" by (simp only:)
    with fresh show False by contradiction
  qed
  then have "filter (\<lambda>e. qr_id e \<noteq> qr_id head) (head # rest) = rest" by (simp add: filter_id_conv)
  then have here: "waiting_in_lane r n = rest" by (simp only: assms(3,4))
  have there: "waiting_in_lane r m = waiting_in_lane q m" if "m \<noteq> n" for m
  proof -
    have "qr_id e \<noteq> qr_id head" if "e \<in> set (waiting_in_lane q m)" for e
    proof
      assume same: "qr_id e = qr_id head"
      from that have e: "e \<in> set (qu_entries q)" "waits_in m e" by (simp_all add: set_waiting)
      have "head \<in> set (waiting_in_lane q n)" by (simp add: assms(3))
      then have head: "head \<in> set (qu_entries q)" "waits_in n head" by (simp_all add: set_waiting)
      have "e = head" by (rule entry_eq [OF keyed e(1) head(1) same])
      with e head \<open>m \<noteq> n\<close> show False by (simp add: waits_in_def)
    qed
    then show ?thesis by (simp add: assms(4) filter_id_conv)
  qed
  note re = renumber_plain [OF assms(2), where n = n]
  show "lane (renumber n None r) = (lane q)(n := map qr_id rest)"
    unfolding re(1) by (rule ext) (simp add: lane_def here there)
  have "numbered (renumber n None r) m" for m
    using re(2) re(3) [where m = m] lane_same_waiting(2) [OF there [of m]] num [of m] by (cases "m = n") simp_all
  with re(4) show "lanes_sound (renumber n None r)" by (simp add: lanes_sound_def)
qed

lemma dropped_lanes:
  assumes "lanes_sound q" and "waiting_in_lane q n = head # rest"
  shows "lane (renumber n None (delete_entry (qr_id head) (alter_slot i f q))) = (lane q)(n := map qr_id rest)"
    and "lanes_sound (renumber n None (delete_entry (qr_id head) (alter_slot i f q)))"
proof -
  have keyed: "entries_keyed (delete_entry (qr_id head) (alter_slot i f q))"
    using assms(1) by (intro keyed_delete) (simp add: lanes_sound_def entries_keyed_def)
  note without = lanes_without [OF assms(1) keyed assms(2)]
  show "lane (renumber n None (delete_entry (qr_id head) (alter_slot i f q))) = (lane q)(n := map qr_id rest)"
    "lanes_sound (renumber n None (delete_entry (qr_id head) (alter_slot i f q)))"
    by (rule without; simp add: waiting_delete)+
qed

text \<open>The name a start leaves on the slot and on the entry, whichever kind of work it is.\<close>

definition names_work :: "Queue \<Rightarrow> string \<Rightarrow> (AgentSlot \<Rightarrow> AgentSlot) \<Rightarrow> bool" where
  "names_work m ticket_id f \<longleftrightarrow>
     (\<exists>a row. a \<noteq> [] \<and> get_run m a = Some row \<and> rn_ticket_id row = Some ticket_id
        \<and> f = (\<lambda>s. s\<lparr>sl_current_run_id := Some a\<rparr>))
     \<or> (\<exists>a row. a \<noteq> [] \<and> get_orch m a = Some row \<and> or_ticket_id row = ticket_id
        \<and> f = (\<lambda>s. s\<lparr>sl_current_orchestration_run_id := Some a\<rparr>))"

definition names_run :: "(QueuedRun \<Rightarrow> QueuedRun) \<Rightarrow> bool" where
  "names_run g \<longleftrightarrow> (\<exists>a. g = (\<lambda>e. e\<lparr>qr_run_id := Some a\<rparr>)) \<or> (\<exists>a. g = (\<lambda>e. e\<lparr>qr_orchestration_run_id := Some a\<rparr>))"

lemma names_run_simps:
  "names_run g \<Longrightarrow> qr_id (g e) = qr_id e" "names_run g \<Longrightarrow> qr_position (g e) = qr_position e"
  "names_run g \<Longrightarrow> qr_ticket_id (g e) = qr_ticket_id e"
  "names_run g \<Longrightarrow> qr_slot_number (g e) = qr_slot_number e" "names_run g \<Longrightarrow> qr_status (g e) = qr_status e"
  by (auto simp: names_run_def)

lemma names_work_simps:
  "names_work m i f \<Longrightarrow> sl_id (f s) = sl_id s" "names_work m i f \<Longrightarrow> sl_slot_number (f s) = sl_slot_number s"
  "names_work m i f \<Longrightarrow> sl_is_available (f s) = sl_is_available s"
  by (auto simp: names_work_def)

text \<open>A renumbering writes positions only.\<close>

lemma entries_renumber:
  assumes "entries_keyed q"
  obtains ws where "qu_entries (renumber n None q) = map (placed 1 ws) (qu_entries q)"
  by (rule that [of "map qr_id (waiting_in_lane q n)"])
     (simp add: renumber_def entries_reposition [OF distinct_waiting [OF assms]])

lemma dropped_rows:
  assumes "entries_keyed q" and "e \<in> set (qu_entries (renumber n None (delete_entry i (alter_slot j f q))))"
  shows "\<exists>e0 \<in> set (qu_entries q). qr_id e0 = qr_id e \<and> qr_ticket_id e0 = qr_ticket_id e"
proof -
  have "entries_keyed (delete_entry i (alter_slot j f q))"
    using assms(1) by (intro keyed_delete) (simp add: entries_keyed_def)
  then obtain ws where "qu_entries (renumber n None (delete_entry i (alter_slot j f q)))
      = map (placed 1 ws) (qu_entries (delete_entry i (alter_slot j f q)))"
    by (rule entries_renumber)
  with assms(2) show ?thesis by (auto simp: delete_entry_def)
qed

text \<open>The lanes after a start: the head is gone from its own, and its row is under the same ticket.\<close>

lemma frame_head:
  assumes "row_frame q m" and "waiting_in_lane q n = head # rest"
  obtains head' rest' where "waiting_in_lane m n = head' # rest'" and "qr_id head' = qr_id head"
    and "qr_ticket_id head' = qr_ticket_id head" and "map unrefused rest' = map unrefused rest"
proof -
  obtain head' rest' where w: "waiting_in_lane m n = head' # rest'" "unrefused head' = unrefused head"
      "map unrefused rest' = map unrefused rest"
    using unrefused_waiting [OF row_frame_entries [OF assms(1)], of n] assms(2) by (cases "waiting_in_lane m n") auto
  have "qr_id head' = qr_id head" "qr_ticket_id head' = qr_ticket_id head"
    using w(2) unrefused_simps(1,6) by metis+
  with w that show ?thesis by blast
qed

lemma started_row:
  fixes now :: int and i :: string and f :: "AgentSlot \<Rightarrow> AgentSlot"
  assumes "entries_keyed q" and "row_frame q m" and "waiting_in_lane q n = head # rest" and "names_run g"
  defines "r \<equiv> renumber n None (alter_entry (qr_id head) (\<lambda>e. activated now (g e)) (alter_slot i f m))"
  shows "entries_keyed r"
    and "\<exists>e. get_entry r (qr_id head) = Some e \<and> qr_id e = qr_id head \<and> qr_ticket_id e = qr_ticket_id head"
proof -
  let ?m = "alter_entry (qr_id head) (\<lambda>e. activated now (g e)) (alter_slot i f m)"
  obtain head' rest' where w: "waiting_in_lane m n = head' # rest'" "qr_id head' = qr_id head"
      "qr_ticket_id head' = qr_ticket_id head"
    by (rule frame_head [OF assms(2,3)])
  have "entries_keyed (alter_slot i f m)"
    using frame_lanes(3) [OF row_frame_entries [OF assms(2)]] assms(1) by (simp add: entries_keyed_def)
  then have keyed: "entries_keyed ?m" by (rule keyed_alter) (simp add: activated_def names_run_simps [OF assms(4)])
  from renumber_plain(4) [OF this] show keyed_r: "entries_keyed r" by (simp add: r_def)
  obtain ws where rows: "qu_entries r = map (placed 1 ws) (qu_entries ?m)"
    unfolding r_def by (rule entries_renumber [OF keyed])
  have "head' \<in> set (qu_entries m)" by (rule waiting_in_entries [OF w(1)])
  then have "activated now (g head') \<in> set (qu_entries ?m)" by (force simp: entries_alter w)
  then have "placed 1 ws (activated now (g head')) \<in> set (qu_entries r)" by (simp add: rows)
  moreover have "qr_id (placed 1 ws (activated now (g head'))) = qr_id head"
    "qr_ticket_id (placed 1 ws (activated now (g head'))) = qr_ticket_id head"
    using names_run_simps [OF assms(4)] by (simp_all add: activated_def w)
  ultimately show "\<exists>e. get_entry r (qr_id head) = Some e \<and> qr_id e = qr_id head \<and> qr_ticket_id e = qr_ticket_id head"
    using keyed_r by (auto simp: get_entry_iff)
qed

lemma started_lanes:
  fixes now :: int and i :: string and f :: "AgentSlot \<Rightarrow> AgentSlot"
  assumes "lanes_sound q" and "row_frame q m" and "waiting_in_lane q n = head # rest" and "names_run g"
  defines "r \<equiv> renumber n None (alter_entry (qr_id head) (\<lambda>e. activated now (g e)) (alter_slot i f m))"
  shows "lane r = (lane q)(n := map qr_id rest)" and "lanes_sound r"
proof -
  let ?m = "alter_entry (qr_id head) (\<lambda>e. activated now (g e)) (alter_slot i f m)"
  note lanes = frame_lanes [OF row_frame_entries [OF assms(2)]]
  have sound: "lanes_sound m" using lanes(4) assms(1) by simp
  obtain head' rest' where w: "waiting_in_lane m n = head' # rest'" "qr_id head' = qr_id head"
      "map unrefused rest' = map unrefused rest"
    by (rule frame_head [OF assms(2,3)])
  have "entries_keyed (alter_slot i f m)" using sound by (simp add: lanes_sound_def entries_keyed_def)
  then have keyed: "entries_keyed ?m" by (rule keyed_alter) (simp add: activated_def names_run_simps [OF assms(4)])
  have "waiting_in_lane ?m k = filter (\<lambda>e. qr_id e \<noteq> qr_id head') (waiting_in_lane m k)" for k
    using waiting_alter_out [of k "\<lambda>e. activated now (g e)" "qr_id head" "alter_slot i f m"]
    by (simp add: w(2) waits_in_def activated_def WAITING_STATUSES_def)
  note without = lanes_without [OF sound keyed w(1) this]
  have "map qr_id rest' = map qr_id rest" by (rule map_via_unrefused [OF _ w(3)]) simp
  with without(1) lanes(1) show "lane r = (lane q)(n := map qr_id rest)" by (simp add: r_def)
  from without(2) show "lanes_sound r" by (simp add: r_def)
qed

section \<open>What a start does\<close>

text \<open>
  The order of a start: lane \<open>n\<close> loses a prefix, made of entries whose ticket is gone and, last,
  the one that starts; no other lane moves.
\<close>

definition started_id :: "QueuedRun option result \<Rightarrow> string list" where
  "started_id x = (case x of Inr (Some e) \<Rightarrow> [qr_id e] | _ \<Rightarrow> [])"

definition front_left :: "int \<Rightarrow> Queue \<Rightarrow> Queue \<Rightarrow> QueuedRun option result \<Rightarrow> bool" where
  "front_left n q r x \<longleftrightarrow>
     (\<exists>gone. lane q n = gone @ started_id x @ lane r n
        \<and> (\<forall>i \<in> set gone. \<exists>e. get_entry q i = Some e \<and> get_ticket (qu_board q) (qr_ticket_id e) = None))
     \<and> (\<forall>m. m \<noteq> n \<longrightarrow> lane r m = lane q m)"

lemma started_id_simps [simp]: "started_id (Inr None) = []" "started_id (Inr (Some e)) = [qr_id e]" "started_id (Inl e') = []"
  by (simp_all add: started_id_def)

text \<open>A start after a head whose ticket is gone is a start.\<close>

lemma front_left_gone:
  assumes "lanes_sound q" and "waiting_in_lane q n = head # rest"
    and "get_ticket (qu_board q) (qr_ticket_id head) = None"
    and "lane q' = (lane q)(n := map qr_id rest)" and "lanes_sound q'"
    and "\<And>e. e \<in> set (qu_entries q') \<Longrightarrow> \<exists>e0 \<in> set (qu_entries q). qr_id e0 = qr_id e \<and> qr_ticket_id e0 = qr_ticket_id e"
    and "qu_board q' = qu_board q" and "front_left n q' r x"
  shows "front_left n q r x"
proof -
  have keyed: "entries_keyed q" "entries_keyed q'" using assms(1,5) by (simp_all add: lanes_sound_def)
  have "get_entry q (qr_id head) = Some head"
    using waiting_in_entries [OF assms(2)] keyed(1) by (simp add: get_entry_iff)
  with assms(3) have gone_head: "\<exists>e. get_entry q (qr_id head) = Some e \<and> get_ticket (qu_board q) (qr_ticket_id e) = None"
    by blast
  have earlier: "\<exists>e. get_entry q i = Some e \<and> get_ticket (qu_board q) (qr_ticket_id e) = None"
    if "\<exists>e. get_entry q' i = Some e \<and> get_ticket (qu_board q') (qr_ticket_id e) = None" for i
    using that assms(6) unfolding get_entry_iff [OF keyed(1)] get_entry_iff [OF keyed(2)] assms(7) by fastforce
  from assms(8) obtain gone where rest: "lane q' n = gone @ started_id x @ lane r n"
      "\<forall>i \<in> set gone. \<exists>e. get_entry q' i = Some e \<and> get_ticket (qu_board q') (qr_ticket_id e) = None"
      "\<forall>m. m \<noteq> n \<longrightarrow> lane r m = lane q' m"
    unfolding front_left_def by blast
  have "lane q n = (qr_id head # gone) @ started_id x @ lane r n"
    using rest(1) assms(2,4) by (simp add: lane_def)
  moreover have "\<forall>i \<in> set (qr_id head # gone). \<exists>e. get_entry q i = Some e
      \<and> get_ticket (qu_board q) (qr_ticket_id e) = None"
    using gone_head earlier rest(2) by (metis set_ConsD)
  moreover have "\<forall>m. m \<noteq> n \<longrightarrow> lane r m = lane q m" using rest(3) assms(4) by simp
  ultimately show ?thesis unfolding front_left_def by blast
qed

section \<open>Who holds a lane\<close>

text \<open>
  One lane per ticket: no ticket is behind two slots, and what a slot names has its row.
\<close>

definition slot_resolves :: "Queue \<Rightarrow> AgentSlot \<Rightarrow> bool" where
  "slot_resolves q s \<longleftrightarrow>
     (case named (sl_current_run_id s) of None \<Rightarrow> True | Some a \<Rightarrow> get_run q a \<noteq> None)
     \<and> (case named (sl_current_orchestration_run_id s) of None \<Rightarrow> True | Some a \<Rightarrow> get_orch q a \<noteq> None)"

definition one_lane :: "Queue \<Rightarrow> bool" where
  "one_lane q \<longleftrightarrow> (\<forall>s \<in> set (qu_slots q). slot_resolves q s)
     \<and> (\<forall>s \<in> set (qu_slots q). \<forall>s' \<in> set (qu_slots q). \<forall>i. slot_holds q s i \<longrightarrow> slot_holds q s' i
          \<longrightarrow> sl_slot_number s = sl_slot_number s')"

definition names_nothing :: "AgentSlot \<Rightarrow> bool" where
  "names_nothing s \<longleftrightarrow> sl_current_run_id s = None \<and> sl_current_orchestration_run_id s = None"

lemma names_nothing_simps [simp]:
  "names_nothing (passed now s)" "names_nothing (taken now s)" "names_nothing (vacated now s)"
  by (simp_all add: names_nothing_def)

lemma names_nothing_holds:
  "names_nothing s \<Longrightarrow> \<not> slot_holds q s i" "names_nothing s \<Longrightarrow> slot_resolves q s"
  by (simp_all add: names_nothing_def slot_holds_def slot_resolves_def run_ticket_def orch_ticket_def)

lemma frame_holds:
  assumes "work_kept q r" and "slot_resolves q s"
  shows "slot_holds r s = slot_holds q s" and "slot_resolves r s"
proof -
  have run: "run_ticket r s = run_ticket q s \<and> (named (sl_current_run_id s) = Some a \<longrightarrow> get_run r a \<noteq> None)" for a
  proof (cases "named (sl_current_run_id s)")
    case (Some b)
    with assms(2) obtain row where "get_run q b = Some row" by (auto simp: slot_resolves_def simp del: named_iff)
    moreover from this obtain row' where "get_run r b = Some row'" "rn_ticket_id row' = rn_ticket_id row"
      using assms(1) unfolding work_kept_def by blast
    ultimately show ?thesis using Some by (auto simp: run_ticket_def simp del: named_iff)
  qed (simp add: run_ticket_def del: named_iff)
  have orch: "orch_ticket r s = orch_ticket q s
      \<and> (named (sl_current_orchestration_run_id s) = Some a \<longrightarrow> get_orch r a \<noteq> None)" for a
  proof (cases "named (sl_current_orchestration_run_id s)")
    case (Some b)
    with assms(2) obtain row where "get_orch q b = Some row" by (auto simp: slot_resolves_def simp del: named_iff)
    moreover from this obtain row' where "get_orch r b = Some row'" "or_ticket_id row' = or_ticket_id row"
      using assms(1) unfolding work_kept_def by blast
    ultimately show ?thesis using Some by (auto simp: orch_ticket_def simp del: named_iff)
  qed (simp add: orch_ticket_def del: named_iff)
  show "slot_holds r s = slot_holds q s" using run orch by (simp add: fun_eq_iff slot_holds_def)
  show "slot_resolves r s" using run orch by (simp add: slot_resolves_def del: named_iff split: option.split)
qed

lemma one_lane_kept:
  assumes "one_lane q" and "work_kept q r"
    and "\<And>s. s \<in> set (qu_slots r) \<Longrightarrow> s \<in> set (qu_slots q) \<or> names_nothing s"
  shows "one_lane r"
proof -
  have resolves: "slot_resolves q s" if "s \<in> set (qu_slots r)" for s
    using that assms(1,3) names_nothing_holds(2) by (auto simp: one_lane_def)
  have "s \<in> set (qu_slots q)" if "s \<in> set (qu_slots r)" "slot_holds r s i" for s i
    using that assms(3) names_nothing_holds(1) by blast
  then show ?thesis
    using assms(1) frame_holds [OF assms(2) resolves] unfolding one_lane_def by metis
qed

lemma one_lane_slot:
  assumes "one_lane q" and "work_kept q r" and "qu_slots r = qu_slots (alter_slot i f q)"
    and "\<And>s. names_nothing (f s)"
  shows "one_lane r"
  using assms by (intro one_lane_kept [OF assms(1,2)]) (auto simp: slots_alter split: if_splits)

lemma holding_elsewhere:
  "tickets_holding_lanes q (Some n) i = [] \<longleftrightarrow>
     (\<forall>s \<in> set (qu_slots q). sl_slot_number s \<noteq> n \<longrightarrow> \<not> slot_holds q s i)"
proof -
  have "sort xs = [] \<longleftrightarrow> xs = []" for xs :: "int list" by (metis set_empty set_sort)
  then show ?thesis by (auto simp: tickets_holding_lanes_def Let_def filter_empty_conv)
qed

text \<open>What a start leaves of its slot: free and naming nothing, claimed by nothing, or its work's.\<close>

definition slot_after :: "Queue \<Rightarrow> QueuedRun option result \<Rightarrow> AgentSlot \<Rightarrow> bool" where
  "slot_after r x s =
     (case x of
        Inl e \<Rightarrow> \<not> sl_is_available s \<and> names_nothing s
      | Inr None \<Rightarrow> sl_is_available s \<and> names_nothing s
      | Inr (Some e) \<Rightarrow> \<not> sl_is_available s \<and> (qr_ticket_id e \<noteq> [] \<longrightarrow> slot_holds r s (qr_ticket_id e)))"

lemma slot_after_simps [simp]:
  "slot_after r (Inl e) s \<longleftrightarrow> \<not> sl_is_available s \<and> names_nothing s"
  "slot_after r (Inr None) s \<longleftrightarrow> sl_is_available s \<and> names_nothing s"
  "slot_after r (Inr (Some e')) s \<longleftrightarrow> \<not> sl_is_available s \<and> (qr_ticket_id e' \<noteq> [] \<longrightarrow> slot_holds r s (qr_ticket_id e'))"
  by (simp_all add: slot_after_def)

definition free_lanes :: "Queue \<Rightarrow> int list" where
  "free_lanes q = map sl_slot_number (filter sl_is_available (qu_slots q))"

text \<open>
  Only the lane's own slot changes. When nothing starts the free lanes are the same ones; when
  something does, or the dispatch raises, the lane was free and its slot is as \<open>slot_after\<close> says.
\<close>

definition slot_effect :: "int \<Rightarrow> Queue \<Rightarrow> Queue \<Rightarrow> QueuedRun option result \<Rightarrow> bool" where
  "slot_effect n q r x \<longleftrightarrow> map sl_id (qu_slots r) = map sl_id (qu_slots q)
     \<and> map sl_slot_number (qu_slots r) = map sl_slot_number (qu_slots q)
     \<and> (\<forall>s \<in> set (qu_slots r). sl_slot_number s \<noteq> n \<longrightarrow> s \<in> set (qu_slots q))
     \<and> (if x = Inr None
        then free_lanes r = free_lanes q \<and> (\<forall>s \<in> set (qu_slots r). s \<in> set (qu_slots q) \<or> slot_after r x s)
        else n \<in> set (free_lanes q) \<and> (\<forall>s \<in> set (qu_slots r). sl_slot_number s = n \<longrightarrow> slot_after r x s))"

lemma free_lanes_slots: "qu_slots r = qu_slots q \<Longrightarrow> free_lanes r = free_lanes q"
  by (simp add: free_lanes_def)

lemma slot_effect_refl: "qu_slots r = qu_slots q \<Longrightarrow> slot_effect n q r (Inr None)"
  by (simp add: slot_effect_def free_lanes_def)

lemma map_filter_same:
  "(\<And>u. u \<in> set xs \<Longrightarrow> P (g u) = P u \<and> h (g u) = h u) \<Longrightarrow> map h (filter P (map g xs)) = map h (filter P xs)"
  by (induction xs) auto

lemma free_lanes_alter:
  assumes "pool_sound q" and "s \<in> set (qu_slots q)" and "sl_is_available s"
    and "sl_slot_number (f s) = sl_slot_number s" and "sl_is_available (f s)"
  shows "free_lanes (alter_slot (sl_id s) f q) = free_lanes q"
proof -
  let ?g = "\<lambda>u. if sl_id u = sl_id s then f u else u"
  have "sl_is_available (?g u) = sl_is_available u \<and> sl_slot_number (?g u) = sl_slot_number u"
    if "u \<in> set (qu_slots q)" for u
  proof (cases "sl_id u = sl_id s")
    case True
    then have "u = s" by (rule pool_sound_eq [OF assms(1) that assms(2)])
    then show ?thesis by (simp add: assms(3-5))
  qed simp
  then show ?thesis unfolding free_lanes_def slots_alter by (rule map_filter_same)
qed

lemma slot_effect_alter:
  assumes "pool_sound q" and "s \<in> set (qu_slots q)" and "sl_slot_number s = n" and "sl_is_available s"
    and "qu_slots r = qu_slots (alter_slot (sl_id s) f q)"
    and "\<And>u. sl_id (f u) = sl_id u" and "\<And>u. sl_slot_number (f u) = sl_slot_number u" and "slot_after r x (f s)"
  shows "slot_effect n q r x"
proof -
  have slots: "u \<in> set (qu_slots r) \<longleftrightarrow> u = f s \<or> (u \<in> set (qu_slots q) \<and> u \<noteq> s)" for u
    unfolding assms(5) by (rule in_slots_alter [OF assms(1,2,6)])
  have keys: "map sl_id (qu_slots r) = map sl_id (qu_slots q)"
    "map sl_slot_number (qu_slots r) = map sl_slot_number (qu_slots q)"
    unfolding assms(5) by (simp_all add: alter_slot_keys assms(6,7))
  have unique: "u = s" if "u \<in> set (qu_slots q)" "sl_slot_number u = n" for u
    using that assms(2,3) pool_sound_number_eq [OF assms(1)] by blast
  have "free_lanes r = free_lanes q" if "x = Inr None"
    using that assms(8) free_lanes_slots [OF assms(5)] free_lanes_alter [OF assms(1,2,4), of f] assms(7) [of s]
    by simp
  moreover have "n \<in> set (free_lanes q)" using assms(2-4) by (auto simp: free_lanes_def)
  moreover have "\<forall>u \<in> set (qu_slots r). sl_slot_number u \<noteq> n \<longrightarrow> u \<in> set (qu_slots q)"
    "\<forall>u \<in> set (qu_slots r). u \<in> set (qu_slots q) \<or> slot_after r x u"
    "\<forall>u \<in> set (qu_slots r). sl_slot_number u = n \<longrightarrow> slot_after r x u"
    using slots unique assms(3,8) assms(7) [of s] by auto
  ultimately show ?thesis using keys unfolding slot_effect_def by (cases "x = Inr None") simp_all
qed

lemma slot_effect_pass:
  assumes "pool_sound q" and "s \<in> set (qu_slots q)" and "sl_slot_number s = n" and "sl_is_available s"
    and "qu_slots m = qu_slots (alter_slot (sl_id s) (passed now) q)" and "slot_effect n m r x"
  shows "slot_effect n q r x"
proof -
  have pass: "slot_effect n q m (Inr None)" by (rule slot_effect_alter [OF assms(1-5)]) simp_all
  show ?thesis
  proof (cases "x = Inr None")
    case True
    with pass assms(6) show ?thesis by (fastforce simp: slot_effect_def)
  next
    case False
    with pass assms(6) show ?thesis by (auto simp: slot_effect_def)
  qed
qed

text \<open>The slot of a started head names its work; no other slot holds that ticket.\<close>

lemma names_work_holds:
  assumes "names_work m i f" and "names_nothing s"
  shows "slot_holds m (assigned now (f s)) j \<longleftrightarrow> j = i \<and> i \<noteq> []" and "slot_resolves m (assigned now (f s))"
proof -
  have named: "named (Some a) = (if a = [] then None else Some a)" for a by (simp add: named_def)
  show "slot_holds m (assigned now (f s)) j \<longleftrightarrow> j = i \<and> i \<noteq> []" "slot_resolves m (assigned now (f s))"
    using assms by (auto simp: names_work_def names_nothing_def slot_holds_def slot_resolves_def run_ticket_def
      orch_ticket_def assigned_def named split: if_splits)
qed

lemma same_rows_hold:
  assumes "qu_ledger r = qu_ledger m" and "qu_orchs r = qu_orchs m"
  shows "slot_holds r s = slot_holds m s" and "slot_resolves r s = slot_resolves m s"
proof -
  have "get_run r = get_run m" "get_orch r = get_orch m" using assms by (simp_all add: fun_eq_iff get_run_def get_orch_def)
  then have "run_ticket r s = run_ticket m s" "orch_ticket r s = orch_ticket m s" "slot_resolves r s = slot_resolves m s"
    unfolding slot_resolves_def run_ticket_def orch_ticket_def by (simp_all cong: option.case_cong)
  then show "slot_holds r s = slot_holds m s" "slot_resolves r s = slot_resolves m s"
    by (simp_all add: slot_holds_def [abs_def])
qed

lemma started_one_lane:
  assumes "pool_sound q" and "one_lane q" and "s \<in> set (qu_slots q)" and "sl_slot_number s = n" and "sl_is_available s"
    and "tickets_holding_lanes (alter_slot (sl_id s) (taken now) q) (Some n) (tk_id t) = []"
    and "work_kept q m" and "qu_slots m = qu_slots (alter_slot (sl_id s) (taken now) q)"
    and "names_work m (tk_id t) f"
    and "qu_slots r = qu_slots (alter_slot (sl_id s) (\<lambda>s. assigned now (f s)) m)"
    and "qu_ledger r = qu_ledger m" and "qu_orchs r = qu_orchs m"
  shows "one_lane r"
proof -
  let ?s = "assigned now (f (taken now s))"
  have keep: "sl_id (assigned now (f u)) = sl_id u" "sl_slot_number (assigned now (f u)) = sl_slot_number u" for u
    using names_work_simps [OF assms(9)] by (simp_all add: assigned_def)
  have "qu_slots r = qu_slots (alter_slot (sl_id s) (\<lambda>u. assigned now (f (taken now u))) q)"
    unfolding assms(10) slots_alter assms(8) by simp
  then have slots: "u \<in> set (qu_slots r) \<longleftrightarrow> u = ?s \<or> (u \<in> set (qu_slots q) \<and> u \<noteq> s)" for u
    using in_slots_alter [OF assms(1,3), of "\<lambda>u. assigned now (f (taken now u))" u] keep by simp
  note mine = names_work_holds [OF assms(9) names_nothing_simps(2), of now now s]
  have old: "slot_holds m u = slot_holds q u" "slot_resolves m u" if "u \<in> set (qu_slots q)" for u
    using that assms(2) frame_holds [OF assms(7)] by (auto simp: one_lane_def)
  have elsewhere: "\<not> slot_holds q u (tk_id t)" if "u \<in> set (qu_slots q)" "u \<noteq> s" for u
  proof -
    have "sl_slot_number u \<noteq> n" using that assms(3,4) pool_sound_number_eq [OF assms(1)] by blast
    moreover have "u \<in> set (qu_slots (alter_slot (sl_id s) (taken now) q))"
      using that in_slots_alter [OF assms(1,3), of "taken now" u] by simp
    moreover have "slot_holds (alter_slot (sl_id s) (taken now) q) u = slot_holds q u"
      by (rule same_rows_hold) simp_all
    ultimately show ?thesis using assms(6) by (auto simp: holding_elsewhere)
  qed
  note rows = same_rows_hold [OF assms(11,12)]
  show ?thesis
    unfolding one_lane_def rows
  proof (intro conjI ballI allI impI)
    show "slot_resolves m u" if "u \<in> set (qu_slots r)" for u
    proof -
      from that slots have "u = ?s \<or> u \<in> set (qu_slots q)" by blast
      with mine(2) old(2) show ?thesis by (elim disjE) simp_all
    qed
    fix u v i assume uv: "u \<in> set (qu_slots r)" "v \<in> set (qu_slots r)" "slot_holds m u i" "slot_holds m v i"
    show "sl_slot_number u = sl_slot_number v"
    proof (cases "u = ?s \<or> v = ?s")
      case True
      then have i: "i = tk_id t" using uv(3,4) mine(1) [of i] by (elim disjE) simp_all
      have "w = ?s" if w: "w \<in> set (qu_slots r)" "slot_holds m w i" for w
      proof (rule ccontr)
        assume "w \<noteq> ?s"
        with w(1) slots [of w] have old_w: "w \<in> set (qu_slots q)" "w \<noteq> s" by simp_all
        from elsewhere [OF this] w(2) i old(1) [OF old_w(1)] show False by simp
      qed
      from this [OF uv(1,3)] this [OF uv(2,4)] show ?thesis by simp
    next
      case False
      with uv(1,2) slots have uv': "u \<in> set (qu_slots q)" "v \<in> set (qu_slots q)" by simp_all
      with uv(3,4) old(1) have "slot_holds q u i" "slot_holds q v i" by simp_all
      with assms(2) uv' show ?thesis unfolding one_lane_def by metis
    qed
  qed
qed

section \<open>The contract\<close>

text \<open>
  However a dispatch ends, it stays within its frame; a run it returns has a row under the ticket
  it was asked for.
\<close>

locale lane_dispatch =
  fixes d :: LaneDispatcher
  assumes stage_frame: "dp_stage d q t e = (r, x) \<Longrightarrow> dispatch_frame q r"
    and orch_frame: "dp_orchestration d q t ask = (r, y) \<Longrightarrow> dispatch_frame q r"
    and stage_names: "dp_stage d q t e = (r, Inr (Some a)) \<Longrightarrow> rn_id a \<noteq> []
      \<and> (\<exists>row. get_run r (rn_id a) = Some row \<and> rn_ticket_id row = Some (tk_id t))"
    and orch_names: "orchs_keyed q \<Longrightarrow> dp_orchestration d q t ask = (r, Inr (Some o')) \<Longrightarrow> or_id o' \<noteq> []
      \<and> (\<exists>row. get_orch r (or_id o') = Some row \<and> or_ticket_id row = tk_id t)"
begin

text \<open>The work of an entry starts with its run named by its slot and by the entry, or not at all.\<close>

lemma start_work_cases:
  assumes "orchs_keyed q" and "start_entry_work d q t head i = (r, x)"
  obtains (unstarted) "x \<noteq> Inr True" and "dispatch_frame q r"
  | (started) m f g where "x = Inr True" and "dispatch_frame q m" and "names_work m (tk_id t) f" and "names_run g"
      and "r = alter_entry (qr_id head) g (alter_slot i f m)"
proof (cases "qr_entry_kind head = STAGE")
  case True
  obtain m run where m: "dp_stage d q t head = (m, run)" by fastforce
  note frame = stage_frame [OF m]
  show ?thesis
  proof (cases "\<exists>a. run = Inr (Some a)")
    case True
    then obtain a where run: "run = Inr (Some a)" by blast
    from stage_names [OF m [unfolded run]]
    have work: "names_work m (tk_id t) (\<lambda>s. s\<lparr>sl_current_run_id := Some (rn_id a)\<rparr>)"
      by (auto simp: names_work_def)
    have "names_run (\<lambda>e. e\<lparr>qr_run_id := Some (rn_id a)\<rparr>)" by (auto simp: names_run_def)
    from started [OF _ frame work this] assms m run \<open>qr_entry_kind head = STAGE\<close>
    show ?thesis by (simp add: start_entry_work_def)
  next
    case False
    with assms m frame \<open>qr_entry_kind head = STAGE\<close> show ?thesis
      by (intro unstarted) (auto simp: start_entry_work_def and_then_def split: sum.splits option.splits)
  qed
next
  case kind: False
  obtain m run where m: "dp_orchestration d q t (ask_of head) = (m, run)" by fastforce
  note frame = orch_frame [OF m]
  show ?thesis
  proof (cases "\<exists>a. run = Inr (Some a)")
    case True
    then obtain a where run: "run = Inr (Some a)" by blast
    from orch_names [OF assms(1) m [unfolded run]]
    have work: "names_work m (tk_id t) (\<lambda>s. s\<lparr>sl_current_orchestration_run_id := Some (or_id a)\<rparr>)"
      by (auto simp: names_work_def)
    have "names_run (\<lambda>e. e\<lparr>qr_orchestration_run_id := Some (or_id a)\<rparr>)" by (auto simp: names_run_def)
    from started [OF _ frame work this] assms m run kind
    show ?thesis by (simp add: start_entry_work_def)
  next
    case False
    with assms m frame kind show ?thesis
      by (intro unstarted) (auto simp: start_entry_work_def and_then_def split: sum.splits option.splits)
  qed
qed

text \<open>
  One look at a lane: it rests as it is, the lane claimed and given back if it was free; its head is
  dropped because the ticket is gone, and the lane is looked at again; the dispatch raises, with
  the lane claimed; or the head starts.
\<close>

lemma start_lane_head_step:
  assumes "pool_sound q" and "orchs_keyed q"
  obtains (rested) r where "start_lane_head env (Some d) q n = (r, Inr None)" and "row_frame q r"
      and "qu_slots r = qu_slots q"
  | (passed) s r where "s \<in> set (qu_slots q)" and "sl_slot_number s = n" and "sl_is_available s"
      and "start_lane_head env (Some d) q n = (r, Inr None)" and "row_frame q r"
      and "qu_slots r = qu_slots (alter_slot (sl_id s) (passed (le_now env)) q)"
  | (gone) s head rest where "s \<in> set (qu_slots q)" and "sl_slot_number s = n" and "sl_is_available s"
      and "waiting_in_lane q n = head # rest" and "get_ticket (qu_board q) (qr_ticket_id head) = None"
      and "start_lane_head env (Some d) q n = start_lane_head env (Some d)
             (renumber n None (delete_entry (qr_id head) (alter_slot (sl_id s) (passed (le_now env)) q))) n"
  | (raised) s r e where "s \<in> set (qu_slots q)" and "sl_slot_number s = n" and "sl_is_available s"
      and "start_lane_head env (Some d) q n = (r, Inl e)" and "row_frame q r"
      and "qu_slots r = qu_slots (alter_slot (sl_id s) (taken (le_now env)) q)"
  | (started) s head rest t m f g where "s \<in> set (qu_slots q)" and "sl_slot_number s = n" and "sl_is_available s"
      and "waiting_in_lane q n = head # rest" and "get_ticket (qu_board q) (qr_ticket_id head) = Some t"
      and "tickets_holding_lanes (alter_slot (sl_id s) (taken (le_now env)) q) (Some n) (tk_id t) = []"
      and "dispatch_frame (alter_slot (sl_id s) (taken (le_now env)) q) m" and "names_work m (tk_id t) f"
      and "names_run g"
      and "start_lane_head env (Some d) q n =
             (let r = renumber n None (alter_entry (qr_id head) (\<lambda>e. activated (le_now env) (g e))
                (alter_slot (sl_id s) (\<lambda>s. assigned (le_now env) (f s)) m))
              in (r, Inr (get_entry r (qr_id head))))"
proof (cases "le_draining env")
  case True
  then show ?thesis
    by (cases "waiting_in_lane q n") (auto simp: start_lane_head.simps [of env "Some d" q n]
          stamp_refusal_def row_frame_refused intro: rested)
next
  case awake: False
  show ?thesis
  proof (cases rule: claim_lane_slot_cases [OF assms(1), of env n, case_names taken_already claimed])
    case taken_already
    with awake show ?thesis by (intro rested [of q]) (simp_all add: start_lane_head.simps [of env "Some d" q n])
  next
    case (claimed s)
    note head_of = start_lane_head.simps [of env "Some d" q n]
    let ?q = "alter_slot (sl_id s) (taken (le_now env)) q"
    show ?thesis
    proof (cases "waiting_in_lane q n")
      case Nil
      with awake claimed show ?thesis
        by (intro passed [OF claimed(1-3), of "alter_slot (sl_id s) (passed (le_now env)) q"])
           (simp_all add: head_of release_slot_def alter_slot_twice)
    next
      case (Cons head rest)
      show ?thesis
      proof (cases "get_ticket (qu_board q) (qr_ticket_id head)")
        case None
        with awake claimed Cons show ?thesis
          by (intro gone [of s head rest]) (simp_all add: head_of release_slot_def alter_slot_twice)
      next
        case (Some t)
        show ?thesis
        proof (cases "tickets_holding_lanes ?q (Some n) (tk_id t) = []")
          case False
          with awake claimed Cons Some show ?thesis
            by (intro passed [OF claimed(1-3), of "alter_entry (qr_id head) (refused_with (held_elsewhere
                  (tickets_holding_lanes ?q (Some n) (tk_id t))) (le_now env)) (alter_slot (sl_id s) (passed (le_now env)) q)"])
              (simp_all add: head_of release_slot_def alter_slot_twice Let_def row_frame_refused)
        next
          case free: True
          note run = awake claimed Cons Some free head_of
          have keyed: "orchs_keyed ?q" using assms(2) by (simp add: orchs_keyed_def)
          obtain r x where r: "start_entry_work d ?q t head (sl_id s) = (r, x)" by fastforce
          from keyed r show ?thesis
          proof (cases rule: start_work_cases [case_names unstarted started])
            case unstarted
            show ?thesis
            proof (cases x)
              case (Inl e)
              with r run unstarted(2) show ?thesis
                by (intro raised [OF claimed(1-3), of r e]) (simp_all add: dispatch_frame_def)
            next
              case (Inr ok)
              have "qu_slots (alter_slot (sl_id s) (vacated (le_now env)) r)
                  = qu_slots (alter_slot (sl_id s) (vacated (le_now env)) ?q)"
                using unstarted(2) by (simp add: dispatch_frame_def slots_alter)
              with Inr r run unstarted show ?thesis
                by (intro passed [OF claimed(1-3), of "alter_slot (sl_id s) (vacated (le_now env)) r"])
                  (simp_all add: dispatch_frame_def release_slot_def alter_slot_twice)
            qed
          next
            case work: (started m f g)
            have "alter_entry (qr_id head) (activated (le_now env)) (alter_slot (sl_id s) (assigned (le_now env)) r)
                = alter_entry (qr_id head) (\<lambda>e. activated (le_now env) (g e))
                    (alter_slot (sl_id s) (\<lambda>s. assigned (le_now env) (f s)) m)"
              using names_work_simps(1) [OF work(3)] names_run_simps(1) [OF work(4)]
              by (auto simp: work(5) alter_slot_def alter_entry_def)
            then have "start_lane_head env (Some d) q n =
                (let r = renumber n None (alter_entry (qr_id head) (\<lambda>e. activated (le_now env) (g e))
                   (alter_slot (sl_id s) (\<lambda>s. assigned (le_now env) (f s)) m))
                 in (r, Inr (get_entry r (qr_id head))))"
              using r run work(1) by (simp add: Let_def)
            then show ?thesis
              by (rule started [OF claimed(1-3) Cons Some free work(2-4)])
          qed
        qed
      qed
    qed
  qed
qed

text \<open>Induction over the heads that are dropped.\<close>

lemma start_lane_head_induct [consumes 3, case_names rested passed raised started gone]:
  assumes "pool_sound q" and "entries_keyed q" and "orchs_keyed q"
    and "\<And>q r. pool_sound q \<Longrightarrow> entries_keyed q \<Longrightarrow> orchs_keyed q \<Longrightarrow> row_frame q r \<Longrightarrow> qu_slots r = qu_slots q
      \<Longrightarrow> P q (r, Inr None)"
    and "\<And>q s r. pool_sound q \<Longrightarrow> entries_keyed q \<Longrightarrow> orchs_keyed q \<Longrightarrow> s \<in> set (qu_slots q) \<Longrightarrow> sl_slot_number s = n
      \<Longrightarrow> sl_is_available s \<Longrightarrow> row_frame q r
      \<Longrightarrow> qu_slots r = qu_slots (alter_slot (sl_id s) (passed (le_now env)) q) \<Longrightarrow> P q (r, Inr None)"
    and "\<And>q s r e. pool_sound q \<Longrightarrow> entries_keyed q \<Longrightarrow> orchs_keyed q \<Longrightarrow> s \<in> set (qu_slots q) \<Longrightarrow> sl_slot_number s = n
      \<Longrightarrow> sl_is_available s \<Longrightarrow> row_frame q r
      \<Longrightarrow> qu_slots r = qu_slots (alter_slot (sl_id s) (taken (le_now env)) q) \<Longrightarrow> P q (r, Inl e)"
    and "\<And>q s head rest t m f g r. pool_sound q \<Longrightarrow> entries_keyed q \<Longrightarrow> orchs_keyed q \<Longrightarrow> s \<in> set (qu_slots q)
      \<Longrightarrow> sl_slot_number s = n \<Longrightarrow> sl_is_available s \<Longrightarrow> waiting_in_lane q n = head # rest
      \<Longrightarrow> get_ticket (qu_board q) (qr_ticket_id head) = Some t
      \<Longrightarrow> tickets_holding_lanes (alter_slot (sl_id s) (taken (le_now env)) q) (Some n) (tk_id t) = []
      \<Longrightarrow> dispatch_frame (alter_slot (sl_id s) (taken (le_now env)) q) m \<Longrightarrow> names_work m (tk_id t) f
      \<Longrightarrow> names_run g
      \<Longrightarrow> r = renumber n None (alter_entry (qr_id head) (\<lambda>e. activated (le_now env) (g e))
            (alter_slot (sl_id s) (\<lambda>s. assigned (le_now env) (f s)) m))
      \<Longrightarrow> P q (r, Inr (get_entry r (qr_id head)))"
    and "\<And>q s head rest q' out. pool_sound q \<Longrightarrow> entries_keyed q \<Longrightarrow> orchs_keyed q \<Longrightarrow> s \<in> set (qu_slots q)
      \<Longrightarrow> sl_slot_number s = n \<Longrightarrow> sl_is_available s \<Longrightarrow> waiting_in_lane q n = head # rest
      \<Longrightarrow> get_ticket (qu_board q) (qr_ticket_id head) = None
      \<Longrightarrow> q' = renumber n None (delete_entry (qr_id head) (alter_slot (sl_id s) (passed (le_now env)) q))
      \<Longrightarrow> P q' out \<Longrightarrow> P q out"
  shows "P q (start_lane_head env (Some d) q n)"
  using assms(1-3)
proof (induction "length (qu_entries q)" arbitrary: q rule: less_induct)
  case less
  show ?case
  proof (cases rule: start_lane_head_step [OF less.prems(1,3), of env n, case_names rested passed gone raised started])
    case (rested r)
    with assms(4) less.prems show ?thesis by simp
  next
    case (passed s r)
    with assms(5) less.prems show ?thesis by simp
  next
    case (raised s r e)
    with assms(6) less.prems show ?thesis by simp
  next
    case (started s head rest t m f g)
    note P = assms(7) [OF less.prems started(1-9) refl]
    show ?thesis unfolding started(10) Let_def by (rule P)
  next
    case (gone s head rest)
    let ?q = "renumber n None (delete_entry (qr_id head) (alter_slot (sl_id s) (passed (le_now env)) q))"
    have "pool_sound ?q"
      using less.prems(1) pool_sound_alter [of q "passed (le_now env)" "sl_id s"] by (simp add: pool_sound_def)
    moreover have "entries_keyed ?q"
      using less.prems(2) by (intro renumber_plain(4) keyed_delete) (simp add: entries_keyed_def)
    moreover have "orchs_keyed ?q" using less.prems(3) by (simp add: orchs_keyed_def)
    moreover have "length (qu_entries ?q) < length (qu_entries q)"
      using delete_entry_shorter [of head "alter_slot (sl_id s) (passed (le_now env)) q"] waiting_in_entries [OF gone(4)]
      by simp
    ultimately have "P ?q (start_lane_head env (Some d) ?q n)" by (rule less.hyps [rotated])
    from assms(8) [OF less.prems gone(1-5) refl this] show ?thesis by (simp add: gone(6))
  qed
qed

text \<open>Entries leave a lane from its front: those whose ticket is gone, and then the one started.\<close>

lemma start_lane_head_front:
  assumes "pool_sound q" and "lanes_sound q" and "orchs_keyed q"
  shows "front_left n q (fst (start_lane_head env (Some d) q n)) (snd (start_lane_head env (Some d) q n))
    \<and> lanes_sound (fst (start_lane_head env (Some d) q n))"
proof -
  have "entries_keyed q" using assms(2) by (simp add: lanes_sound_def)
  from assms(1) this assms(3,2) show ?thesis
  proof (induction rule: start_lane_head_induct)
    case (rested q r)
    note lanes = frame_lanes [OF row_frame_entries [OF rested(4)]]
    show ?case using rested(6) lanes by (simp add: front_left_def)
  next
    case (passed q s r)
    note lanes = frame_lanes [OF row_frame_entries [OF passed(7)]]
    show ?case using passed(9) lanes by (simp add: front_left_def)
  next
    case (raised q s r e)
    note lanes = frame_lanes [OF row_frame_entries [OF raised(7)]]
    show ?case using raised(9) lanes by (simp add: front_left_def)
  next
    case (started q s head rest t m f g r)
    have frame: "row_frame q m" using started(10) by (simp add: dispatch_frame_def)
    note lanes = started_lanes [OF started(14) frame started(7,12), where now = "le_now env" and i = "sl_id s"
        and f = "\<lambda>s. assigned (le_now env) (f s)", folded started(13)]
    obtain e where e: "get_entry r (qr_id head) = Some e" "qr_id e = qr_id head"
      using started_row(2) [OF started(2) frame started(7,12), where now = "le_now env" and i = "sl_id s"
        and f = "\<lambda>s. assigned (le_now env) (f s)", folded started(13)] by blast
    have "lane q n = qr_id head # lane r n" by (simp add: lanes(1) started(7) lane_def)
    then show ?case using lanes by (simp add: front_left_def e)
  next
    case (gone q s head rest q' out)
    note drop = dropped_lanes [OF gone(11,7), of "sl_id s" "passed (le_now env)", folded gone(9)]
    have "front_left n q' (fst out) (snd out)" "lanes_sound (fst out)" using gone(10) drop(2) by simp_all
    then show ?case using front_left_gone [OF gone(11,7,8) drop] dropped_rows [OF gone(2)] by (simp add: gone(9))
  qed
qed

lemma start_lane_head_one_lane:
  assumes "pool_sound q" and "entries_keyed q" and "orchs_keyed q" and "one_lane q"
  shows "one_lane (fst (start_lane_head env (Some d) q n))"
  using assms
proof (induction rule: start_lane_head_induct)
  case (rested q r)
  then show ?case by (auto intro: one_lane_kept row_frame_work)
next
  case (passed q s r)
  then show ?case by (auto intro: one_lane_slot row_frame_work)
next
  case (raised q s r e)
  then show ?case by (auto intro: one_lane_slot row_frame_work)
next
  case (started q s head rest t m f g r)
  have frame: "work_kept q m" "qu_slots m = qu_slots (alter_slot (sl_id s) (taken (le_now env)) q)"
    using started(10) by (simp_all add: dispatch_frame_def row_frame_work)
  show ?case
    unfolding fst_conv by (rule started_one_lane [OF started(1,14,4-6,9) frame started(11)]) (simp_all add: started(13) slots_alter)
next
  case (gone q s head rest q' out)
  have "one_lane q'"
    by (rule one_lane_slot [OF gone(11), of _ "sl_id s" "passed (le_now env)"])
       (simp_all add: gone(9) work_kept_rows)
  with gone(10) show ?case .
qed

lemma start_lane_head_slots:
  assumes "pool_sound q" and "entries_keyed q" and "orchs_keyed q"
  shows "slot_effect n q (fst (start_lane_head env (Some d) q n)) (snd (start_lane_head env (Some d) q n))"
  using assms
proof (induction rule: start_lane_head_induct)
  case (rested q r)
  then show ?case by (simp add: slot_effect_refl)
next
  case (passed q s r)
  show ?case unfolding fst_conv snd_conv by (rule slot_effect_alter [OF passed(1,4-6,8)]) simp_all
next
  case (raised q s r e)
  show ?case unfolding fst_conv snd_conv by (rule slot_effect_alter [OF raised(1,4-6,8)]) simp_all
next
  case (started q s head rest t m f g r)
  have frame: "row_frame q m" "qu_slots m = qu_slots (alter_slot (sl_id s) (taken (le_now env)) q)"
    using started(10) by (simp_all add: dispatch_frame_def)
  obtain e where e: "get_entry r (qr_id head) = Some e" "qr_ticket_id e = qr_ticket_id head"
    using started_row(2) [OF started(2) frame(1) started(7,12), where now = "le_now env" and i = "sl_id s"
      and f = "\<lambda>s. assigned (le_now env) (f s)", folded started(13)] by blast
  have t: "tk_id t = qr_ticket_id e" using get_ticket_id [OF started(8)] e by simp
  let ?f = "\<lambda>u. assigned (le_now env) (f (taken (le_now env) u))"
  have keep: "sl_id (?f u) = sl_id u" "sl_slot_number (?f u) = sl_slot_number u" "\<not> sl_is_available (?f u)" for u
    using names_work_simps [OF started(11)] by (simp_all add: assigned_def)
  have "slot_holds r (?f s) = slot_holds m (?f s)" by (rule same_rows_hold) (simp_all add: started(13))
  then have "slot_after r (Inr (Some e)) (?f s)"
    using names_work_holds(1) [OF started(11) names_nothing_simps(2)] keep(3) t by simp
  moreover have "qu_slots r = qu_slots (alter_slot (sl_id s) ?f q)"
    using keep(1) by (simp add: started(13) slots_alter frame(2))
  ultimately show ?case
    unfolding fst_conv snd_conv e(1) by (intro slot_effect_alter [OF started(1,4-6)]) (simp_all only: keep)
next
  case (gone q s head rest q' out)
  show ?case by (rule slot_effect_pass [OF gone(1,4-6) _ gone(10)]) (simp add: gone(9))
qed

end

end
