(* ===== verification/LaneOps.thy ===== *)
theory LaneOps
  imports LaneDispatch
begin

text \<open>
  The operations of a lane over any dispatcher that keeps the contract: what they do to the
  lines, and what holds of the claims however they follow one another.
\<close>

section \<open>Rows that do not move\<close>

lemma waiting_alter_rest:
  "filter (\<lambda>e. qr_id e \<noteq> i) (waiting_in_lane (alter_entry i f q) n) = filter (\<lambda>e. qr_id e \<noteq> i) (waiting_in_lane q n)"
  if "\<And>e. qr_id (f e) = qr_id e"
proof -
  have "filter (\<lambda>e. qr_id e \<noteq> i \<and> waits_in n e) (map (\<lambda>e. if qr_id e = i then f e else e) es)
      = filter (\<lambda>e. qr_id e \<noteq> i \<and> waits_in n e) es" for es
    using that by (induction es) auto
  then show ?thesis by (simp add: waiting_in_lane_def entries_alter filter_sort conj_commute)
qed

lemma waiting_other:
  assumes "entries_keyed q" and "e \<in> set (qu_entries q)" and "qr_slot_number e \<noteq> m"
  shows "filter (\<lambda>x. qr_id x \<noteq> qr_id e) (waiting_in_lane q m) = waiting_in_lane q m"
proof (rule filter_True)
  show "\<forall>x \<in> set (waiting_in_lane q m). qr_id x \<noteq> qr_id e"
  proof (intro ballI notI)
    fix x assume x: "x \<in> set (waiting_in_lane q m)" "qr_id x = qr_id e"
    then have "x \<in> set (qu_entries q)" "waits_in m x" by (simp_all add: set_waiting)
    moreover from this have "x = e" using entry_eq [OF assms(1) _ assms(2) x(2)] by simp
    ultimately show False using assms(3) by (simp add: waits_in_def)
  qed
qed

lemma lane_ids: "map qr_id (filter (\<lambda>e. qr_id e \<noteq> i) es) = filter (\<lambda>j. j \<noteq> i) (map qr_id es)"
  by (simp add: filter_map o_def)

text \<open>Taking an entry out of its lane closes the gap it leaves.\<close>

lemma removed_lanes:
  assumes "lanes_sound q" and "get_entry q i = Some e"
  defines "r \<equiv> renumber (qr_slot_number e) None (delete_entry i q)"
  shows "lane r = (\<lambda>m. filter (\<lambda>j. j \<noteq> i) (lane q m))" and "lanes_sound r"
proof -
  have keyed: "entries_keyed q" and num: "numbered q m" for m using assms(1) by (simp_all add: lanes_sound_def)
  have e: "e \<in> set (qu_entries q)" "qr_id e = i" using assms(2) keyed by (simp_all add: get_entry_iff)
  note re = renumber_plain [OF keyed_delete [OF keyed], where n = "qr_slot_number e"]
  show "lane r = (\<lambda>m. filter (\<lambda>j. j \<noteq> i) (lane q m))"
    unfolding r_def re(1) by (rule ext) (rule lane_delete)
  have "numbered (delete_entry i q) m" if "m \<noteq> qr_slot_number e" for m
    using lane_same_waiting(2) [of "delete_entry i q" m q] num [of m] waiting_other [OF keyed e(1), of m] that
    by (simp add: waiting_delete e(2))
  then have "numbered r m" for m using re(2,3) by (cases "m = qr_slot_number e") (simp_all add: r_def)
  with re(4) show "lanes_sound r" by (simp add: lanes_sound_def r_def)
qed

text \<open>A move: out of its line, and in at the clamped place of the target.\<close>

definition move_line :: "string \<Rightarrow> int \<Rightarrow> int \<Rightarrow> (int \<Rightarrow> string list) \<Rightarrow> int \<Rightarrow> string list" where
  "move_line i n target L = (\<lambda>m. filter (\<lambda>j. j \<noteq> i) (L m))(n := insert_at i target (L n))"

lemma insert_at_filter: "insert_at i target (filter (\<lambda>j. j \<noteq> i) xs) = insert_at i target xs"
  by (simp add: insert_at_def)

lemma moved_lanes:
  fixes n k :: int
  assumes "lanes_sound q" and "get_entry q i = Some e" and "qr_status e \<in> set WAITING_STATUSES"
  defines "p \<equiv> alter_entry i (\<lambda>e. e\<lparr>qr_slot_number := n, qr_position := k\<rparr>) q"
  defines "s \<equiv> (if qr_slot_number e \<noteq> n then renumber (qr_slot_number e) None p else p)"
  shows "lane (renumber n (Some (i, target)) s) = move_line i n target (lane q)"
    and "lanes_sound (renumber n (Some (i, target)) s)"
proof -
  let ?f = "\<lambda>e. e\<lparr>qr_slot_number := n, qr_position := k\<rparr>"
  have keyed: "entries_keyed q" and num: "numbered q m" for m using assms(1) by (simp_all add: lanes_sound_def)
  have e: "e \<in> set (qu_entries q)" "qr_id e = i" using assms(2) keyed by (simp_all add: get_entry_iff)
  have keyed_p: "entries_keyed p" unfolding p_def by (rule keyed_alter [OF keyed]) simp
  have rest: "filter (\<lambda>j. j \<noteq> i) (lane p m) = filter (\<lambda>j. j \<noteq> i) (lane q m)" for m
    unfolding lane_def lane_ids [symmetric] p_def by (subst waiting_alter_rest) simp_all
  have other_w: "waiting_in_lane p m = filter (\<lambda>x. qr_id x \<noteq> i) (waiting_in_lane q m)" if "m \<noteq> n" for m
    unfolding p_def using that by (intro waiting_alter_out) (simp add: waits_in_def)
  have other: "lane p m = filter (\<lambda>j. j \<noteq> i) (lane q m)" if "m \<noteq> n" for m
    using other_w [OF that] by (simp add: lane_def lane_ids)
  have num_p: "numbered p m" if "m \<noteq> n" "m \<noteq> qr_slot_number e" for m
    using lane_same_waiting(2) [of p m q] num [of m] other_w [OF that(1)] waiting_other [OF keyed e(1), of m] that(2)
    by (simp add: e(2))
  have "?f e \<in> set (qu_entries p)" using e by (force simp: p_def entries_alter)
  moreover have "waits_in n (?f e)" using assms(3) by (simp add: waits_in_def)
  ultimately have "?f e \<in> set (waiting_in_lane p n)" by (simp add: set_waiting)
  then have "qr_id (?f e) \<in> set (lane p n)" unfolding lane_def set_map by (rule imageI)
  then have here: "i \<in> set (lane p n)" by (simp add: e(2))
  have s: "lane s = lane p" "entries_keyed s" and num_s: "\<And>m. m \<noteq> n \<Longrightarrow> numbered s m"
    using renumber_plain [OF keyed_p, where n = "qr_slot_number e"] keyed_p num_p
    by (auto simp: s_def) metis
  note moved = renumber_moved [OF s(2), where i = i and n = n and target = target]
  have "insert_at i target (lane p n) = insert_at i target (lane q n)"
    using insert_at_filter [of i target "lane p n"] insert_at_filter [of i target "lane q n"] by (simp add: rest)
  then show "lane (renumber n (Some (i, target)) s) = move_line i n target (lane q)"
    using moved(1) here other by (auto simp: s(1) move_line_def fun_eq_iff)
  have "numbered (renumber n (Some (i, target)) s) m" for m
    using moved(2,3) num_s here by (cases "m = n") (simp_all add: s(1))
  with moved(4) here show "lanes_sound (renumber n (Some (i, target)) s)" by (simp add: lanes_sound_def s(1))
qed

section \<open>The operations on the lines\<close>

text \<open>
  What an operation makes of the lines \<open>L\<close> before the lane is looked at, and then the front that
  the look takes off.
\<close>

definition served :: "int \<Rightarrow> (int \<Rightarrow> string list) \<Rightarrow> (int \<Rightarrow> string list) \<Rightarrow> bool" where
  "served n L M \<longleftrightarrow> (\<exists>k. M = L(n := drop k (L n)))"

lemma served_refl: "served n L L"
  unfolding served_def by (rule exI [of _ 0]) simp

lemma served_front: "front_left n q r x \<Longrightarrow> served n (lane q) (lane r)"
proof -
  assume "front_left n q r x"
  then obtain gone where gone: "lane q n = gone @ started_id x @ lane r n" and rest: "\<forall>m. m \<noteq> n \<longrightarrow> lane r m = lane q m"
    unfolding front_left_def by blast
  have "lane r n = drop (length (gone @ started_id x)) (lane q n)" using gone by simp
  then have "lane r = (lane q)(n := drop (length (gone @ started_id x)) (lane q n))" using rest by auto
  then show ?thesis unfolding served_def by blast
qed

lemma fit_lanes: "lane (initialize_slots env q) = lane q" "lanes_sound (initialize_slots env q) = lanes_sound q"
    "entries_keyed (initialize_slots env q) = entries_keyed q"
  by (rule same_entries_lanes; simp add: initialize_slots_def)+

lemma entry_of_simps [simp]:
  "qr_id (entry_of i env t r k) = i" "qr_position (entry_of i env t r k) = k"
  "waits_in n (entry_of i env t r k) \<longleftrightarrow> n = lr_slot_number r" "qr_ticket_id (entry_of i env t r k) = tk_id t"
  by (auto simp: entry_of_def new_entry_def waits_in_def WAITING_STATUSES_def)

lemma pool_sound_rows: "qu_slots r = qu_slots q \<Longrightarrow> pool_sound r = pool_sound q"
  by (simp add: pool_sound_def)

text \<open>The new row, before the lane is looked at.\<close>

definition enqueued :: "LaneEnv \<Rightarrow> Queue \<Rightarrow> Ticket \<Rightarrow> LaneRequest \<Rightarrow> Queue" where
  "enqueued env q t r =
     add_entry (entry_of (digits_of (qu_next_id q)) env t r (int (length (waiting_in_lane q (lr_slot_number r))) + 1))
       (snd (uuid4 q))"

lemma uuid4_fields [simp, row_simps]:
  "fst (uuid4 q) = digits_of (qu_next_id q)" "qu_slots (snd (uuid4 q)) = qu_slots q"
  "qu_entries (snd (uuid4 q)) = qu_entries q" "qu_ledger (snd (uuid4 q)) = qu_ledger q"
  "qu_orchs (snd (uuid4 q)) = qu_orchs q" "qu_board (snd (uuid4 q)) = qu_board q"
  "qu_next_id (snd (uuid4 q)) = Suc (qu_next_id q)"
  by (simp_all add: uuid4_def)

lemma enqueued_fields [simp, row_simps]:
  "qu_slots (enqueued env q t r) = qu_slots q" "qu_ledger (enqueued env q t r) = qu_ledger q"
  "qu_orchs (enqueued env q t r) = qu_orchs q" "qu_board (enqueued env q t r) = qu_board q"
  "qu_next_id (enqueued env q t r) = Suc (qu_next_id q)"
  "qr_id ` set (qu_entries (enqueued env q t r)) = insert (digits_of (qu_next_id q)) (qr_id ` set (qu_entries q))"
  by (simp_all add: enqueued_def) (simp_all add: add_entry_def)

lemma enqueued_lanes:
  assumes "lanes_sound q" and "ids_fresh q"
  shows "lane (enqueued env q t r) = (lane q)(lr_slot_number r := lane q (lr_slot_number r) @ [digits_of (qu_next_id q)])"
    and "lanes_sound (enqueued env q t r)"
proof -
  let ?p = "snd (uuid4 q)"
  have same: "qu_entries ?p = qu_entries q" by simp
  note rows = same_entries_lanes [OF same]
  have fresh: "digits_of (qu_next_id q) \<notin> qr_id ` set (qu_entries ?p)"
    using assms(2) unfolding ids_fresh_def by simp
  let ?e = "entry_of (digits_of (qu_next_id q)) env t r (int (length (waiting_in_lane q (lr_slot_number r))) + 1)"
  have "lane (add_entry ?e ?p) = (lane ?p)(lr_slot_number r := lane ?p (lr_slot_number r) @ [qr_id ?e])"
    "lanes_sound (add_entry ?e ?p)"
    by (rule lane_add [of ?p "lr_slot_number r" ?e]; use assms(1) rows fresh in simp)+
  then show "lane (enqueued env q t r) = (lane q)(lr_slot_number r := lane q (lr_slot_number r) @ [digits_of (qu_next_id q)])"
    "lanes_sound (enqueued env q t r)"
    by (simp_all add: enqueued_def rows)
qed

text \<open>The ways of \<open>add_to_lane\<close>.\<close>

lemma add_to_lane_cases:
  assumes "add_to_lane env d q r = (q', x)"
  obtains (refused) "\<exists>e. x = Inl e" and "q' = q \<or> q' = initialize_slots env q"
  | (waiting) e where "already_queued q (lr_ticket_id r) (lr_entry_kind r) (lr_stage_key r) = Some e"
      and "q' = initialize_slots env q" and "\<exists>y. x = Inr y"
  | (parked) t where "already_queued q (lr_ticket_id r) (lr_entry_kind r) (lr_stage_key r) = None"
      and "q' = enqueued env (initialize_slots env q) t r" and "tk_id t = lr_ticket_id r"
      and "\<exists>y. x = Inr y \<and> ly_entry_id y = digits_of (qu_next_id (initialize_slots env q))"
  | (looked) t y where "already_queued q (lr_ticket_id r) (lr_entry_kind r) (lr_stage_key r) = None"
      and "tk_id t = lr_ticket_id r"
      and "start_lane_head env d (enqueued env (initialize_slots env q) t r) (lr_slot_number r) = (q', y)"
      and "\<forall>z. x = Inr z \<longrightarrow> ly_entry_id z = digits_of (qu_next_id (initialize_slots env q))"
proof (cases "get_ticket (qu_board q) (lr_ticket_id r)")
  case None
  with assms show ?thesis by (intro refused) (auto simp: add_to_lane_def)
next
  case (Some t)
  let ?q = "initialize_slots env q"
  have t: "tk_id t = lr_ticket_id r" by (rule get_ticket_id [OF Some])
  have same: "already_queued ?q i k s = already_queued q i k s" for i k s
    by (simp add: already_queued_def initialize_slots_def)
  show ?thesis
  proof (cases "slot_numbered ?q (lr_slot_number r) = None \<or> lr_slot_number r > le_max_concurrent env")
    case True
    with assms Some show ?thesis
      by (intro refused) (auto simp: add_to_lane_def Let_def split: option.splits if_splits)
  next
    case False
    then obtain s where s: "slot_numbered ?q (lr_slot_number r) = Some s" and le: "\<not> lr_slot_number r > le_max_concurrent env"
      by auto
    show ?thesis
    proof (cases "already_queued q (lr_ticket_id r) (lr_entry_kind r) (lr_stage_key r)")
      case queued: (Some e)
      with assms Some s le same t show ?thesis
        by (intro waiting) (auto simp: add_to_lane_def Let_def)
    next
      case None
      let ?p = "enqueued env ?q t r"
      have form: "and_then (if sl_is_available s then start_lane_head env d ?p (lr_slot_number r) else (?p, Inr None))
          (\<lambda>q started. (q, Inr (added_reply (lr_slot_number r) (digits_of (qu_next_id ?q)) started
             (case get_entry q (digits_of (qu_next_id ?q)) of
                Some e \<Rightarrow> qr_position e | None \<Rightarrow> int (length (waiting_in_lane ?q (lr_slot_number r))) + 1)))) = (q', x)"
        using assms Some s le same t None by (cases "sl_is_available s") (auto simp: add_to_lane_def Let_def enqueued_def uuid4_def)
      have id: "ly_entry_id (added_reply n i y k) = i" for n i y k by (simp add: added_reply_def split: option.split)
      show ?thesis
      proof (cases "sl_is_available s")
        case True
        obtain m y where m: "start_lane_head env d ?p (lr_slot_number r) = (m, y)" by fastforce
        with True form have "q' = m \<and> (\<forall>z. x = Inr z \<longrightarrow> ly_entry_id z = digits_of (qu_next_id ?q))"
          by (cases y) (auto simp: id)
        with m None t show ?thesis by (intro looked) auto
      next
        case False
        with form None t show ?thesis by (intro parked) (auto simp: id)
      qed
    qed
  qed
qed

section \<open>What holds of the claims\<close>

text \<open>The keys of slots, entries and orchestrations, undrawn identifiers, and one lane per ticket.\<close>

definition claims_sound :: "Queue \<Rightarrow> bool" where
  "claims_sound q \<longleftrightarrow> pool_sound q \<and> entries_keyed q \<and> orchs_keyed q \<and> ids_fresh q \<and> one_lane q"

text \<open>A change that adds no slot, no claim and no entry.\<close>

definition quiet :: "Queue \<Rightarrow> Queue \<Rightarrow> bool" where
  "quiet q r \<longleftrightarrow> map sl_id (qu_slots r) = map sl_id (qu_slots q)
     \<and> map sl_slot_number (qu_slots r) = map sl_slot_number (qu_slots q)
     \<and> (\<forall>s \<in> set (qu_slots r). s \<in> set (qu_slots q) \<or> names_nothing s)
     \<and> entries_keyed r \<and> qr_id ` set (qu_entries r) \<subseteq> qr_id ` set (qu_entries q)
     \<and> qu_next_id q \<le> qu_next_id r \<and> work_kept q r"

lemma ids_fresh_less:
  assumes "ids_fresh q" and "map sl_id (qu_slots r) = map sl_id (qu_slots q)"
    and "qr_id ` set (qu_entries r) \<subseteq> qr_id ` set (qu_entries q)" and "qu_next_id q \<le> qu_next_id r"
  shows "ids_fresh r"
proof -
  have slots: "sl_id ` set (qu_slots r) = sl_id ` set (qu_slots q)" by (metis assms(2) set_map)
  show ?thesis
    unfolding ids_fresh_def
  proof (intro allI impI)
    fix k assume "k \<ge> qu_next_id r"
    then have "digits_of k \<notin> sl_id ` set (qu_slots q) \<union> qr_id ` set (qu_entries q)"
      using assms(1,4) unfolding ids_fresh_def by simp
    with assms(3) show "digits_of k \<notin> sl_id ` set (qu_slots r) \<union> qr_id ` set (qu_entries r)"
      unfolding slots by (meson UnE UnI1 UnI2 subsetD)
  qed
qed

lemma claims_quiet: "claims_sound q \<Longrightarrow> quiet q r \<Longrightarrow> claims_sound r"
  using ids_fresh_less [of q r] one_lane_kept [of q r]
  unfolding claims_sound_def quiet_def pool_sound_def work_kept_def by simp

lemma quiet_rows:
  assumes "entries_keyed q" and "qu_slots r = qu_slots q" and "map qr_id (qu_entries r) = map qr_id (qu_entries q)"
    and "qu_ledger r = qu_ledger q" and "qu_orchs r = qu_orchs q" and "qu_next_id r = qu_next_id q"
  shows "quiet q r"
proof -
  have "qr_id ` set (qu_entries r) = qr_id ` set (qu_entries q)" by (metis assms(3) set_map)
  with assms show ?thesis by (simp add: quiet_def entries_keyed_def work_kept_rows)
qed

lemma quiet_refl: "entries_keyed q \<Longrightarrow> quiet q q"
  by (rule quiet_rows) simp_all

lemma quiet_alter: "entries_keyed q \<Longrightarrow> (\<And>e. qr_id (f e) = qr_id e) \<Longrightarrow> quiet q (alter_entry i f q)"
  by (rule quiet_rows) (simp_all add: entries_alter o_def if_distrib cong: if_cong)

lemma quiet_renumber: "entries_keyed q \<Longrightarrow> quiet q (renumber n x q)"
proof -
  assume keyed: "entries_keyed q"
  have "qr_id ` set es \<subseteq> qr_id ` set (qu_entries q) \<Longrightarrow> map qr_id (qu_entries (reposition k es p)) = map qr_id (qu_entries p)" for k es p
    by (induction es arbitrary: k p) (simp_all add: entries_alter o_def if_distrib cong: if_cong)
  then have "map qr_id (qu_entries (reposition k es p)) = map qr_id (qu_entries p)" for k es p
    by (induction es arbitrary: k p) (simp_all add: entries_alter o_def if_distrib cong: if_cong)
  then show ?thesis by (intro quiet_rows keyed) (simp_all add: renumber_def Let_def)
qed

lemma quiet_release: "entries_keyed q \<Longrightarrow> quiet q (release_slot env i q)"
  by (auto simp: quiet_def release_slot_def alter_slot_keys entries_keyed_def work_kept_rows slots_alter)

lemma quiet_delete: "entries_keyed q \<Longrightarrow> quiet q (delete_entry i q)"
  using keyed_delete [of q i] by (auto simp: quiet_def work_kept_rows delete_entry_def)

lemma claims_keyed: "claims_sound q \<Longrightarrow> entries_keyed q" "claims_sound q \<Longrightarrow> pool_sound q"
  by (simp_all add: claims_sound_def)

lemma claims_same_queue: "claims_sound q \<Longrightarrow> same_queue r q \<Longrightarrow> claims_sound r"
  by (rule claims_quiet, assumption, rule quiet_rows) (simp_all add: same_queue_def claims_keyed)

lemma claims_fit:
  assumes "claims_sound q"
  shows "claims_sound (initialize_slots env q)"
proof -
  let ?q = "initialize_slots env q"
  have same: "qu_entries ?q = qu_entries q" "qu_ledger ?q = qu_ledger q" "qu_orchs ?q = qu_orchs q"
    by (simp_all add: initialize_slots_def)
  have "\<And>s. s \<in> set (qu_slots ?q) \<Longrightarrow> s \<in> set (qu_slots q) \<or> names_nothing s"
    unfolding initialize_slots_def
    by (erule slot_fit_cases) (simp_all add: names_nothing_def new_slot_def)
  moreover have "one_lane q" "work_kept q ?q" using assms work_kept_rows [OF same(2,3)] by (simp_all add: claims_sound_def)
  ultimately have "one_lane ?q" by (rule one_lane_kept [rotated 2])
  moreover have "pool_sound ?q" "ids_fresh ?q"
    using assms pool_sound_fit by (simp_all add: claims_sound_def initialize_slots_def)
  moreover have "entries_keyed ?q" "orchs_keyed ?q"
    using assms same by (simp_all add: claims_sound_def entries_keyed_def orchs_keyed_def)
  ultimately show ?thesis by (simp add: claims_sound_def)
qed

lemma claims_enqueued:
  assumes "claims_sound q"
  shows "claims_sound (enqueued env q t r)"
proof -
  let ?r = "enqueued env q t r"
  have fresh: "digits_of (qu_next_id q) \<notin> qr_id ` set (qu_entries q)"
    using assms unfolding claims_sound_def ids_fresh_def by simp
  have "entries_keyed ?r"
    using assms fresh by (simp add: claims_sound_def entries_keyed_def enqueued_def add_entry_def)
  moreover have "ids_fresh ?r"
    unfolding ids_fresh_def enqueued_fields
  proof (intro allI impI)
    fix k assume k: "k \<ge> Suc (qu_next_id q)"
    then have "digits_of k \<notin> sl_id ` set (qu_slots q) \<union> qr_id ` set (qu_entries q)"
      using assms unfolding claims_sound_def ids_fresh_def by simp
    moreover have "digits_of k \<noteq> digits_of (qu_next_id q)" using k by (simp add: digits_of_inj)
    ultimately show "digits_of k \<notin> sl_id ` set (qu_slots q) \<union> insert (digits_of (qu_next_id q)) (qr_id ` set (qu_entries q))"
      by simp
  qed
  moreover have "one_lane ?r"
    using assms by (intro one_lane_kept [of q ?r] work_kept_rows) (simp_all add: claims_sound_def)
  moreover have "pool_sound ?r" "orchs_keyed ?r"
    using assms by (simp_all add: claims_sound_def pool_sound_def orchs_keyed_def)
  ultimately show ?thesis by (simp add: claims_sound_def)
qed

text \<open>Re-arming a block and settling an entry leave the claims alone.\<close>

lemma or_reason_id [simp]: "qr_id (or_reason s e) = qr_id e"
  by (simp add: or_reason_def)

lemma settled_entry_id [simp]: "qr_id (settled_entry e) = qr_id e"
  by (simp add: settled_entry_def)

lemma claims_alter: "claims_sound q \<Longrightarrow> (\<And>e. qr_id (f e) = qr_id e) \<Longrightarrow> claims_sound (alter_entry i f q)"
  using claims_quiet quiet_alter claims_keyed(1) by blast

lemma claims_renumber: "claims_sound q \<Longrightarrow> claims_sound (renumber n x q)"
  using claims_quiet quiet_renumber claims_keyed(1) by blast

lemma claims_release: "claims_sound q \<Longrightarrow> claims_sound (release_slot env i q)"
  using claims_quiet quiet_release claims_keyed(1) by blast

lemma claims_delete: "claims_sound q \<Longrightarrow> claims_sound (delete_entry i q)"
  using claims_quiet quiet_delete claims_keyed(1) by blast

lemma claims_hold:
  assumes "claims_sound q" and "hold_lane_for_repair env q e = Inr (m, kept)"
  shows "claims_sound m"
proof -
  have "claims_sound r" if "hold_for_repair env q i t route = Inr (r, s)" for r i t route s
    using that by (rule hold_for_repair_cases) (auto intro: claims_alter claims_same_queue [OF assms(1)])
  with assms show ?thesis
    by (auto simp: hold_lane_for_repair_def Let_def bind_result_Inr_iff claims_alter
          split: option.splits if_splits prod.splits)
qed

lemma claims_outcome_hold:
  "claims_sound q \<Longrightarrow> claims_sound (fst (outcome_of q (hold_lane_for_repair env q e)))"
  using claims_hold [of q env e] by (cases "hold_lane_for_repair env q e") (auto simp: outcome_of_def)

lemma claims_remove: "claims_sound q \<Longrightarrow> claims_sound (fst (remove_entry q i))"
  by (simp add: remove_entry_def claims_renumber claims_delete split: option.split)

section \<open>One operation after another\<close>

text \<open>Each operation with whatever clock and lane count it runs under, its outcome a value or an exception.\<close>

inductive lane_step :: "LaneDispatcher \<Rightarrow> Queue \<Rightarrow> Queue \<Rightarrow> bool" for d where
  added: "add_to_lane env (Some d) q r = (q', x) \<Longrightarrow> lane_step d q q'"
| moved: "move_entry env (Some d) q i n k = (q', y) \<Longrightarrow> lane_step d q q'"
| removed: "remove_entry q i = (q', z) \<Longrightarrow> lane_step d q q'"
| looked: "start_lane_head env (Some d) q n = (q', w) \<Longrightarrow> lane_step d q q'"
| completed: "on_orchestration_complete env (Some d) q i = (q', u) \<Longrightarrow> lane_step d q q'"

section \<open>Over the contract\<close>

context lane_dispatch
begin

lemma start_lane_head_entries:
  assumes "pool_sound q" and "entries_keyed q" and "orchs_keyed q"
  shows "entries_keyed (fst (start_lane_head env (Some d) q n))
    \<and> orchs_keyed (fst (start_lane_head env (Some d) q n))
    \<and> qr_id ` set (qu_entries (fst (start_lane_head env (Some d) q n))) \<subseteq> qr_id ` set (qu_entries q)
    \<and> qu_next_id q \<le> qu_next_id (fst (start_lane_head env (Some d) q n))"
  using assms
proof (induction rule: start_lane_head_induct)
  case (rested q r)
  then show ?case using frame_lanes [OF row_frame_entries [OF rested(4)]] by (simp add: row_frame_def work_kept_def)
next
  case (passed q s r)
  then show ?case using frame_lanes [OF row_frame_entries [OF passed(7)]] by (simp add: row_frame_def work_kept_def)
next
  case (raised q s r e)
  then show ?case using frame_lanes [OF row_frame_entries [OF raised(7)]] by (simp add: row_frame_def work_kept_def)
next
  case (started q s head rest t m f g r)
  have frame: "row_frame q m" using started(10) by (simp add: dispatch_frame_def)
  note lanes = frame_lanes [OF row_frame_entries [OF frame]]
  let ?m = "alter_slot (sl_id s) (\<lambda>s. assigned (le_now env) (f s)) m"
  let ?p = "alter_entry (qr_id head) (\<lambda>e. activated (le_now env) (g e)) ?m"
  have "entries_keyed ?m" using lanes(3) started(2) by (simp add: entries_keyed_def)
  then have "quiet ?m ?p" by (rule quiet_alter) (simp add: activated_def names_run_simps [OF started(12)])
  moreover from this have "quiet ?p r" unfolding started(13) by (intro quiet_renumber) (simp add: quiet_def)
  ultimately have "entries_keyed r" "qr_id ` set (qu_entries r) \<subseteq> qr_id ` set (qu_entries ?m)"
    "qu_next_id ?m \<le> qu_next_id r"
    unfolding quiet_def by (meson order_trans)+
  moreover have "orchs_keyed r"
    using frame started(3) by (simp add: row_frame_def work_kept_def started(13) orchs_keyed_def)
  ultimately show ?case using lanes(5) frame by (simp add: row_frame_def)
next
  case (gone q s head rest q' out)
  have "entries_keyed (delete_entry (qr_id head) (alter_slot (sl_id s) (passed (le_now env)) q))"
    using gone(2) by (intro keyed_delete) (simp add: entries_keyed_def)
  from quiet_renumber [OF this, of n None] have "qr_id ` set (qu_entries q') \<subseteq> qr_id ` set (qu_entries q)
      \<and> qu_next_id q \<le> qu_next_id q'"
    unfolding gone(9) quiet_def by (auto simp: delete_entry_def)
  with gone(10) show ?case by (meson order_trans)
qed

lemma start_claims:
  assumes "claims_sound q"
  shows "claims_sound (fst (start_lane_head env (Some d) q n))"
proof -
  have q: "pool_sound q" "entries_keyed q" "orchs_keyed q" "ids_fresh q" "one_lane q" using assms by (simp_all add: claims_sound_def)
  note slots = start_lane_head_slots [OF q(1-3), of n env]
  note rows = start_lane_head_entries [OF q(1-3), of env n]
  have keys: "map sl_id (qu_slots (fst (start_lane_head env (Some d) q n))) = map sl_id (qu_slots q)"
    "map sl_slot_number (qu_slots (fst (start_lane_head env (Some d) q n))) = map sl_slot_number (qu_slots q)"
    using slots by (simp_all add: slot_effect_def)
  then have "pool_sound (fst (start_lane_head env (Some d) q n))" using q(1) by (simp add: pool_sound_def)
  moreover have "ids_fresh (fst (start_lane_head env (Some d) q n))"
    using rows by (intro ids_fresh_less [OF q(4) keys(1)]) simp_all
  ultimately show ?thesis using rows start_lane_head_one_lane [OF q(1-3,5)] by (simp add: claims_sound_def)
qed

lemma added_claims:
  assumes "claims_sound q" and "add_to_lane env (Some d) q r = (q', x)"
  shows "claims_sound q'"
  using assms(2)
proof (cases rule: add_to_lane_cases [case_names refused waiting parked looked])
  case refused
  with assms(1) claims_fit show ?thesis by blast
next
  case (waiting e)
  with assms(1) claims_fit show ?thesis by blast
next
  case (parked t)
  with assms(1) claims_fit claims_enqueued show ?thesis by blast
next
  case (looked t y)
  with start_claims [OF claims_enqueued [OF claims_fit [OF assms(1)]], of env env env t r "lr_slot_number r"]
  show ?thesis by simp
qed

lemma looked_claims:
  assumes "claims_sound q"
  shows "claims_sound (fst (and_then (start_lane_head env (Some d) q n) (\<lambda>q started. (q, Inr y))))"
  using start_claims [OF assms, of env n] by (auto simp: and_then_def split: prod.split sum.split)

lemma moved_claims:
  assumes "claims_sound q"
  shows "claims_sound (fst (move_entry env (Some d) q i n k))"
proof (cases "get_entry q i")
  case (Some e)
  let ?p = "alter_entry i (\<lambda>e. e\<lparr>qr_slot_number := n, qr_position := 10000 + max 0 k\<rparr>) q"
  let ?s = "if qr_slot_number e \<noteq> n then renumber (qr_slot_number e) None ?p else ?p"
  let ?m = "renumber n (Some (i, k)) ?s"
  have "claims_sound ?p" by (rule claims_alter [OF assms]) simp
  then have m: "claims_sound ?m" by (simp add: claims_renumber)
  with Some assms looked_claims [OF m, of env n True] show ?thesis
    by (auto simp: move_entry_def Let_def split: option.split)
qed (simp add: move_entry_def assms)

lemma completed_claims:
  assumes "claims_sound q"
  shows "claims_sound (fst (on_orchestration_complete env (Some d) q i))"
proof -
  let ?entry = "find (\<lambda>e. qr_orchestration_run_id e = Some i) (qu_entries q)"
  let ?held = "find (\<lambda>s. sl_current_orchestration_run_id s = Some i) (qu_slots q)"
  obtain m kept where m: "(case ?entry of None \<Rightarrow> (q, Inr False)
      | Some e \<Rightarrow> if ?held = None then (q, Inr False) else outcome_of q (hold_lane_for_repair env q e)) = (m, kept)"
    by fastforce
  have "claims_sound m"
    using m assms claims_outcome_hold [OF assms, of env] by (auto split: option.splits if_splits) (metis fst_conv)
  then have settled: "claims_sound (case ?entry of None \<Rightarrow> m
      | Some e \<Rightarrow> if qr_status e \<noteq> QueuePosition.STARTED then alter_entry (qr_id e) settled_entry m else m)"
    by (auto intro: claims_alter split: option.split)
  show ?thesis
    unfolding on_orchestration_complete_def Let_def m
    using looked_claims [OF claims_release [OF settled]] settled \<open>claims_sound m\<close>
    by (auto split: option.split sum.split simp: and_then_def)
qed

text \<open>Any sequence of operations keeps one lane per ticket.\<close>

lemma steps_claims:
  assumes "lane_step d q r" and "claims_sound q"
  shows "claims_sound r"
  using assms
proof (cases rule: lane_step.cases)
  case (added env q' x)
  then show ?thesis using added_claims [OF assms(2)] by blast
next
  case (moved env i n k x)
  then show ?thesis using moved_claims [OF assms(2), of env i n k] by simp
next
  case (removed i x)
  then show ?thesis using claims_remove [OF assms(2), of i] by simp
next
  case (looked env n x)
  then show ?thesis using start_claims [OF assms(2), of env n] by simp
next
  case (completed env i x)
  then show ?thesis using completed_claims [OF assms(2), of env i] by simp
qed

text \<open>What the operations make of the lines.\<close>

lemma looked_lines:
  assumes "pool_sound q" and "lanes_sound q" and "orchs_keyed q"
  shows "served n (lane q) (lane (fst (start_lane_head env (Some d) q n)))
    \<and> lanes_sound (fst (start_lane_head env (Some d) q n))"
  using start_lane_head_front [OF assms] served_front by blast

lemma added_lines:
  assumes "pool_sound q" and "lanes_sound q" and "ids_fresh q" and "orchs_keyed q" and "add_to_lane env (Some d) q r = (q', Inr y)"
  shows "served (lr_slot_number r)
      (if already_queued q (lr_ticket_id r) (lr_entry_kind r) (lr_stage_key r) = None
       then (lane q)(lr_slot_number r := lane q (lr_slot_number r) @ [ly_entry_id y]) else lane q) (lane q')
    \<and> lanes_sound q'"
proof -
  let ?q = "initialize_slots env q"
  have q: "lanes_sound ?q" "ids_fresh ?q" "pool_sound ?q"
    using assms(2) pool_sound_fit [OF assms(1,3)] by (simp_all only: fit_lanes) (simp_all add: initialize_slots_def)
  note rows = enqueued_lanes [OF q(1,2), unfolded fit_lanes(1)]
  from assms(5) show ?thesis
  proof (cases rule: add_to_lane_cases [case_names refused waiting parked looked])
    case refused
    then show ?thesis by auto
  next
    case (waiting e)
    then show ?thesis using q(1) by (simp add: fit_lanes served_refl)
  next
    case (parked t)
    then show ?thesis using rows [of env t r] by (auto simp: served_refl)
  next
    case (looked t z)
    have "pool_sound (enqueued env ?q t r)" "orchs_keyed (enqueued env ?q t r)"
      using q(3) assms(4) by (simp_all add: pool_sound_def orchs_keyed_def initialize_slots_def)
    from looked_lines [OF this(1) rows(2) this(2), of "lr_slot_number r" env] looked show ?thesis by (simp add: rows(1))
  qed
qed

lemma moved_lines:
  assumes "pool_sound q" and "lanes_sound q" and "orchs_keyed q" and "move_entry env (Some d) q i n k = (q', Inr True)"
  shows "served n (move_line i n k (lane q)) (lane q') \<and> lanes_sound q'"
proof -
  from assms(4) obtain e where e: "get_entry q i = Some e" "qr_status e \<in> set WAITING_STATUSES"
    by (auto simp: move_entry_def split: option.splits if_splits)
  let ?p = "alter_entry i (\<lambda>e. e\<lparr>qr_slot_number := n, qr_position := 10000 + max 0 k\<rparr>) q"
  let ?s = "if qr_slot_number e \<noteq> n then renumber (qr_slot_number e) None ?p else ?p"
  let ?m = "renumber n (Some (i, k)) ?s"
  note lines = moved_lanes [OF assms(2) e, where n = n and k = "10000 + max 0 k" and target = k]
  have "pool_sound ?m" "orchs_keyed ?m" using assms(1,3) by (simp_all add: pool_sound_def orchs_keyed_def)
  note looked = looked_lines [OF this(1) lines(2) this(2), of n env]
  show ?thesis
  proof (cases "q' = ?m")
    case True
    then show ?thesis using lines by (simp only: served_refl simp_thms)
  next
    case False
    with assms(4) e have "\<exists>x. start_lane_head env (Some d) ?m n = (q', x)"
      by (auto simp: move_entry_def Let_def and_then_eq split: option.splits if_splits)
    with looked lines(1) show ?thesis by auto
  qed
qed

end

end
