(* ===== verification/QueueDispatch.thy ===== *)
theory QueueDispatch
  imports StartRun LaneOps
begin

text \<open>
  What a lane starts: \<open>LaneDispatch\<close> of \<open>services/queue_dispatch.py\<close> over \<open>start_run\<close> for a stage
  and over the claim of \<open>services/orchestration_callbacks.py\<close> for a whole pipeline, and the
  interpretation of \<open>lane_dispatch\<close> on it: what \<open>LaneDispatch\<close> and \<open>LaneOps\<close> prove of a
  lane over the contract holds of the lanes as they run.
\<close>

section \<open>A stage\<close>

definition live_external_orchestration :: "Queue \<Rightarrow> string \<Rightarrow> OrchestrationRun option" where
  "live_external_orchestration q ticket_id =
     find (\<lambda>r. or_ticket_id r = ticket_id \<and> or_driver r = EXTERNAL_MCP
             \<and> or_status r \<in> set LIVE_ORCHESTRATION_STATUSES) (qu_orchs q)"

definition external_owner_text :: "OrchestrationRun \<Rightarrow> string" where
  "external_owner_text owner = ''external orchestration '' @ or_id owner
     @ '' is driving this ticket; the builtin dispatcher does not race it''"

definition stage_ask :: "QueuedRun \<Rightarrow> RunAsk" where
  "stage_ask entry = \<lparr>ra_stage_key = (if qr_stage_key entry = [] then None else Some (qr_stage_key entry)),
     ra_orchestration_run_id = None, ra_agent_id = None, ra_skill_name = None,
     ra_auto_approve = qr_auto_approve entry, ra_timeout_override_seconds = qr_timeout_seconds entry,
     ra_force = qr_force entry, ra_dispatch_surface = QUEUE\<rparr>"

text \<open>A refused start goes on the entry; any other exception passes through.\<close>

definition dispatch_stage :: "StartEnv \<Rightarrow> Queue \<Rightarrow> Ticket \<Rightarrow> QueuedRun \<Rightarrow> AgentRun option outcome" where
  "dispatch_stage env q ticket entry =
     (case live_external_orchestration q (tk_id ticket) of
        Some owner \<Rightarrow>
          (alter_entry (qr_id entry) (refused_with (external_owner_text owner) (le_now env)) q, Inr None)
      | None \<Rightarrow>
          (case start_run env q ticket (stage_ask entry) of
             (q, Inr run) \<Rightarrow> (q, Inr (Some run))
           | (q, Inl e) \<Rightarrow>
               (case value_error_text e of
                  Some text \<Rightarrow> (alter_entry (qr_id entry) (refused_with text (le_now env)) q, Inr None)
                | None \<Rightarrow> (q, Inl e))))"

section \<open>A pipeline\<close>

text \<open>The table refuses a row whose primary key it has.\<close>

definition add_orch :: "OrchestrationRun \<Rightarrow> Queue \<Rightarrow> unit outcome" where
  "add_orch run q =
     (if get_orch q (or_id run) \<noteq> None then (q, Inl IntegrityError)
      else (q\<lparr>qu_orchs := qu_orchs q @ [run]\<rparr>, Inr ()))"

definition alter_orch :: "string \<Rightarrow> (OrchestrationRun \<Rightarrow> OrchestrationRun) \<Rightarrow> Queue \<Rightarrow> Queue" where
  "alter_orch i f q = q\<lparr>qu_orchs := map (\<lambda>r. if or_id r = i then f r else r) (qu_orchs q)\<rparr>"

definition claim_of ::
    "StartEnv \<Rightarrow> string \<Rightarrow> Ticket \<Rightarrow> OrchestrationDriver \<Rightarrow> string \<Rightarrow> OrchestrationAsk \<Rightarrow> OrchestrationRun" where
  "claim_of env i ticket driver profile_slug ask = \<lparr>or_id = i, or_run_code = se_orch_code env,
     or_ticket_id = tk_id ticket, or_workspace_id = tk_workspace_id ticket, or_driver = driver,
     or_profile_slug = profile_slug, or_status = OrchestrationRunStatus.QUEUED,
     or_current_stage_key = tk_workflow_stage_key ticket, or_error_message = [],
     or_auto_approve = oa_auto_approve ask, or_stop_at_stage_key = or_text (oa_stop_at_stage_key ask),
     or_approve_design_plans = oa_approve_design_plans ask, or_auto_repair = oa_auto_repair ask,
     or_timeout_override_seconds = oa_timeout_seconds ask, or_last_seen_at = None, or_started_at = None,
     or_finished_at = None, or_created_at = le_now env\<rparr>"

text \<open>The lane passes no profile, so the workspace's is asked for; a chosen driver wins over its own.\<close>

definition claim_orchestration_run ::
    "StartEnv \<Rightarrow> Queue \<Rightarrow> Ticket \<Rightarrow> OrchestrationDriver option \<Rightarrow> OrchestrationAsk \<Rightarrow> OrchestrationRun outcome" where
  "claim_orchestration_run env q ticket driver ask =
     (case find_active_orchestration_run q (tk_id ticket) of
        Some active \<Rightarrow> (q, Inr active)
      | None \<Rightarrow>
          (case workspace_for_ticket q ticket of
             None \<Rightarrow> (q, Inl (ValueError ''Workspace not found''))
           | Some ws \<Rightarrow>
               (case se_profile env ticket of
                  Inl e \<Rightarrow> (q, Inl e)
                | Inr (default_driver, slug) \<Rightarrow>
                    (let (i, q) = uuid4 q;
                         run = claim_of env i ticket (case driver of None \<Rightarrow> default_driver | Some d \<Rightarrow> d) slug ask
                     in and_then (add_orch run q) (\<lambda>q _. (q, Inr run))))))"

text \<open>
  The claim of a dispatch that was refused: failed, with why. Its row is new, so no agent run is
  under it and no lane names it: there is nothing else for its end to settle.
\<close>

definition abandoned :: "string \<Rightarrow> int \<Rightarrow> OrchestrationRun \<Rightarrow> OrchestrationRun" where
  "abandoned message now run = run\<lparr>or_status := OrchestrationRunStatus.FAILED,
     or_error_message := truncate_for_storage (points message), or_finished_at := Some now\<rparr>"

definition abandon_claim :: "StartEnv \<Rightarrow> string \<Rightarrow> OrchestrationRun \<Rightarrow> Queue \<Rightarrow> Queue" where
  "abandon_claim env message claim q = alter_orch (or_id claim) (abandoned message (le_now env)) q"

definition dispatch_orchestration ::
    "StartEnv \<Rightarrow> Queue \<Rightarrow> Ticket \<Rightarrow> OrchestrationAsk \<Rightarrow> OrchestrationRun option outcome" where
  "dispatch_orchestration env q ticket ask =
     (case find_active_orchestration_run q (tk_id ticket) of
        Some active \<Rightarrow> (q, Inr (Some active))
      | None \<Rightarrow>
          if oa_driver ask \<noteq> [] \<and> driver_of (oa_driver ask) = None then (q, Inr None)
          else and_then (claim_orchestration_run env q ticket
                 (if oa_driver ask = [] then None else driver_of (oa_driver ask)) ask) (\<lambda>q claim.
               case se_schedule_refusal env ticket of
                 None \<Rightarrow> (q, Inr (Some claim))
               | Some text \<Rightarrow> (abandon_claim env text claim q, Inr None)))"

section \<open>The dispatcher\<close>

definition lane_dispatcher :: "StartEnv \<Rightarrow> LaneDispatcher" where
  "lane_dispatcher env = \<lparr>dp_stage = dispatch_stage env, dp_orchestration = dispatch_orchestration env\<rparr>"

text \<open>A start leaves what the lane relies on.\<close>

lemma find_append: "find P (xs @ ys) = (case find P xs of None \<Rightarrow> find P ys | Some x \<Rightarrow> Some x)"
  by (induction xs) auto

lemma opened_frame:
  assumes "opened t ask q r x"
  shows "dispatch_frame q r"
proof -
  have "\<exists>row'. get_run r i = Some row' \<and> rn_ticket_id row' = rn_ticket_id row" if "get_run q i = Some row" for i row
    using assms that by (cases x) (auto simp: opened_def get_run_def find_append)
  moreover have "get_orch r = get_orch q" "orchs_keyed r = orchs_keyed q"
    using assms by (simp_all add: opened_def fun_eq_iff get_orch_def orchs_keyed_def)
  ultimately show ?thesis
    using assms by (cases x) (simp_all add: opened_def dispatch_frame_def row_frame_def work_kept_def)
qed

lemma opened_row:
  assumes "opened t ask q r (Inr run)"
  shows "rn_id run \<noteq> [] \<and> (\<exists>row. get_run r (rn_id run) = Some row \<and> rn_ticket_id row = Some (tk_id t))"
  using assms by (auto simp: opened_def get_run_def find_append)

lemma dispatch_refused [simp]: "dispatch_frame q (alter_entry i (refused_with s now) r) \<longleftrightarrow> dispatch_frame q r"
  by (simp add: dispatch_frame_def)

lemma dispatch_stage_frame: "dispatch_stage env q t e = (r, x) \<Longrightarrow> dispatch_frame q r"
  using opened_frame [OF start_run_opened]
  by (auto simp: dispatch_stage_def dispatch_frame_def split: option.splits prod.splits sum.splits)

lemma dispatch_stage_names:
  "dispatch_stage env q t e = (r, Inr (Some run)) \<Longrightarrow> rn_id run \<noteq> []
     \<and> (\<exists>row. get_run r (rn_id run) = Some row \<and> rn_ticket_id row = Some (tk_id t))"
  using opened_row [OF start_run_opened]
  by (auto simp: dispatch_stage_def split: option.splits prod.splits sum.splits)

text \<open>A claim adds one row, under a new key.\<close>

lemma orch_added:
  assumes "add_orch run q = (r, Inr ())" and "or_id run \<noteq> []"
  shows "dispatch_frame q r" and "get_orch r (or_id run) = Some run"
proof -
  have r: "r = q\<lparr>qu_orchs := qu_orchs q @ [run]\<rparr>" and new: "get_orch q (or_id run) = None"
    using assms(1) by (auto simp: add_orch_def split: if_splits)
  have orch: "get_orch r i = (case get_orch q i of None \<Rightarrow> if or_id run = i then Some run else None | Some x \<Rightarrow> Some x)" for i
    by (simp add: r get_orch_def find_append split: option.split)
  with new show "get_orch r (or_id run) = Some run" by simp
  have "or_id run \<notin> or_id ` set (qu_orchs q)" using new by (auto simp: get_orch_def find_None_iff)
  then have "orchs_keyed q \<longrightarrow> orchs_keyed r" using assms(2) by (auto simp: r orchs_keyed_def)
  moreover have "\<exists>row'. get_orch r i = Some row' \<and> or_ticket_id row' = or_ticket_id row" if "get_orch q i = Some row" for i row
    using that orch by simp
  ultimately show "dispatch_frame q r"
    by (simp add: dispatch_frame_def row_frame_def work_kept_def r get_run_def)
qed

lemma alter_orch_frame:
  assumes "\<And>r. or_id (f r) = or_id r" and "\<And>r. or_ticket_id (f r) = or_ticket_id r"
  shows "dispatch_frame q (alter_orch i f q)"
proof -
  have "get_orch (alter_orch i f q) j = map_option (\<lambda>r. if or_id r = i then f r else r) (get_orch q j)" for j
  proof -
    have "find (\<lambda>r. or_id r = j) (map (\<lambda>r. if or_id r = i then f r else r) rs)
        = map_option (\<lambda>r. if or_id r = i then f r else r) (find (\<lambda>r. or_id r = j) rs)" for rs
      by (induction rs) (auto simp: assms(1))
    then show ?thesis by (simp add: get_orch_def alter_orch_def)
  qed
  moreover have "map or_id (qu_orchs (alter_orch i f q)) = map or_id (qu_orchs q)"
    by (simp add: alter_orch_def assms(1) o_def if_distrib cong: if_cong)
  ultimately show ?thesis
    by (auto simp: dispatch_frame_def row_frame_def work_kept_def orchs_keyed_def assms(2) get_run_def)
       (simp_all add: alter_orch_def)
qed

lemma dispatch_frame_trans: "dispatch_frame p q \<Longrightarrow> dispatch_frame q r \<Longrightarrow> dispatch_frame p r"
  using row_frame_trans by (auto simp: dispatch_frame_def)

lemma dispatch_frame_refl [simp]: "dispatch_frame q q"
  by (simp add: dispatch_frame_def)

lemma claim_cases:
  assumes "claim_orchestration_run env q t driver ask = (r, x)" and "find_active_orchestration_run q (tk_id t) = None"
  obtains (claimed) run where "x = Inr run" and "dispatch_frame q r" and "or_id run \<noteq> []"
      and "or_ticket_id run = tk_id t" and "get_orch r (or_id run) = Some run"
  | (refused) e where "x = Inl e" and "dispatch_frame q r"
proof -
  have drawn: "dispatch_frame q (snd (uuid4 q))"
    by (simp add: uuid4_def dispatch_frame_def row_frame_def work_kept_def get_run_def get_orch_def orchs_keyed_def)
  show ?thesis
  proof (cases "\<exists>ws default_driver slug. workspace_for_ticket q t = Some ws \<and> se_profile env t = Inr (default_driver, slug)")
    case False
    with assms refused [of _] show ?thesis
      by (auto simp: claim_orchestration_run_def split: option.splits sum.splits)
  next
    case True
    then obtain ws dd slug where w: "workspace_for_ticket q t = Some ws" "se_profile env t = Inr (dd, slug)" by blast
    obtain i p where p: "uuid4 q = (i, p)" by fastforce
    let ?run = "claim_of env i t (case driver of None \<Rightarrow> dd | Some d \<Rightarrow> d) slug ask"
    have id: "or_id ?run \<noteq> []" "or_ticket_id ?run = tk_id t"
      using p by (simp_all add: claim_of_def uuid4_def digits_of_digits) (metis digits_of_digits)
    show ?thesis
    proof (cases "get_orch p (or_id ?run) = None")
      case True
      then obtain m where m: "add_orch ?run p = (m, Inr ())" by (simp add: add_orch_def)
      note added = orch_added [OF m id(1)]
      from drawn p have "dispatch_frame q m" using dispatch_frame_trans added(1) by simp
      moreover have "r = m" "x = Inr ?run" using assms w p m by (auto simp: claim_orchestration_run_def)
      ultimately show ?thesis using claimed [of ?run] id added(2) by simp
    next
      case False
      then have "r = p" "x = Inl IntegrityError"
        using assms w p by (auto simp: claim_orchestration_run_def add_orch_def)
      with drawn p show ?thesis using refused by simp
    qed
  qed
qed

lemma active_row:
  assumes "find_active_orchestration_run q i = Some active"
  shows "active \<in> set (qu_orchs q) \<and> or_ticket_id active = i"
proof -
  from assms obtain r rs where rs: "filter (\<lambda>r. or_ticket_id r = i \<and> or_status r \<in> set LIVE_ORCHESTRATION_STATUSES) (qu_orchs q) = r # rs"
      "active = hd (sort_key (\<lambda>r. - or_created_at r) (r # rs))"
    by (auto simp: find_active_orchestration_run_def split: list.splits)
  have "sort_key (\<lambda>r. - or_created_at r) (r # rs) \<noteq> []" by (metis list.distinct(1) set_empty set_sort)
  then have "active \<in> set (r # rs)" using hd_in_set rs(2) by (metis set_sort)
  then show ?thesis unfolding rs(1) [symmetric] by simp
qed

lemma dispatch_orchestration_frame:
  assumes "dispatch_orchestration env q t ask = (r, x)"
  shows "dispatch_frame q r"
proof (cases "find_active_orchestration_run q (tk_id t) = None \<and> (oa_driver ask = [] \<or> driver_of (oa_driver ask) \<noteq> None)")
  case False
  with assms show ?thesis by (auto simp: dispatch_orchestration_def split: option.splits if_splits)
next
  case True
  let ?driver = "if oa_driver ask = [] then None else driver_of (oa_driver ask)"
  obtain m y where m: "claim_orchestration_run env q t ?driver ask = (m, y)" by fastforce
  from m True have frame: "dispatch_frame q m"
    by (cases rule: claim_cases [OF m]) simp_all
  have abandoned: "dispatch_frame m (abandon_claim env s claim m)" for s claim
    unfolding abandon_claim_def by (rule alter_orch_frame) (simp_all add: abandoned_def)
  have "(r, x) = and_then (m, y) (\<lambda>q claim. case se_schedule_refusal env t of
      None \<Rightarrow> (q, Inr (Some claim)) | Some text \<Rightarrow> (abandon_claim env text claim q, Inr None))"
    using assms m True by (auto simp: dispatch_orchestration_def)
  then show ?thesis
    using frame dispatch_frame_trans [OF frame abandoned] by (cases y) (auto split: option.splits)
qed

lemma dispatch_orchestration_names:
  assumes "orchs_keyed q" and "dispatch_orchestration env q t ask = (r, Inr (Some run))"
  shows "or_id run \<noteq> [] \<and> (\<exists>row. get_orch r (or_id run) = Some row \<and> or_ticket_id row = tk_id t)"
proof (cases "find_active_orchestration_run q (tk_id t)")
  case (Some active)
  with assms(2) have eq: "r = q" "run = active" by (auto simp: dispatch_orchestration_def)
  note row = active_row [OF Some]
  have "get_orch q (or_id active) = Some active"
    unfolding get_orch_def using assms(1) row by (intro find_key) (simp_all add: orchs_keyed_def)
  moreover have "or_id active \<noteq> []" using assms(1) row by (force simp: orchs_keyed_def)
  ultimately show ?thesis using row eq by simp
next
  case None
  let ?driver = "if oa_driver ask = [] then None else driver_of (oa_driver ask)"
  obtain m y where m: "claim_orchestration_run env q t ?driver ask = (m, y)" by fastforce
  with assms(2) None have eq: "y = Inr run" "r = m"
    by (auto simp: dispatch_orchestration_def and_then_eq split: if_splits option.splits)
  from m None eq show ?thesis by (cases rule: claim_cases [OF m]) simp_all
qed

interpretation lanes: lane_dispatch "lane_dispatcher env" for env
proof
  show "dispatch_frame q r" if "dp_stage (lane_dispatcher env) q t e = (r, x)" for q t e r x
    using that dispatch_stage_frame by (simp add: lane_dispatcher_def)
  show "dispatch_frame q r" if "dp_orchestration (lane_dispatcher env) q t ask = (r, y)" for q t ask r y
    using that dispatch_orchestration_frame by (simp add: lane_dispatcher_def)
  show "rn_id a \<noteq> [] \<and> (\<exists>row. get_run r (rn_id a) = Some row \<and> rn_ticket_id row = Some (tk_id t))"
    if "dp_stage (lane_dispatcher env) q t e = (r, Inr (Some a))" for q t e r a
    using that dispatch_stage_names by (simp add: lane_dispatcher_def)
  show "or_id o' \<noteq> [] \<and> (\<exists>row. get_orch r (or_id o') = Some row \<and> or_ticket_id row = tk_id t)"
    if "orchs_keyed q" and "dp_orchestration (lane_dispatcher env) q t ask = (r, Inr (Some o'))" for q t ask r o'
    using that dispatch_orchestration_names by (simp add: lane_dispatcher_def)
qed

end
