(* ===== verification/LaneProperties.thy ===== *)
theory LaneProperties
  imports QueueDispatch SlotHealing
begin

text \<open>
  The properties of the lanes as they run, over the dispatcher of \<open>QueueDispatch\<close>: who leaves a
  lane and in which order, what a start leaves of its slot, one lane per ticket however the
  operations follow one another, and the lines as the lists they stand for.
\<close>

section \<open>A queue to try\<close>

definition lane_env :: LaneEnv where
  "lane_env = \<lparr>le_now = 1000, le_draining = False, le_max_concurrent = 1, le_stages = (\<lambda>_. []),
     le_profile = None, le_merge_refusal = (\<lambda>_. [])\<rparr>"

text \<open>One free lane; one ticket in a workspace and one in none, an entry of each waiting or to come.\<close>

definition waiting_entry :: "string \<Rightarrow> string \<Rightarrow> QueuedRun" where
  "waiting_entry i ticket_id = (new_entry i None ticket_id 0)\<lparr>qr_position := 1\<rparr>"

definition sample_lane :: "QueuedRun list \<Rightarrow> Queue" where
  "sample_lane es = empty_queue\<lparr>qu_board := empty_board\<lparr>
       bd_tickets := [(new_ticket ''A'')\<lparr>tk_workspace_id := Some ''W''\<rparr>, new_ticket ''B''],
       bd_workspaces := [\<lparr>ws_id = ''W'', ws_slug = ''w'', ws_ticket_prefix = ''W'', ws_last_ticket_number = 0\<rparr>]\<rparr>,
     qu_slots := [new_slot ''s'' 1], qu_entries := es, qu_next_id := 2\<rparr>"

lemma sample_lane_fields [simp]:
  "qu_slots (sample_lane es) = [new_slot ''s'' 1]" "qu_entries (sample_lane es) = es" "qu_orchs (sample_lane es) = []"
  "qu_next_id (sample_lane es) = 2" "get_ticket (qu_board (sample_lane es)) ''B'' = Some (new_ticket ''B'')"
  by (simp_all add: sample_lane_def empty_queue_def get_ticket_def new_ticket_def)

lemma new_slot_id [simp]: "sl_id (new_slot i n) = i"
  by (simp add: new_slot_def)

lemma waiting_entry_fields [simp]:
  "qr_id (waiting_entry i t) = i" "qr_ticket_id (waiting_entry i t) = t" "qr_position (waiting_entry i t) = 1"
  "qr_entry_kind (waiting_entry i t) = ORCHESTRATION" "qr_driver (waiting_entry i t) = []"
  "waits_in n (waiting_entry i t) \<longleftrightarrow> n = 1"
  by (auto simp: waiting_entry_def new_entry_def waits_in_def WAITING_STATUSES_def)

lemma sample_lane_line [simp]:
  "waiting_in_lane (sample_lane [waiting_entry i t]) n = (if n = 1 then [waiting_entry i t] else [])"
  by (simp add: waiting_in_lane_def)

lemma sample_lane_sound:
  "pool_sound (sample_lane [waiting_entry ''e'' t]) \<and> entries_keyed (sample_lane [waiting_entry ''e'' t])
   \<and> orchs_keyed (sample_lane [waiting_entry ''e'' t]) \<and> lanes_sound (sample_lane [waiting_entry ''e'' t])
   \<and> claims_sound (sample_lane [waiting_entry ''e'' t])"
proof -
  let ?q = "sample_lane [waiting_entry ''e'' t]"
  have letters: "digits_of k \<noteq> ''s''" "digits_of k \<noteq> ''e''" for k
    using digits_of_digits [of k] by (auto simp: is_digit_def Let_def code_point_def)
  have "numbered ?q n" for n
    by (simp add: numbered_def)
  then show ?thesis
    using letters
    by (auto simp: pool_sound_def entries_keyed_def orchs_keyed_def lanes_sound_def claims_sound_def ids_fresh_def
        LaneDispatch.one_lane_def slot_resolves_def new_slot_def)
qed

section \<open>A start\<close>

text \<open>C10: A lane is served from its front: what leaves it is a prefix, made of entries whose ticket is
  gone and then, if something starts, the entry that starts; no other lane moves, and the positions
  stay 1, 2, 3 in every lane.
\<close>

theorem lane_served_in_order:
  assumes "pool_sound q" and "lanes_sound q" and "orchs_keyed q"
  shows "front_left n q (fst (start_lane_head le (Some (lane_dispatcher env)) q n))
      (snd (start_lane_head le (Some (lane_dispatcher env)) q n))
    \<and> lanes_sound (fst (start_lane_head le (Some (lane_dispatcher env)) q n))"
  by (rule lanes.start_lane_head_front [OF assms])

theorem lane_served_in_order_witness:
  "front_left 1 (sample_lane [waiting_entry ''e'' ''A''])
      (fst (start_lane_head lane_env (Some (lane_dispatcher sample_start_env)) (sample_lane [waiting_entry ''e'' ''A'']) 1))
      (snd (start_lane_head lane_env (Some (lane_dispatcher sample_start_env)) (sample_lane [waiting_entry ''e'' ''A'']) 1))"
  using lane_served_in_order [of "sample_lane [waiting_entry ''e'' ''A'']"] sample_lane_sound by blast



text \<open>The free lane of the sample is claimed, and no other holds a ticket.\<close>

lemma sample_claimed:
  "claim_lane_slot lane_env 1 (sample_lane es)
     = (alter_slot ''s'' (taken 1000) (sample_lane es), Some (taken 1000 (new_slot ''s'' 1)))"
  "tickets_holding_lanes (alter_slot ''s'' (taken 1000) (sample_lane es)) (Some 1) i = []"
proof -
  have "pool_sound (sample_lane es)" by (simp add: pool_sound_def)
  then show "claim_lane_slot lane_env 1 (sample_lane es)
     = (alter_slot ''s'' (taken 1000) (sample_lane es), Some (taken 1000 (new_slot ''s'' 1)))"
    by (cases rule: claim_lane_slot_cases [of "sample_lane es" lane_env 1, case_names no yes])
       (auto simp: new_slot_def lane_env_def)
  show "tickets_holding_lanes (alter_slot ''s'' (taken 1000) (sample_lane es)) (Some 1) i = []"
    unfolding holding_elsewhere by (auto simp: slots_alter new_slot_def)
qed



section \<open>One operation after another\<close>

text \<open>Each operation runs under the surroundings of its moment, its dispatcher built from them.\<close>

inductive queue_step :: "Queue \<Rightarrow> Queue \<Rightarrow> bool" where
  step: "lane_step (lane_dispatcher env) q r \<Longrightarrow> queue_step q r"

inductive_cases queue_stepE: "queue_step q r"

lemma steps_sound: "queue_step\<^sup>*\<^sup>* q r \<Longrightarrow> claims_sound q \<Longrightarrow> claims_sound r"
  by (induction rule: rtranclp_induct) (auto elim!: queue_stepE intro: lanes.steps_claims)

text \<open>C3: One lane per ticket: from a queue in which no ticket is behind two slots, no sequence of
  additions, moves, removals, looks and completions, refused and failing ones included, reaches a
  queue in which one is.
\<close>

theorem one_lane_per_ticket:
  assumes "queue_step\<^sup>*\<^sup>* q r" and "claims_sound q"
  shows "\<forall>s \<in> set (qu_slots r). \<forall>s' \<in> set (qu_slots r). \<forall>i.
      slot_holds r s i \<and> slot_holds r s' i \<longrightarrow> s = s'"
proof (intro ballI allI impI)
  fix s s' i
  assume s: "s \<in> set (qu_slots r)" "s' \<in> set (qu_slots r)" "slot_holds r s i \<and> slot_holds r s' i"
  note sound = steps_sound [OF assms]
  then have "LaneDispatch.one_lane r" "pool_sound r" by (simp_all add: claims_sound_def)
  with s have "sl_slot_number s = sl_slot_number s'" unfolding LaneDispatch.one_lane_def by blast
  with s \<open>pool_sound r\<close> pool_sound_number_eq show "s = s'" by blast
qed

theorem one_lane_per_ticket_witness:
  "\<exists>r. queue_step\<^sup>*\<^sup>* (sample_lane [waiting_entry ''e'' ''A'']) r \<and> r \<noteq> sample_lane [waiting_entry ''e'' ''A'']
     \<and> (\<forall>s \<in> set (qu_slots r). \<forall>s' \<in> set (qu_slots r). \<forall>i. slot_holds r s i \<and> slot_holds r s' i \<longrightarrow> s = s')"
proof -
  let ?q = "sample_lane [waiting_entry ''e'' ''A'']"
  have keyed: "entries_keyed ?q" using sample_lane_sound by blast
  have entry: "get_entry ?q ''e'' = Some (waiting_entry ''e'' ''A'')" by (simp add: get_entry_iff [OF keyed])
  have queued: "qr_status (waiting_entry ''e'' ''A'') \<in> set WAITING_STATUSES" "qr_slot_number (waiting_entry ''e'' ''A'') = 1"
    by (simp_all add: waiting_entry_def new_entry_def WAITING_STATUSES_def)
  let ?r = "renumber 1 None (delete_entry ''e'' ?q)"
  have "remove_entry ?q ''e'' = (?r, True)" by (simp add: remove_entry_def entry queued)
  then have "queue_step ?q ?r" by (intro step [of sample_start_env] lane_step.removed)
  then have path: "queue_step\<^sup>*\<^sup>* ?q ?r" by simp
  have "qu_entries (delete_entry ''e'' ?q) = []" by (simp add: delete_entry_def)
  then have "qu_entries ?r = []" by (metis length_0_conv renumber_length)
  then have "?r \<noteq> ?q" by (metis list.distinct(1) sample_lane_fields(2))
  with path one_lane_per_ticket [OF path] sample_lane_sound show ?thesis by blast
qed

section \<open>Lanes as lists\<close>

text \<open>
  The specification: every lane a list of entries. An operation appends one, moves one, takes one
  out, or serves the front of a lane.
\<close>

inductive line_step :: "(int \<Rightarrow> string list) \<Rightarrow> (int \<Rightarrow> string list) \<Rightarrow> bool" where
  appended: "line_step L (L(n := L n @ [i]))"
| moved: "line_step L (move_line i n k L)"
| removed: "line_step L (\<lambda>m. filter (\<lambda>j. j \<noteq> i) (L m))"
| served: "served n L M \<Longrightarrow> line_step L M"

text \<open>The operations that succeed.\<close>

inductive lane_operation :: "Queue \<Rightarrow> Queue \<Rightarrow> bool" where
  added: "add_to_lane le (Some (lane_dispatcher env)) q ask = (r, Inr y) \<Longrightarrow> lane_operation q r"
| moved: "move_entry le (Some (lane_dispatcher env)) q i n k = (r, Inr True) \<Longrightarrow> lane_operation q r"
| removed: "remove_entry q i = (r, True) \<Longrightarrow> lane_operation q r"
| looked: "start_lane_head le (Some (lane_dispatcher env)) q n = (r, x) \<Longrightarrow> lane_operation q r"

inductive_cases lane_operationE [consumes 1, case_names added moved removed looked]: "lane_operation q r"

lemma operation_steps: "lane_operation q r \<Longrightarrow> queue_step q r"
  by (erule lane_operationE) (auto intro: step lane_step.intros)

lemma operation_lines:
  assumes "lane_operation q r" and "claims_sound q" and "lanes_sound q"
  shows "line_step\<^sup>*\<^sup>* (lane q) (lane r) \<and> lanes_sound r"
  using assms(1)
proof (cases rule: lane_operationE)
  case (added le env ask y)
  have sound: "pool_sound q" "ids_fresh q" "orchs_keyed q" using assms(2) by (simp_all add: claims_sound_def)
  let ?L = "if already_queued q (lr_ticket_id ask) (lr_entry_kind ask) (lr_stage_key ask) = None
    then (lane q)(lr_slot_number ask := lane q (lr_slot_number ask) @ [ly_entry_id y]) else lane q"
  note lines = lanes.added_lines [OF sound(1) assms(3) sound(2,3) added]
  then have "line_step ?L (lane r)" by (elim conjE) (rule line_step.served)
  moreover have "line_step\<^sup>*\<^sup>* (lane q) ?L" by (auto intro: line_step.appended)
  ultimately show ?thesis using lines by (meson rtranclp.rtrancl_into_rtrancl)
next
  case (moved le env i n k)
  have sound: "pool_sound q" "orchs_keyed q" using assms(2) by (simp_all add: claims_sound_def)
  note lines = lanes.moved_lines [OF sound(1) assms(3) sound(2) moved]
  then have "line_step (move_line i n k (lane q)) (lane r)" by (elim conjE) (rule line_step.served)
  moreover have "line_step (lane q) (move_line i n k (lane q))" by (rule line_step.moved)
  ultimately show ?thesis using lines by (meson rtranclp.rtrancl_into_rtrancl r_into_rtranclp)
next
  case (removed i)
  then obtain e where e: "get_entry q i = Some e" "r = renumber (qr_slot_number e) None (delete_entry i q)"
    by (auto simp: remove_entry_def split: option.splits if_splits)
  from removed_lanes [OF assms(3) e(1)] line_step.removed [of "lane q" i] show ?thesis
    by (simp add: e(2) r_into_rtranclp)
next
  case (looked le env n x)
  have sound: "pool_sound q" "orchs_keyed q" using assms(2) by (simp_all add: claims_sound_def)
  from lanes.looked_lines [OF sound(1) assms(3) sound(2), of n le env] looked
  show ?thesis by (auto intro: line_step.served)
qed



section \<open>Starts and refusals\<close>

text \<open>C19: A start opens one run or none. A refused start leaves the runs, the slots, the entries and the
  orchestrations as they are; an accepted one adds one row at the end of the table, running, under
  the ticket and the orchestration it was asked for, with a new identifier.
\<close>

theorem start_opens_one_run:
  "opened t ask q (fst (start_run env q t ask)) (snd (start_run env q t ask))"
  by (rule start_run_opened) simp

lemma entry_refused:
  assumes "get_entry q i = Some e"
  shows "get_entry (alter_entry i (refused_with s now) q) i = Some (refused_with s now e)"
proof -
  have "find (\<lambda>e. qr_id e = i) (map (\<lambda>e. if qr_id e = i then refused_with s now e else e) es)
      = map_option (refused_with s now) (find (\<lambda>e. qr_id e = i) es)" for es
    by (induction es) simp_all
  with assms show ?thesis by (simp add: get_entry_def entries_alter)
qed



text \<open>A ticket stopped at an approval gate, with the reason a person left on it.\<close>

definition stopped_ticket :: Ticket where
  "stopped_ticket = (new_ticket ''A'')\<lparr>tk_workspace_id := Some ''W'', tk_state := TicketState.IN_PROGRESS,
     tk_workflow_stage_key := ''sign_off'', tk_blocking_issues := ''why it stopped''\<rparr>"

definition gated_env :: StartEnv where
  "gated_env = sample_start_env\<lparr>se_template := (\<lambda>_ _. (Some (''T'', 1), [plain_stage ''sign_off'' 1]))\<rparr>"

definition stopped_queue :: Queue where
  "stopped_queue = (sample_lane [])\<lparr>qu_board := empty_board\<lparr>bd_tickets := [stopped_ticket],
     bd_workspaces := [\<lparr>ws_id = ''W'', ws_slug = ''w'', ws_ticket_prefix = ''W'', ws_last_ticket_number = 0\<rparr>]\<rparr>,
     qu_instances := [(''A'', \<lparr>wi_template_id = ''T'', wi_template_version = Some 1,
       wi_current_stage_key = ''sign_off'', wi_stages_json = initial_stages_json [plain_stage ''sign_off'' 1],
       wi_updated_at = 0\<rparr>)]\<rparr>"

definition gate_entry :: QueuedRun where
  "gate_entry = (waiting_entry ''e'' ''A'')\<lparr>qr_entry_kind := STAGE, qr_stage_key := ''sign_off''\<rparr>"


definition ask_for :: "string \<Rightarrow> LaneRequest" where
  "ask_for i = \<lparr>lr_ticket_id = i, lr_slot_number = 1, lr_auto_approve = False, lr_approve_design_plans = True,
     lr_auto_repair = True, lr_stop_at_stage_key = None, lr_entry_kind = ORCHESTRATION, lr_stage_key = [],
     lr_driver = [], lr_max_stages = None, lr_timeout_seconds = None, lr_force = False\<rparr>"

text \<open>\<open>add_to_lane\<close> reports that its entry started when an older one did: asked to queue \<open>B\<close> behind
  \<open>A\<close> in a free lane, it answers that the entry of \<open>B\<close> started, while that entry waits.
\<close>

theorem reply_names_the_newcomer:
  "case add_to_lane lane_env (Some (lane_dispatcher sample_start_env)) (sample_lane [waiting_entry ''e'' ''A''])
       (ask_for ''B'') of
     (r, Inr y) \<Rightarrow> ly_status y = ''started'' \<and> lane r 1 = [ly_entry_id y]
   | _ \<Rightarrow> False"
  by code_simp

end
