(* ===== verification/ChildOrder.thy ===== *)
theory ChildOrder
  imports Dependencies
begin

text \<open>
  The order a parent's children run in: \<open>child_sort_key\<close>, \<open>order_children_for_subtree\<close> and the
  shared stage counter of \<open>services/subtree_auto_run.py\<close>. The identifiers of the children are a
  Python set, whose iteration order is not specified: it is the parameter \<open>ids\<close>.
\<close>

section \<open>Tie-breaks\<close>

fun type_order :: "WorkItemType \<Rightarrow> int" where
  "type_order INITIATIVE = 0"
| "type_order MILESTONE = 1"
| "type_order FEATURE = 2"
| "type_order CAPABILITY = 3"
| "type_order TASK = 4"
| "type_order BUG = 5"

definition child_sort_key :: "Ticket \<Rightarrow> int \<times> int \<times> string" where
  "child_sort_key ticket = (type_order (tk_work_item_type ticket), tk_priority ticket, tk_external_id ticket)"

section \<open>Kahn's algorithm\<close>

text \<open>The prerequisites of a child among its siblings.\<close>

definition sibling_prereqs :: "string list \<Rightarrow> (string, string list) dict \<Rightarrow> string \<Rightarrow> string list" where
  "sibling_prereqs ids prereqs i = filter (\<lambda>p. p \<in> set ids) (dict_get prereqs i [])"

definition by_id :: "Ticket list \<Rightarrow> string \<Rightarrow> Ticket result" where
  "by_id children i = (case find (\<lambda>c. tk_id c = i) (rev children) of None \<Rightarrow> Inl (KeyError i) | Some c \<Rightarrow> Inr c)"

definition ready_ids :: "string list \<Rightarrow> (string, string list) dict \<Rightarrow> string list \<Rightarrow> string list" where
  "ready_ids ids prereqs finished =
     (let ready = filter (\<lambda>i. i \<notin> set finished \<and> set (sibling_prereqs ids prereqs i) \<subseteq> set finished) ids
      in if ready = [] then filter (\<lambda>i. i \<notin> set finished) ids else ready)"

text \<open>The minimum of no child is the \<open>ValueError\<close> of \<open>min\<close>.\<close>

definition next_child ::
    "string list \<Rightarrow> Ticket list \<Rightarrow> (string, string list) dict \<Rightarrow> Ticket list \<Rightarrow> Ticket result" where
  "next_child ids children prereqs ordered =
     bind_result (map_result (by_id children) (ready_ids ids prereqs (map tk_id ordered))) (\<lambda>ready.
       case ready of
         [] \<Rightarrow> Inl (ValueError ''min() arg is an empty sequence'')
       | c # cs \<Rightarrow> Inr (min_by child_sort_key c cs))"

function order_walk ::
    "string list \<Rightarrow> Ticket list \<Rightarrow> (string, string list) dict \<Rightarrow> Ticket list \<Rightarrow> Ticket list result" where
  "order_walk ids children prereqs ordered =
     (if length ordered < length children
      then (case next_child ids children prereqs ordered of
              Inl e \<Rightarrow> Inl e
            | Inr nxt \<Rightarrow> order_walk ids children prereqs (ordered @ [nxt]))
      else Inr ordered)"
  by pat_completeness auto
termination
  by (relation "measure (\<lambda>(ids, children, prereqs, ordered). length children - length ordered)") auto

declare order_walk.simps [simp del]

definition order_children_for_subtree ::
    "string list \<Rightarrow> Ticket list \<Rightarrow> (string, string list) dict \<Rightarrow> Ticket list result" where
  "order_children_for_subtree ids children prereqs = order_walk ids children prereqs []"

section \<open>The shared stage counter\<close>

record SubtreeBudget =
  sb_limit :: int
  sb_remaining :: int

definition for_root :: "SubtreeBudget option \<Rightarrow> int \<Rightarrow> SubtreeBudget" where
  "for_root existing max_subtree_stages_per_run =
     (case existing of Some b \<Rightarrow> b
      | None \<Rightarrow> \<lparr>sb_limit = max_subtree_stages_per_run, sb_remaining = max_subtree_stages_per_run\<rparr>)"

definition subtree_exhausted :: "SubtreeBudget \<Rightarrow> bool" where
  "subtree_exhausted b \<longleftrightarrow> sb_limit b > 0 \<and> sb_remaining b \<le> 0"

definition subtree_consume :: "bool \<Rightarrow> SubtreeBudget \<Rightarrow> SubtreeBudget" where
  "subtree_consume terminal b =
     (if sb_limit b > 0 \<and> \<not> terminal then b\<lparr>sb_remaining := sb_remaining b - 1\<rparr> else b)"

definition subtree_pause_message :: "bool \<Rightarrow> SubtreeBudget \<Rightarrow> string option" where
  "subtree_pause_message terminal b =
     (if terminal \<or> \<not> subtree_exhausted b then None
      else Some (''Paused: subtree-wide stage bound ('' @ str_int (sb_limit b) @ '') reached''))"

section \<open>Every child once, prerequisites first\<close>

text \<open>The relation Kahn's algorithm orders by.\<close>

definition waits_on :: "string list \<Rightarrow> (string, string list) dict \<Rightarrow> (string \<times> string) set" where
  "waits_on ids prereqs = {(p, i). i \<in> set ids \<and> p \<in> set (sibling_prereqs ids prereqs i)}"

definition ordered_so_far :: "string list \<Rightarrow> (string, string list) dict \<Rightarrow> string list \<Rightarrow> bool" where
  "ordered_so_far ids prereqs js \<longleftrightarrow> distinct js \<and> set js \<subseteq> set ids
     \<and> (\<forall>k < length js. set (sibling_prereqs ids prereqs (js ! k)) \<subseteq> set (take k js))"

lemma ordered_snoc:
  assumes "ordered_so_far ids prereqs js" and "i \<in> set ids" and "i \<notin> set js"
    and "set (sibling_prereqs ids prereqs i) \<subseteq> set js"
  shows "ordered_so_far ids prereqs (js @ [i])"
proof -
  have "set (sibling_prereqs ids prereqs ((js @ [i]) ! k)) \<subseteq> set (take k (js @ [i]))" if "k < Suc (length js)" for k
    using that assms(1,4) by (cases "k = length js") (auto simp: ordered_so_far_def nth_append)
  with assms(1-3) show ?thesis by (simp add: ordered_so_far_def)
qed

text \<open>While children are left, one of them waits on none that is left.\<close>

lemma some_ready:
  assumes "acyclic (waits_on ids prereqs)" and "i \<in> set ids" and "i \<notin> set finished"
  shows "\<exists>j \<in> set ids. j \<notin> set finished \<and> set (sibling_prereqs ids prereqs j) \<subseteq> set finished"
proof -
  have "waits_on ids prereqs \<subseteq> set ids \<times> set ids" by (auto simp: waits_on_def sibling_prereqs_def)
  then have "finite (waits_on ids prereqs)" by (rule finite_subset) simp
  with assms(1) have "wf (waits_on ids prereqs)" by (rule finite_acyclic_wf [rotated])
  from wfE_min [OF this, of i "set ids - set finished"] assms(2,3)
  obtain j where j: "j \<in> set ids - set finished"
      "\<And>p. (p, j) \<in> waits_on ids prereqs \<Longrightarrow> p \<notin> set ids - set finished"
    by blast
  then have "set (sibling_prereqs ids prereqs j) \<subseteq> set finished"
    by (auto simp: waits_on_def sibling_prereqs_def)
  with j(1) show ?thesis by blast
qed

lemma by_id_child:
  assumes "distinct (map tk_id children)" and "c \<in> set children"
  shows "by_id children (tk_id c) = Inr c"
proof -
  have "find (\<lambda>x. tk_id x = tk_id c) (rev children) \<noteq> None" using assms(2) by (auto simp: find_None_iff)
  then obtain d where d: "find (\<lambda>x. tk_id x = tk_id c) (rev children) = Some d" by blast
  from find_Some_iff' [OF d] have "d \<in> set children" "tk_id d = tk_id c" by auto
  then have "d = c" using assms by (auto simp: distinct_map dest: inj_onD)
  with d show ?thesis by (simp add: by_id_def)
qed

lemma next_child_ready:
  assumes "distinct (map tk_id children)" and "set ids = tk_id ` set children" and "acyclic (waits_on ids prereqs)"
    and "i \<in> set ids" and "i \<notin> tk_id ` set ordered"
  obtains c where "next_child ids children prereqs ordered = Inr c" and "c \<in> set children"
    and "tk_id c \<notin> tk_id ` set ordered" and "set (sibling_prereqs ids prereqs (tk_id c)) \<subseteq> tk_id ` set ordered"
    and "\<And>d. d \<in> set children \<Longrightarrow> tk_id d \<notin> tk_id ` set ordered
        \<Longrightarrow> set (sibling_prereqs ids prereqs (tk_id d)) \<subseteq> tk_id ` set ordered \<Longrightarrow> child_sort_key c \<le> child_sort_key d"
proof -
  let ?done = "map tk_id ordered"
  let ?ready = "filter (\<lambda>i. i \<notin> set ?done \<and> set (sibling_prereqs ids prereqs i) \<subseteq> set ?done) ids"
  obtain j where "j \<in> set ?ready" using some_ready [OF assms(3,4), of ?done] assms(5) by auto
  then have ready: "ready_ids ids prereqs ?done = ?ready" "?ready \<noteq> []"
    by (auto simp: ready_ids_def Let_def filter_empty_conv)
  define pick where "pick i = (THE c. c \<in> set children \<and> tk_id c = i)" for i
  have pick: "pick (tk_id c) = c" if "c \<in> set children" for c
    unfolding pick_def using that assms(1) by (auto simp: distinct_map dest: inj_onD)
  have "map_result (by_id children) ?ready = Inr (map pick ?ready)"
  proof (rule map_result_Inr)
    fix x assume "x \<in> set ?ready"
    then obtain c where "c \<in> set children" "x = tk_id c" using assms(2) by auto
    with by_id_child [OF assms(1)] pick show "by_id children x = Inr (pick x)" by simp
  qed
  moreover obtain r rs where rs: "map pick ?ready = r # rs" using ready(2) by (cases "map pick ?ready") auto
  ultimately have nxt: "next_child ids children prereqs ordered = Inr (min_by child_sort_key r rs)"
    by (simp add: next_child_def ready)
  let ?c = "min_by child_sort_key r rs"
  have "?c \<in> set (map pick ?ready)" using min_by_in [of child_sort_key r rs] by (simp only: rs list.set)
  then obtain i c where c: "i \<in> set ?ready" "c \<in> set children" "i = tk_id c" "?c = pick i"
    using assms(2) by auto
  with pick have eq: "?c = c" by simp
  have least: "child_sort_key ?c \<le> child_sort_key d"
    if "d \<in> set children" "tk_id d \<notin> tk_id ` set ordered" "set (sibling_prereqs ids prereqs (tk_id d)) \<subseteq> tk_id ` set ordered" for d
  proof -
    have "tk_id d \<in> set ?ready" using that assms(2) by auto
    then have "pick (tk_id d) \<in> set (map pick ?ready)" by (simp only: set_map imageI)
    then have "d \<in> insert r (set rs)" using pick [OF that(1)] by (simp only: rs list.set)
    then show ?thesis by (rule bspec [OF min_by_le])
  qed
  have "c \<in> set children" "tk_id c \<notin> tk_id ` set ordered"
    "set (sibling_prereqs ids prereqs (tk_id c)) \<subseteq> tk_id ` set ordered"
    using c(1,2,3) by simp_all
  from that [OF nxt, unfolded eq, OF this least [unfolded eq]] show ?thesis .
qed

definition child_order :: "string list \<Rightarrow> Ticket list \<Rightarrow> (string, string list) dict \<Rightarrow> Ticket list \<Rightarrow> bool" where
  "child_order ids children prereqs ordered \<longleftrightarrow> mset ordered = mset children
     \<and> (\<forall>k < length ordered. set (sibling_prereqs ids prereqs (tk_id (ordered ! k))) \<subseteq> tk_id ` set (take k ordered))"

lemma order_walk_orders:
  assumes "distinct (map tk_id children)" and "set ids = tk_id ` set children" and "acyclic (waits_on ids prereqs)"
    and "set ordered \<subseteq> set children" and "ordered_so_far ids prereqs (map tk_id ordered)"
  shows "\<exists>out. order_walk ids children prereqs ordered = Inr out \<and> set out = set children
    \<and> ordered_so_far ids prereqs (map tk_id out)"
  using assms(4,5)
proof (induction "length children - length ordered" arbitrary: ordered rule: less_induct)
  case less
  have dist: "distinct (map tk_id ordered)" "distinct ordered"
    using less.prems(2) by (auto simp: ordered_so_far_def distinct_map)
  have children: "distinct children" using assms(1) by (simp add: distinct_map)
  show ?case
  proof (cases "length ordered < length children")
    case False
    have "card (set ordered) = length ordered" "card (set children) = length children"
      using dist children distinct_card by blast+
    moreover from this have "length ordered \<le> length children" using less.prems(1) by (metis card_mono finite_set)
    ultimately have "set ordered = set children" using False less.prems(1) by (intro card_subset_eq) simp_all
    with False less.prems show ?thesis by (simp add: order_walk.simps [of _ _ _ ordered])
  next
    case True
    have "\<not> set children \<subseteq> set ordered"
      using True dist children by (metis card_mono distinct_card finite_set linorder_not_less)
    then obtain d where d: "d \<in> set children" "d \<notin> set ordered" by blast
    have "tk_id d \<notin> tk_id ` set ordered"
    proof
      assume "tk_id d \<in> tk_id ` set ordered"
      then obtain u where "u \<in> set ordered" "tk_id u = tk_id d" by auto
      with less.prems(1) assms(1) d have "u = d" by (auto simp: distinct_map dest: inj_onD)
      with \<open>u \<in> set ordered\<close> d show False by simp
    qed
    moreover have "tk_id d \<in> set ids" using d(1) assms(2) by simp
    ultimately obtain c where c: "next_child ids children prereqs ordered = Inr c" "c \<in> set children"
        "tk_id c \<notin> tk_id ` set ordered" "set (sibling_prereqs ids prereqs (tk_id c)) \<subseteq> tk_id ` set ordered"
      using next_child_ready [OF assms(1-3)] by metis
    have "ordered_so_far ids prereqs (map tk_id (ordered @ [c]))"
      using ordered_snoc [OF less.prems(2), of "tk_id c"] c assms(2) by simp
    moreover have "set (ordered @ [c]) \<subseteq> set children" using less.prems(1) c(2) by simp
    ultimately have "\<exists>out. order_walk ids children prereqs (ordered @ [c]) = Inr out \<and> set out = set children
        \<and> ordered_so_far ids prereqs (map tk_id out)"
      using True by (intro less.hyps) simp_all
    then show ?thesis using True c(1) by (simp add: order_walk.simps [of _ _ _ ordered])
  qed
qed

text \<open>C13: The run order of a parent's children is one of them: every child once, each after every
  prerequisite it has among its siblings, however the set of their identifiers is iterated and
  whatever breaks the ties; it never fails and never hangs.
\<close>

theorem children_ordered_by_prerequisites:
  assumes "distinct (map tk_id children)" and "set ids = tk_id ` set children" and "acyclic (waits_on ids prereqs)"
  shows "\<exists>ordered. order_children_for_subtree ids children prereqs = Inr ordered \<and> child_order ids children prereqs ordered"
proof -
  obtain out where out: "order_walk ids children prereqs [] = Inr out" "set out = set children"
      "ordered_so_far ids prereqs (map tk_id out)"
    using order_walk_orders [OF assms, of "[]"] by (auto simp: ordered_so_far_def)
  have "distinct out" "distinct children" using out(3) assms(1) by (auto simp: ordered_so_far_def distinct_map)
  with out(2) have "mset out = mset children" by (metis set_eq_iff_mset_eq_distinct)
  moreover have "set (sibling_prereqs ids prereqs (tk_id (out ! k))) \<subseteq> tk_id ` set (take k out)" if "k < length out" for k
    using out(3) that unfolding ordered_so_far_def by (metis length_map nth_map set_map take_map)
  ultimately show ?thesis using out(1) by (simp add: order_children_for_subtree_def child_order_def)
qed

theorem children_ordered_by_prerequisites_witness:
  "order_children_for_subtree [''A'', ''B''] [new_ticket ''A'', new_ticket ''B''] [(''A'', [''B'', ''Z'']), (''B'', [])]
     = Inr [new_ticket ''B'', new_ticket ''A'']
   \<and> child_order [''A'', ''B''] [new_ticket ''A'', new_ticket ''B''] [(''A'', [''B'', ''Z'']), (''B'', [])]
       [new_ticket ''B'', new_ticket ''A'']"
proof -
  let ?cs = "[new_ticket ''A'', new_ticket ''B'']" and ?p = "[(''A'', [''B'', ''Z'']), (''B'', [])] :: (string, string list) dict"
  have order: "order_children_for_subtree [''A'', ''B''] ?cs ?p = Inr [new_ticket ''B'', new_ticket ''A'']"
    by code_simp
  have rel: "waits_on [''A'', ''B''] ?p \<subseteq> {(''B'', ''A'')}"
    by (auto simp: waits_on_def sibling_prereqs_def dict_get_def)
  have "acyclic {(''B'', ''A'')}" by (simp add: acyclic_def trancl_insert)
  with rel have "acyclic (waits_on [''A'', ''B''] ?p)" by (rule acyclic_subset [rotated])
  moreover have "distinct (map tk_id ?cs)" "set [''A'', ''B''] = tk_id ` set ?cs" by (simp_all add: new_ticket_def)
  ultimately show ?thesis using children_ordered_by_prerequisites [of ?cs "[''A'', ''B'']" ?p] order by auto
qed

end
