(* ===== verification/ChildReadiness.thy ===== *)
theory ChildReadiness
  imports StartRun ChildOrder
begin

text \<open>
  May any ticket in this subtree take a step? \<open>services/child_readiness.py\<close>: the children of a
  parent in their run order, split into those that may run and two kinds of hold, and the walk
  down the subtree that says why nothing under a ticket can start. A reason is a message, the list
  of its code points. \<open>ids_order\<close> is the unspecified order of a set of identifiers.
\<close>

section \<open>The children of a ticket\<close>

record SubtreeEnv =
  sx_start :: StartEnv
  sx_ids_order :: "string list \<Rightarrow> string list"

definition ordered_children :: "SubtreeEnv \<Rightarrow> Queue \<Rightarrow> Ticket \<Rightarrow> Ticket list result" where
  "ordered_children env q ticket =
     (let children = children_of (qu_board q) (tk_id ticket);
          prereqs = prerequisites_map (qu_board q) (map tk_id children)
      in order_children_for_subtree (sx_ids_order env (map tk_id children)) children prereqs)"

definition has_work_left :: "SubtreeEnv \<Rightarrow> Queue \<Rightarrow> Ticket \<Rightarrow> bool result" where
  "has_work_left env q ticket =
     (if tk_state ticket \<in> {TicketState.DONE, TicketState.WONT_DO} then Inr False
      else (let stages = snd (resolve_ticket_stages (sx_start env) q ticket) in
            if stages = [] then Inr False
            else (case get_instance q (tk_id ticket) of
                    None \<Rightarrow> Inr True
                  | Some instance \<Rightarrow>
                      bind_result (parse_stage_map instance stages) (\<lambda>stage_map.
                        Inr (list_ex (\<lambda>s. dict_get stage_map (sd_key s) StageStatus.PENDING
                               \<notin> {StageStatus.DONE, StageStatus.WONT_DO})
                             (filter (\<lambda>s. \<not> sd_optional s) stages))))))"

section \<open>Two kinds of hold\<close>

record Partition =
  pt_runnable :: "Ticket list"
  pt_parked :: "string list"
  pt_waiting :: "HeldChild list"

text \<open>A sibling that has not run yet is no hold: ordering has put it first.\<close>

definition held_by :: "SubtreeEnv \<Rightarrow> Queue \<Rightarrow> Workspace option \<Rightarrow> Ticket list \<Rightarrow> Ticket \<Rightarrow> UnmetPrerequisite list" where
  "held_by env q workspace children child =
     filter (\<lambda>entry. \<not> (tk_id (up_ticket entry) \<in> set (map tk_id children) \<and> up_reason entry = NOT_DONE))
       (unmet_for (se_readiness (sx_start env)) (qu_board q) child workspace)"

fun partition_walk ::
    "SubtreeEnv \<Rightarrow> Queue \<Rightarrow> Workspace option \<Rightarrow> Ticket list \<Rightarrow> Ticket list \<Rightarrow> Partition" where
  "partition_walk env q workspace children [] = \<lparr>pt_runnable = [], pt_parked = [], pt_waiting = []\<rparr>"
| "partition_walk env q workspace children (child # rest) =
     (let p = partition_walk env q workspace children rest in
      if tk_work_item_type child \<notin> set WORKFLOW_WORK_ITEM_TYPES then p
      else if tk_state child = TicketState.PARKED then p\<lparr>pt_parked := tk_title child # pt_parked p\<rparr>
      else (let unmet = held_by env q workspace children child in
            if unmet \<noteq> [] then p\<lparr>pt_waiting := \<lparr>hc_ticket = child, hc_unmet = unmet\<rparr> # pt_waiting p\<rparr>
            else p\<lparr>pt_runnable := child # pt_runnable p\<rparr>))"

definition partition_children :: "SubtreeEnv \<Rightarrow> Queue \<Rightarrow> Workspace option \<Rightarrow> Ticket list \<Rightarrow> Partition" where
  "partition_children env q workspace children = partition_walk env q workspace children children"

section \<open>The walk\<close>

fun filter_result :: "('a \<Rightarrow> bool result) \<Rightarrow> 'a list \<Rightarrow> 'a list result" where
  "filter_result f [] = Inr []"
| "filter_result f (x # xs) =
     bind_result (f x) (\<lambda>keep. bind_result (filter_result f xs) (\<lambda>ys. Inr (if keep then x # ys else ys)))"

text \<open>
  The children in turn: \<open>None\<close> as soon as one of them is not held, otherwise what holds each.
\<close>

fun each_held :: "(Ticket \<Rightarrow> message result) \<Rightarrow> Ticket list \<Rightarrow> message list option result" where
  "each_held f [] = Inr (Some [])"
| "each_held f (c # cs) =
     bind_result (f c) (\<lambda>held.
       if held = [] then Inr None
       else bind_result (each_held f cs) (\<lambda>rest. Inr (map_option
              (\<lambda>ms. (points (tk_external_id c @ '': '') @ held) # ms) rest)))"

lemma bind_result_cong [fundef_cong]:
  "r = s \<Longrightarrow> (\<And>a. s = Inr a \<Longrightarrow> f a = g a) \<Longrightarrow> bind_result r f = bind_result s g"
  by (cases s) auto

lemma each_held_cong [fundef_cong]:
  "cs = ds \<Longrightarrow> (\<And>c. c \<in> set ds \<Longrightarrow> f c = g c) \<Longrightarrow> each_held f cs = each_held g ds"
proof -
  assume ds: "cs = ds" and same: "\<And>c. c \<in> set ds \<Longrightarrow> f c = g c"
  from same have "each_held f ds = each_held g ds"
  proof (induction ds)
    case (Cons c ds)
    then have "f c = g c" "each_held f ds = each_held g ds" by simp_all
    then show ?case by (simp only: each_held.simps)
  qed simp
  then show ?thesis by (simp only: ds)
qed

definition parked_text :: "string list \<Rightarrow> message" where
  "parked_text titles = points (''Child ticket parked, awaiting a person: '' @ join '', '' titles)"

definition hold_text :: "SubtreeEnv \<Rightarrow> Queue \<Rightarrow> Partition \<Rightarrow> message list \<Rightarrow> message" where
  "hold_text env q p deeper =
     (if pt_waiting p \<noteq> [] then render_hold_line (qu_board q) (pt_waiting p)
      else if pt_parked p \<noteq> [] then parked_text (pt_parked p)
      else join_messages CHILD_SEPARATOR deeper)"

text \<open>The incomplete children of a ticket; none when it has no child, or none with work left.\<close>

definition incomplete_children :: "SubtreeEnv \<Rightarrow> Queue \<Rightarrow> Ticket \<Rightarrow> Ticket list result" where
  "incomplete_children env q ticket =
     bind_result (ordered_children env q ticket) (filter_result (has_work_left env q))"

definition on_board :: "Queue \<Rightarrow> Ticket \<Rightarrow> bool" where
  "on_board q t \<longleftrightarrow> tk_id t \<in> set (ids_of (qu_board q))"

lemma partition_runnable: "set (pt_runnable (partition_walk env q ws cs ds)) \<subseteq> set ds"
  by (induction ds) (auto simp: Let_def)

lemma filter_result_subset: "filter_result f xs = Inr ys \<Longrightarrow> set ys \<subseteq> set xs"
  by (induction xs arbitrary: ys) (fastforce simp: bind_result_Inr_iff split: if_splits)+

text \<open>What a walk visits is on the board.\<close>

lemma order_walk_subset:
  "order_walk ids children prereqs sofar = Inr out \<Longrightarrow> set sofar \<subseteq> set children \<Longrightarrow> set out \<subseteq> set children"
proof (induction ids children prereqs sofar rule: order_walk.induct)
  case (1 ids children prereqs sofar)
  show ?case
  proof (cases "length sofar < length children")
    case True
    with "1.prems"(1) obtain nxt where nxt: "next_child ids children prereqs sofar = Inr nxt"
        "order_walk ids children prereqs (sofar @ [nxt]) = Inr out"
      by (auto simp: order_walk.simps [of _ _ _ sofar] split: sum.splits)
    from nxt(1) obtain ready where "map_result (by_id children) (ready_ids ids prereqs (map tk_id sofar)) = Inr ready"
        "(case ready of [] \<Rightarrow> Inl (ValueError ''min() arg is an empty sequence'')
          | c # cs \<Rightarrow> Inr (min_by child_sort_key c cs)) = Inr nxt"
      by (auto simp: next_child_def bind_result_Inr_iff)
    then obtain r rs where ready: "map_result (by_id children) (ready_ids ids prereqs (map tk_id sofar)) = Inr (r # rs)"
        "nxt = min_by child_sort_key r rs"
      by (cases ready) simp_all
    have "set ys \<subseteq> set children" if "map_result (by_id children) js = Inr ys" for js ys
      using that
      by (induction js arbitrary: ys)
         (auto simp: bind_result_Inr_iff by_id_def split: option.splits dest!: find_Some_iff')
    from this [OF ready(1)] min_by_in [of child_sort_key r rs] have "nxt \<in> set children" unfolding ready(2) by auto
    with "1.IH" [OF True nxt(1) nxt(2)] "1.prems"(2) show ?thesis by simp
  next
    case False
    with "1.prems" show ?thesis by (simp add: order_walk.simps [of _ _ _ sofar])
  qed
qed

lemma ordered_children_board:
  "ordered_children env q t = Inr cs \<Longrightarrow> set cs \<subseteq> set (children_of (qu_board q) (tk_id t))"
  using order_walk_subset [of _ _ _ "[]"]
  by (fastforce simp: ordered_children_def order_children_for_subtree_def Let_def)

lemma child_on_board: "c \<in> set (children_of (qu_board q) i) \<Longrightarrow> on_board q c"
  by (auto simp: children_of_def on_board_def ids_of_def)

function hold_walk ::
    "SubtreeEnv \<Rightarrow> Queue \<Rightarrow> Workspace option \<Rightarrow> Ticket \<Rightarrow> string list \<Rightarrow> message result" where
  "hold_walk env q workspace ticket seen =
     (if tk_id ticket \<in> set seen then Inr (points (''parent cycle at '' @ tk_external_id ticket))
      else bind_result (ordered_children env q ticket) (\<lambda>children.
        if children = [] then Inr []
        else bind_result (filter_result (has_work_left env q) children) (\<lambda>incomplete.
          if incomplete = [] then Inr []
          else let p = partition_children env q workspace incomplete in
               bind_result (each_held (\<lambda>child. hold_walk env q workspace child (tk_id ticket # seen)) (pt_runnable p))
                 (\<lambda>deeper. case deeper of
                    None \<Rightarrow> Inr []
                  | Some ms \<Rightarrow> Inr (hold_text env q p ms)))))"
  by pat_completeness auto
termination
proof (relation "measure (\<lambda>(env, q, ws, t, seen). 2 * unseen (qu_board q) seen + (if on_board q t then 0 else 1))")
  fix env q and ws :: "Workspace option" and t and seen :: "string list" and cs incomplete p c
  assume seen: "tk_id t \<notin> set seen" and cs: "ordered_children env q t = Inr cs"
    and inc: "filter_result (has_work_left env q) cs = Inr incomplete"
    and p: "p = partition_children env q ws incomplete" and c: "c \<in> set (pt_runnable p)"
  from c p partition_runnable have "c \<in> set incomplete" unfolding partition_children_def by blast
  with filter_result_subset [OF inc] ordered_children_board [OF cs] child_on_board have "on_board q c" by blast
  moreover have "unseen (qu_board q) (tk_id t # seen) \<le> unseen (qu_board q) seen" by (rule unseen_le) auto
  moreover have "unseen (qu_board q) (tk_id t # seen) < unseen (qu_board q) seen" if "on_board q t"
    using that seen by (intro unseen_less) (auto simp: on_board_def)
  ultimately show "((env, q, ws, c, tk_id t # seen), env, q, ws, t, seen)
      \<in> measure (\<lambda>(env, q, ws, t, seen). 2 * unseen (qu_board q) seen + (if on_board q t then 0 else 1))"
    by auto
qed simp

declare hold_walk.simps [simp del]

definition subtree_start_hold :: "SubtreeEnv \<Rightarrow> Queue \<Rightarrow> Ticket \<Rightarrow> Workspace option \<Rightarrow> message result" where
  "subtree_start_hold env q ticket workspace = hold_walk env q workspace ticket []"

section \<open>What the walk decides\<close>

text \<open>
  A ticket can take a step when nothing below it is owed (it is a leaf, its children are complete,
  or those with work left are not workflow work), or when a child that may run can.
\<close>

definition nothing_owed :: "Partition \<Rightarrow> bool" where
  "nothing_owed p \<longleftrightarrow> pt_runnable p = [] \<and> pt_parked p = [] \<and> pt_waiting p = []"

inductive can_step :: "SubtreeEnv \<Rightarrow> Queue \<Rightarrow> Workspace option \<Rightarrow> Ticket \<Rightarrow> bool" for env q ws where
  idle: "incomplete_children env q t = Inr cs \<Longrightarrow> nothing_owed (partition_children env q ws cs) \<Longrightarrow> can_step env q ws t"
| below: "incomplete_children env q t = Inr cs \<Longrightarrow> c \<in> set (pt_runnable (partition_children env q ws cs))
    \<Longrightarrow> can_step env q ws c \<Longrightarrow> can_step env q ws t"

inductive_cases can_stepE: "can_step env q ws t"

lemma each_held_None: "each_held f cs = Inr None \<Longrightarrow> \<exists>c \<in> set cs. f c = Inr []"
  by (induction cs) (auto simp: bind_result_Inr_iff split: if_splits)

lemma each_held_Some:
  "each_held f cs = Inr (Some ms) \<Longrightarrow> length ms = length cs \<and> [] \<notin> set ms \<and> (\<forall>c \<in> set cs. \<exists>h. f c = Inr h \<and> h \<noteq> [])"
  by (induction cs arbitrary: ms) (auto simp: bind_result_Inr_iff split: if_splits)

lemma join_messages_Nil: "[] \<notin> set ms \<Longrightarrow> join_messages sep ms = [] \<longleftrightarrow> ms = []"
  by (cases "(sep, ms)" rule: join_messages.cases) auto

lemma render_nonempty: "held \<noteq> [] \<Longrightarrow> render_hold_line b held \<noteq> []"
  by (auto simp: render_hold_line_def hold_prefix_def points_def Let_def split: prod.splits)

lemma hold_text_Nil:
  "length ms = length (pt_runnable p) \<Longrightarrow> [] \<notin> set ms \<Longrightarrow> hold_text env q p ms = [] \<longleftrightarrow> nothing_owed p"
  using render_nonempty [of "pt_waiting p"]
  by (auto simp: hold_text_def nothing_owed_def parked_text_def points_def join_messages_Nil)

text \<open>One step of the walk, at a ticket not seen yet.\<close>

lemma hold_walk_step:
  assumes "hold_walk env q ws t seen = Inr m" and "tk_id t \<notin> set seen"
  obtains cs deeper where "incomplete_children env q t = Inr cs"
    and "each_held (\<lambda>c. hold_walk env q ws c (tk_id t # seen)) (pt_runnable (partition_children env q ws cs)) = Inr deeper"
    and "m = (case deeper of None \<Rightarrow> [] | Some ms \<Rightarrow> hold_text env q (partition_children env q ws cs) ms)"
proof -
  have none: "partition_children env q ws [] = \<lparr>pt_runnable = [], pt_parked = [], pt_waiting = []\<rparr>"
    by (simp add: partition_children_def)
  then have empty: "m = [] \<Longrightarrow> incomplete_children env q t = Inr [] \<Longrightarrow> thesis"
    by (intro that [of "[]" "Some []"]) (simp_all add: hold_text_def)
  from assms obtain cs where cs: "ordered_children env q t = Inr cs"
    by (auto simp: hold_walk.simps [of env q ws t seen] bind_result_Inr_iff)
  show ?thesis
  proof (cases "cs = []")
    case True
    with assms cs empty show ?thesis by (simp add: hold_walk.simps [of env q ws t seen] incomplete_children_def)
  next
    case False
    with assms cs obtain inc where inc: "filter_result (has_work_left env q) cs = Inr inc"
      by (auto simp: hold_walk.simps [of env q ws t seen] bind_result_Inr_iff)
    then have incomplete: "incomplete_children env q t = Inr inc" using cs by (simp add: incomplete_children_def)
    show ?thesis
    proof (cases "inc = []")
      case True
      with assms cs False inc incomplete empty show ?thesis by (simp add: hold_walk.simps [of env q ws t seen])
    next
      case some: False
      with assms cs False inc have "bind_result (each_held (\<lambda>c. hold_walk env q ws c (tk_id t # seen))
          (pt_runnable (partition_children env q ws inc)))
          (\<lambda>deeper. case deeper of None \<Rightarrow> Inr [] | Some ms \<Rightarrow> Inr (hold_text env q (partition_children env q ws inc) ms)) = Inr m"
        by (simp add: hold_walk.simps [of env q ws t seen] Let_def)
      then obtain deeper where "each_held (\<lambda>c. hold_walk env q ws c (tk_id t # seen))
          (pt_runnable (partition_children env q ws inc)) = Inr deeper"
          "(case deeper of None \<Rightarrow> Inr [] | Some ms \<Rightarrow> Inr (hold_text env q (partition_children env q ws inc) ms)) = (Inr m :: message result)"
        by (auto simp: bind_result_Inr_iff)
      then show ?thesis by (intro that [OF incomplete]) (auto split: option.splits)
    qed
  qed
qed

text \<open>The identifiers above a ticket, on a board whose parent links make no cycle.\<close>

definition above :: "Queue \<Rightarrow> Ticket \<Rightarrow> string list \<Rightarrow> bool" where
  "above q t seen \<longleftrightarrow> (\<forall>i \<in> set seen. (tk_id t, i) \<in> (parents (qu_board q))\<^sup>+)"

lemma runnable_child:
  assumes "incomplete_children env q t = Inr cs" and "c \<in> set (pt_runnable (partition_children env q ws cs))"
  shows "c \<in> set (children_of (qu_board q) (tk_id t))"
proof -
  from assms(1) obtain ds where ds: "ordered_children env q t = Inr ds" "filter_result (has_work_left env q) ds = Inr cs"
    by (auto simp: incomplete_children_def bind_result_Inr_iff)
  from assms(2) partition_runnable have "c \<in> set cs" unfolding partition_children_def by blast
  with filter_result_subset [OF ds(2)] ordered_children_board [OF ds(1)] show ?thesis by blast
qed

lemma above_child:
  assumes "keyed (qu_board q)" and "tk_id t \<noteq> []" and "c \<in> set (children_of (qu_board q) (tk_id t))" and "above q t seen"
  shows "above q c (tk_id t # seen) \<and> tk_id c \<noteq> []"
proof -
  have c: "c \<in> set (bd_tickets (qu_board q))" "tk_parent_ticket_id c = Some (tk_id t)"
    using assms(3) by (simp_all add: children_of_def)
  have "get_ticket (qu_board q) (tk_id c) = Some c"
    using assms(1) c(1) by (intro get_ticket_unique) (simp_all add: keyed_def)
  with c(2) assms(2) have up: "(tk_id c, tk_id t) \<in> parents (qu_board q)" by (auto simp: parents_iff parent_id_def)
  have "(tk_id c, i) \<in> (parents (qu_board q))\<^sup>+" if "(tk_id t, i) \<in> (parents (qu_board q))\<^sup>+" for i
    using up that by (rule trancl_into_trancl2)
  moreover have "tk_id c \<in> set (ids_of (qu_board q))" using c(1) by (simp add: ids_of_def)
  ultimately show ?thesis using assms(1,4) up by (auto simp: above_def keyed_def)
qed

lemma hold_walk_iff:
  assumes "keyed (qu_board q)" and "acyclic (parents (qu_board q))"
  shows "hold_walk env q ws t seen = Inr m \<Longrightarrow> above q t seen \<Longrightarrow> tk_id t \<noteq> [] \<Longrightarrow> m = [] \<longleftrightarrow> can_step env q ws t"
proof (induction "2 * unseen (qu_board q) seen + (if on_board q t then 0 else 1)" arbitrary: t seen m rule: less_induct)
  case less
  have new: "tk_id t \<notin> set seen" using less.prems(2) assms(2) by (auto simp: above_def acyclic_def)
  from less.prems(1) new obtain cs deeper where step: "incomplete_children env q t = Inr cs"
      "each_held (\<lambda>c. hold_walk env q ws c (tk_id t # seen)) (pt_runnable (partition_children env q ws cs)) = Inr deeper"
      "m = (case deeper of None \<Rightarrow> [] | Some ms \<Rightarrow> hold_text env q (partition_children env q ws cs) ms)"
    by (rule hold_walk_step)
  let ?p = "partition_children env q ws cs"
  have IH: "h = [] \<longleftrightarrow> can_step env q ws c" if "c \<in> set (pt_runnable ?p)" "hold_walk env q ws c (tk_id t # seen) = Inr h" for c h
  proof -
    note child = runnable_child [OF step(1) that(1)]
    have "unseen (qu_board q) (tk_id t # seen) \<le> unseen (qu_board q) seen" by (rule unseen_le) auto
    moreover have "unseen (qu_board q) (tk_id t # seen) < unseen (qu_board q) seen" if "on_board q t"
      using that new by (intro unseen_less) (auto simp: on_board_def)
    ultimately have "2 * unseen (qu_board q) (tk_id t # seen) + (if on_board q c then 0 else 1)
        < 2 * unseen (qu_board q) seen + (if on_board q t then 0 else 1)"
      using child_on_board [OF child] by auto
    from less.hyps [OF this that(2)] above_child [OF assms(1) less.prems(3) child less.prems(2)] show ?thesis by simp
  qed
  have cases: "can_step env q ws t \<longleftrightarrow> nothing_owed ?p \<or> (\<exists>c \<in> set (pt_runnable ?p). can_step env q ws c)"
  proof
    assume "can_step env q ws t"
    then show "nothing_owed ?p \<or> (\<exists>c \<in> set (pt_runnable ?p). can_step env q ws c)"
      by (cases rule: can_step.cases) (use step(1) in auto)
  next
    assume "nothing_owed ?p \<or> (\<exists>c \<in> set (pt_runnable ?p). can_step env q ws c)"
    then show "can_step env q ws t"
      by (elim disjE bexE) (rule can_step.idle [OF step(1)], assumption, rule can_step.below [OF step(1)])
  qed
  show ?case
  proof (cases deeper)
    case None
    from each_held_None [OF step(2) [unfolded None]] IH have "\<exists>c \<in> set (pt_runnable ?p). can_step env q ws c" by blast
    with None step(3) cases show ?thesis by auto
  next
    case (Some ms)
    note held = each_held_Some [OF step(2) [unfolded Some]]
    with IH have "\<not> (\<exists>c \<in> set (pt_runnable ?p). can_step env q ws c)" by blast
    with cases held hold_text_Nil [of ms ?p env q] step(3) Some show ?thesis by simp
  qed
qed

text \<open>C6: Before a slot is spent on a ticket, \<open>subtree_start_hold\<close> answers "" exactly when something under
  it can take a step: on a board without parent cycles the walk agrees with \<open>can_step\<close>, and when
  nothing can, it gives a reason.
\<close>

theorem start_hold_exact:
  assumes "keyed (qu_board q)" and "acyclic (parents (qu_board q))" and "tk_id t \<noteq> []"
    and "subtree_start_hold env q t ws = Inr m"
  shows "m = [] \<longleftrightarrow> can_step env q ws t"
  using assms hold_walk_iff [OF assms(1,2), of env ws t "[]" m] by (simp add: subtree_start_hold_def above_def)

text \<open>A milestone whose only child waits on a ticket elsewhere, and one whose child may run.\<close>

definition child_of :: "string \<Rightarrow> string \<Rightarrow> Ticket" where
  "child_of i p = (new_ticket i)\<lparr>tk_workspace_id := Some ''W'', tk_parent_ticket_id := Some p\<rparr>"

definition tree_queue :: Queue where
  "tree_queue = \<lparr>qu_board = empty_board\<lparr>
       bd_tickets := [new_ticket ''P'', child_of ''A'' ''P'', new_ticket ''Q'', child_of ''B'' ''Q'', new_ticket ''X''],
       bd_workspaces := [\<lparr>ws_id = ''W'', ws_slug = ''w'', ws_ticket_prefix = ''W'', ws_last_ticket_number = 0\<rparr>],
       bd_dependencies := [\<lparr>td_id = ''d'', td_ticket_id = ''A'', td_depends_on_ticket_id = ''X'', td_created_by = []\<rparr>]\<rparr>,
     qu_ledger = empty_ledger, qu_instances = [], qu_approvals = [], qu_slots = [], qu_entries = [],
     qu_orchs = [], qu_decisions = [], qu_lane_count = None, qu_next_id = 0\<rparr>"

definition tree_env :: SubtreeEnv where
  "tree_env = \<lparr>sx_start = sample_start_env\<lparr>se_template := (\<lambda>_ _. (Some (''T'', 1), [plain_stage ''dev'' 1]))\<rparr>,
     sx_ids_order = (\<lambda>ids. ids)\<rparr>"

lemma tree_sound: "keyed (qu_board tree_queue) \<and> acyclic (parents (qu_board tree_queue))"
proof
  show "keyed (qu_board tree_queue)"
    by (simp add: keyed_def ids_of_def tree_queue_def child_of_def new_ticket_def)
  have "parents (qu_board tree_queue) \<subseteq> {(''A'', ''P''), (''B'', ''Q'')}"
    by (auto simp: parents_iff get_ticket_def tree_queue_def child_of_def new_ticket_def parent_id_def split: if_splits)
  moreover have "acyclic {(''A'', ''P''), (''B'', ''Q'')}" by (auto simp: acyclic_insert elim: rtranclE) (simp add: acyclic_def)
  ultimately show "acyclic (parents (qu_board tree_queue))" by (rule acyclic_subset [rotated])
qed

theorem start_hold_exact_witness:
  "\<not> can_step tree_env tree_queue None (new_ticket ''P'') \<and> can_step tree_env tree_queue None (new_ticket ''Q'')"
proof
  have P: "case subtree_start_hold tree_env tree_queue (new_ticket ''P'') None of Inl e \<Rightarrow> False | Inr m \<Rightarrow> m \<noteq> []"
    by code_simp
  have Q: "subtree_start_hold tree_env tree_queue (new_ticket ''Q'') None = Inr []" by code_simp
  have ids: "tk_id (new_ticket i) = i" for i by (simp add: new_ticket_def)
  from P obtain m where "subtree_start_hold tree_env tree_queue (new_ticket ''P'') None = Inr m" "m \<noteq> []"
    by (auto split: sum.splits)
  with start_hold_exact [of tree_queue "new_ticket ''P''" tree_env None m] tree_sound
  show "\<not> can_step tree_env tree_queue None (new_ticket ''P'')" by (simp add: ids)
  from start_hold_exact [OF _ _ _ Q] tree_sound show "can_step tree_env tree_queue None (new_ticket ''Q'')" by (simp add: ids)
qed

end
