(* ===== verification/BulkQueue.thy ===== *)
theory BulkQueue
  imports LaneOrder
begin

text \<open>
  The operations on many queue entries at once, \<open>api/bulk_queue_operations.py\<close>: cancelling,
  pausing and resuming, setting an order, retrying and giving up. An entry is addressed by its
  own identifier within a workspace. What the handlers answer over HTTP is a value: a refused
  request is \<open>Inl\<close> of its status and detail.
\<close>

fun queue_position_value :: "QueuePosition \<Rightarrow> string" where
  "queue_position_value QueuePosition.QUEUED = ''queued''"
| "queue_position_value SCHEDULED = ''scheduled''"
| "queue_position_value PROMOTED = ''promoted''"
| "queue_position_value QueuePosition.STARTED = ''started''"
| "queue_position_value ACTIVE = ''active''"
| "queue_position_value PAUSED = ''paused''"
| "queue_position_value QueuePosition.CANCELLED = ''cancelled''"
| "queue_position_value QueuePosition.FAILED = ''failed''"
| "queue_position_value SKIPPED = ''skipped''"
| "queue_position_value REPAIRING = ''repairing''"

record BulkResult =
  bs_entry_id :: string
  bs_status :: string
  bs_message :: string

record BulkOperationResponse =
  bk_operation :: string
  bk_total_requested :: nat
  bk_successful :: nat
  bk_failed :: nat
  bk_results :: "BulkResult list"

definition workspace_entry :: "Queue \<Rightarrow> string \<Rightarrow> string \<Rightarrow> QueuedRun option" where
  "workspace_entry q workspace_id entry_id =
     find (\<lambda>e. qr_id e = entry_id \<and> qr_workspace_id e = Some workspace_id) (qu_entries q)"

section \<open>One status for many\<close>

definition with_status :: "QueuePosition \<Rightarrow> QueuedRun \<Rightarrow> QueuedRun" where
  "with_status target e = e\<lparr>qr_status := target\<rparr>"

text \<open>The loop, with the two counts: each identifier is looked up after the writes before it.\<close>

fun set_each ::
    "string \<Rightarrow> string \<Rightarrow> QueuePosition \<Rightarrow> QueuePosition list \<Rightarrow> string \<Rightarrow> string list \<Rightarrow> Queue
      \<Rightarrow> Queue \<times> BulkResult list \<times> nat \<times> nat" where
  "set_each workspace_id operation target allowed_from refusal [] q = (q, [], 0, 0)"
| "set_each workspace_id operation target allowed_from refusal (i # is) q =
     (case workspace_entry q workspace_id i of
        None \<Rightarrow>
          (let (q, results, successful, failed) = set_each workspace_id operation target allowed_from refusal is q
           in (q, \<lparr>bs_entry_id = i, bs_status = ''error'', bs_message = ''Entry not found''\<rparr> # results,
               successful, Suc failed))
      | Some entry \<Rightarrow>
          if qr_status entry \<notin> set allowed_from
          then (let (q, results, successful, failed) = set_each workspace_id operation target allowed_from refusal is q
                in (q, \<lparr>bs_entry_id = i, bs_status = ''error'', bs_message = ''Entry is ''
                        @ queue_position_value (qr_status entry) @ ''; '' @ refusal\<rparr> # results,
                    successful, Suc failed))
          else (let (q, results, successful, failed) = set_each workspace_id operation target allowed_from refusal is
                      (alter_entry (qr_id entry) (with_status target) q)
                in (q, \<lparr>bs_entry_id = i, bs_status = operation, bs_message = []\<rparr> # results,
                    Suc successful, failed)))"

definition bulk_set_status ::
    "string \<Rightarrow> string list \<Rightarrow> string \<Rightarrow> QueuePosition \<Rightarrow> QueuePosition list \<Rightarrow> string \<Rightarrow> Queue
      \<Rightarrow> Queue \<times> BulkOperationResponse" where
  "bulk_set_status workspace_id entry_ids operation target allowed_from refusal q =
     (let (q, results, successful, failed) = set_each workspace_id operation target allowed_from refusal entry_ids q
      in (q, \<lparr>bk_operation = operation, bk_total_requested = length entry_ids, bk_successful = successful,
              bk_failed = failed, bk_results = results\<rparr>))"

definition bulk_cancel_entries :: "string \<Rightarrow> string list \<Rightarrow> Queue \<Rightarrow> Queue \<times> BulkOperationResponse" where
  "bulk_cancel_entries workspace_id entry_ids = bulk_set_status workspace_id entry_ids ''cancelled''
     QueuePosition.CANCELLED WAITING_STATUSES ''only a waiting entry can be cancelled here''"

definition bulk_pause_entries :: "string \<Rightarrow> string list \<Rightarrow> Queue \<Rightarrow> Queue \<times> BulkOperationResponse" where
  "bulk_pause_entries workspace_id entry_ids = bulk_set_status workspace_id entry_ids ''paused''
     PAUSED WAITING_STATUSES ''only a waiting entry can be paused''"

definition bulk_resume_entries :: "string \<Rightarrow> string list \<Rightarrow> Queue \<Rightarrow> Queue \<times> BulkOperationResponse" where
  "bulk_resume_entries workspace_id entry_ids = bulk_set_status workspace_id entry_ids ''resumed''
     QueuePosition.QUEUED [PAUSED] ''only a paused entry can be resumed''"

section \<open>An order\<close>

text \<open>A missing entry refuses the whole request. An identifier named twice keeps its last place.\<close>

fun place_each :: "int \<Rightarrow> string list \<Rightarrow> Queue \<Rightarrow> Queue" where
  "place_each k [] q = q"
| "place_each k (i # is) q = place_each (k + 1) is (alter_entry i (\<lambda>e. e\<lparr>qr_position := k\<rparr>) q)"

definition bulk_reorder_entries :: "string \<Rightarrow> string list \<Rightarrow> Queue \<Rightarrow> Queue \<times> BulkOperationResponse" where
  "bulk_reorder_entries workspace_id entry_order q =
     (let missing = filter (\<lambda>i. workspace_entry q workspace_id i = None) entry_order in
      if missing \<noteq> []
      then (q, \<lparr>bk_operation = ''reorder'', bk_total_requested = length entry_order, bk_successful = 0,
                bk_failed = length entry_order,
                bk_results = map (\<lambda>i. \<lparr>bs_entry_id = i, bs_status = ''error'', bs_message = ''Entry not found''\<rparr>)
                  missing\<rparr>)
      else (place_each 1 entry_order q,
            \<lparr>bk_operation = ''reorder'', bk_total_requested = length entry_order,
             bk_successful = length entry_order, bk_failed = 0,
             bk_results = map (\<lambda>i. \<lparr>bs_entry_id = i, bs_status = ''reordered'', bs_message = []\<rparr>) entry_order\<rparr>))"

section \<open>Retrying\<close>

definition retried :: "int \<Rightarrow> QueuedRun \<Rightarrow> QueuedRun" where
  "retried now e = e\<lparr>qr_retry_count := qr_retry_count e + 1,
     qr_estimated_start_at := Some (now + microseconds (2 ^ nat (qr_retry_count e))),
     qr_failure_reason := [], qr_status := QueuePosition.QUEUED\<rparr>"

definition apply_retry :: "LaneEnv \<Rightarrow> Queue \<Rightarrow> QueuedRun \<Rightarrow> int outcome" where
  "apply_retry env q entry =
     (let backoff_seconds = 2 ^ nat (qr_retry_count entry);
          q = alter_entry (qr_id entry) (retried (le_now env)) q
      in and_then (outcome_of q (place_at_lane_tail env q entry)) (\<lambda>q position. (q, Inr backoff_seconds)))"

datatype Refusal = HTTPException int string

definition retry_failed_entry :: "LaneEnv \<Rightarrow> Queue \<Rightarrow> string \<Rightarrow> string \<Rightarrow> (Refusal + int) outcome" where
  "retry_failed_entry env q workspace_id entry_id =
     (case workspace_entry q workspace_id entry_id of
        None \<Rightarrow> (q, Inr (Inl (HTTPException 404 ''Entry not found'')))
      | Some entry \<Rightarrow>
          if qr_retry_count entry \<ge> qr_max_retries entry
          then (q, Inr (Inl (HTTPException 400 (''Max retries ('' @ str_int (qr_max_retries entry) @ '') exceeded''))))
          else and_then (apply_retry env q entry) (\<lambda>q backoff. (q, Inr (Inr backoff))))"

definition failed_entries :: "Queue \<Rightarrow> string \<Rightarrow> QueuedRun list" where
  "failed_entries q workspace_id =
     filter (\<lambda>e. qr_workspace_id e = Some workspace_id \<and> qr_status e = QueuePosition.FAILED) (qu_entries q)"

text \<open>How many were put back in line; the row of a listed entry is read as it is then.\<close>

fun retry_each :: "LaneEnv \<Rightarrow> Queue \<Rightarrow> QueuedRun list \<Rightarrow> nat outcome" where
  "retry_each env q [] = (q, Inr 0)"
| "retry_each env q (listed # entries) =
     (let entry = (case get_entry q (qr_id listed) of Some e \<Rightarrow> e | None \<Rightarrow> listed) in
      if qr_retry_count entry \<ge> qr_max_retries entry then retry_each env q entries
      else and_then (apply_retry env q entry) (\<lambda>q backoff.
             and_then (retry_each env q entries) (\<lambda>q n. (q, Inr (Suc n)))))"

definition retry_all_failed_entries :: "LaneEnv \<Rightarrow> Queue \<Rightarrow> string \<Rightarrow> nat outcome" where
  "retry_all_failed_entries env q workspace_id = retry_each env q (failed_entries q workspace_id)"

definition skip_all_failed_entries :: "Queue \<Rightarrow> string \<Rightarrow> Queue \<times> nat" where
  "skip_all_failed_entries q workspace_id =
     (let entries = failed_entries q workspace_id
      in (fold (\<lambda>e. alter_entry (qr_id e) (with_status SKIPPED)) entries q, length entries))"

section \<open>Exactly the entries that may\<close>

text \<open>What a status write to a set of entries is: those it may move, each once.\<close>

definition movable :: "string \<Rightarrow> QueuePosition list \<Rightarrow> string set \<Rightarrow> QueuedRun \<Rightarrow> bool" where
  "movable workspace_id allowed is e \<longleftrightarrow>
     qr_id e \<in> is \<and> qr_workspace_id e = Some workspace_id \<and> qr_status e \<in> set allowed"

lemma with_status_simps [simp]:
  "qr_id (with_status s e) = qr_id e" "qr_workspace_id (with_status s e) = qr_workspace_id e"
  "qr_status (with_status s e) = s"
  by (simp_all add: with_status_def)

lemma workspace_entry_iff:
  assumes "entries_keyed q"
  shows "workspace_entry q ws i = Some e \<longleftrightarrow> e \<in> set (qu_entries q) \<and> qr_id e = i \<and> qr_workspace_id e = Some ws"
proof
  assume "workspace_entry q ws i = Some e"
  then show "e \<in> set (qu_entries q) \<and> qr_id e = i \<and> qr_workspace_id e = Some ws"
    unfolding workspace_entry_def using find_in by fastforce
next
  assume e: "e \<in> set (qu_entries q) \<and> qr_id e = i \<and> qr_workspace_id e = Some ws"
  then obtain d where d: "workspace_entry q ws i = Some d"
    unfolding workspace_entry_def by (cases "find (\<lambda>e. qr_id e = i \<and> qr_workspace_id e = Some ws) (qu_entries q)")
      (auto simp: find_None_iff)
  then have "d \<in> set (qu_entries q)" "qr_id d = i"
    unfolding workspace_entry_def using find_in by fastforce+
  with e d show "workspace_entry q ws i = Some e" using entry_eq [OF assms] by blast
qed

lemma movable_step:
  assumes "entries_keyed q" and "target \<notin> set allowed" and "workspace_entry q ws i = Some e"
    and "qr_status e \<in> set allowed"
  shows "map (\<lambda>x. if movable ws allowed S x then with_status target x else x)
        (qu_entries (alter_entry (qr_id e) (with_status target) q))
      = map (\<lambda>x. if movable ws allowed (insert i S) x then with_status target x else x) (qu_entries q)"
    and "length (filter (movable ws allowed (insert i S)) (qu_entries q))
      = Suc (length (filter (movable ws allowed S) (qu_entries (alter_entry (qr_id e) (with_status target) q))))"
proof -
  have e: "e \<in> set (qu_entries q)" "qr_id e = i" "qr_workspace_id e = Some ws"
    using assms(3) workspace_entry_iff [OF assms(1)] by blast+
  have same: "x = e" if "x \<in> set (qu_entries q)" "qr_id x = i" for x
    using entry_eq [OF assms(1) that(1) e(1)] that(2) e(2) by simp
  show "map (\<lambda>x. if movable ws allowed S x then with_status target x else x)
        (qu_entries (alter_entry (qr_id e) (with_status target) q))
      = map (\<lambda>x. if movable ws allowed (insert i S) x then with_status target x else x) (qu_entries q)"
    unfolding entries_alter map_map
  proof (rule map_cong [OF refl])
    fix x assume x: "x \<in> set (qu_entries q)"
    show "((\<lambda>x. if movable ws allowed S x then with_status target x else x)
          \<circ> (\<lambda>x. if qr_id x = qr_id e then with_status target x else x)) x
        = (if movable ws allowed (insert i S) x then with_status target x else x)"
    proof (cases "qr_id x = i")
      case True
      with same x have "x = e" by blast
      with e assms(2,4) show ?thesis by (simp add: movable_def)
    qed (simp add: movable_def e(2))
  qed
  obtain xs ys where split: "qu_entries q = xs @ e # ys" using split_list [OF e(1)] by blast
  have away: "qr_id x \<noteq> i" if "x \<in> set xs \<or> x \<in> set ys" for x
    using assms(1) that e(2) unfolding entries_keyed_def split by (auto simp: image_iff)
  have "filter (movable ws allowed (insert i S)) zs = filter (movable ws allowed S) zs"
      "map (\<lambda>x. if qr_id x = i then with_status target x else x) zs = zs"
    if "\<And>x. x \<in> set zs \<Longrightarrow> qr_id x \<noteq> i" for zs
    using that by (induction zs) (auto simp: movable_def)
  from this [of xs] this [of ys] away
  show "length (filter (movable ws allowed (insert i S)) (qu_entries q))
      = Suc (length (filter (movable ws allowed S) (qu_entries (alter_entry (qr_id e) (with_status target) q))))"
    using e(2,3) assms(2,4) by (simp add: entries_alter split movable_def)
qed

lemma movable_skip:
  assumes "entries_keyed q" and "\<And>e. workspace_entry q ws i = Some e \<Longrightarrow> qr_status e \<notin> set allowed"
    and "x \<in> set (qu_entries q)"
  shows "movable ws allowed (insert i S) x = movable ws allowed S x"
  using assms workspace_entry_iff [OF assms(1)] by (auto simp: movable_def)

lemma set_each_moves:
  assumes "entries_keyed q" and "target \<notin> set allowed"
  shows "case set_each ws operation target allowed refusal is q of (r, results, successful, failed) \<Rightarrow>
      qu_entries r = map (\<lambda>x. if movable ws allowed (set is) x then with_status target x else x) (qu_entries q)
    \<and> successful = length (filter (movable ws allowed (set is)) (qu_entries q))
    \<and> successful + failed = length is \<and> map bs_entry_id results = is"
  using assms(1)
proof (induction "is" arbitrary: q)
  case Nil
  then show ?case by (simp add: movable_def)
next
  case (Cons i "is")
  show ?case
  proof (cases "\<exists>e. workspace_entry q ws i = Some e \<and> qr_status e \<in> set allowed")
    case True
    then obtain e where e: "workspace_entry q ws i = Some e" "qr_status e \<in> set allowed" by blast
    have "entries_keyed (alter_entry (qr_id e) (with_status target) q)" by (simp add: keyed_alter Cons.prems)
    from Cons.IH [OF this] movable_step [OF Cons.prems assms(2) e, of "set is"] e
    show ?thesis by (simp add: split_beta Let_def)
  next
    case False
    then have skip: "movable ws allowed (insert i (set is)) x = movable ws allowed (set is) x"
      if "x \<in> set (qu_entries q)" for x
      using movable_skip [OF Cons.prems _ that] by blast
    then have rows: "map (\<lambda>x. if movable ws allowed (insert i (set is)) x then with_status target x else x) (qu_entries q)
        = map (\<lambda>x. if movable ws allowed (set is) x then with_status target x else x) (qu_entries q)"
      "filter (movable ws allowed (insert i (set is))) (qu_entries q) = filter (movable ws allowed (set is)) (qu_entries q)"
      by (auto cong: filter_cong)
    from False Cons.IH [OF Cons.prems] show ?thesis
      unfolding list.set rows by (auto simp: split_beta Let_def split: option.split)
  qed
qed

lemma bulk_status_fact:
  assumes "entries_keyed q" and "target \<notin> set allowed"
  shows "qu_entries (fst (bulk_set_status ws ids operation target allowed refusal q))
    = map (\<lambda>e. if movable ws allowed (set ids) e then with_status target e else e) (qu_entries q)"
  using set_each_moves [OF assms, of ws ids operation refusal]
  by (simp add: bulk_set_status_def split_beta Let_def)

text \<open>A bulk cancel, pause or resume moves exactly the entries it may: those of the workspace
  that it names and that are in a status it is allowed to move from, each once however often it
  is named; every other entry stays as it is, and the two counts of the answer add up.
\<close>

theorem bulk_status_exact:
  assumes "entries_keyed q" and "target \<notin> set allowed"
  shows "case bulk_set_status ws ids operation target allowed refusal q of (r, y) \<Rightarrow>
      qu_entries r = map (\<lambda>e. if movable ws allowed (set ids) e then with_status target e else e) (qu_entries q)
    \<and> bk_successful y = length (filter (movable ws allowed (set ids)) (qu_entries q))
    \<and> bk_successful y + bk_failed y = length ids"
  using set_each_moves [OF assms, of ws ids operation refusal]
  by (simp add: bulk_set_status_def split_beta Let_def)

definition queue_of :: "QueuedRun list \<Rightarrow> Queue" where
  "queue_of entries = empty_queue\<lparr>qu_slots := [new_slot ''s1'' 1, new_slot ''s2'' 2], qu_entries := entries\<rparr>"

definition line_entry :: "string \<Rightarrow> int \<Rightarrow> QueuedRun" where
  "line_entry i position = (new_entry i (Some ''W'') ''T'' 1)\<lparr>qr_position := position\<rparr>"

theorem bulk_status_exact_witness:
  "snd (bulk_cancel_entries ''W'' [''a'', ''b'', ''a''] (queue_of [line_entry ''a'' 1]))
     = \<lparr>bk_operation = ''cancelled'', bk_total_requested = 3, bk_successful = 1, bk_failed = 2,
        bk_results = bk_results (snd (bulk_cancel_entries ''W'' [''a'', ''b'', ''a''] (queue_of [line_entry ''a'' 1])))\<rparr>"
proof -
  have "entries_keyed (queue_of [line_entry ''a'' 1])" by (simp add: entries_keyed_def queue_of_def)
  moreover have "QueuePosition.CANCELLED \<notin> set WAITING_STATUSES" by (simp add: WAITING_STATUSES_def)
  moreover have "length (filter (movable ''W'' WAITING_STATUSES (set [''a'', ''b'', ''a'']))
      (qu_entries (queue_of [line_entry ''a'' 1]))) = 1" by code_simp
  ultimately show ?thesis
    using bulk_status_exact [of "queue_of [line_entry ''a'' 1]" QueuePosition.CANCELLED WAITING_STATUSES "''W''"
        "[''a'', ''b'', ''a'']" "''cancelled''" "''only a waiting entry can be cancelled here''"]
    by (simp add: bulk_cancel_entries_def bulk_set_status_def split_beta Let_def)
qed

section \<open>A retry\<close>

text \<open>An entry that starts to wait, in one lane.\<close>

lemma waiting_comes_in:
  assumes "entries_keyed q" and "e \<in> set (qu_entries q)" and "\<And>m. \<not> waits_in m e"
  shows "mset (filter (waits_in m) (qu_entries (alter_entry (qr_id e) f q)))
    = mset (filter (waits_in m) (qu_entries q)) + (if waits_in m (f e) then {#f e#} else {#})"
proof -
  obtain xs ys where split: "qu_entries q = xs @ e # ys" using split_list [OF assms(2)] by blast
  have "qr_id x \<noteq> qr_id e" if "x \<in> set xs \<or> x \<in> set ys" for x
    using assms(1) that unfolding entries_keyed_def split by (auto simp: image_iff)
  then have "map (\<lambda>x. if qr_id x = qr_id e then f x else x) xs = xs"
      "map (\<lambda>x. if qr_id x = qr_id e then f x else x) ys = ys" by (auto intro!: map_idI)
  then show ?thesis using assms(3) by (simp add: entries_alter split)
qed


lemma waits_in_status: "qr_status e \<notin> set WAITING_STATUSES \<Longrightarrow> \<not> waits_in m e"
  by (simp add: waits_in_def)

lemma alter_entry_twice:
  assumes "\<And>e. qr_id (f e) = qr_id e"
  shows "alter_entry i g (alter_entry i f q) = alter_entry i (\<lambda>e. g (f e)) q"
  using assms by (simp add: alter_entry_def o_def if_distrib [of qr_id] cong: if_cong)

text \<open>The row as a retry leaves it, before the lane is renumbered.\<close>

definition rejoined :: "LaneEnv \<Rightarrow> int \<Rightarrow> int \<Rightarrow> QueuedRun \<Rightarrow> QueuedRun" where
  "rejoined env n position e = (retried (le_now env) e)\<lparr>qr_slot_number := n, qr_position := position\<rparr>"

lemma waits_rejoined: "waits_in m (rejoined env n p e) \<longleftrightarrow> m = n"
  by (auto simp: rejoined_def retried_def waits_in_def WAITING_STATUSES_def)

lemma apply_retry_eq:
  assumes "entries_keyed q" and "e \<in> set (qu_entries q)" and "qr_status e \<notin> set WAITING_STATUSES"
    and "qr_slot_number e \<le> le_max_concurrent env"
  obtains p where "int (length (waiting_in_lane q (qr_slot_number e))) < p"
    and "apply_retry env q e = (renumber (qr_slot_number e) None
           (alter_entry (qr_id e) (rejoined env (qr_slot_number e) p) q), Inr (2 ^ nat (qr_retry_count e)))"
proof
  let ?n = "qr_slot_number e" and ?q1 = "alter_entry (qr_id e) (retried (le_now env)) q"
  let ?p = "int (length (waiting_in_lane ?q1 ?n)) + 1"
  have id: "qr_id (retried now x) = qr_id x" for now x by (simp add: retried_def)
  have "mset (waiting_in_lane ?q1 ?n) = mset (filter (waits_in ?n) (qu_entries q))
      + (if waits_in ?n (retried (le_now env) e) then {#retried (le_now env) e#} else {#})"
    unfolding mset_waiting by (rule waiting_comes_in [OF assms(1,2) waits_in_status [OF assms(3)]])
  then have "size (mset (waiting_in_lane ?q1 ?n)) \<ge> size (mset (filter (waits_in ?n) (qu_entries q)))" by simp
  then have "length (waiting_in_lane ?q1 ?n) \<ge> length (waiting_in_lane q ?n)"
    by (metis mset_waiting size_mset)
  then show "int (length (waiting_in_lane q ?n)) < ?p" by simp
  show "apply_retry env q e = (renumber ?n None (alter_entry (qr_id e) (rejoined env ?n ?p) q),
      Inr (2 ^ nat (qr_retry_count e)))"
    using assms(4)
    by (simp add: apply_retry_def place_at_lane_tail_def Let_def alter_entry_twice [OF id] rejoined_def [abs_def])
qed

lemma rejoined_lane:
  assumes "lanes_sound q" and "e \<in> set (qu_entries q)" and "qr_status e \<notin> set WAITING_STATUSES"
    and "int (length (waiting_in_lane q n)) < p"
  shows "waiting_in_lane (alter_entry (qr_id e) (rejoined env n p) q) m
    = (if m = n then waiting_in_lane q n @ [rejoined env n p e] else waiting_in_lane q m)"
proof -
  have keyed: "entries_keyed q" and num: "numbered q k" for k using assms(1) by (simp_all add: lanes_sound_def)
  have "sorted_wrt (<) (map qr_position (waiting_in_lane q k))" for k
    using num [of k] unfolding numbered_def by simp
  moreover have "qr_position x < p" if "x \<in> set (waiting_in_lane q n)" for x
  proof -
    have "qr_position x \<in> set [1..int (length (waiting_in_lane q n))]"
      using that num [of n] unfolding numbered_def by (metis image_eqI list.set_map)
    with assms(4) show ?thesis by simp
  qed
  ultimately have up: "sorted_wrt (<) (map qr_position
      (if m = n then waiting_in_lane q n @ [rejoined env n p e] else waiting_in_lane q m))"
    by (auto simp: sorted_wrt_append rejoined_def)
  have "mset (if m = n then waiting_in_lane q n @ [rejoined env n p e] else waiting_in_lane q m)
      = mset (filter (waits_in m) (qu_entries (alter_entry (qr_id e) (rejoined env n p) q)))"
    unfolding waiting_comes_in [OF keyed assms(2) waits_in_status [OF assms(3)]]
    by (simp add: mset_waiting waits_rejoined)
  from sort_key_ascending [OF this up] show ?thesis by (simp only: waiting_in_lane_def)
qed



text \<open>Pausing is undone by resuming: the entries that waited are again as they were, in the
  positions they had, if none of them was scheduled.
\<close>

theorem paused_entries_resume:
  assumes "entries_keyed q"
    and "\<forall>e \<in> set (qu_entries q). qr_id e \<in> set ids \<and> qr_workspace_id e = Some ws \<longrightarrow> qr_status e = QueuePosition.QUEUED"
  shows "qu_entries (fst (bulk_resume_entries ws ids (fst (bulk_pause_entries ws ids q)))) = qu_entries q"
proof -
  let ?q = "fst (bulk_pause_entries ws ids q)"
  have paused: "qu_entries ?q = map (\<lambda>e. if movable ws WAITING_STATUSES (set ids) e then with_status PAUSED e else e)
      (qu_entries q)"
    using bulk_status_fact [OF assms(1), of PAUSED WAITING_STATUSES ws ids]
    by (simp add: bulk_pause_entries_def WAITING_STATUSES_def)
  then have "entries_keyed ?q" using assms(1) by (simp add: entries_keyed_def o_def if_distrib [of qr_id] cong: if_cong)
  then have "qu_entries (fst (bulk_resume_entries ws ids ?q))
      = map (\<lambda>e. if movable ws [PAUSED] (set ids) e then with_status QueuePosition.QUEUED e else e) (qu_entries ?q)"
    using bulk_status_fact [of ?q QueuePosition.QUEUED "[PAUSED]" ws ids] by (simp add: bulk_resume_entries_def)
  also have "\<dots> = qu_entries q"
    unfolding paused map_map
    by (rule map_idI) (use assms(2) in \<open>auto simp: movable_def with_status_def WAITING_STATUSES_def\<close>)
  finally show ?thesis .
qed

text \<open>Pausing leaves a hole in the lane: of three entries that wait in the positions 1, 2, 3, pausing
  the second leaves two that wait in the positions 1 and 3.
\<close>

theorem pause_leaves_a_hole:
  "map qr_position (waiting_in_lane (fst (bulk_pause_entries ''W'' [''b'']
       (queue_of [line_entry ''a'' 1, line_entry ''b'' 2, line_entry ''c'' 3]))) 1) = [1, 3]"
  by code_simp

end
