(* ===== verification/SharedQueue.thy ===== *)
theory SharedQueue
  imports BulkQueue
begin

text \<open>
  The shared queue in front of the lanes: the second half of \<open>services/parallel_queue.py\<close>. An
  entry that names a run waits for any free slot; completing a run frees its slot and promotes
  the entry that has waited longest. Handing a promoted run to its thread changes no row. A
  median run duration, from which the start of a waiting run is estimated, is an argument.
\<close>

definition owned_by_shared_queue :: "QueuedRun \<Rightarrow> bool" where
  "owned_by_shared_queue e \<longleftrightarrow> qr_run_id e \<noteq> None"

definition estimate_start :: "LaneEnv \<Rightarrow> int option \<Rightarrow> int \<Rightarrow> int" where
  "estimate_start env per_run position =
     (case per_run of
        None \<Rightarrow> le_now env
      | Some duration \<Rightarrow>
          if duration = 0 then le_now env
          else (let waves = max 0 ((position - 1) div max 1 (le_max_concurrent env))
                in le_now env + duration * (waves + 1)))"

section \<open>Queueing a run\<close>

record QueueReply =
  qy_status :: string
  qy_slot_number :: "int option"
  qy_position :: "int option"
  qy_queue_length :: "int option"
  qy_estimated_start_at :: "int option"
  qy_message :: string

definition occupied_by :: "string option \<Rightarrow> AgentSlot \<Rightarrow> AgentSlot" where
  "occupied_by run_id s = s\<lparr>sl_current_run_id := run_id\<rparr>"

definition queue_run ::
    "LaneEnv \<Rightarrow> int option \<Rightarrow> Queue \<Rightarrow> string \<Rightarrow> string \<Rightarrow> string \<Rightarrow> int option \<Rightarrow> Queue \<times> QueueReply" where
  "queue_run env per_run q workspace_id ticket_id run_id preferred_slot =
     (case claim_free_slot env preferred_slot (initialize_slots env q) of
        (q, Some slot) \<Rightarrow>
          (alter_slot (sl_id slot) (occupied_by (Some run_id)) q,
           \<lparr>qy_status = ''started'', qy_slot_number = Some (sl_slot_number slot), qy_position = None,
            qy_queue_length = None, qy_estimated_start_at = None,
            qy_message = ''Started immediately on slot '' @ str_int (sl_slot_number slot)\<rparr>)
      | (q, None) \<Rightarrow>
          (let waiting = filter (\<lambda>e. qr_status e \<in> set WAITING_STATUSES) (qu_entries q);
               position = int (length waiting) + 1;
               estimated = estimate_start env per_run position;
               (i, q) = uuid4 q
           in (add_entry ((new_entry i (Some workspace_id) ticket_id (le_now env))\<lparr>qr_run_id := Some run_id,
                 qr_position := position, qr_estimated_start_at := Some estimated\<rparr>) q,
               \<lparr>qy_status = ''queued'', qy_slot_number = None, qy_position = Some position,
                qy_queue_length = Some position, qy_estimated_start_at = Some estimated,
                qy_message = ''Added to queue at position '' @ str_int position\<rparr>)))"

section \<open>Promotion\<close>

definition waits_shared :: "QueuedRun \<Rightarrow> bool" where
  "waits_shared e \<longleftrightarrow> qr_status e = QueuePosition.QUEUED \<and> owned_by_shared_queue e"

definition shared_line :: "Queue \<Rightarrow> QueuedRun list" where
  "shared_line q = sort_key qr_position (filter waits_shared (qu_entries q))"

text \<open>The new position of a row and the flat ten minutes per position it is estimated by.\<close>

definition reordered :: "int \<Rightarrow> int \<Rightarrow> QueuedRun \<Rightarrow> QueuedRun" where
  "reordered now k e = e\<lparr>qr_position := k, qr_estimated_start_at := Some (now + microseconds (60 * 10) * k)\<rparr>"

fun reorder_each :: "int \<Rightarrow> int \<Rightarrow> QueuedRun list \<Rightarrow> Queue \<Rightarrow> Queue" where
  "reorder_each now k [] q = q"
| "reorder_each now k (e # es) q = reorder_each now (k + 1) es (alter_entry (qr_id e) (reordered now k) q)"

definition reorder_queue :: "LaneEnv \<Rightarrow> Queue \<Rightarrow> Queue" where
  "reorder_queue env q = reorder_each (le_now env) 1 (shared_line q) q"

record Promotion =
  pm_run_id :: "string option"
  pm_ticket_id :: string
  pm_slot_number :: int
  pm_message :: string

definition promoted :: "int \<Rightarrow> QueuedRun \<Rightarrow> QueuedRun" where
  "promoted now e = e\<lparr>qr_status := PROMOTED, qr_promoted_at := Some now, qr_started_at := Some now\<rparr>"

text \<open>What there is to promote is read before a slot is claimed for it.\<close>

definition promote_from_queue :: "LaneEnv \<Rightarrow> Queue \<Rightarrow> string option \<Rightarrow> Queue \<times> Promotion option" where
  "promote_from_queue env q run_id =
     (case filter (\<lambda>e. run_id = None \<or> qr_run_id e = run_id) (shared_line q) of
        [] \<Rightarrow> (q, None)
      | queued_run # _ \<Rightarrow>
          (case claim_free_slot env None (initialize_slots env q) of
             (q, None) \<Rightarrow> (q, None)
           | (q, Some slot) \<Rightarrow>
               (let q = alter_slot (sl_id slot) (occupied_by (qr_run_id queued_run)) q;
                    q = alter_entry (qr_id queued_run) (promoted (le_now env)) q
                in (reorder_queue env q,
                    Some \<lparr>pm_run_id = qr_run_id queued_run, pm_ticket_id = qr_ticket_id queued_run,
                          pm_slot_number = sl_slot_number slot,
                          pm_message = ''Promoted from position '' @ str_int (qr_position queued_run)
                            @ '' to slot '' @ str_int (sl_slot_number slot)\<rparr>))))"

definition cancel_queued_run :: "LaneEnv \<Rightarrow> Queue \<Rightarrow> string \<Rightarrow> Queue \<times> bool" where
  "cancel_queued_run env q run_id =
     (case find (\<lambda>e. qr_run_id e = Some run_id) (qu_entries q) of
        None \<Rightarrow> (q, False)
      | Some queued_run \<Rightarrow> (reorder_queue env (delete_entry (qr_id queued_run) q), True))"

section \<open>Completion\<close>

definition hold_stage_entry_for_repair :: "LaneEnv \<Rightarrow> Queue \<Rightarrow> string \<Rightarrow> bool outcome" where
  "hold_stage_entry_for_repair env q run_id =
     (case find (\<lambda>e. qr_run_id e = Some run_id \<and> qr_status e = ACTIVE \<and> qr_entry_kind e = STAGE) (qu_entries q) of
        None \<Rightarrow> (q, Inr False)
      | Some entry \<Rightarrow>
          (case get_ticket (qu_board q) (qr_ticket_id entry) of
             None \<Rightarrow> (q, Inr False)
           | Some ticket \<Rightarrow>
               if tk_state ticket \<noteq> TicketState.BLOCKED \<and> tk_workflow_stage_status ticket \<noteq> StageStatus.BLOCKED
               then (q, Inr False)
               else (let spent = repair_exhausted entry (le_now env) in
                     if spent \<noteq> [] then (alter_entry (qr_id entry) (or_reason spent) q, Inr False)
                     else (case resolve_repair_route env q ticket of
                             None \<Rightarrow> (q, Inr False)
                           | Some route \<Rightarrow>
                               and_then (outcome_of q (hold_for_repair env q (qr_id entry) ticket route))
                                 (\<lambda>q refused. (q, Inr (refused = [])))))))"

datatype Completion = Repairing int | Next_run Promotion | Slot_freed

definition failed_by :: "AgentRun \<Rightarrow> int \<Rightarrow> QueuedRun \<Rightarrow> QueuedRun" where
  "failed_by run now e = e\<lparr>qr_status := QueuePosition.FAILED,
     qr_failure_reason := take 2000 (if rn_stderr run = [] then ''Agent run failed'' else rn_stderr run),
     qr_last_failed_at := Some now\<rparr>"

text \<open>The entry of a run that failed reads FAILED before anything else is asked of it.\<close>

definition mark_failed :: "LaneEnv \<Rightarrow> Queue \<Rightarrow> string \<Rightarrow> Queue" where
  "mark_failed env q run_id =
     (case get_run q run_id of
        None \<Rightarrow> q
      | Some run \<Rightarrow>
          if rn_status run \<noteq> RunStatus.FAILED then q
          else (case find (\<lambda>e. qr_run_id e = Some run_id) (qu_entries q) of
                  None \<Rightarrow> q
                | Some entry \<Rightarrow> alter_entry (qr_id entry) (failed_by run (le_now env)) q))"

text \<open>A lane past the limit is retired as it frees; any other is given back.\<close>

definition run_released :: "int \<Rightarrow> AgentSlot \<Rightarrow> AgentSlot" where
  "run_released now s = s\<lparr>sl_is_available := True, sl_current_run_id := None, sl_released_at := Some now\<rparr>"

definition free_run_slot :: "LaneEnv \<Rightarrow> AgentSlot option \<Rightarrow> Queue \<Rightarrow> Queue" where
  "free_run_slot env slot q =
     (case slot of
        None \<Rightarrow> q
      | Some s \<Rightarrow>
          if sl_slot_number s > le_max_concurrent env
          then q\<lparr>qu_slots := filter (\<lambda>x. sl_id x \<noteq> sl_id s) (qu_slots q)\<rparr>
          else alter_slot (sl_id s) (run_released (le_now env)) q)"

text \<open>Any exception ends in \<open>None\<close>, with the rows written before it.\<close>

definition on_run_complete :: "LaneEnv \<Rightarrow> Queue \<Rightarrow> string \<Rightarrow> Queue \<times> Completion option" where
  "on_run_complete env q run_id =
     (let q = mark_failed env q run_id;
          slot = find (\<lambda>s. sl_current_run_id s = Some run_id) (qu_slots q)
      in case (if slot = None then (q, Inr False) else hold_stage_entry_for_repair env q run_id) of
           (q, Inl _) \<Rightarrow> (q, None)
         | (q, Inr held) \<Rightarrow>
             if held then (q, Some (Repairing (case slot of None \<Rightarrow> 0 | Some s \<Rightarrow> sl_slot_number s)))
             else (case promote_from_queue env (free_run_slot env slot q) None of
                     (q, Some p) \<Rightarrow> (q, Some (Next_run p))
                   | (q, None) \<Rightarrow> (q, Some Slot_freed)))"

section \<open>The line moves up\<close>

definition restamped :: "int \<Rightarrow> int \<Rightarrow> string list \<Rightarrow> QueuedRun \<Rightarrow> QueuedRun" where
  "restamped now k is e = (case index_of is (qr_id e) of None \<Rightarrow> e | Some j \<Rightarrow> reordered now (k + int j) e)"

lemma reordered_simps [simp]:
  "qr_id (reordered now k e) = qr_id e" "qr_status (reordered now k e) = qr_status e"
  "qr_run_id (reordered now k e) = qr_run_id e" "qr_position (reordered now k e) = k"
  "waits_shared (reordered now k e) = waits_shared e" "qr_slot_number (reordered now k e) = qr_slot_number e"
  by (simp_all add: reordered_def waits_shared_def owned_by_shared_queue_def)

lemma restamped_simps [simp]:
  "qr_id (restamped now k is e) = qr_id e" "waits_shared (restamped now k is e) = waits_shared e"
  by (simp_all add: restamped_def split: option.split)

lemma restamped_out:
  assumes "qr_id e \<notin> set is"
  shows "restamped now k is e = e"
proof -
  from assms have none: "index_of is (qr_id e) = None" by simp
  show ?thesis by (simp only: restamped_def none option.case)
qed

lemma entries_reorder_each:
  "distinct (map qr_id es)
   \<Longrightarrow> qu_entries (reorder_each now k es q) = map (restamped now k (map qr_id es)) (qu_entries q)"
proof (induction es arbitrary: k q)
  case Nil
  then show ?case by (simp add: restamped_def [abs_def])
next
  case (Cons e es)
  have "restamped now (k + 1) (map qr_id es) (if qr_id x = qr_id e then reordered now k x else x)
      = restamped now k (map qr_id (e # es)) x" for x
  proof (cases "qr_id x = qr_id e")
    case True
    then have "qr_id (reordered now k x) \<notin> set (map qr_id es)" using Cons.prems by auto
    then have "restamped now (k + 1) (map qr_id es) (reordered now k x) = reordered now k x" by (rule restamped_out)
    moreover have "restamped now k (map qr_id (e # es)) x = reordered now k x"
      using True by (simp add: restamped_def)
    ultimately show ?thesis using True by simp
  next
    case False
    then have "index_of (map qr_id (e # es)) (qr_id x) = map_option Suc (index_of (map qr_id es) (qr_id x))" by simp
    moreover have "k + 1 + int j = k + int (Suc j)" for j by simp
    ultimately show ?thesis using False
      by (cases "index_of (map qr_id es) (qr_id x)")
        (simp_all only: restamped_def if_False option.map option.case)
  qed
  with Cons show ?case by (simp add: entries_alter)
qed

lemma reorder_each_fields [simp, row_simps]: "qu_slots (reorder_each now k es q) = qu_slots q"
  by (induction es arbitrary: k q) simp_all

lemma mset_shared: "mset (shared_line q) = mset (filter waits_shared (qu_entries q))"
  by (simp add: shared_line_def)

lemma distinct_shared: "entries_keyed q \<Longrightarrow> distinct (map qr_id (shared_line q))"
proof -
  assume "entries_keyed q"
  then have "distinct (map qr_id (filter waits_shared (qu_entries q)))"
    by (simp add: entries_keyed_def distinct_map_filter)
  then show ?thesis by (metis mset_shared mset_map mset_eq_imp_distinct_iff)
qed

lemma restamped_positions:
  assumes "distinct (map qr_id ws)"
  shows "map qr_position (map (restamped now k (map qr_id ws)) ws) = map (\<lambda>j. k + int j) [0..<length ws]"
proof (rule nth_equalityI)
  fix j assume "j < length (map qr_position (map (restamped now k (map qr_id ws)) ws))"
  then have j: "j < length ws" by simp
  then have "index_of (map qr_id ws) (qr_id (ws ! j)) = Some j"
    using index_of_nth [of "map qr_id ws" j] assms by simp
  with j show "map qr_position (map (restamped now k (map qr_id ws)) ws) ! j = map (\<lambda>j. k + int j) [0..<length ws] ! j"
    by (simp add: restamped_def)
qed simp

lemma reorder_queue_line:
  assumes "entries_keyed q"
  shows "map qr_id (shared_line (reorder_queue env q)) = map qr_id (shared_line q)"
    and "map qr_position (shared_line (reorder_queue env q)) = [1..int (length (shared_line q))]"
    and "x \<in> set (qu_entries q) \<Longrightarrow> \<not> waits_shared x \<Longrightarrow> x \<in> set (qu_entries (reorder_queue env q))"
    and "qu_slots (reorder_queue env q) = qu_slots q"
proof -
  let ?ws = "shared_line q" and ?g = "restamped (le_now env) 1 (map qr_id (shared_line q))"
  have dist: "distinct (map qr_id ?ws)" by (rule distinct_shared [OF assms])
  note rows = entries_reorder_each [OF dist, of "le_now env" 1 q]
  have line: "shared_line (reorder_queue env q) = map ?g ?ws"
    unfolding shared_line_def [of "reorder_queue env q"] unfolding reorder_queue_def rows
  proof (rule sort_key_ascending)
    have "filter waits_shared (map ?g (qu_entries q)) = map ?g (filter waits_shared (qu_entries q))"
      by (simp add: filter_map o_def)
    then show "mset (map ?g ?ws) = mset (filter waits_shared (map ?g (qu_entries q)))"
      by (simp add: mset_shared)
    show "sorted_wrt (<) (map qr_position (map ?g ?ws))"
      unfolding restamped_positions [OF dist] by (simp add: sorted_wrt_map sorted_wrt_upt)
  qed
  show "map qr_id (shared_line (reorder_queue env q)) = map qr_id ?ws" unfolding line by simp
  show "map qr_position (shared_line (reorder_queue env q)) = [1..int (length ?ws)]"
    unfolding line restamped_positions [OF dist] by (simp add: upto_one)
  show "qu_slots (reorder_queue env q) = qu_slots q" by (simp add: reorder_queue_def)
  assume x: "x \<in> set (qu_entries q)" "\<not> waits_shared x"
  have "qr_id x \<notin> qr_id ` set ?ws"
  proof
    assume "qr_id x \<in> qr_id ` set ?ws"
    then obtain y where "y \<in> set (qu_entries q)" "waits_shared y" "qr_id x = qr_id y"
      by (auto simp: shared_line_def)
    with x entry_eq [OF assms] show False by blast
  qed
  then have "?g x = x" by (intro restamped_out) simp
  with x show "x \<in> set (qu_entries (reorder_queue env q))"
    unfolding reorder_queue_def rows by (metis image_eqI list.set_map)
qed

text \<open>Taking the head of the line out of it.\<close>

lemma promoted_line:
  assumes "entries_keyed q" and "shared_line q = e # rest"
  shows "shared_line (alter_entry (qr_id e) (promoted now) q) = rest"
proof -
  have out: "\<not> waits_shared (promoted now x)" for x by (simp add: waits_shared_def promoted_def)
  then have "filter waits_shared (map (\<lambda>x. if qr_id x = qr_id e then promoted now x else x) es)
      = filter (\<lambda>x. qr_id x \<noteq> qr_id e) (filter waits_shared es)" for es
    by (induction es) auto
  then have "shared_line (alter_entry (qr_id e) (promoted now) q) = filter (\<lambda>x. qr_id x \<noteq> qr_id e) (shared_line q)"
    by (simp add: shared_line_def entries_alter filter_sort)
  also have "\<dots> = rest"
    using distinct_shared [OF assms(1)] unfolding assms(2) by (simp add: filter_id_conv) (metis image_eqI)
  finally show ?thesis .
qed

text \<open>C15: A promotion serves who has waited longest: the head of the shared line is taken out of it, the
  others keep their order and move up to 1, 2, 3, no entry outside the line is written except
  the promoted one, and the one slot that changes was free and now names the promoted run.
\<close>

theorem promotion_serves_longest_waiting:
  assumes "pool_sound q" and "ids_fresh q" and "entries_keyed q" and "promote_from_queue env q None = (r, Some p)"
  shows "\<exists>e rest s. shared_line q = e # rest \<and> pm_run_id p = qr_run_id e
    \<and> map qr_id (shared_line r) = map qr_id rest \<and> map qr_position (shared_line r) = [1..int (length rest)]
    \<and> (\<forall>x \<in> set (qu_entries q). \<not> waits_shared x \<longrightarrow> x \<in> set (qu_entries r))
    \<and> s \<in> set (qu_slots (initialize_slots env q)) \<and> sl_is_available s \<and> sl_slot_number s = pm_slot_number p
    \<and> qu_slots r = map (\<lambda>x. if x = s then occupied_by (qr_run_id e) (taken (le_now env) s) else x)
        (qu_slots (initialize_slots env q))"
proof -
  let ?q = "initialize_slots env q"
  have pool: "pool_sound ?q" unfolding initialize_slots_def by (rule pool_sound_fit [OF assms(1,2)])
  have entries: "qu_entries ?q = qu_entries q" by (simp add: initialize_slots_def)
  from assms(4) obtain e rest where line: "shared_line q = e # rest"
    by (cases "shared_line q") (auto simp: promote_from_queue_def)
  show ?thesis
  proof (cases rule: claim_free_slot_cases [OF pool, of env None, case_names full got])
    case full
    with assms(4) line show ?thesis by (simp add: promote_from_queue_def)
  next
    case (got s)
    let ?m = "alter_slot (sl_id s) (occupied_by (qr_run_id e)) (alter_slot (sl_id s) (taken (le_now env)) ?q)"
    have keyed: "entries_keyed ?m" using assms(3) by (simp add: entries_keyed_def entries)
    have at_m: "shared_line ?m = e # rest" using line by (simp add: shared_line_def entries)
    let ?n = "alter_entry (qr_id e) (promoted (le_now env)) ?m"
    have n: "entries_keyed ?n" by (rule keyed_alter [OF keyed]) (simp add: promoted_def)
    have r: "r = reorder_queue env ?n" and p: "pm_run_id p = qr_run_id e" "pm_slot_number p = sl_slot_number s"
      using assms(4) line got(3) by (auto simp: promote_from_queue_def Let_def)
    note moved = reorder_queue_line [OF n, where env = env, folded r, unfolded promoted_line [OF keyed at_m]]
    have "x \<in> set (qu_entries r)" if "x \<in> set (qu_entries q)" "\<not> waits_shared x" for x
    proof (rule moved(3))
      have "e \<in> set (shared_line q)" unfolding line by simp
      then have "e \<in> set (qu_entries q)" "waits_shared e" by (simp_all add: shared_line_def)
      with that entry_eq [OF assms(3)] have "qr_id x \<noteq> qr_id e" by blast
      with that show "x \<in> set (qu_entries ?n)" by (force simp: entries_alter entries)
    qed (rule that(2))
    moreover have "sl_id x = sl_id s \<longleftrightarrow> x = s" if "x \<in> set (qu_slots ?q)" for x
      using pool_sound_eq [OF pool that got(1)] by blast
    then have "qu_slots r = map (\<lambda>x. if x = s then occupied_by (qr_run_id e) (taken (le_now env) s) else x) (qu_slots ?q)"
      unfolding moved(4) by (simp add: slots_alter)
    ultimately show ?thesis using line p got(1,2) moved(1,2)
      by (intro exI [of _ e] exI [of _ rest] exI [of _ s]) simp
  qed
qed

section \<open>What a completion and a retry do to a lane\<close>

definition failed_run :: "string \<Rightarrow> AgentRun" where
  "failed_run i = stranded_run\<lparr>rn_id := i, rn_status := RunStatus.FAILED\<rparr>"

definition with_run :: "AgentRun \<Rightarrow> Queue \<Rightarrow> Queue" where
  "with_run run q = q\<lparr>qu_ledger := (qu_ledger q)\<lparr>lg_runs := lg_runs (qu_ledger q) @ [run]\<rparr>\<rparr>"

theorem promotion_serves_longest_waiting_witness:
  "case promote_from_queue sample_env (queue_of [(line_entry ''a'' 2)\<lparr>qr_run_id := Some ''r''\<rparr>,
       (line_entry ''b'' 1)\<lparr>qr_run_id := Some ''s''\<rparr>]) None of
     (r, Some p) \<Rightarrow> pm_run_id p = Some ''s'' \<and> map qr_id (shared_line r) = [''a''] | _ \<Rightarrow> False"
proof -
  let ?q = "queue_of [(line_entry ''a'' 2)\<lparr>qr_run_id := Some ''r''\<rparr>, (line_entry ''b'' 1)\<lparr>qr_run_id := Some ''s''\<rparr>]"
  have started: "snd (promote_from_queue sample_env ?q None) \<noteq> None" by code_simp
  then obtain r p where r: "promote_from_queue sample_env ?q None = (r, Some p)"
    by (cases "promote_from_queue sample_env ?q None") auto
  have "pool_sound ?q" "entries_keyed ?q" by (simp_all add: queue_of_def pool_sound_def entries_keyed_def new_slot_def
        line_entry_def new_entry_def)
  moreover have "digits_of k \<notin> {''s1'', ''s2'', ''a'', ''b''}" for k
    using digits_of_digits [of k] by (auto simp: is_digit_def Let_def code_point_def)
  then have "ids_fresh ?q" by (simp add: queue_of_def ids_fresh_def new_slot_def line_entry_def new_entry_def)
  ultimately obtain e rest where served: "shared_line ?q = e # rest" "pm_run_id p = qr_run_id e"
      "map qr_id (shared_line r) = map qr_id rest"
    using promotion_serves_longest_waiting [OF _ _ _ r] by blast
  have "shared_line ?q = [(line_entry ''b'' 1)\<lparr>qr_run_id := Some ''s''\<rparr>, (line_entry ''a'' 2)\<lparr>qr_run_id := Some ''r''\<rparr>]"
    by (simp add: shared_line_def queue_of_def line_entry_def new_entry_def waits_shared_def owned_by_shared_queue_def)
  with served(1) have "qr_run_id e = Some ''s''" "map qr_id rest = [''a'']" by (auto simp: line_entry_def new_entry_def)
  with served(2,3) show ?thesis by (simp add: r)
qed

lemma mark_failed_entries:
  assumes "get_run q i = Some run" and "rn_status run = RunStatus.FAILED"
    and "\<forall>x \<in> set (qu_entries q). \<forall>y \<in> set (qu_entries q). qr_run_id x = Some i \<and> qr_run_id y = Some i \<longrightarrow> x = y"
    and "e \<in> set (qu_entries (mark_failed env q i))" and "qr_run_id e = Some i"
  shows "qr_status e = QueuePosition.FAILED"
proof (cases "find (\<lambda>e. qr_run_id e = Some i) (qu_entries q)")
  case None
  with assms show ?thesis by (auto simp: mark_failed_def find_None_iff)
next
  case (Some x)
  then have x: "x \<in> set (qu_entries q)" "qr_run_id x = Some i" using find_in by fastforce+
  from assms(4) Some assms(1,2) obtain y where y: "y \<in> set (qu_entries q)"
      "e = (if qr_id y = qr_id x then failed_by run (le_now env) y else y)"
    by (auto simp: mark_failed_def entries_alter)
  with assms(5) have "qr_run_id y = Some i" by (auto simp: failed_by_def split: if_splits)
  with assms(3) x y(1) have "y = x" by blast
  with y(2) show ?thesis by (simp add: failed_by_def)
qed

text \<open>C29: A stage whose run failed never keeps its lane for a repair: its entry reads FAILED before the
  hold is offered, and the hold is offered to ACTIVE entries only. So of the routes a repair can
  take, the one for a stage run that failed is never taken here.
\<close>

theorem failed_stage_is_never_held:
  assumes "get_run q i = Some run" and "rn_status run = RunStatus.FAILED"
    and "\<forall>x \<in> set (qu_entries q). \<forall>y \<in> set (qu_entries q). qr_run_id x = Some i \<and> qr_run_id y = Some i \<longrightarrow> x = y"
  shows "snd (on_run_complete env q i) \<noteq> Some (Repairing n)"
proof -
  have "qr_status e \<noteq> ACTIVE" if "e \<in> set (qu_entries (mark_failed env q i))" "qr_run_id e = Some i" for e
    using mark_failed_entries [OF assms that] by simp
  then have "find (\<lambda>e. qr_run_id e = Some i \<and> qr_status e = ACTIVE \<and> qr_entry_kind e = STAGE)
      (qu_entries (mark_failed env q i)) = None"
    by (auto simp: find_None_iff)
  then have "hold_stage_entry_for_repair env (mark_failed env q i) i = (mark_failed env q i, Inr False)"
    by (simp add: hold_stage_entry_for_repair_def)
  then show ?thesis by (simp add: on_run_complete_def Let_def split: prod.splits option.splits)
qed

text \<open>A blocked ticket whose stage failed in lane 1, with budget left: the route is open.\<close>

definition broken_ticket :: Ticket where
  "broken_ticket = (new_ticket ''T'')\<lparr>tk_state := TicketState.BLOCKED, tk_workflow_stage_key := ''build'',
     tk_workflow_stage_status := StageStatus.BLOCKED\<rparr>"

definition broken_queue :: Queue where
  "broken_queue = with_run ((failed_run ''r'')\<lparr>rn_ticket_id := Some ''T'', rn_stage_key := ''build''\<rparr>)
     ((queue_of [(line_entry ''a'' 1)\<lparr>qr_run_id := Some ''r'', qr_status := ACTIVE, qr_entry_kind := STAGE\<rparr>])
        \<lparr>qu_board := empty_board\<lparr>bd_tickets := [broken_ticket]\<rparr>,
         qu_slots := [occupied_by (Some ''r'') (taken 1 (new_slot ''s1'' 1))]\<rparr>)"

theorem failed_stage_is_never_held_witness:
  "resolve_repair_route sample_env broken_queue broken_ticket = Some STAGE_RETRY
   \<and> snd (on_run_complete sample_env broken_queue ''r'') \<noteq> Some (Repairing 1)"
proof (rule conjI)
  show "resolve_repair_route sample_env broken_queue broken_ticket = Some STAGE_RETRY" by code_simp
  have "get_run broken_queue ''r'' = Some ((failed_run ''r'')\<lparr>rn_ticket_id := Some ''T'', rn_stage_key := ''build''\<rparr>)"
    by (simp add: get_run_def broken_queue_def with_run_def queue_of_def empty_queue_def empty_ledger_def failed_run_def)
  then show "snd (on_run_complete sample_env broken_queue ''r'') \<noteq> Some (Repairing 1)"
    by (rule failed_stage_is_never_held) (simp_all add: failed_run_def broken_queue_def with_run_def queue_of_def)
qed


end
