(* ===== verification/Admission.thy ===== *)
theory Admission
  imports BulkQueue
begin

text \<open>
  Admission control, \<open>services/queue_admission.py\<close>: an outside request is given a slot before it
  starts anything, or a place in a lane. A reservation is bound to what the caller started, or
  given back. The session it carries is the state.
\<close>

record Reservation =
  rv_admitted :: bool
  rv_slot_number :: "int option"
  rv_position :: "int option"
  rv_message :: string
  rv_bound_id :: "string option"
  rv_reused :: bool

section \<open>Reserving\<close>

definition slot_held_by :: "Queue \<Rightarrow> string \<Rightarrow> AgentSlot option" where
  "slot_held_by q orchestration_run_id =
     (if orchestration_run_id = [] then None
      else find (\<lambda>s. sl_current_orchestration_run_id s = Some orchestration_run_id) (qu_slots q))"

definition lane_last_used :: "LaneEnv \<Rightarrow> Queue \<Rightarrow> string \<Rightarrow> Queue \<times> int option" where
  "lane_last_used env q ticket_id =
     (case sort_key (\<lambda>e. - qr_created_at e) (filter (\<lambda>e. qr_ticket_id e = ticket_id) (qu_entries q)) of
        [] \<Rightarrow> (q, None)
      | newest # _ \<Rightarrow>
          (let (q, lanes) = lane_numbers env q
           in (q, if qr_slot_number newest \<in> set lanes then Some (qr_slot_number newest) else None)))"

text \<open>The lane with the least waiting in it; the numbers come sorted, so the lowest on a tie.\<close>

definition admission_shortest_lane :: "LaneEnv \<Rightarrow> Queue \<Rightarrow> (Queue \<times> int) result" where
  "admission_shortest_lane env q =
     (case lane_numbers env q of
        (q, []) \<Rightarrow> Inl (ValueError ''No execution slots are configured'')
      | (q, n # ns) \<Rightarrow> Inr (q, hd (sort_key (\<lambda>m. length (waiting_in_lane q m)) (n # ns))))"

definition reused_reservation :: "AgentSlot \<Rightarrow> string \<Rightarrow> Reservation" where
  "reused_reservation held orchestration_run_id = \<lparr>rv_admitted = True, rv_slot_number = Some (sl_slot_number held),
     rv_position = None, rv_message = ''Running in slot '' @ str_int (sl_slot_number held),
     rv_bound_id = Some orchestration_run_id, rv_reused = True\<rparr>"

definition admitted_reservation :: "AgentSlot \<Rightarrow> Reservation" where
  "admitted_reservation free = \<lparr>rv_admitted = True, rv_slot_number = Some (sl_slot_number free), rv_position = None,
     rv_message = ''Started in slot '' @ str_int (sl_slot_number free), rv_bound_id = None, rv_reused = False\<rparr>"

definition parked_reservation :: "LaneEnv \<Rightarrow> int \<Rightarrow> int option \<Rightarrow> Reservation" where
  "parked_reservation env n position = \<lparr>rv_admitted = False, rv_slot_number = Some n, rv_position = position,
     rv_message = ''All '' @ str_int (le_max_concurrent env) @ '' execution slots are busy. Queued in slot ''
       @ str_int n @ '' at position '' @ (case position of None \<Rightarrow> ''None'' | Some p \<Rightarrow> str_int p) @ ''.'',
     rv_bound_id = None, rv_reused = False\<rparr>"

text \<open>Full: the preferred lane if there is one of that number, or the shortest.\<close>

definition park ::
    "LaneEnv \<Rightarrow> LaneDispatcher option \<Rightarrow> Queue \<Rightarrow> LaneRequest \<Rightarrow> int option \<Rightarrow> Reservation outcome" where
  "park env d q request preference =
     (let (q, lanes) = lane_numbers env q in
      and_then (case preference of
                  Some n \<Rightarrow> if n \<in> set lanes then (q, Inr n) else outcome_of q (admission_shortest_lane env q)
                | None \<Rightarrow> outcome_of q (admission_shortest_lane env q)) (\<lambda>q lane.
      and_then (add_to_lane env d q (request\<lparr>lr_slot_number := lane\<rparr>)) (\<lambda>q reply.
        (q, Inr (parked_reservation env lane (ly_position reply))))))"

text \<open>The request carries what a parked entry is to run; which lane it parks in is decided here.\<close>

definition reserve ::
    "LaneEnv \<Rightarrow> LaneDispatcher option \<Rightarrow> Queue \<Rightarrow> Ticket \<Rightarrow> LaneRequest \<Rightarrow> int option \<Rightarrow> string
      \<Rightarrow> Reservation outcome" where
  "reserve env d q ticket request preferred_slot orchestration_run_id =
     (let q = initialize_slots env q in
      case slot_held_by q orchestration_run_id of
        Some held \<Rightarrow> (q, Inr (reused_reservation held orchestration_run_id))
      | None \<Rightarrow>
          (let (q, preference) = (case preferred_slot of
                  Some n \<Rightarrow> (q, Some n) | None \<Rightarrow> lane_last_used env q (tk_id ticket))
           in case claim_free_slot env preference q of
                (q, Some free) \<Rightarrow> (q, Inr (admitted_reservation free))
              | (q, None) \<Rightarrow> park env d q request preference))"

definition request_for :: "Ticket \<Rightarrow> QueueEntryKind \<Rightarrow> string \<Rightarrow> LaneRequest" where
  "request_for ticket entry_kind stage_key = \<lparr>lr_ticket_id = tk_id ticket, lr_slot_number = 0,
     lr_auto_approve = False, lr_approve_design_plans = True, lr_auto_repair = True, lr_stop_at_stage_key = None,
     lr_entry_kind = entry_kind, lr_stage_key = stage_key, lr_driver = [], lr_max_stages = None,
     lr_timeout_seconds = None, lr_force = False\<rparr>"

definition reserve_orchestration ::
    "LaneEnv \<Rightarrow> LaneDispatcher option \<Rightarrow> Queue \<Rightarrow> Ticket \<Rightarrow> OrchestrationAsk \<Rightarrow> int option \<Rightarrow> Reservation outcome" where
  "reserve_orchestration env d q ticket ask preferred_slot =
     reserve env d q ticket ((request_for ticket ORCHESTRATION [])\<lparr>lr_auto_approve := oa_auto_approve ask,
       lr_approve_design_plans := oa_approve_design_plans ask, lr_auto_repair := oa_auto_repair ask,
       lr_stop_at_stage_key := oa_stop_at_stage_key ask, lr_driver := oa_driver ask,
       lr_max_stages := oa_max_stages ask, lr_timeout_seconds := oa_timeout_seconds ask\<rparr>) preferred_slot []"

definition reserve_stage ::
    "LaneEnv \<Rightarrow> LaneDispatcher option \<Rightarrow> Queue \<Rightarrow> Ticket \<Rightarrow> string option \<Rightarrow> bool \<Rightarrow> int option \<Rightarrow> int option
      \<Rightarrow> bool \<Rightarrow> string \<Rightarrow> Reservation outcome" where
  "reserve_stage env d q ticket stage_key auto_approve preferred_slot timeout_seconds forced orchestration_run_id =
     reserve env d q ticket ((request_for ticket STAGE (case stage_key of None \<Rightarrow> [] | Some s \<Rightarrow> s))
       \<lparr>lr_auto_approve := auto_approve, lr_timeout_seconds := timeout_seconds, lr_force := forced\<rparr>)
       preferred_slot orchestration_run_id"

section \<open>Binding and giving back\<close>

definition bound_to :: "string option \<Rightarrow> string option \<Rightarrow> AgentSlot \<Rightarrow> AgentSlot" where
  "bound_to run_id orchestration_run_id s =
     (let s = (case named run_id of None \<Rightarrow> s | Some i \<Rightarrow> s\<lparr>sl_current_run_id := Some i\<rparr>)
      in case named orchestration_run_id of None \<Rightarrow> s | Some i \<Rightarrow> s\<lparr>sl_current_orchestration_run_id := Some i\<rparr>)"

text \<open>The slot a reservation may touch: one it was given, and claimed itself.\<close>

definition own_slot :: "Queue \<Rightarrow> Reservation \<Rightarrow> AgentSlot option" where
  "own_slot q rv =
     (if \<not> rv_admitted rv \<or> rv_reused rv then None
      else (case rv_slot_number rv of None \<Rightarrow> None | Some n \<Rightarrow> slot_numbered q n))"

definition bind_reservation ::
    "LaneEnv \<Rightarrow> Queue \<Rightarrow> Reservation \<Rightarrow> string option \<Rightarrow> string option \<Rightarrow> Queue \<times> Reservation" where
  "bind_reservation env q rv run_id orchestration_run_id =
     (case own_slot q rv of
        None \<Rightarrow> (q, rv)
      | Some slot \<Rightarrow>
          (let q = alter_slot (sl_id slot) (bound_to run_id orchestration_run_id) q;
               rv = rv\<lparr>rv_bound_id := (case named orchestration_run_id of Some i \<Rightarrow> Some i | None \<Rightarrow> run_id)\<rparr>
           in case named orchestration_run_id of
                None \<Rightarrow> (q, rv)
              | Some i \<Rightarrow> (fst (ensure_active_entry_for_orchestration env q (sl_slot_number slot) i), rv)))"

definition occupant :: "AgentSlot \<Rightarrow> string option" where
  "occupant slot =
     (case named (sl_current_orchestration_run_id slot) of
        Some i \<Rightarrow> Some i | None \<Rightarrow> named (sl_current_run_id slot))"

definition release_reservation :: "LaneEnv \<Rightarrow> Queue \<Rightarrow> Reservation \<Rightarrow> Queue" where
  "release_reservation env q rv =
     (case own_slot q rv of
        None \<Rightarrow> q
      | Some slot \<Rightarrow>
          if occupant slot \<noteq> None \<and> occupant slot \<noteq> rv_bound_id rv then q
          else release_slot env (sl_id slot) q)"

section \<open>What a reservation does to the pool\<close>

lemma pool_initialized: "pool_sound q \<Longrightarrow> ids_fresh q \<Longrightarrow> pool_sound (initialize_slots env q)"
  by (simp add: initialize_slots_def pool_sound_fit)

lemma lane_last_used_state:
  "fst (lane_last_used env (initialize_slots env q) i) = initialize_slots env q"
  by (simp add: lane_last_used_def lane_numbers_def Let_def initialize_slots_def fit_twice split: list.split)

text \<open>The preference a request comes with, or the one its ticket's history gives.\<close>

definition preference_of :: "LaneEnv \<Rightarrow> Queue \<Rightarrow> Ticket \<Rightarrow> int option \<Rightarrow> int option" where
  "preference_of env q ticket preferred =
     (case preferred of Some n \<Rightarrow> Some n | None \<Rightarrow> snd (lane_last_used env (initialize_slots env q) (tk_id ticket)))"

lemma reserve_cases:
  assumes "pool_sound q" and "ids_fresh q"
  obtains (reused) s where "slot_held_by (initialize_slots env q) oid = Some s"
      and "reserve env d q t ask preferred oid = (initialize_slots env q, Inr (reused_reservation s oid))"
  | (admitted) s where "slot_held_by (initialize_slots env q) oid = None"
      and "s \<in> set (qu_slots (initialize_slots env q))" and "sl_is_available s"
      and "reserve env d q t ask preferred oid
         = (alter_slot (sl_id s) (taken (le_now env)) (initialize_slots env q),
            Inr (admitted_reservation (taken (le_now env) s)))"
  | (full) "slot_held_by (initialize_slots env q) oid = None"
      and "\<forall>s \<in> set (qu_slots (initialize_slots env q)). \<not> sl_is_available s"
      and "reserve env d q t ask preferred oid
         = park env d (initialize_slots env q) ask (preference_of env q t preferred)"
proof (cases "slot_held_by (initialize_slots env q) oid")
  case (Some s)
  then show ?thesis by (intro reused [of s]) (simp_all add: reserve_def)
next
  case None
  have pre: "(case preferred of Some n \<Rightarrow> (initialize_slots env q, Some n)
        | None \<Rightarrow> lane_last_used env (initialize_slots env q) (tk_id t))
      = (initialize_slots env q, preference_of env q t preferred)"
    using lane_last_used_state [of env q "tk_id t"]
    by (auto simp: preference_of_def prod_eq_iff split: option.split)
  show ?thesis
  proof (cases rule: claim_free_slot_cases [OF pool_initialized [OF assms, of env], of env "preference_of env q t preferred",
        case_names none got])
    case none
    with None pre show ?thesis by (intro full) (simp_all add: reserve_def Let_def)
  next
    case (got s)
    with None pre show ?thesis by (intro admitted [of s]) (simp_all add: reserve_def Let_def)
  qed
qed

text \<open>An orchestration that holds a slot gets that slot for its next stage and no other: the
  reservation names it, the pool is only fitted, and neither binding nor giving the reservation
  back changes a row.
\<close>

theorem held_slot_is_reused:
  assumes "slot_held_by (initialize_slots env q) oid = Some s"
  shows "reserve env d q t ask preferred oid = (initialize_slots env q, Inr (reused_reservation s oid))
    \<and> rv_slot_number (reused_reservation s oid) = Some (sl_slot_number s)
    \<and> bind_reservation env r (reused_reservation s oid) i j = (r, reused_reservation s oid)
    \<and> release_reservation env r (reused_reservation s oid) = r"
  using assms
  by (simp add: reserve_def bind_reservation_def release_reservation_def own_slot_def reused_reservation_def)

definition held_queue :: Queue where
  "held_queue = (queue_of [])\<lparr>qu_slots := [(taken 1 (new_slot ''s1'' 1))\<lparr>sl_current_orchestration_run_id := Some ''o''\<rparr>,
     new_slot ''s2'' 2]\<rparr>"

theorem held_slot_is_reused_witness:
  "fst (reserve sample_env None held_queue (new_ticket ''T'') (request_for (new_ticket ''T'') STAGE ''dev'') None ''o'')
     = initialize_slots sample_env held_queue"
proof -
  have "slot_held_by (initialize_slots sample_env held_queue) ''o''
      = Some ((taken 1 (new_slot ''s1'' 1))\<lparr>sl_current_orchestration_run_id := Some ''o''\<rparr>)" by code_simp
  from held_slot_is_reused [OF this] show ?thesis by simp
qed

text \<open>C22: A reservation that was admitted and not reused can be given back: it claims one slot that was
  free, and releasing it unbound leaves the lanes that are free as they were, that slot naming
  nothing, every other slot and every entry untouched.
\<close>

theorem reservation_returns:
  assumes "pool_sound q" and "ids_fresh q" and "reserve env d q t ask preferred oid = (r, Inr rv)"
    and "rv_admitted rv" and "\<not> rv_reused rv"
  shows "\<exists>s \<in> set (qu_slots (initialize_slots env q)). sl_is_available s \<and> rv_slot_number rv = Some (sl_slot_number s)
    \<and> taken (le_now env) s \<in> set (qu_slots r)
    \<and> release_reservation env r rv
      = alter_slot (sl_id s) (vacated (le_now env) \<circ> taken (le_now env)) (initialize_slots env q)"
proof (cases rule: reserve_cases [OF assms(1,2), where env = env and oid = oid and d = d and t = t and ask = ask
      and preferred = preferred, case_names reused admitted full])
  case (reused s)
  with assms(3) have "rv = reused_reservation s oid" by simp
  with assms(5) show ?thesis by (simp add: reused_reservation_def)
next
  case (admitted s)
  note pool = pool_initialized [OF assms(1,2), of env]
  let ?r = "alter_slot (sl_id s) (taken (le_now env)) (initialize_slots env q)"
  have r: "r = ?r" "rv = admitted_reservation (taken (le_now env) s)" using assms(3) admitted(4) by simp_all
  have sound: "pool_sound ?r" by (rule pool_sound_alter [OF pool]) simp_all
  have there: "taken (le_now env) s \<in> set (qu_slots ?r)"
    using in_slots_alter [OF pool admitted(2)] by simp
  then have own: "own_slot r rv = Some (taken (le_now env) s)"
    using slot_numbered_iff [OF sound] by (simp add: own_slot_def r admitted_reservation_def)
  have "alter_slot i g (alter_slot i f x) = alter_slot i (g \<circ> f) x" if "\<And>s. sl_id (f s) = sl_id s" for f g i x
    using that by (simp add: alter_slot_def o_def if_distrib [of sl_id] cong: if_cong)
  then have "release_reservation env r rv
      = alter_slot (sl_id s) (vacated (le_now env) \<circ> taken (le_now env)) (initialize_slots env q)"
    by (simp add: release_reservation_def own occupant_def release_slot_def) (simp add: r)
  with there admitted(2,3) show ?thesis by (auto simp: r admitted_reservation_def)
next
  case full
  with assms(3) have "park env d (initialize_slots env q) ask (preference_of env q t preferred) = (r, Inr rv)" by simp
  then have "\<not> rv_admitted rv"
    by (auto simp: park_def Let_def and_then_eq parked_reservation_def split: prod.splits)
  with assms(4) show ?thesis by simp
qed

text \<open>C23: Giving a reservation back never takes a lane from someone else: a slot that names other work
  than the reservation was bound to stays as it is.
\<close>

theorem release_spares_others:
  assumes "pool_sound q" and "s \<in> set (qu_slots q)" and "occupant s \<noteq> None" and "occupant s \<noteq> rv_bound_id rv"
  shows "s \<in> set (qu_slots (release_reservation env q rv))"
proof (cases "own_slot q rv")
  case None
  with assms(2) show ?thesis by (simp add: release_reservation_def)
next
  case (Some u)
  then have u: "u \<in> set (qu_slots q)"
    by (auto simp: own_slot_def split: if_splits option.splits dest: slot_numbered_in)
  show ?thesis
  proof (cases "u = s")
    case True
    with Some assms show ?thesis by (simp add: release_reservation_def)
  next
    case False
    with in_slots_alter [OF assms(1) u, of "vacated (le_now env)" s] assms(2) show ?thesis
      by (simp add: release_reservation_def Some release_slot_def)
  qed
qed

definition idle_queue :: Queue where
  "idle_queue = queue_of []"

lemma idle_queue_sound: "pool_sound idle_queue \<and> ids_fresh idle_queue"
proof -
  have "digits_of k \<notin> {''s1'', ''s2''}" for k
    using digits_of_digits [of k] by (auto simp: is_digit_def Let_def code_point_def)
  then show ?thesis by (simp add: idle_queue_def queue_of_def pool_sound_def ids_fresh_def new_slot_def)
qed

theorem reservation_returns_witness:
  "case reserve sample_env None idle_queue (new_ticket ''T'') (request_for (new_ticket ''T'') ORCHESTRATION []) (Some 2) [] of
     (r, Inr rv) \<Rightarrow> rv_slot_number rv = Some 2
       \<and> (\<exists>s :: AgentSlot. release_reservation sample_env r rv
            = alter_slot (sl_id s) (vacated (le_now sample_env) \<circ> taken (le_now sample_env)) (initialize_slots sample_env idle_queue))
   | _ \<Rightarrow> False"
proof -
  let ?m = "reserve sample_env None idle_queue (new_ticket ''T'') (request_for (new_ticket ''T'') ORCHESTRATION []) (Some 2) []"
  have good: "case ?m of (r, Inr rv) \<Rightarrow> rv_admitted rv \<and> \<not> rv_reused rv \<and> rv_slot_number rv = Some 2 | _ \<Rightarrow> False"
    by code_simp
  then obtain r rv where m: "?m = (r, Inr rv)" by (auto split: prod.splits sum.splits)
  with good have rv: "rv_admitted rv" "\<not> rv_reused rv" "rv_slot_number rv = Some 2" by simp_all
  from reservation_returns [OF conjunct1 [OF idle_queue_sound] conjunct2 [OF idle_queue_sound] m rv(1,2)]
  have "\<exists>s :: AgentSlot. release_reservation sample_env r rv
      = alter_slot (sl_id s) (vacated (le_now sample_env) \<circ> taken (le_now sample_env)) (initialize_slots sample_env idle_queue)"
    by (elim bexE conjE) (rule exI)
  with rv(3) show ?thesis unfolding m prod.case sum.case by (rule conjI)
qed

theorem release_spares_others_witness:
  "(taken 1 (new_slot ''s1'' 1))\<lparr>sl_current_orchestration_run_id := Some ''o''\<rparr>
     \<in> set (qu_slots (release_reservation sample_env held_queue (admitted_reservation (new_slot ''s1'' 1))))"
  by (rule release_spares_others)
     (simp_all add: held_queue_def pool_sound_def new_slot_def occupant_def admitted_reservation_def named_def)

section \<open>What a reservation gets wrong\<close>

definition orchestration_of :: "string \<Rightarrow> OrchestrationRun" where
  "orchestration_of i = \<lparr>or_id = i, or_run_code = [], or_ticket_id = ''T'', or_workspace_id = Some ''W'',
     or_driver = EXTERNAL_MCP, or_profile_slug = [], or_status = OrchestrationRunStatus.RUNNING, or_current_stage_key = [],
     or_error_message = [], or_auto_approve = False, or_stop_at_stage_key = [], or_approve_design_plans = True,
     or_auto_repair = True, or_timeout_override_seconds = None, or_last_seen_at = None, or_started_at = None,
     or_finished_at = None, or_created_at = 1\<rparr>"

definition stage_run :: AgentRun where
  "stage_run = stranded_run\<lparr>rn_id := ''r'', rn_ticket_id := Some ''T''\<rparr>"


definition full_queue :: "QueuedRun list \<Rightarrow> Queue" where
  "full_queue entries = (queue_of entries)\<lparr>qu_slots := [(taken 1 (new_slot ''s1'' 1))\<lparr>sl_current_run_id := Some ''x''\<rparr>,
       (taken 1 (new_slot ''s2'' 2))\<lparr>sl_current_run_id := Some ''y''\<rparr>],
     qu_board := empty_board\<lparr>bd_tickets := [new_ticket ''T'', new_ticket ''U'']\<rparr>\<rparr>"

text \<open>While a lowered lane count waits for a busy lane to finish, a request that finds every slot busy
  is refused instead of queued: the lane being retired has nothing waiting in it, so it is chosen
  as the shortest, and a lane being retired takes no entry.
\<close>

theorem parking_picks_a_retiring_lane:
  "snd (reserve_orchestration (sample_env\<lparr>le_max_concurrent := 1\<rparr>) None (full_queue [line_entry ''a'' 1]) (new_ticket ''U'')
       \<lparr>oa_auto_approve = False, oa_stop_at_stage_key = None, oa_driver = [], oa_approve_design_plans = True,
        oa_auto_repair = True, oa_max_stages = None, oa_timeout_seconds = None\<rparr> None)
   = Inl (ValueError ''Slot 2 is being retired: the lane count is 1. Pick a lane from 1 to 1.'')"
  by code_simp

text \<open>A parked reservation may name a lane its entry is not in: asked again, in lane 2, for work that
  waits in lane 1, admission answers that it is queued in slot 2, where nothing waits.
\<close>

theorem reservation_names_another_lane:
  "case reserve_orchestration sample_env None (full_queue [line_entry ''a'' 1]) (new_ticket ''T'')
       \<lparr>oa_auto_approve = False, oa_stop_at_stage_key = None, oa_driver = [], oa_approve_design_plans = True,
        oa_auto_repair = True, oa_max_stages = None, oa_timeout_seconds = None\<rparr> (Some 2) of
     (r, Inr rv) \<Rightarrow> rv_slot_number rv = Some 2 \<and> rv_position rv = Some 1 \<and> lane r 2 = [] \<and> lane r 1 = [''a'']
   | _ \<Rightarrow> False"
  by code_simp

end
