(* ===== verification/Spec2Isabelle.thy ===== *)
theory Spec2Isabelle
  imports WorkflowRouting Hierarchy Rollup UnresolvedLedger SlotRace LaneProperties ChildReadiness SharedQueue
    Admission
begin

text \<open>
  Loregarden's core: tickets on a board, the workflow each one runs through, who runs each
  stage, what a pass is worth, and the lanes the work queues in. The services of
  \<open>src/server/loregarden\<close> are modelled from the Python source as functions on explicit state.

  \<^bold>\<open>The parts and how they meet.\<close> A ticket is a row; it has a parent, dependency edges and an
  id that encodes its milestone (\<open>Board\<close>, \<open>Dependencies\<close>, \<open>TicketIds\<close>, \<open>Hierarchy\<close>); a parent's
  state is rolled up from its children (\<open>Rollup\<close>). A leaf ticket runs a workflow: a template of
  stages and transitions, and a column that stores the status of each stage as JSON. An agent
  ends its stage with a report (\<open>StageReport\<close>); the verdict on it folds every signal there is
  (\<open>StageVerdict\<close>, \<open>PassHolds\<close>), and what a pass left unresolved stays on a ledger until it is
  cleared or waived (\<open>UnresolvedLedger\<close>). The verdict routes the workflow (\<open>WorkflowRouting\<close>,
  over \<open>StateMachine\<close>), the routing resolves who runs next (\<open>StudioRouting\<close>), the status of the
  stages is written back and the ticket's cursor and state are derived from it (\<open>WorkflowState\<close>),
  through one door (\<open>TicketStates\<close>). Every dispatch is charged to the stage's budget
  (\<open>RetryBudget\<close>) and alive while its lease lasts (\<open>RunLease\<close>). Work waits in lanes: a lane is a
  slot of the pool (\<open>SlotPool\<close>, \<open>SlotRace\<close>) with a waiting line (\<open>QueueLanes\<close>); its head starts a
  run (\<open>StartRun\<close>) or a pipeline through the dispatcher (\<open>QueueDispatch\<close>), unless a prerequisite
  holds it (\<open>DependencyHold\<close>, \<open>ChildReadiness\<close>); a block that may clear keeps its lane
  (\<open>QueueRepair\<close>), and a sweep puts right what a crash left (\<open>SlotHealing\<close>).

  \<^bold>\<open>Theories.\<close>
  \<^item> \<open>Prelude\<close>: the errors the code raises and their result type, dictionaries as association
    lists in insertion order, strings, JSON.
  \<^item> \<open>Vocabulary\<close>: the enums, the template records and the rows (\<open>models/domain\<close>).
  \<^item> \<open>StageGroups\<close>: \<open>core/stage_groups.py\<close>, \<open>core/workflow_terminal.py\<close>.
  \<^item> \<open>StateMachine\<close>: \<open>core/state_machine.py\<close>, and how \<open>core/workflow_loader.py\<close> stores a
    transition.
  \<^item> \<open>TicketStates\<close>: \<open>services/ticket_state_service.py\<close>. The locale \<open>state_door\<close> is the
    contract of a state writer; \<open>derive_door\<close> interprets it on the code's \<open>derive\<close>.
  \<^item> \<open>WorkflowState\<close>: \<open>services/workflow_state.py\<close>. The locale \<open>stage_codec\<close> is the contract of
    the stage column; \<open>column\<close> interprets it on the JSON codec.
  \<^item> \<open>StudioRouting\<close>: \<open>services/studio_routing.py\<close> and the agent registry.
  \<^item> \<open>WorkflowRouting\<close>: \<open>services/workflow_routing.py\<close>.
  \<^item> \<open>Board\<close>: the tables the ticket services share and the walks over the parent links.
  \<^item> \<open>Dependencies\<close>: \<open>services/ticket_dependencies.py\<close>. The locale \<open>reach_oracle\<close> is what the
    cycle guard relies on; \<open>cycle_check\<close> interprets it on the code's depth-first search.
  \<^item> \<open>TicketIds\<close>: \<open>services/ticket_ids.py\<close>.
  \<^item> \<open>Hierarchy\<close>: \<open>services/hierarchy_service.py\<close> and \<open>services/initiative_coverage.py\<close>.
  \<^item> \<open>Rollup\<close>: \<open>services/ticket_rollup.py\<close>, the climb and the sweep over the whole tree.
  \<^item> \<open>RunLease\<close>, \<open>RetryBudget\<close>: \<open>services/run_lease.py\<close>, \<open>services/stage_retry_budget.py\<close>,
    \<open>services/stage_transient_retry.py\<close> and the entry points of \<open>services/orchestration.py\<close>.
  \<^item> \<open>StageReport\<close>, \<open>PassHolds\<close>, \<open>StageVerdict\<close>: \<open>services/stage_report.py\<close>,
    \<open>services/ux_answers.py\<close> and \<open>services/fix_coverage.py\<close>, \<open>services/stage_verdict.py\<close>. The rank
    of a status is an instance of \<open>linorder\<close>.
  \<^item> \<open>UnresolvedLedger\<close>: \<open>services/unresolved_ledger.py\<close>. The locale \<open>ledger_loop\<close> is what a settling
    of many names relies on in its step; it is interpreted on \<open>clear\<close> and on \<open>waive\<close>.
  \<^item> \<open>QueueTables\<close>: the queue's rows and the state \<open>Queue\<close> that holds every table beside the board.
  \<^item> \<open>SlotPool\<close>, \<open>SlotRace\<close>: \<open>services/slot_pool.py\<close>, \<open>services/lane_count.py\<close>,
    \<open>services/queue_slot_claims.py\<close>, the slot operations of \<open>services/parallel_queue.py\<close>, the lease of
    \<open>services/run_concurrency.py\<close>; and \<open>claim_free_slot\<close> as an interleaving of claimants, each
    a small state machine over the shared pool.
  \<^item> \<open>QueueRepair\<close>, \<open>QueueLanes\<close>, \<open>SlotHealing\<close>: \<open>services/queue_repair.py\<close>,
    \<open>services/queue_lanes.py\<close>, \<open>services/slot_claim_healing.py\<close>, \<open>services/lane_resize.py\<close>.
  \<^item> \<open>LaneOrder\<close>, \<open>LaneDispatch\<close>, \<open>LaneOps\<close>: the abstraction of a lane to the list of its waiting
    entries, and the locale \<open>lane_dispatch\<close>: what a lane relies on in its dispatcher, and what
    its operations then do to the line, the slots and the claims.
  \<^item> \<open>HoldLine\<close>, \<open>DependencyHold\<close>: \<open>services/hold_line.py\<close>, \<open>services/dependency_readiness.py\<close>,
    \<open>services/dependency_hold.py\<close>.
  \<^item> \<open>StartRun\<close>, \<open>QueueDispatch\<close>: \<open>start_run\<close> of \<open>services/orchestration.py\<close> with its guards and
    preparations, and \<open>services/queue_dispatch.py\<close>. The interpretation \<open>lanes\<close> discharges the
    contract \<open>lane_dispatch\<close> for the code's dispatcher.
  \<^item> \<open>LaneProperties\<close>: what the lanes do, over that interpretation.
  \<^item> \<open>BulkQueue\<close>, \<open>SharedQueue\<close>, \<open>Admission\<close>: \<open>api/bulk_queue_operations.py\<close>, the shared queue of
    \<open>services/parallel_queue.py\<close> in front of the lanes, \<open>services/queue_admission.py\<close>.
  \<^item> \<open>ChildOrder\<close>, \<open>ChildReadiness\<close>: the order of \<open>services/subtree_auto_run.py\<close> and
    \<open>services/child_readiness.py\<close>.

  \<^bold>\<open>What is shown.\<close> Of routing: where a reject may go and what it resets, that a classified
  stage is dispatched to an agent it offers, that the stored column reads back. Of states: the
  two doors write what they may, and no derivation overrides a person. Of the board: links
  stay acyclic, the rollup settles every lineage and the sweep the whole tree. Of passes: a
  pass is earned, nothing on the ledger is dropped without an audit, the breaker bounds the
  dispatches of a stage. Of lanes: they implement lists, they are served from the front, a
  ticket is in one lane at most, racing claimants never share a slot and none is turned away
  while there is room, the sweep frees exactly the dead, a promotion serves who waited longest, a
  reservation can be given back and takes nothing from others. Of starts: one run or none, a refusal
  is told. Of holds: the line fits its column, the order of children respects their
  prerequisites, the walk before a dispatch says "" exactly when something can step.

  \<^bold>\<open>Conventions.\<close> Every raise of the source is a value of \<open>py_error\<close> in \<open>Inl\<close>. A row mutated in
  place is returned updated; a table is a list in row order. Where a write is committed before
  a raise, the result is an \<open>outcome\<close>: the state left behind beside the value or the error. The
  clock, the ids of the \<open>studio_agents\<close> table, the plan texts, what git answers and what handing
  a run to its thread raises are arguments. Python integers are \<open>int\<close>; times are microseconds.

  \<^bold>\<open>Bounds and termination.\<close> A walk over parent or dependency links is a \<open>function\<close> whose measure
  counts the rows not seen yet, so it ends on every table, cyclic ones included. The head of a
  lane is retried while entries of tickets that are gone are dropped: the measure is the
  number of entries. A claim looks at the pool \<open>CLAIM_ATTEMPTS\<close> times, as the code does; that is
  enough for as many claimants (\<open>race_admits_all\<close>). The hold line is grown while something is
  left to name. The length of its prefix grows with the number of held children: the bound of
  10 to the 100 children is where the decimals of that number would crowd the column.

  \<^bold>\<open>Not modelled.\<close> Sessions, commits and logging, except where a commit before an exception is
  seen; HTTP, MCP and command-line front ends, but for the bulk queue operations; executors, git
  and other subprocesses, which the sources only call; the autopilot that feeds the lanes; merge
  queue and landing; memory, chat and studio sessions; the web client. They are listed with the
  reason in the project manifest.
\<close>

end
